(* ===== verification/Prelude.thy ===== *)
theory Prelude
  imports Main "HOL-Library.Word" "HOL-Library.List_Lexorder" "HOL-Library.Sublist"
begin

text \<open>
  Shared vocabulary of the development: bytes and byte strings, big-endian integers,
  the errors of the C++ code as values, byte-level readers, and the lemmas on them that
  every codec proof uses.  A byte string is compared the way WiredTiger compares keys:
  lexicographically, bytes as unsigned numbers, a proper prefix first.
\<close>

unbundle bit_operations_syntax

type_synonym byte = "8 word"
type_synonym bytes = "8 word list"

named_theorems codec_len "lengths of encodings"
named_theorems codec_read "what a reader returns where an encoding starts"

section \<open>Errors of the C++ code as values\<close>

text \<open>
  \<open>Out_Of_Range\<close> stands for a read past the end of a \<^verbatim>\<open>std::string_view\<close> or array
  (undefined behaviour in C++: the model never continues from it); \<open>Runtime_Error\<close> is a thrown
  \<^verbatim>\<open>std::runtime_error\<close> with the fixed part of its message.
\<close>

datatype cpp_error = Out_Of_Range | Runtime_Error string

type_synonym 'a res = "cpp_error + 'a"

definition rbind :: "'a res \<Rightarrow> ('a \<Rightarrow> 'b res) \<Rightarrow> 'b res" where
  "rbind r k = (case r of Inl e \<Rightarrow> Inl e | Inr x \<Rightarrow> k x)"

lemma rbind_simps [simp]:
  "rbind (Inl e) k = Inl e"
  "rbind (Inr x) k = k x"
  by (simp_all add: rbind_def)

lemma rbind_Inr_iff: "rbind r k = Inr y \<longleftrightarrow> (\<exists>x. r = Inr x \<and> k x = Inr y)"
  by (cases r) auto

text \<open>
  \<open>read_n f n off\<close> is the shape of every counted decoding loop of the code: read \<open>n\<close>
  elements one after the other, each from where the previous one ended.
\<close>

fun read_n :: "(nat \<Rightarrow> ('a \<times> nat) res) \<Rightarrow> nat \<Rightarrow> nat \<Rightarrow> ('a list \<times> nat) res" where
  "read_n f 0 off = Inr ([], off)"
| "read_n f (Suc n) off =
     rbind (f off) (\<lambda>(x, off1). rbind (read_n f n off1) (\<lambda>(xs, off2). Inr (x # xs, off2)))"

section \<open>Characters and bytes\<close>

definition byte_of_char :: "char \<Rightarrow> byte" where
  "byte_of_char c = of_nat (of_char c)"

definition char_of_byte :: "byte \<Rightarrow> char" where
  "char_of_byte b = char_of (unat b)"

definition bytes_of_string :: "string \<Rightarrow> bytes" where
  "bytes_of_string s = map byte_of_char s"

definition string_of_bytes :: "bytes \<Rightarrow> string" where
  "string_of_bytes bs = map char_of_byte bs"

lemma char_of_byte_of_char [simp]: "char_of_byte (byte_of_char c) = c"
proof -
  have "(of_char c :: nat) < 256"
    by (rule nat_of_char_less_256)
  then have "unat (of_nat (of_char c) :: byte) = (of_char c :: nat)"
    by (simp add: unat_of_nat)
  then show ?thesis
    by (simp add: byte_of_char_def char_of_byte_def)
qed

lemma string_of_bytes_of_string [simp]: "string_of_bytes (bytes_of_string s) = s"
  by (simp add: string_of_bytes_def bytes_of_string_def comp_def)

lemma length_bytes_of_string [simp, codec_len]: "length (bytes_of_string s) = length s"
  by (simp add: bytes_of_string_def)

lemma bytes_of_string_inject [simp]: "bytes_of_string s = bytes_of_string t \<longleftrightarrow> s = t"
  by (metis string_of_bytes_of_string)

lemma bytes_of_string_append: "bytes_of_string (s @ t) = bytes_of_string s @ bytes_of_string t"
  by (simp add: bytes_of_string_def)

section \<open>Big-endian integers\<close>

text \<open>
  \<open>be_bytes n v\<close> is the loop \<^verbatim>\<open>for i = n-1 .. 0: push_back((v >> (i*8)) & 0xFF)\<close>; \<open>be_word\<close> is
  the loop \<^verbatim>\<open>v = (v << 8) | byte\<close>.
\<close>

definition be_bytes :: "nat \<Rightarrow> 'a::len word \<Rightarrow> bytes" where
  "be_bytes n v = map (\<lambda>i. ucast (drop_bit (8 * i) v)) (rev [0..<n])"

definition be_word :: "bytes \<Rightarrow> 'a::len word" where
  "be_word bs = foldl (\<lambda>v b. push_bit 8 v OR ucast b) 0 bs"

definition be_nat :: "bytes \<Rightarrow> nat" where
  "be_nat bs = foldl (\<lambda>v b. v * 256 + unat b) 0 bs"

lemma length_be_bytes [simp, codec_len]: "length (be_bytes n v) = n"
  by (simp add: be_bytes_def)

lemma be_bytes_Suc: "be_bytes (Suc n) v = ucast (drop_bit (8 * n) v) # be_bytes n v"
  by (simp add: be_bytes_def)

lemma be_bytes_0 [simp]: "be_bytes 0 v = []"
  by (simp add: be_bytes_def)

lemma be_word_snoc: "be_word (bs @ [b]) = (push_bit 8 (be_word bs) OR ucast b :: 'a::len word)"
  by (simp add: be_word_def)

lemma bit_be_word:
  "bit (be_word bs :: 'a::len word) i \<longleftrightarrow>
     i < LENGTH('a) \<and> i div 8 < length bs \<and> bit (rev bs ! (i div 8)) (i mod 8)"
proof (induction bs arbitrary: i rule: rev_induct)
  case Nil
  show ?case by (simp add: be_word_def)
next
  case (snoc b bs)
  show ?case
  proof (cases "i < 8")
    case True
    then show ?thesis
      by (auto simp: be_word_snoc bit_or_iff bit_push_bit_iff bit_ucast_iff)
  next
    case False
    then obtain j where j: "i = j + 8"
      by (metis add.commute le_add_diff_inverse not_less)
    have nb: "\<not> bit b i"
      using False bit_imp_le_length [of b i] by auto
    have "i div 8 = Suc (j div 8)"
      by (simp add: j)
    then have "rev (bs @ [b]) ! (i div 8) = rev bs ! (j div 8)"
      by simp
    with nb show ?thesis
      by (auto simp: be_word_snoc bit_or_iff bit_push_bit_iff bit_ucast_iff snoc.IH j)
  qed
qed

lemma be_word_be_bytes [simp]:
  assumes "LENGTH('a) \<le> 8 * n"
  shows "be_word (be_bytes n v) = (v :: 'a::len word)"
proof (rule bit_word_eqI)
  fix i assume i: "i < LENGTH('a)"
  then have "i div 8 < n"
    using assms by (simp add: less_mult_imp_div_less mult.commute)
  then have "rev (be_bytes n v) ! (i div 8) = ucast (drop_bit (8 * (i div 8)) v)"
    by (simp add: be_bytes_def rev_map)
  then show "bit (be_word (be_bytes n v) :: 'a word) i \<longleftrightarrow> bit v i"
    using i \<open>i div 8 < n\<close> by (simp add: bit_be_word bit_ucast_iff bit_drop_bit_eq)
qed

lemma be_bytes_inject [simp]:
  assumes "LENGTH('a) \<le> 8 * n"
  shows "be_bytes n v = be_bytes n (w :: 'a::len word) \<longleftrightarrow> v = w"
  using be_word_be_bytes [OF assms] by metis

subsection \<open>Byte order is numeric order\<close>

lemma be_nat_Nil [simp]: "be_nat [] = 0"
  by (simp add: be_nat_def)

lemma foldl_be_nat: "foldl (\<lambda>v b. v * 256 + unat b) a bs = a * 256 ^ length bs + be_nat bs"
proof (induction bs arbitrary: a)
  case Nil
  show ?case by simp
next
  case (Cons b bs)
  have "be_nat (b # bs) = unat b * 256 ^ length bs + be_nat bs"
    using Cons.IH [of "unat b"] by (simp add: be_nat_def)
  then show ?case
    using Cons.IH [of "a * 256 + unat b"] by (simp add: add_mult_distrib)
qed

lemma be_nat_Cons: "be_nat (b # bs) = unat b * 256 ^ length bs + be_nat bs"
  using foldl_be_nat [of "unat b" bs] by (simp add: be_nat_def)

lemma be_nat_bound: "be_nat bs < 256 ^ length bs"
proof (induction bs)
  case Nil
  show ?case by simp
next
  case (Cons b bs)
  have "unat b < 2 ^ LENGTH(8)"
    by (rule unsigned_less)
  then have "unat b \<le> 255"
    by simp
  then have "unat b * 256 ^ length bs \<le> 255 * 256 ^ length bs"
    by (rule mult_right_mono) simp
  with Cons.IH have "unat b * 256 ^ length bs + be_nat bs < 256 * 256 ^ length bs"
    by linarith
  then show ?case
    by (simp add: be_nat_Cons)
qed

lemma be_nat_less_iff: "length xs = length ys \<Longrightarrow> be_nat xs < be_nat ys \<longleftrightarrow> xs < ys"
proof (induction xs ys rule: list_induct2)
  case Nil
  show ?case by simp
next
  case (Cons x xs y ys)
  have lt: "unat a * 256 ^ length ys + be_nat as < unat b * 256 ^ length ys + be_nat bs"
    if "unat a < unat b" "length as = length ys" for a b :: byte and as bs
  proof -
    have "unat a * 256 ^ length ys + be_nat as < (unat a + 1) * 256 ^ length ys"
      using be_nat_bound [of as] that(2) by simp
    also have "\<dots> \<le> unat b * 256 ^ length ys"
      using that(1) by (intro mult_right_mono) auto
    finally show ?thesis by simp
  qed
  show ?case
  proof (cases x y rule: linorder_cases)
    case less
    then show ?thesis
      using lt [of x y xs ys] Cons.hyps by (simp add: be_nat_Cons word_less_nat_alt)
  next
    case equal
    then show ?thesis using Cons by (simp add: be_nat_Cons)
  next
    case greater
    then show ?thesis
      using lt [of y x ys xs] Cons.hyps by (auto simp: be_nat_Cons word_less_nat_alt)
  qed
qed

lemma be_nat_be_bytes_mod: "be_nat (be_bytes n v) = unat v mod 256 ^ n"
proof (induction n)
  case 0
  show ?case by simp
next
  case (Suc n)
  have p: "(2::nat) ^ (8 * n) = 256 ^ n"
    by (simp add: power_mult)
  have "unat (drop_bit (8 * n) v) = drop_bit (8 * n) (unat v)"
    by (rule unat_drop_bit_eq)
  then have "unat (ucast (drop_bit (8 * n) v) :: byte) = take_bit 8 (drop_bit (8 * n) (unat v))"
    by (simp add: unsigned_ucast_eq)
  then have "unat (ucast (drop_bit (8 * n) v) :: byte) = (unat v div 256 ^ n) mod 256"
    by (simp add: take_bit_eq_mod drop_bit_eq_div p)
  with Suc.IH show ?case
    by (simp add: be_bytes_Suc be_nat_Cons mod_mult2_eq mult.commute [of 256])
qed

lemma be_nat_be_bytes [simp]:
  assumes "LENGTH('a) \<le> 8 * n"
  shows "be_nat (be_bytes n (v :: 'a::len word)) = unat v"
proof -
  have "unat v < 2 ^ LENGTH('a)"
    by (rule unsigned_less)
  also have "\<dots> \<le> (2::nat) ^ (8 * n)"
    using assms by (intro power_increasing) auto
  finally show ?thesis
    by (simp add: be_nat_be_bytes_mod power_mult)
qed

lemma be_bytes_less_iff:
  assumes "LENGTH('a) \<le> 8 * n"
  shows "be_bytes n v < be_bytes n w \<longleftrightarrow> v < (w :: 'a::len word)"
  using be_nat_less_iff [of "be_bytes n v" "be_bytes n w"]
  by (simp add: assms word_less_nat_alt)

section \<open>Readers\<close>

text \<open>
  \<open>enc_at data off bs\<close>: the bytes \<open>bs\<close> stand in \<open>data\<close> from offset \<open>off\<close>.  Every round-trip lemma
  has this premise, and \<open>enc_at_append\<close> splits it along the fields of a record, so a
  decoder is verified one field at a time.
\<close>

definition enc_at :: "bytes \<Rightarrow> nat \<Rightarrow> bytes \<Rightarrow> bool" where
  "enc_at data off bs \<longleftrightarrow> off + length bs \<le> length data \<and> take (length bs) (drop off data) = bs"

lemma enc_at_self: "enc_at bs 0 bs"
  by (simp add: enc_at_def)

lemma enc_at_start: "enc_at (bs @ rest) 0 bs"
  by (simp add: enc_at_def)

lemma enc_at_append:
  "enc_at data off (xs @ ys) \<longleftrightarrow> enc_at data off xs \<and> enc_at data (off + length xs) ys"
proof -
  have "take (length xs + length ys) (drop off data) =
      take (length xs) (drop off data) @ take (length ys) (drop (off + length xs) data)"
    by (simp add: take_add add.commute)
  then show ?thesis
    by (auto simp: enc_at_def)
qed

definition byte_is :: "bytes \<Rightarrow> nat \<Rightarrow> byte \<Rightarrow> bool" where
  "byte_is data off b \<longleftrightarrow> off < length data \<and> data ! off = b"

lemma enc_at_Nil: "enc_at data off [] \<longleftrightarrow> off \<le> length data"
  by (simp add: enc_at_def)

lemma enc_at_Cons: "enc_at data off (b # ys) \<longleftrightarrow> byte_is data off b \<and> enc_at data (Suc off) ys"
proof -
  have "off < length data \<Longrightarrow> drop off data = data ! off # drop (Suc off) data"
    by (rule Cons_nth_drop_Suc [symmetric])
  then show ?thesis
    by (auto simp: enc_at_def byte_is_def)
qed

lemmas enc_at_split = enc_at_append enc_at_Cons enc_at_Nil

lemma enc_at_length: "enc_at data off bs \<Longrightarrow> off + length bs \<le> length data"
  by (simp add: enc_at_def)

lemma enc_at_take: "enc_at data off bs \<Longrightarrow> take (length bs) (drop off data) = bs"
  by (simp add: enc_at_def)

text \<open>A read of \<open>n\<close> bytes at an offset, as the unguarded readers of the code do it.\<close>

definition read_be :: "nat \<Rightarrow> bytes \<Rightarrow> nat \<Rightarrow> ('a::len word) res" where
  "read_be n data off =
     (if off + n \<le> length data then Inr (be_word (take n (drop off data))) else Inl Out_Of_Range)"

lemma read_be_at [codec_read]:
  assumes "enc_at data off (be_bytes n v)" and "LENGTH('a) \<le> 8 * n"
  shows "read_be n data off = Inr (v :: 'a::len word)"
  using assms enc_at_take [OF assms(1)] enc_at_length [OF assms(1)] by (simp add: read_be_def)

lemma read_be_error: "length data < off + n \<Longrightarrow> read_be n data off = Inl Out_Of_Range"
  by (simp add: read_be_def)

lemma read_n_at:
  assumes "enc_at data off (concat (map enc xs))"
    and "\<And>x o1. x \<in> set xs \<Longrightarrow> enc_at data o1 (enc x) \<Longrightarrow> f o1 = Inr (g x, o1 + length (enc x))"
  shows "read_n f (length xs) off = Inr (map g xs, off + length (concat (map enc xs)))"
  using assms
proof (induction xs arbitrary: off)
  case Nil
  then show ?case by simp
next
  case (Cons x xs)
  from Cons.prems(1) have x: "enc_at data off (enc x)"
    and xs: "enc_at data (off + length (enc x)) (concat (map enc xs))"
    by (simp_all add: enc_at_append)
  have fx: "f off = Inr (g x, off + length (enc x))"
    using Cons.prems(2) [of x off] x by simp
  have "read_n f (length xs) (off + length (enc x)) =
      Inr (map g xs, off + length (enc x) + length (concat (map enc xs)))"
    using xs Cons.prems(2) by (intro Cons.IH) auto
  with fx show ?case by simp
qed

section \<open>Prefixes and key order\<close>

lemma prefix_imp_le: "prefix p k \<Longrightarrow> p \<le> (k :: bytes)"
proof (induction p arbitrary: k)
  case Nil
  show ?case by simp
next
  case (Cons b p)
  then show ?case by (cases k) auto
qed

lemma prefix_fixed_width:
  "length a = length b \<Longrightarrow> prefix (a @ xs) (b @ ys) \<longleftrightarrow> a = b \<and> prefix xs ys"
  "length a = length b \<Longrightarrow> prefix a (b @ ys) \<longleftrightarrow> a = b"
  "length a = length b \<Longrightarrow> prefix a b \<longleftrightarrow> a = b"
  by (auto simp: prefix_def)

lemma append_less_fixed_width:
  "length a = length b \<Longrightarrow> a @ xs < b @ ys \<longleftrightarrow> a < b \<or> a = b \<and> xs < (ys :: bytes)"
  by (induction a b rule: list_induct2) auto

text \<open>The keys with a given prefix are an interval of the key order.\<close>

lemma prefix_interval: "p \<le> k \<Longrightarrow> k \<le> k' \<Longrightarrow> prefix p k' \<Longrightarrow> prefix p (k :: bytes)"
proof (induction p arbitrary: k k')
  case Nil
  show ?case by simp
next
  case (Cons b p)
  then obtain k2' where k': "k' = b # k2'" and p': "prefix p k2'"
    by (cases k') auto
  from Cons.prems(1) obtain c k2 where k: "k = c # k2"
    by (cases k) auto
  from Cons.prems(1,2) k k' have "c = b" and "p \<le> k2" and "k2 \<le> k2'"
    by auto
  with Cons.IH p' k show ?case by auto
qed

section \<open>The codec interface\<close>

text \<open>
  What every client of an encoder/decoder pair relies on: a well-formed value comes back.
  Injectivity on well-formed values (two records never collide) follows once and for all.
\<close>

locale codec =
  fixes enc :: "'a \<Rightarrow> bytes" and dec :: "bytes \<Rightarrow> 'a res" and wf :: "'a \<Rightarrow> bool"
  assumes dec_enc: "wf x \<Longrightarrow> dec (enc x) = Inr x"
begin

lemma enc_inject: "wf x \<Longrightarrow> wf y \<Longrightarrow> enc x = enc y \<longleftrightarrow> x = y"
  using dec_enc by (metis sum.inject(2))

lemma dec_not_error: "wf x \<Longrightarrow> dec (enc x) \<noteq> Inl e"
  by (simp add: dec_enc)

end

end
