(* ===== verification/Graph_Types.thy ===== *)
theory Graph_Types
  imports Prelude
begin

text \<open>
  The data model shared by every storage component: identifiers, property values, schema
  definitions (\<^verbatim>\<open>common/types/graph_types.hpp\<close>, \<^verbatim>\<open>common/types/temporal_value.hpp\<close>,
  \<^verbatim>\<open>common/schema/graph_schema.hpp\<close>) and the table names of
  \<^verbatim>\<open>common/types/constants.hpp\<close>.

  Integers keep their C++ width; a signed field is the word with the same bits (read by
  \<^const>\<open>sint\<close>).  A \<^verbatim>\<open>double\<close> is its IEEE-754 bit pattern, since the storage code only copies
  its bits.  An enumeration with a fixed \<^verbatim>\<open>uint8_t\<close> base is the byte it is stored as, because
  the decoders cast any byte to it; its enumerators are abbreviations.
\<close>

section \<open>Identifiers\<close>

type_synonym vertex_id = "64 word"
type_synonym edge_id = "64 word"
type_synonym label_id = "16 word"
type_synonym edge_label_id = "16 word"
type_synonym prop_id = "16 word"

abbreviation (input) INVALID_LABEL_ID :: label_id where "INVALID_LABEL_ID \<equiv> 0"
abbreviation (input) INVALID_EDGE_LABEL_ID :: edge_label_id where "INVALID_EDGE_LABEL_ID \<equiv> 0"

type_synonym direction = byte
abbreviation (input) DIR_OUT :: direction where "DIR_OUT \<equiv> 0"
abbreviation (input) DIR_IN :: direction where "DIR_IN \<equiv> 1"
abbreviation (input) DIR_BOTH :: direction where "DIR_BOTH \<equiv> 2"

section \<open>Temporal values\<close>

type_synonym date_time_kind = byte
type_synonym time_kind = byte

text \<open>A timezone name is a null pointer (\<^const>\<open>None\<close>) when absent.\<close>

type_synonym tz_name_ptr = "string option"

record date_time_value =
  dt_year :: "32 word"
  dt_nanos :: "32 word"
  dt_tz_offset_sec :: "32 word"
  dt_month :: byte
  dt_day :: byte
  dt_hour :: byte
  dt_minute :: byte
  dt_second :: byte
  dt_kind :: date_time_kind
  dt_tz_name :: tz_name_ptr

record time_value =
  tm_nanos :: "32 word"
  tm_tz_offset_sec :: "32 word"
  tm_hour :: byte
  tm_minute :: byte
  tm_second :: byte
  tm_kind :: time_kind
  tm_tz_name :: tz_name_ptr

record duration_value =
  du_months :: "64 word"
  du_days :: "64 word"
  du_seconds :: "64 word"
  du_nanos :: "64 word"

text \<open>The stated invariant of \<^verbatim>\<open>TzNamePtr\<close>: a non-null pointer points at a non-empty name.\<close>

definition tz_ok :: "tz_name_ptr \<Rightarrow> bool" where
  "tz_ok tz \<longleftrightarrow> tz \<noteq> Some ''''"

section \<open>Property values\<close>

datatype property_value =
    PNull
  | PBool bool
  | PInt "64 word"
  | PDouble "64 word"
  | PString string
  | PIntArray "64 word list"
  | PDoubleArray "64 word list"
  | PStringArray "string list"
  | PDateTime date_time_value
  | PTime time_value
  | PDuration duration_value
  | PDateTimeArray "date_time_value list"
  | PTimeArray "time_value list"
  | PDurationArray "duration_value list"
  | PBytes bytes

type_synonym properties = "property_value option list"

text \<open>\<^verbatim>\<open>enum class PropertyType\<close> has the base \<^verbatim>\<open>int\<close>.\<close>

type_synonym property_type = "32 word"
abbreviation (input) PT_BOOL :: property_type where "PT_BOOL \<equiv> 0"
abbreviation (input) PT_INT64 :: property_type where "PT_INT64 \<equiv> 1"
abbreviation (input) PT_DOUBLE :: property_type where "PT_DOUBLE \<equiv> 2"
abbreviation (input) PT_STRING :: property_type where "PT_STRING \<equiv> 3"
abbreviation (input) PT_INT64_ARRAY :: property_type where "PT_INT64_ARRAY \<equiv> 4"
abbreviation (input) PT_DOUBLE_ARRAY :: property_type where "PT_DOUBLE_ARRAY \<equiv> 5"
abbreviation (input) PT_STRING_ARRAY :: property_type where "PT_STRING_ARRAY \<equiv> 6"
abbreviation (input) PT_DATETIME :: property_type where "PT_DATETIME \<equiv> 7"
abbreviation (input) PT_TIME :: property_type where "PT_TIME \<equiv> 8"
abbreviation (input) PT_DURATION :: property_type where "PT_DURATION \<equiv> 9"
abbreviation (input) PT_DATETIME_ARRAY :: property_type where "PT_DATETIME_ARRAY \<equiv> 10"
abbreviation (input) PT_TIME_ARRAY :: property_type where "PT_TIME_ARRAY \<equiv> 11"
abbreviation (input) PT_DURATION_ARRAY :: property_type where "PT_DURATION_ARRAY \<equiv> 12"
abbreviation (input) PT_ANY :: property_type where "PT_ANY \<equiv> 13"
abbreviation (input) PT_BYTES :: property_type where "PT_BYTES \<equiv> 14"

fun propertyValueToPropertyType :: "property_value \<Rightarrow> property_type" where
  "propertyValueToPropertyType (PBool _) = PT_BOOL"
| "propertyValueToPropertyType (PInt _) = PT_INT64"
| "propertyValueToPropertyType (PDouble _) = PT_DOUBLE"
| "propertyValueToPropertyType (PString _) = PT_STRING"
| "propertyValueToPropertyType (PDateTime _) = PT_DATETIME"
| "propertyValueToPropertyType (PTime _) = PT_TIME"
| "propertyValueToPropertyType (PDuration _) = PT_DURATION"
| "propertyValueToPropertyType (PIntArray _) = PT_INT64_ARRAY"
| "propertyValueToPropertyType (PDoubleArray _) = PT_DOUBLE_ARRAY"
| "propertyValueToPropertyType (PStringArray _) = PT_STRING_ARRAY"
| "propertyValueToPropertyType (PDateTimeArray _) = PT_DATETIME_ARRAY"
| "propertyValueToPropertyType (PTimeArray _) = PT_TIME_ARRAY"
| "propertyValueToPropertyType (PDurationArray _) = PT_DURATION_ARRAY"
| "propertyValueToPropertyType (PBytes _) = PT_BYTES"
| "propertyValueToPropertyType PNull = PT_ANY"

section \<open>Schema definitions\<close>

record property_def =
  pd_id :: prop_id
  pd_name :: string
  pd_type :: property_type
  pd_required :: bool
  pd_default_value :: "property_value option"

type_synonym index_state = byte
abbreviation (input) WRITE_ONLY :: index_state where "WRITE_ONLY \<equiv> 0"
abbreviation (input) PUBLIC :: index_state where "PUBLIC \<equiv> 1"
abbreviation (input) DELETE_ONLY :: index_state where "DELETE_ONLY \<equiv> 2"
abbreviation (input) INDEX_ERROR :: index_state where "INDEX_ERROR \<equiv> 3"

record index_accessor_def =
  acc_is_strong :: bool
  acc_source_label_id :: label_id
  acc_property_name :: string

record index_def =
  idx_index_id :: "32 word"
  idx_name :: string
  idx_accessors :: "index_accessor_def list"
  idx_prop_ids :: "prop_id list"
  idx_unique :: bool
  idx_state :: index_state

record label_def =
  ld_id :: label_id
  ld_name :: string
  ld_properties :: "property_def list"
  ld_pk_prop_ids :: "prop_id list"
  ld_indexes :: "index_def list"

record edge_label_def =
  eld_id :: edge_label_id
  eld_name :: string
  eld_properties :: "property_def list"
  eld_directed :: bool
  eld_indexes :: "index_def list"

section \<open>Table names\<close>

definition TABLE_VERTEX_DATA :: string where "TABLE_VERTEX_DATA = ''table:vertex_data''"
definition TABLE_EDGE_INDEX :: string where "TABLE_EDGE_INDEX = ''table:edge_index''"
definition TABLE_METADATA :: string where "TABLE_METADATA = ''table:metadata''"
definition TABLE_VERTEX_EXISTENCE :: string where "TABLE_VERTEX_EXISTENCE = ''table:vertex_existence''"
definition TABLE_VERTEX_SUMMARY :: string where "TABLE_VERTEX_SUMMARY = ''table:vertex_summary''"

text \<open>\<^verbatim>\<open>std::to_string\<close> on an unsigned number.\<close>

definition digit_char :: "nat \<Rightarrow> char" where
  "digit_char d = char_of (48 + d)"

fun to_string :: "nat \<Rightarrow> string" where
  "to_string n = (if n < 10 then [digit_char n] else to_string (n div 10) @ [digit_char (n mod 10)])"

declare to_string.simps [simp del]

definition labelFwdTable :: "label_id \<Rightarrow> string" where
  "labelFwdTable i = ''table:label_fwd_'' @ to_string (unat i)"

definition etypeTable :: "edge_label_id \<Rightarrow> string" where
  "etypeTable i = ''table:etype_'' @ to_string (unat i)"

definition epropTable :: "edge_label_id \<Rightarrow> string" where
  "epropTable i = ''table:eprop_'' @ to_string (unat i)"

definition vidxTable :: "label_id \<Rightarrow> prop_id \<Rightarrow> string" where
  "vidxTable l p = ''table:vidx_'' @ to_string (unat l) @ ''_'' @ to_string (unat p)"

definition vidxTableById :: "32 word \<Rightarrow> string" where
  "vidxTableById i = ''table:vidx_'' @ to_string (unat i)"

definition eidxTableById :: "32 word \<Rightarrow> string" where
  "eidxTableById i = ''table:eidx_'' @ to_string (unat i)"

definition eidxTable :: "edge_label_id \<Rightarrow> prop_id \<Rightarrow> string" where
  "eidxTable l p = ''table:eidx_'' @ to_string (unat l) @ ''_'' @ to_string (unat p)"

definition vidxCompositeTable :: "label_id \<Rightarrow> prop_id list \<Rightarrow> string" where
  "vidxCompositeTable l ps =
     foldl (\<lambda>name p. name @ ''_'' @ to_string (unat p)) (''table:vidx_'' @ to_string (unat l)) ps"

definition eidxCompositeTable :: "edge_label_id \<Rightarrow> prop_id list \<Rightarrow> string" where
  "eidxCompositeTable l ps =
     foldl (\<lambda>name p. name @ ''_'' @ to_string (unat p)) (''table:eidx_'' @ to_string (unat l)) ps"

lemmas table_name_defs = TABLE_VERTEX_DATA_def TABLE_EDGE_INDEX_def TABLE_METADATA_def
  TABLE_VERTEX_EXISTENCE_def TABLE_VERTEX_SUMMARY_def labelFwdTable_def etypeTable_def epropTable_def
  vidxTable_def vidxTableById_def eidxTable_def eidxTableById_def

subsection \<open>Distinct tables have distinct names\<close>

definition digit_val :: "char \<Rightarrow> nat" where
  "digit_val c = of_char c - 48"

lemma digit_val_digit_char [simp]: "d < 10 \<Longrightarrow> digit_val (digit_char d) = d"
  by (simp add: digit_val_def digit_char_def)

lemma foldl_to_string: "foldl (\<lambda>v c. v * 10 + digit_val c) 0 (to_string n) = n"
proof (induction n rule: to_string.induct)
  case (1 n)
  then show ?case
    by (subst to_string.simps) simp
qed

lemma to_string_inject [simp]: "to_string m = to_string n \<longleftrightarrow> m = n"
  by (metis foldl_to_string)

lemma to_string_not_underscore: "c \<in> set (to_string n) \<Longrightarrow> c \<noteq> CHR ''_''"
proof (induction n rule: to_string.induct)
  case (1 n)
  have d: "digit_char d \<noteq> CHR ''_''" if "d < 10" for d
  proof -
    have "of_char (digit_char d) \<noteq> (of_char (CHR ''_'') :: nat)"
      using that by (simp add: digit_char_def)
    then show ?thesis by metis
  qed
  show ?case
  proof (cases "n < 10")
    case True
    then show ?thesis using 1 d [of n] by (subst (asm) (2) to_string.simps) auto
  next
    case False
    then show ?thesis using 1 d [of "n mod 10"] by (subst (asm) (2) to_string.simps) auto
  qed
qed

lemma labelFwdTable_inject [simp]: "labelFwdTable i = labelFwdTable j \<longleftrightarrow> i = j"
  by (auto simp: labelFwdTable_def dest: unsigned_word_eqI)

lemma etypeTable_inject [simp]: "etypeTable i = etypeTable j \<longleftrightarrow> i = j"
  by (auto simp: etypeTable_def dest: unsigned_word_eqI)

lemma epropTable_inject [simp]: "epropTable i = epropTable j \<longleftrightarrow> i = j"
  by (auto simp: epropTable_def dest: unsigned_word_eqI)

lemma global_tables_distinct [simp]:
  "TABLE_VERTEX_DATA \<noteq> TABLE_EDGE_INDEX" "TABLE_EDGE_INDEX \<noteq> TABLE_VERTEX_DATA"
  "TABLE_VERTEX_DATA \<noteq> TABLE_VERTEX_EXISTENCE" "TABLE_VERTEX_EXISTENCE \<noteq> TABLE_VERTEX_DATA"
  "TABLE_VERTEX_DATA \<noteq> TABLE_VERTEX_SUMMARY" "TABLE_VERTEX_SUMMARY \<noteq> TABLE_VERTEX_DATA"
  "TABLE_EDGE_INDEX \<noteq> TABLE_VERTEX_EXISTENCE" "TABLE_VERTEX_EXISTENCE \<noteq> TABLE_EDGE_INDEX"
  "TABLE_EDGE_INDEX \<noteq> TABLE_VERTEX_SUMMARY" "TABLE_VERTEX_SUMMARY \<noteq> TABLE_EDGE_INDEX"
  "TABLE_VERTEX_EXISTENCE \<noteq> TABLE_VERTEX_SUMMARY" "TABLE_VERTEX_SUMMARY \<noteq> TABLE_VERTEX_EXISTENCE"
  by (simp_all add: table_name_defs)

lemma label_tables_distinct [simp]:
  "labelFwdTable i \<noteq> TABLE_VERTEX_DATA" "TABLE_VERTEX_DATA \<noteq> labelFwdTable i"
  "labelFwdTable i \<noteq> TABLE_EDGE_INDEX" "TABLE_EDGE_INDEX \<noteq> labelFwdTable i"
  "labelFwdTable i \<noteq> TABLE_VERTEX_EXISTENCE" "TABLE_VERTEX_EXISTENCE \<noteq> labelFwdTable i"
  "labelFwdTable i \<noteq> TABLE_VERTEX_SUMMARY" "TABLE_VERTEX_SUMMARY \<noteq> labelFwdTable i"
  "labelFwdTable i \<noteq> etypeTable j" "etypeTable j \<noteq> labelFwdTable i"
  "labelFwdTable i \<noteq> epropTable j" "epropTable j \<noteq> labelFwdTable i"
  by (simp_all add: table_name_defs)

lemma edge_tables_distinct [simp]:
  "etypeTable i \<noteq> TABLE_VERTEX_DATA" "TABLE_VERTEX_DATA \<noteq> etypeTable i"
  "etypeTable i \<noteq> TABLE_EDGE_INDEX" "TABLE_EDGE_INDEX \<noteq> etypeTable i"
  "etypeTable i \<noteq> TABLE_VERTEX_EXISTENCE" "TABLE_VERTEX_EXISTENCE \<noteq> etypeTable i"
  "etypeTable i \<noteq> TABLE_VERTEX_SUMMARY" "TABLE_VERTEX_SUMMARY \<noteq> etypeTable i"
  "epropTable i \<noteq> TABLE_VERTEX_DATA" "TABLE_VERTEX_DATA \<noteq> epropTable i"
  "epropTable i \<noteq> TABLE_EDGE_INDEX" "TABLE_EDGE_INDEX \<noteq> epropTable i"
  "epropTable i \<noteq> TABLE_VERTEX_EXISTENCE" "TABLE_VERTEX_EXISTENCE \<noteq> epropTable i"
  "epropTable i \<noteq> TABLE_VERTEX_SUMMARY" "TABLE_VERTEX_SUMMARY \<noteq> epropTable i"
  "etypeTable i \<noteq> epropTable j" "epropTable j \<noteq> etypeTable i"
  by (simp_all add: table_name_defs)

end
