(* ===== verification/Key_Codec.thy ===== *)
theory Key_Codec
  imports Graph_Types "HOL-Library.Product_Lexorder"
begin

text \<open>
  \<^verbatim>\<open>storage/kv/key_codec.{hpp,cpp}\<close>: the keys of the WiredTiger tables.  An encoder that appends to
  a caller's buffer is modelled by the bytes it appends, and consecutive appends by list
  concatenation.  The decoders index their argument without checking its length, so they
  return \<open>Out_Of_Range\<close> on a shorter key.
\<close>

section \<open>Primitive integers\<close>

definition encodeU64BE :: "64 word \<Rightarrow> bytes" where
  "encodeU64BE val = be_bytes 8 val"

definition encodeU16BE :: "16 word \<Rightarrow> bytes" where
  "encodeU16BE val = be_bytes 2 val"

definition encodeU8 :: "byte \<Rightarrow> bytes" where
  "encodeU8 val = [val]"

definition decodeU64BE :: "bytes \<Rightarrow> nat \<Rightarrow> 64 word res" where
  "decodeU64BE data offset = read_be 8 data offset"

definition decodeU16BE :: "bytes \<Rightarrow> nat \<Rightarrow> 16 word res" where
  "decodeU16BE data offset = read_be 2 data offset"

definition byte_at :: "bytes \<Rightarrow> nat \<Rightarrow> byte res" where
  "byte_at data offset = (if offset < length data then Inr (data ! offset) else Inl Out_Of_Range)"

lemmas prim_defs = encodeU64BE_def encodeU16BE_def encodeU8_def

lemma length_prims [simp, codec_len]:
  "length (encodeU64BE v) = 8" "length (encodeU16BE w) = 2" "length (encodeU8 b) = 1"
  by (simp_all add: prim_defs)

lemma prims_inject [simp]:
  "encodeU64BE v = encodeU64BE v' \<longleftrightarrow> v = v'" "encodeU16BE w = encodeU16BE w' \<longleftrightarrow> w = w'"
  by (simp_all add: prim_defs)

lemma prims_append_inject [simp]:
  "encodeU64BE v @ xs = encodeU64BE v' @ ys \<longleftrightarrow> v = v' \<and> xs = ys"
  "encodeU16BE w @ xs = encodeU16BE w' @ ys \<longleftrightarrow> w = w' \<and> xs = ys"
  by (simp_all add: append_eq_append_conv)

lemma prims_prefix [simp]:
  "prefix (encodeU64BE v @ xs) (encodeU64BE v' @ ys) \<longleftrightarrow> v = v' \<and> prefix xs ys"
  "prefix (encodeU64BE v) (encodeU64BE v' @ ys) \<longleftrightarrow> v = v'"
  "prefix (encodeU64BE v) (encodeU64BE v') \<longleftrightarrow> v = v'"
  "prefix (encodeU16BE w @ xs) (encodeU16BE w' @ ys) \<longleftrightarrow> w = w' \<and> prefix xs ys"
  "prefix (encodeU16BE w) (encodeU16BE w' @ ys) \<longleftrightarrow> w = w'"
  "prefix (encodeU16BE w) (encodeU16BE w') \<longleftrightarrow> w = w'"
  by (simp_all add: prefix_fixed_width)

lemma prims_read [codec_read]:
  "enc_at data off (encodeU64BE v) \<Longrightarrow> decodeU64BE data off = Inr v"
  "enc_at data off (encodeU16BE w) \<Longrightarrow> decodeU16BE data off = Inr w"
  "enc_at data off (encodeU8 b) \<Longrightarrow> byte_at data off = Inr b"
  by (auto simp: prim_defs decodeU64BE_def decodeU16BE_def byte_at_def read_be_at
      enc_at_Cons byte_is_def)

section \<open>Label forward index, vertex existence, vertex summary\<close>

definition encodeLabelForwardKey :: "vertex_id \<Rightarrow> bytes" where
  "encodeLabelForwardKey vertex_id = encodeU64BE vertex_id"

definition decodeLabelForwardKey :: "bytes \<Rightarrow> vertex_id res" where
  "decodeLabelForwardKey key = decodeU64BE key 0"

definition encodeVertexSummaryKey :: "vertex_id \<Rightarrow> bytes" where
  "encodeVertexSummaryKey vertex_id = encodeU64BE vertex_id"

definition encodeVertexExistenceKey :: "vertex_id \<Rightarrow> bytes" where
  "encodeVertexExistenceKey vertex_id = encodeU64BE vertex_id"

definition decodeVertexExistenceKey :: "bytes \<Rightarrow> vertex_id res" where
  "decodeVertexExistenceKey key = decodeU64BE key 0"

section \<open>vertex\_data\<close>

type_synonym vertex_data_kind = byte
abbreviation (input) VDK_LABEL :: vertex_data_kind where "VDK_LABEL \<equiv> 0"
abbreviation (input) VDK_PROPERTY :: vertex_data_kind where "VDK_PROPERTY \<equiv> 1"
abbreviation (input) VDK_OUT_ADJACENCY :: vertex_data_kind where "VDK_OUT_ADJACENCY \<equiv> 2"
abbreviation (input) VDK_IN_ADJACENCY :: vertex_data_kind where "VDK_IN_ADJACENCY \<equiv> 3"

type_synonym adj_cache_state = byte
abbreviation (input) ADJ_COMPLETE :: adj_cache_state where "ADJ_COMPLETE \<equiv> 0"
abbreviation (input) ADJ_OVERFLOW :: adj_cache_state where "ADJ_OVERFLOW \<equiv> 1"

definition encodeVertexDataLabelKey :: "vertex_id \<Rightarrow> label_id \<Rightarrow> bytes" where
  "encodeVertexDataLabelKey vertex_id label_id =
     encodeU64BE vertex_id @ encodeU8 VDK_LABEL @ encodeU16BE label_id"

definition decodeVertexDataLabelKey :: "bytes \<Rightarrow> (vertex_id \<times> label_id) res" where
  "decodeVertexDataLabelKey key =
     rbind (decodeU64BE key 0) (\<lambda>v. rbind (decodeU16BE key 9) (\<lambda>l. Inr (v, l)))"

definition encodeVertexDataLabelPrefix :: "vertex_id \<Rightarrow> bytes" where
  "encodeVertexDataLabelPrefix vertex_id = encodeU64BE vertex_id @ encodeU8 VDK_LABEL"

definition encodeVertexDataPropKey :: "vertex_id \<Rightarrow> label_id \<Rightarrow> prop_id \<Rightarrow> bytes" where
  "encodeVertexDataPropKey vertex_id label_id prop_id =
     encodeU64BE vertex_id @ encodeU8 VDK_PROPERTY @ encodeU16BE label_id @ encodeU16BE prop_id"

definition decodeVertexDataPropKey :: "bytes \<Rightarrow> (vertex_id \<times> label_id \<times> prop_id) res" where
  "decodeVertexDataPropKey key =
     rbind (decodeU64BE key 0) (\<lambda>v.
     rbind (decodeU16BE key 9) (\<lambda>l.
     rbind (decodeU16BE key 11) (\<lambda>p. Inr (v, l, p))))"

definition encodeVertexDataPropPrefix :: "vertex_id \<Rightarrow> bytes" where
  "encodeVertexDataPropPrefix vertex_id = encodeU64BE vertex_id @ encodeU8 VDK_PROPERTY"

definition encodeVertexDataPropLabelPrefix :: "vertex_id \<Rightarrow> label_id \<Rightarrow> bytes" where
  "encodeVertexDataPropLabelPrefix vertex_id label_id =
     encodeU64BE vertex_id @ encodeU8 VDK_PROPERTY @ encodeU16BE label_id"

definition encodeVertexDataVertexPrefix :: "vertex_id \<Rightarrow> bytes" where
  "encodeVertexDataVertexPrefix vertex_id = encodeU64BE vertex_id"

definition vertexDataKind :: "bytes \<Rightarrow> vertex_data_kind res" where
  "vertexDataKind key = byte_at key 8"

definition adj_kind :: "direction \<Rightarrow> vertex_data_kind" where
  "adj_kind direction = (if direction = DIR_IN then VDK_IN_ADJACENCY else VDK_OUT_ADJACENCY)"

definition encodeVertexDataAdjStateKey :: "vertex_id \<Rightarrow> direction \<Rightarrow> bytes" where
  "encodeVertexDataAdjStateKey vertex_id direction = encodeU64BE vertex_id @ encodeU8 (adj_kind direction)"

definition encodeVertexDataAdjPrefix :: "vertex_id \<Rightarrow> direction \<Rightarrow> bytes" where
  "encodeVertexDataAdjPrefix vertex_id direction = encodeVertexDataAdjStateKey vertex_id direction"

record edge_index_key =
  ek_vertex_id :: vertex_id
  ek_direction :: direction
  ek_edge_label_id :: edge_label_id
  ek_neighbor_id :: vertex_id
  ek_seq :: "64 word"

text \<open>\<^verbatim>\<open>VertexDataAdjEdgeKey\<close> and \<^verbatim>\<open>EdgeIndexKey\<close> have the same fields.\<close>

type_synonym adj_edge_key = edge_index_key

definition encodeVertexDataAdjEdgeKey :: "adj_edge_key \<Rightarrow> bytes" where
  "encodeVertexDataAdjEdgeKey k =
     encodeU64BE (ek_vertex_id k) @ encodeU8 (adj_kind (ek_direction k)) @
     encodeU16BE (ek_edge_label_id k) @ encodeU64BE (ek_neighbor_id k) @ encodeU64BE (ek_seq k)"

definition decodeVertexDataAdjEdgeKey :: "bytes \<Rightarrow> adj_edge_key res" where
  "decodeVertexDataAdjEdgeKey key =
     rbind (decodeU64BE key 0) (\<lambda>v.
     rbind (vertexDataKind key) (\<lambda>kind.
     rbind (decodeU16BE key 9) (\<lambda>l.
     rbind (decodeU64BE key 11) (\<lambda>n.
     rbind (decodeU64BE key 19) (\<lambda>q.
       Inr \<lparr>ek_vertex_id = v, ek_direction = (if kind = VDK_IN_ADJACENCY then DIR_IN else DIR_OUT),
            ek_edge_label_id = l, ek_neighbor_id = n, ek_seq = q\<rparr>)))))"

definition isVertexDataAdjStateKey :: "bytes \<Rightarrow> bool" where
  "isVertexDataAdjStateKey key \<longleftrightarrow> length key = 9"

definition encodeAdjacencyState :: "adj_cache_state \<Rightarrow> 32 word \<Rightarrow> bytes" where
  "encodeAdjacencyState state count = encodeU8 state @ be_bytes 4 count"

definition decodeAdjacencyState :: "bytes \<Rightarrow> adj_cache_state \<times> 32 word" where
  "decodeAdjacencyState value =
     (if length value < 5 then (ADJ_OVERFLOW, 0)
      else (value ! 0, be_word (take 4 (drop 1 value))))"

section \<open>Edge index, edge type index, edge properties\<close>

definition encodeEdgeIndexKey :: "edge_index_key \<Rightarrow> bytes" where
  "encodeEdgeIndexKey k =
     encodeU64BE (ek_vertex_id k) @ encodeU8 (ek_direction k) @ encodeU16BE (ek_edge_label_id k) @
     encodeU64BE (ek_neighbor_id k) @ encodeU64BE (ek_seq k)"

definition decodeEdgeIndexKey :: "bytes \<Rightarrow> edge_index_key res" where
  "decodeEdgeIndexKey key =
     rbind (decodeU64BE key 0) (\<lambda>v.
     rbind (byte_at key 8) (\<lambda>d.
     rbind (decodeU16BE key 9) (\<lambda>l.
     rbind (decodeU64BE key 11) (\<lambda>n.
     rbind (decodeU64BE key 19) (\<lambda>q.
       Inr \<lparr>ek_vertex_id = v, ek_direction = d, ek_edge_label_id = l, ek_neighbor_id = n, ek_seq = q\<rparr>)))))"

definition encodeEdgeIndexPrefix :: "vertex_id \<Rightarrow> direction \<Rightarrow> bytes" where
  "encodeEdgeIndexPrefix vertex_id direction = encodeU64BE vertex_id @ encodeU8 direction"

definition encodeEdgeIndexLabelPrefix :: "vertex_id \<Rightarrow> direction \<Rightarrow> edge_label_id \<Rightarrow> bytes" where
  "encodeEdgeIndexLabelPrefix vertex_id direction label_id =
     encodeU64BE vertex_id @ encodeU8 direction @ encodeU16BE label_id"

definition encodeEdgeIndexNeighborPrefix ::
  "vertex_id \<Rightarrow> direction \<Rightarrow> edge_label_id \<Rightarrow> vertex_id \<Rightarrow> bytes" where
  "encodeEdgeIndexNeighborPrefix vertex_id direction label_id neighbor_id =
     encodeU64BE vertex_id @ encodeU8 direction @ encodeU16BE label_id @ encodeU64BE neighbor_id"

record edge_type_key =
  tk_src_vertex_id :: vertex_id
  tk_dst_vertex_id :: vertex_id
  tk_seq :: "64 word"

definition encodeEdgeTypeIndexKey :: "edge_type_key \<Rightarrow> bytes" where
  "encodeEdgeTypeIndexKey k =
     encodeU64BE (tk_src_vertex_id k) @ encodeU64BE (tk_dst_vertex_id k) @ encodeU64BE (tk_seq k)"

definition decodeEdgeTypeIndexKey :: "bytes \<Rightarrow> edge_type_key res" where
  "decodeEdgeTypeIndexKey key =
     rbind (decodeU64BE key 0) (\<lambda>s.
     rbind (decodeU64BE key 8) (\<lambda>d.
     rbind (decodeU64BE key 16) (\<lambda>q.
       Inr \<lparr>tk_src_vertex_id = s, tk_dst_vertex_id = d, tk_seq = q\<rparr>)))"

definition encodeEdgeTypeIndexPrefix0 :: bytes where
  "encodeEdgeTypeIndexPrefix0 = []"

definition encodeEdgeTypeIndexPrefix1 :: "vertex_id \<Rightarrow> bytes" where
  "encodeEdgeTypeIndexPrefix1 src_id = encodeU64BE src_id"

definition encodeEdgeTypeIndexPrefix2 :: "vertex_id \<Rightarrow> vertex_id \<Rightarrow> bytes" where
  "encodeEdgeTypeIndexPrefix2 src_id dst_id = encodeU64BE src_id @ encodeU64BE dst_id"

definition encodeEPropKey :: "edge_id \<Rightarrow> prop_id \<Rightarrow> bytes" where
  "encodeEPropKey edge_id prop_id = encodeU64BE edge_id @ encodeU16BE prop_id"

definition decodeEPropKey :: "bytes \<Rightarrow> (edge_id \<times> prop_id) res" where
  "decodeEPropKey key =
     rbind (decodeU64BE key 0) (\<lambda>e. rbind (decodeU16BE key 8) (\<lambda>p. Inr (e, p)))"

definition encodeEPropPrefix :: "edge_id \<Rightarrow> bytes" where
  "encodeEPropPrefix edge_id = encodeU64BE edge_id"

section \<open>Round trips\<close>

lemmas vertex_key_defs = encodeLabelForwardKey_def encodeVertexSummaryKey_def encodeVertexExistenceKey_def
  encodeVertexDataLabelKey_def encodeVertexDataLabelPrefix_def encodeVertexDataPropKey_def
  encodeVertexDataPropPrefix_def encodeVertexDataPropLabelPrefix_def encodeVertexDataVertexPrefix_def
  encodeVertexDataAdjStateKey_def encodeVertexDataAdjPrefix_def encodeVertexDataAdjEdgeKey_def

lemmas edge_key_defs = encodeEdgeIndexKey_def encodeEdgeIndexPrefix_def encodeEdgeIndexLabelPrefix_def
  encodeEdgeIndexNeighborPrefix_def encodeEdgeTypeIndexKey_def encodeEdgeTypeIndexPrefix0_def
  encodeEdgeTypeIndexPrefix1_def encodeEdgeTypeIndexPrefix2_def encodeEPropKey_def encodeEPropPrefix_def

text \<open>
  A key stands in itself at offset 0; splitting it along its fields (\<open>enc_at_append\<close>) gives
  every primitive read of its decoder.
\<close>

interpretation label_forward_codec: codec encodeLabelForwardKey decodeLabelForwardKey "\<lambda>_. True"
  by unfold_locales (simp add: encodeLabelForwardKey_def decodeLabelForwardKey_def prims_read(1) [OF enc_at_self])

interpretation existence_codec: codec encodeVertexExistenceKey decodeVertexExistenceKey "\<lambda>_. True"
  by unfold_locales (simp add: encodeVertexExistenceKey_def decodeVertexExistenceKey_def prims_read(1) [OF enc_at_self])

interpretation label_codec:
  codec "\<lambda>(v, l). encodeVertexDataLabelKey v l" decodeVertexDataLabelKey "\<lambda>_. True"
proof (unfold_locales, clarify)
  fix v l
  show "decodeVertexDataLabelKey (encodeVertexDataLabelKey v l) = Inr (v, l)"
    using enc_at_self [of "encodeVertexDataLabelKey v l"]
    by (auto simp: decodeVertexDataLabelKey_def encodeVertexDataLabelKey_def enc_at_append dest!: prims_read)
qed

interpretation prop_codec:
  codec "\<lambda>(v, l, p). encodeVertexDataPropKey v l p" decodeVertexDataPropKey "\<lambda>_. True"
proof (unfold_locales, clarify)
  fix v l p
  show "decodeVertexDataPropKey (encodeVertexDataPropKey v l p) = Inr (v, l, p)"
    using enc_at_self [of "encodeVertexDataPropKey v l p"]
    by (auto simp: decodeVertexDataPropKey_def encodeVertexDataPropKey_def enc_at_append dest!: prims_read)
qed

text \<open>Only \<open>DIR_OUT\<close> and \<open>DIR_IN\<close> survive in an adjacency key: any other direction reads back as OUT.\<close>

interpretation adj_edge_codec:
  codec encodeVertexDataAdjEdgeKey decodeVertexDataAdjEdgeKey
    "\<lambda>k. ek_direction k = DIR_OUT \<or> ek_direction k = DIR_IN"
proof unfold_locales
  fix k :: adj_edge_key assume "ek_direction k = DIR_OUT \<or> ek_direction k = DIR_IN"
  then show "decodeVertexDataAdjEdgeKey (encodeVertexDataAdjEdgeKey k) = Inr k"
    using enc_at_self [of "encodeVertexDataAdjEdgeKey k"]
    by (auto simp: decodeVertexDataAdjEdgeKey_def encodeVertexDataAdjEdgeKey_def vertexDataKind_def
        adj_kind_def enc_at_append dest!: prims_read)
qed

interpretation edge_index_codec: codec encodeEdgeIndexKey decodeEdgeIndexKey "\<lambda>_. True"
proof unfold_locales
  fix k show "decodeEdgeIndexKey (encodeEdgeIndexKey k) = Inr k"
    using enc_at_self [of "encodeEdgeIndexKey k"]
    by (auto simp: decodeEdgeIndexKey_def encodeEdgeIndexKey_def enc_at_append dest!: prims_read)
qed

interpretation edge_type_codec: codec encodeEdgeTypeIndexKey decodeEdgeTypeIndexKey "\<lambda>_. True"
proof unfold_locales
  fix k show "decodeEdgeTypeIndexKey (encodeEdgeTypeIndexKey k) = Inr k"
    using enc_at_self [of "encodeEdgeTypeIndexKey k"]
    by (auto simp: decodeEdgeTypeIndexKey_def encodeEdgeTypeIndexKey_def enc_at_append dest!: prims_read)
qed

interpretation eprop_codec: codec "\<lambda>(e, p). encodeEPropKey e p" decodeEPropKey "\<lambda>_. True"
proof (unfold_locales, clarify)
  fix e p show "decodeEPropKey (encodeEPropKey e p) = Inr (e, p)"
    using enc_at_self [of "encodeEPropKey e p"]
    by (auto simp: decodeEPropKey_def encodeEPropKey_def enc_at_append dest!: prims_read)
qed

lemma decodeAdjacencyState_encode [simp]:
  "decodeAdjacencyState (encodeAdjacencyState state count) = (state, count)"
  by (simp add: decodeAdjacencyState_def encodeAdjacencyState_def encodeU8_def)

lemmas decode_keys [simp] =
  label_forward_codec.dec_enc [simplified] existence_codec.dec_enc [simplified]
  label_codec.dec_enc [where x = "(v, l)" for v l, simplified]
  prop_codec.dec_enc [where x = "(v, l, p)" for v l p, simplified]
  edge_index_codec.dec_enc [simplified] edge_type_codec.dec_enc [simplified]
  eprop_codec.dec_enc [where x = "(e, p)" for e p, simplified]
  adj_edge_codec.dec_enc

lemmas encode_keys_inject [simp] =
  label_forward_codec.enc_inject [simplified] existence_codec.enc_inject [simplified]
  label_codec.enc_inject [where x = "(v, l)" and y = "(v', l')" for v l v' l', simplified]
  prop_codec.enc_inject [where x = "(v, l, p)" and y = "(v', l', p')" for v l p v' l' p', simplified]
  edge_index_codec.enc_inject [simplified] edge_type_codec.enc_inject [simplified]
  eprop_codec.enc_inject [where x = "(e, p)" and y = "(e', p')" for e p e' p', simplified]

section \<open>Key order is field order\<close>

lemma prims_less:
  "encodeU64BE v @ xs < encodeU64BE v' @ ys \<longleftrightarrow> v < v' \<or> v = v' \<and> xs < ys"
  "encodeU64BE v < encodeU64BE v' \<longleftrightarrow> v < v'"
  "encodeU16BE w @ xs < encodeU16BE w' @ ys \<longleftrightarrow> w < w' \<or> w = w' \<and> xs < ys"
  "encodeU16BE w < encodeU16BE w' \<longleftrightarrow> w < w'"
  by (simp_all add: prim_defs append_less_fixed_width be_bytes_less_iff)

text \<open>
  Byte order of the edge index is the order of its key tuple: a WiredTiger scan of
  \<open>table:edge_index\<close> visits edges by vertex, then direction, then edge label, then neighbour, then
  sequence number.
\<close>

theorem edge_index_key_order:
  "encodeEdgeIndexKey a < encodeEdgeIndexKey b \<longleftrightarrow>
     (ek_vertex_id a, ek_direction a, ek_edge_label_id a, ek_neighbor_id a, ek_seq a) <
     (ek_vertex_id b, ek_direction b, ek_edge_label_id b, ek_neighbor_id b, ek_seq b)"
  by (auto simp: encodeEdgeIndexKey_def encodeU8_def prims_less)

section \<open>Prefixes select exactly the intended keys\<close>

lemma adj_kind_not_row [simp]:
  "adj_kind d \<noteq> VDK_LABEL" "VDK_LABEL \<noteq> adj_kind d"
  "adj_kind d \<noteq> VDK_PROPERTY" "VDK_PROPERTY \<noteq> adj_kind d"
  by (simp_all add: adj_kind_def)

lemma adj_kind_inject:
  "d = DIR_OUT \<or> d = DIR_IN \<Longrightarrow> d' = DIR_OUT \<or> d' = DIR_IN \<Longrightarrow> adj_kind d = adj_kind d' \<longleftrightarrow> d = d'"
  by (auto simp: adj_kind_def)

lemma vertex_data_prefixes [simp]:
  "prefix (encodeVertexDataLabelPrefix v) (encodeVertexDataLabelKey v' l') \<longleftrightarrow> v = v'"
  "\<not> prefix (encodeVertexDataLabelPrefix v) (encodeVertexDataPropKey v' l' p')"
  "\<not> prefix (encodeVertexDataLabelPrefix v) (encodeVertexDataAdjStateKey v' d')"
  "\<not> prefix (encodeVertexDataLabelPrefix v) (encodeVertexDataAdjEdgeKey k')"
  "\<not> prefix (encodeVertexDataPropPrefix v) (encodeVertexDataLabelKey v' l')"
  "prefix (encodeVertexDataPropPrefix v) (encodeVertexDataPropKey v' l' p') \<longleftrightarrow> v = v'"
  "\<not> prefix (encodeVertexDataPropPrefix v) (encodeVertexDataAdjStateKey v' d')"
  "\<not> prefix (encodeVertexDataPropPrefix v) (encodeVertexDataAdjEdgeKey k')"
  "\<not> prefix (encodeVertexDataPropLabelPrefix v l) (encodeVertexDataLabelKey v' l')"
  "prefix (encodeVertexDataPropLabelPrefix v l) (encodeVertexDataPropKey v' l' p') \<longleftrightarrow> v = v' \<and> l = l'"
  "\<not> prefix (encodeVertexDataPropLabelPrefix v l) (encodeVertexDataAdjStateKey v' d')"
  "\<not> prefix (encodeVertexDataPropLabelPrefix v l) (encodeVertexDataAdjEdgeKey k')"
  "prefix (encodeVertexDataVertexPrefix v) (encodeVertexDataLabelKey v' l') \<longleftrightarrow> v = v'"
  "prefix (encodeVertexDataVertexPrefix v) (encodeVertexDataPropKey v' l' p') \<longleftrightarrow> v = v'"
  "prefix (encodeVertexDataVertexPrefix v) (encodeVertexDataAdjStateKey v' d') \<longleftrightarrow> v = v'"
  "prefix (encodeVertexDataVertexPrefix v) (encodeVertexDataAdjEdgeKey k') \<longleftrightarrow> v = ek_vertex_id k'"
  "\<not> prefix (encodeVertexDataAdjPrefix v d) (encodeVertexDataLabelKey v' l')"
  "\<not> prefix (encodeVertexDataAdjPrefix v d) (encodeVertexDataPropKey v' l' p')"
  "prefix (encodeVertexDataAdjPrefix v d) (encodeVertexDataAdjStateKey v' d') \<longleftrightarrow>
     v = v' \<and> adj_kind d = adj_kind d'"
  "prefix (encodeVertexDataAdjPrefix v d) (encodeVertexDataAdjEdgeKey k') \<longleftrightarrow>
     v = ek_vertex_id k' \<and> adj_kind d = adj_kind (ek_direction k')"
  by (auto simp: vertex_key_defs encodeU8_def simp del: prefix_snoc)

lemma vertex_data_keys_distinct [simp]:
  "encodeVertexDataLabelKey v l \<noteq> encodeVertexDataPropKey v' l' p'"
  "encodeVertexDataPropKey v' l' p' \<noteq> encodeVertexDataLabelKey v l"
  "encodeVertexDataLabelKey v l \<noteq> encodeVertexDataAdjStateKey v' d'"
  "encodeVertexDataAdjStateKey v' d' \<noteq> encodeVertexDataLabelKey v l"
  "encodeVertexDataLabelKey v l \<noteq> encodeVertexDataAdjEdgeKey k"
  "encodeVertexDataAdjEdgeKey k \<noteq> encodeVertexDataLabelKey v l"
  "encodeVertexDataPropKey v l p \<noteq> encodeVertexDataAdjStateKey v' d'"
  "encodeVertexDataAdjStateKey v' d' \<noteq> encodeVertexDataPropKey v l p"
  "encodeVertexDataPropKey v l p \<noteq> encodeVertexDataAdjEdgeKey k"
  "encodeVertexDataAdjEdgeKey k \<noteq> encodeVertexDataPropKey v l p"
  "encodeVertexDataAdjStateKey v d \<noteq> encodeVertexDataAdjEdgeKey k"
  "encodeVertexDataAdjEdgeKey k \<noteq> encodeVertexDataAdjStateKey v d"
  by (auto simp: vertex_key_defs encodeU8_def dest: arg_cong [where f = length])

lemma edge_prefixes [simp]:
  "prefix (encodeEdgeIndexPrefix v d) (encodeEdgeIndexKey k) \<longleftrightarrow>
     v = ek_vertex_id k \<and> d = ek_direction k"
  "prefix (encodeEdgeIndexLabelPrefix v d l) (encodeEdgeIndexKey k) \<longleftrightarrow>
     v = ek_vertex_id k \<and> d = ek_direction k \<and> l = ek_edge_label_id k"
  "prefix (encodeEdgeIndexNeighborPrefix v d l n) (encodeEdgeIndexKey k) \<longleftrightarrow>
     v = ek_vertex_id k \<and> d = ek_direction k \<and> l = ek_edge_label_id k \<and> n = ek_neighbor_id k"
  "prefix (encodeEdgeTypeIndexPrefix1 s) (encodeEdgeTypeIndexKey t) \<longleftrightarrow> s = tk_src_vertex_id t"
  "prefix (encodeEdgeTypeIndexPrefix2 s u) (encodeEdgeTypeIndexKey t) \<longleftrightarrow>
     s = tk_src_vertex_id t \<and> u = tk_dst_vertex_id t"
  "prefix (encodeEPropPrefix e) (encodeEPropKey e' p) \<longleftrightarrow> e = e'"
  by (auto simp: edge_key_defs encodeU8_def)

lemma isVertexDataAdjStateKey_simps [simp]:
  "isVertexDataAdjStateKey (encodeVertexDataAdjStateKey v d)"
  "\<not> isVertexDataAdjStateKey (encodeVertexDataAdjEdgeKey k)"
  by (simp_all add: isVertexDataAdjStateKey_def vertex_key_defs)

text \<open>The state record of a direction is the first record under the direction's prefix.\<close>

lemma adj_state_key_least:
  "prefix (encodeVertexDataAdjPrefix v d) k \<Longrightarrow> encodeVertexDataAdjStateKey v d \<le> k"
  by (simp add: encodeVertexDataAdjPrefix_def prefix_imp_le)

end
