(* ===== verification/Value_Codec.thy ===== *)
theory Value_Codec
  imports Graph_Types
begin

text \<open>
  \<^verbatim>\<open>storage/kv/value_codec.{hpp,cpp}\<close>: the binary form of a property value, one tag byte and
  big-endian data, and the fixed 8- and 26-byte edge values.  The readers advance an offset and do
  not check the length of the data (\<open>Out_Of_Range\<close>); \<^verbatim>\<open>string_view::substr\<close> clips a length that
  runs past the end, as C++ does.
\<close>

section \<open>Readers and writers of the file\<close>

definition vc_appendU64 :: "64 word \<Rightarrow> bytes" where
  "vc_appendU64 v = be_bytes 8 v"

definition vc_readU64 :: "bytes \<Rightarrow> nat \<Rightarrow> (64 word \<times> nat) res" where
  "vc_readU64 data off = rbind (read_be 8 data off) (\<lambda>v. Inr (v, off + 8))"

definition vc_appendU32 :: "32 word \<Rightarrow> bytes" where
  "vc_appendU32 v = be_bytes 4 v"

definition vc_readU32 :: "bytes \<Rightarrow> nat \<Rightarrow> (32 word \<times> nat) res" where
  "vc_readU32 data off = rbind (read_be 4 data off) (\<lambda>v. Inr (v, off + 4))"

definition vc_appendU16 :: "16 word \<Rightarrow> bytes" where
  "vc_appendU16 v = be_bytes 2 v"

definition vc_readU16 :: "bytes \<Rightarrow> nat \<Rightarrow> (16 word \<times> nat) res" where
  "vc_readU16 data off = rbind (read_be 2 data off) (\<lambda>v. Inr (v, off + 2))"

definition vc_readU8 :: "bytes \<Rightarrow> nat \<Rightarrow> (byte \<times> nat) res" where
  "vc_readU8 data off = (if off < length data then Inr (data ! off, off + 1) else Inl Out_Of_Range)"

definition sv_substr :: "bytes \<Rightarrow> nat \<Rightarrow> nat \<Rightarrow> bytes res" where
  "sv_substr data off len =
     (if length data < off then Inl (Runtime_Error ''out_of_range'') else Inr (take len (drop off data)))"

definition tzNameLen :: "tz_name_ptr \<Rightarrow> 16 word" where
  "tzNameLen tz = (case tz of Some s \<Rightarrow> of_nat (length s) | None \<Rightarrow> 0)"

definition appendTzName :: "tz_name_ptr \<Rightarrow> bytes" where
  "appendTzName tz = (case tz of Some s \<Rightarrow> bytes_of_string s | None \<Rightarrow> [])"

definition readTzName :: "bytes \<Rightarrow> nat \<Rightarrow> 16 word \<Rightarrow> tz_name_ptr res" where
  "readTzName data off len =
     (if len \<noteq> 0 then rbind (sv_substr data off (unat len)) (\<lambda>s. Inr (Some (string_of_bytes s)))
      else Inr None)"

section \<open>Encoding\<close>

text \<open>The field sequence of a date-time and of a time, written once per element in \<^verbatim>\<open>encode\<close>.\<close>

definition datetime_fields :: "date_time_value \<Rightarrow> bytes" where
  "datetime_fields tv =
     [dt_kind tv] @ vc_appendU64 (scast (dt_year tv)) @ vc_appendU64 (scast (dt_month tv)) @
     vc_appendU64 (scast (dt_day tv)) @ vc_appendU64 (scast (dt_hour tv)) @
     vc_appendU64 (scast (dt_minute tv)) @ vc_appendU64 (scast (dt_second tv)) @
     vc_appendU64 (scast (dt_nanos tv)) @ vc_appendU32 (dt_tz_offset_sec tv) @
     vc_appendU16 (tzNameLen (dt_tz_name tv)) @ appendTzName (dt_tz_name tv)"

definition time_fields :: "time_value \<Rightarrow> bytes" where
  "time_fields tv =
     [tm_kind tv] @ vc_appendU64 (scast (tm_hour tv)) @ vc_appendU64 (scast (tm_minute tv)) @
     vc_appendU64 (scast (tm_second tv)) @ vc_appendU64 (scast (tm_nanos tv)) @
     vc_appendU32 (tm_tz_offset_sec tv) @
     vc_appendU16 (tzNameLen (tm_tz_name tv)) @ appendTzName (tm_tz_name tv)"

definition duration_fields :: "duration_value \<Rightarrow> bytes" where
  "duration_fields dv =
     vc_appendU64 (du_months dv) @ vc_appendU64 (du_days dv) @ vc_appendU64 (du_seconds dv) @
     vc_appendU64 (du_nanos dv)"

definition string_field :: "string \<Rightarrow> bytes" where
  "string_field s = vc_appendU32 (of_nat (length s)) @ bytes_of_string s"

fun encode_value :: "property_value \<Rightarrow> bytes" where
  "encode_value PNull = [0x00]"
| "encode_value (PBool b) = [0x01, if b then 1 else 0]"
| "encode_value (PInt i) = 0x02 # vc_appendU64 i"
| "encode_value (PDouble d) = 0x03 # vc_appendU64 d"
| "encode_value (PString s) = 0x04 # string_field s"
| "encode_value (PIntArray xs) =
     0x05 # vc_appendU32 (of_nat (length xs)) @ concat (map vc_appendU64 xs)"
| "encode_value (PDoubleArray xs) =
     0x06 # vc_appendU32 (of_nat (length xs)) @ concat (map vc_appendU64 xs)"
| "encode_value (PStringArray xs) =
     0x07 # vc_appendU32 (of_nat (length xs)) @ concat (map string_field xs)"
| "encode_value (PDateTimeArray xs) =
     0x0B # vc_appendU32 (of_nat (length xs)) @ concat (map datetime_fields xs)"
| "encode_value (PTimeArray xs) =
     0x0C # vc_appendU32 (of_nat (length xs)) @ concat (map time_fields xs)"
| "encode_value (PBytes bs) = 0x0E # vc_appendU32 (of_nat (length bs)) @ bs"
| "encode_value (PDurationArray xs) =
     0x0D # vc_appendU32 (of_nat (length xs)) @ concat (map duration_fields xs)"
| "encode_value (PDateTime tv) = 0x08 # datetime_fields tv"
| "encode_value (PTime tv) = 0x09 # time_fields tv"
| "encode_value (PDuration dv) = 0x0A # duration_fields dv"

section \<open>Decoding\<close>

text \<open>
  The element readers return the offset behind the element.  The array loops of the code advance
  by \<^verbatim>\<open>tz_len\<close> (\<^verbatim>\<open>len\<close>) after the name (string), whether or not \<^verbatim>\<open>substr\<close> clipped it.
\<close>

definition read_datetime :: "bytes \<Rightarrow> nat \<Rightarrow> (date_time_value \<times> nat) res" where
  "read_datetime data off =
     rbind (vc_readU8 data off) (\<lambda>(kind, off).
     rbind (vc_readU64 data off) (\<lambda>(year, off).
     rbind (vc_readU64 data off) (\<lambda>(month, off).
     rbind (vc_readU64 data off) (\<lambda>(day, off).
     rbind (vc_readU64 data off) (\<lambda>(hour, off).
     rbind (vc_readU64 data off) (\<lambda>(minute, off).
     rbind (vc_readU64 data off) (\<lambda>(second, off).
     rbind (vc_readU64 data off) (\<lambda>(nanos, off).
     rbind (vc_readU32 data off) (\<lambda>(tz_offset_sec, off).
     rbind (vc_readU16 data off) (\<lambda>(tz_len, off).
     rbind (readTzName data off tz_len) (\<lambda>tz_name.
       Inr (\<lparr>dt_year = ucast year, dt_nanos = ucast nanos, dt_tz_offset_sec = tz_offset_sec,
             dt_month = ucast month, dt_day = ucast day, dt_hour = ucast hour,
             dt_minute = ucast minute, dt_second = ucast second, dt_kind = kind,
             dt_tz_name = tz_name\<rparr>, off + unat tz_len))))))))))))"

definition read_time :: "bytes \<Rightarrow> nat \<Rightarrow> (time_value \<times> nat) res" where
  "read_time data off =
     rbind (vc_readU8 data off) (\<lambda>(kind, off).
     rbind (vc_readU64 data off) (\<lambda>(hour, off).
     rbind (vc_readU64 data off) (\<lambda>(minute, off).
     rbind (vc_readU64 data off) (\<lambda>(second, off).
     rbind (vc_readU64 data off) (\<lambda>(nanos, off).
     rbind (vc_readU32 data off) (\<lambda>(tz_offset_sec, off).
     rbind (vc_readU16 data off) (\<lambda>(tz_len, off).
     rbind (readTzName data off tz_len) (\<lambda>tz_name.
       Inr (\<lparr>tm_nanos = ucast nanos, tm_tz_offset_sec = tz_offset_sec, tm_hour = ucast hour,
             tm_minute = ucast minute, tm_second = ucast second, tm_kind = kind,
             tm_tz_name = tz_name\<rparr>, off + unat tz_len)))))))))"

definition read_duration :: "bytes \<Rightarrow> nat \<Rightarrow> (duration_value \<times> nat) res" where
  "read_duration data off =
     rbind (vc_readU64 data off) (\<lambda>(months, off).
     rbind (vc_readU64 data off) (\<lambda>(days, off).
     rbind (vc_readU64 data off) (\<lambda>(seconds, off).
     rbind (vc_readU64 data off) (\<lambda>(nanos, off).
       Inr (\<lparr>du_months = months, du_days = days, du_seconds = seconds, du_nanos = nanos\<rparr>, off)))))"

definition read_string :: "bytes \<Rightarrow> nat \<Rightarrow> (string \<times> nat) res" where
  "read_string data off =
     rbind (vc_readU32 data off) (\<lambda>(len, off).
     rbind (sv_substr data off (unat len)) (\<lambda>s. Inr (string_of_bytes s, off + unat len)))"

definition read_array :: "(bytes \<Rightarrow> nat \<Rightarrow> ('a \<times> nat) res) \<Rightarrow> bytes \<Rightarrow> nat \<Rightarrow> 'a list res" where
  "read_array f data off =
     rbind (vc_readU32 data off) (\<lambda>(count, off).
     rbind (read_n (f data) (unat count) off) (\<lambda>(arr, off). Inr arr))"

definition decode_value :: "bytes \<Rightarrow> property_value res" where
  "decode_value data =
     (if data = [] then Inr PNull
      else let tag = data ! 0; off = 1 in
        if tag = 0x00 then Inr PNull
        else if tag = 0x01 then rbind (vc_readU8 data off) (\<lambda>(b, _). Inr (PBool (b \<noteq> 0)))
        else if tag = 0x02 then rbind (vc_readU64 data off) (\<lambda>(v, _). Inr (PInt v))
        else if tag = 0x03 then rbind (vc_readU64 data off) (\<lambda>(v, _). Inr (PDouble v))
        else if tag = 0x04 then rbind (read_string data off) (\<lambda>(s, _). Inr (PString s))
        else if tag = 0x05 then rbind (read_array vc_readU64 data off) (\<lambda>arr. Inr (PIntArray arr))
        else if tag = 0x06 then rbind (read_array vc_readU64 data off) (\<lambda>arr. Inr (PDoubleArray arr))
        else if tag = 0x07 then rbind (read_array read_string data off) (\<lambda>arr. Inr (PStringArray arr))
        else if tag = 0x08 then rbind (read_datetime data off) (\<lambda>(tv, _). Inr (PDateTime tv))
        else if tag = 0x09 then rbind (read_time data off) (\<lambda>(tv, _). Inr (PTime tv))
        else if tag = 0x0A then rbind (read_duration data off) (\<lambda>(tv, _). Inr (PDuration tv))
        else if tag = 0x0B then rbind (read_array read_datetime data off) (\<lambda>arr. Inr (PDateTimeArray arr))
        else if tag = 0x0C then rbind (read_array read_time data off) (\<lambda>arr. Inr (PTimeArray arr))
        else if tag = 0x0E then
          rbind (vc_readU32 data off) (\<lambda>(len, off).
          rbind (sv_substr data off (unat len)) (\<lambda>raw. Inr (PBytes raw)))
        else if tag = 0x0D then rbind (read_array read_duration data off) (\<lambda>arr. Inr (PDurationArray arr))
        else Inl (Runtime_Error ''Unknown value type tag''))"

section \<open>Edge values\<close>

definition vc_encodeU64 :: "64 word \<Rightarrow> bytes" where
  "vc_encodeU64 val = be_bytes 8 val"

definition vc_decodeU64 :: "bytes \<Rightarrow> 64 word res" where
  "vc_decodeU64 data = read_be 8 data 0"

definition encodeEdgeAdjacency ::
  "vertex_id \<Rightarrow> vertex_id \<Rightarrow> 64 word \<Rightarrow> edge_label_id \<Rightarrow> bytes" where
  "encodeEdgeAdjacency src_id dst_id seq label_id =
     be_bytes 8 src_id @ be_bytes 8 dst_id @ be_bytes 8 seq @ be_bytes 2 label_id"

definition decodeEdgeAdjacency ::
  "bytes \<Rightarrow> vertex_id \<times> vertex_id \<times> 64 word \<times> edge_label_id" where
  "decodeEdgeAdjacency data =
     (if length data < 26 then (0, 0, 0, 0)
      else (be_word (take 8 data), be_word (take 8 (drop 8 data)), be_word (take 8 (drop 16 data)),
            be_word (take 2 (drop 24 data))))"

section \<open>Round trips\<close>

text \<open>
  What fits the format: lengths and counts below \<open>2 ^ 32\<close> (\<open>2 ^ 16\<close> for a timezone name), and the
  invariant of \<^verbatim>\<open>TzNamePtr\<close>.  A longer string is written whole behind a truncated length.
\<close>

definition tz_fits :: "tz_name_ptr \<Rightarrow> bool" where
  "tz_fits tz \<longleftrightarrow> tz_ok tz \<and> (case tz of Some s \<Rightarrow> length s < 2 ^ 16 | None \<Rightarrow> True)"

fun value_fits :: "property_value \<Rightarrow> bool" where
  "value_fits (PString s) \<longleftrightarrow> length s < 2 ^ 32"
| "value_fits (PIntArray xs) \<longleftrightarrow> length xs < 2 ^ 32"
| "value_fits (PDoubleArray xs) \<longleftrightarrow> length xs < 2 ^ 32"
| "value_fits (PStringArray xs) \<longleftrightarrow> length xs < 2 ^ 32 \<and> (\<forall>s \<in> set xs. length s < 2 ^ 32)"
| "value_fits (PDateTime tv) \<longleftrightarrow> tz_fits (dt_tz_name tv)"
| "value_fits (PTime tv) \<longleftrightarrow> tz_fits (tm_tz_name tv)"
| "value_fits (PDateTimeArray xs) \<longleftrightarrow> length xs < 2 ^ 32 \<and> (\<forall>tv \<in> set xs. tz_fits (dt_tz_name tv))"
| "value_fits (PTimeArray xs) \<longleftrightarrow> length xs < 2 ^ 32 \<and> (\<forall>tv \<in> set xs. tz_fits (tm_tz_name tv))"
| "value_fits (PDurationArray xs) \<longleftrightarrow> length xs < 2 ^ 32"
| "value_fits (PBytes bs) \<longleftrightarrow> length bs < 2 ^ 32"
| "value_fits _ \<longleftrightarrow> True"

lemma vc_lengths [simp, codec_len]:
  "length (vc_appendU64 v) = 8" "length (vc_appendU32 u) = 4" "length (vc_appendU16 w) = 2"
  "length (vc_encodeU64 v) = 8"
  by (simp_all add: vc_appendU64_def vc_appendU32_def vc_appendU16_def vc_encodeU64_def)

lemma vc_reads:
  "enc_at data off (vc_appendU64 v) \<Longrightarrow> vc_readU64 data off = Inr (v, off + 8)"
  "enc_at data off (vc_appendU32 u) \<Longrightarrow> vc_readU32 data off = Inr (u, off + 4)"
  "enc_at data off (vc_appendU16 w) \<Longrightarrow> vc_readU16 data off = Inr (w, off + 2)"
  "byte_is data off b \<Longrightarrow> vc_readU8 data off = Inr (b, Suc off)"
  by (auto simp: vc_appendU64_def vc_appendU32_def vc_appendU16_def vc_readU64_def vc_readU32_def
      vc_readU16_def vc_readU8_def read_be_at byte_is_def)

lemma sv_substr_at: "enc_at data off bs \<Longrightarrow> sv_substr data off (length bs) = Inr bs"
  using enc_at_take [of data off bs] enc_at_length [of data off bs] by (simp add: sv_substr_def)

lemma unat_tzNameLen: "tz_fits (Some s) \<Longrightarrow> unat (tzNameLen (Some s)) = length s \<and> tzNameLen (Some s) \<noteq> 0"
  by (auto simp: tz_fits_def tz_ok_def tzNameLen_def unat_of_nat unat_eq_zero [symmetric]
      simp del: unat_eq_zero)

lemma length_appendTzName: "tz_fits tz \<Longrightarrow> length (appendTzName tz) = unat (tzNameLen tz)"
  using unat_tzNameLen by (cases tz) (auto simp: appendTzName_def tzNameLen_def)

lemma readTzName_at:
  assumes "tz_fits tz" and "enc_at data off (appendTzName tz)"
  shows "readTzName data off (tzNameLen tz) = Inr tz"
proof (cases tz)
  case None
  then show ?thesis by (simp add: readTzName_def tzNameLen_def)
next
  case (Some s)
  with assms have len: "unat (tzNameLen tz) = length s" "tzNameLen tz \<noteq> 0"
    and at: "enc_at data off (bytes_of_string s)"
    using unat_tzNameLen [of s] by (auto simp: appendTzName_def)
  from sv_substr_at [OF at] len Some show ?thesis
    by (simp add: readTzName_def)
qed

lemma ucast_scast [simp]:
  "ucast (scast (x :: byte) :: 64 word) = x"
  "ucast (scast (y :: 32 word) :: 64 word) = y"
proof -
  have n: "n = 7" if "7 \<le> n" "n < 8" for n :: nat using that by simp
  show "ucast (scast x :: 64 word) = x"
    by (rule bit_word_eqI) (auto simp: bit_unsigned_iff bit_signed_iff min_def dest: n)
  have m: "n = 31" if "31 \<le> n" "n < 32" for n :: nat using that by simp
  show "ucast (scast y :: 64 word) = y"
    by (rule bit_word_eqI) (auto simp: bit_unsigned_iff bit_signed_iff min_def dest: m)
qed

lemma read_datetime_at:
  assumes "tz_fits (dt_tz_name tv)" and "enc_at data off (datetime_fields tv)"
  shows "read_datetime data off = Inr (tv, off + length (datetime_fields tv))"
  using assms
  by (auto simp: datetime_fields_def read_datetime_def enc_at_split readTzName_at length_appendTzName
      dest!: vc_reads)

lemma read_time_at:
  assumes "tz_fits (tm_tz_name tv)" and "enc_at data off (time_fields tv)"
  shows "read_time data off = Inr (tv, off + length (time_fields tv))"
  using assms
  by (auto simp: time_fields_def read_time_def enc_at_split readTzName_at length_appendTzName
      dest!: vc_reads)

lemma read_duration_at:
  assumes "enc_at data off (duration_fields dv)"
  shows "read_duration data off = Inr (dv, off + length (duration_fields dv))"
  using assms
  by (auto simp: duration_fields_def read_duration_def enc_at_split dest!: vc_reads)

lemma read_string_at:
  assumes "length s < 2 ^ 32" and "enc_at data off (string_field s)"
  shows "read_string data off = Inr (s, off + length (string_field s))"
proof -
  have u: "unat (of_nat (length s) :: 32 word) = length s"
    using assms(1) by (simp add: unat_of_nat)
  from assms(2) have "enc_at data (off + 4) (bytes_of_string s)"
    by (simp add: string_field_def enc_at_append)
  from sv_substr_at [OF this] have "sv_substr data (off + 4) (length s) = Inr (bytes_of_string s)"
    by simp
  with assms(2) u show ?thesis
    by (auto simp: string_field_def read_string_def enc_at_append dest!: vc_reads)
qed

lemma read_array_at:
  assumes "length xs < 2 ^ 32"
    and "enc_at data off (vc_appendU32 (of_nat (length xs)) @ concat (map enc xs))"
    and "\<And>x o1. x \<in> set xs \<Longrightarrow> enc_at data o1 (enc x) \<Longrightarrow> f data o1 = Inr (x, o1 + length (enc x))"
  shows "read_array f data off = Inr xs"
proof -
  have u: "unat (of_nat (length xs) :: 32 word) = length xs"
    using assms(1) by (simp add: unat_of_nat)
  from assms(2) have cnt: "vc_readU32 data off = Inr (of_nat (length xs), off + 4)"
    and at: "enc_at data (off + 4) (concat (map enc xs))"
    by (auto simp: enc_at_append dest: vc_reads)
  from read_n_at [OF at, of "f data" id] assms(3)
  have "read_n (f data) (length xs) (off + 4) = Inr (xs, off + 4 + length (concat (map enc xs)))"
    by simp
  with cnt u show ?thesis by (simp add: read_array_def)
qed

lemma decode_array:
  assumes "length xs < 2 ^ 32"
    and "\<And>x data o1. x \<in> set xs \<Longrightarrow> enc_at data o1 (enc x) \<Longrightarrow> f data o1 = Inr (x, o1 + length (enc x))"
  shows "read_array f (t # vc_appendU32 (of_nat (length xs)) @ concat (map enc xs)) 1 = Inr xs"
proof (rule read_array_at [where enc = enc])
  show "enc_at (t # vc_appendU32 (of_nat (length xs)) @ concat (map enc xs)) 1
      (vc_appendU32 (of_nat (length xs)) @ concat (map enc xs))"
    using enc_at_self [of "t # vc_appendU32 (of_nat (length xs)) @ concat (map enc xs)"]
    by (simp add: enc_at_Cons)
qed (use assms in auto)

lemma tagged_at: "enc_at (t # bs) 1 bs"
  using enc_at_self [of "t # bs"] by (simp add: enc_at_Cons)

interpretation value_codec: codec encode_value decode_value value_fits
proof unfold_locales
  fix v assume fits: "value_fits v"
  show "decode_value (encode_value v) = Inr v"
  proof (cases v)
    case PNull
    then show ?thesis by (simp add: decode_value_def)
  next
    case (PBool b)
    then show ?thesis by (simp add: decode_value_def vc_readU8_def)
  next
    case (PInt i)
    then show ?thesis
      using vc_reads(1) [OF tagged_at] by (simp add: decode_value_def)
  next
    case (PDouble d)
    then show ?thesis
      using vc_reads(1) [OF tagged_at] by (simp add: decode_value_def)
  next
    case (PString s)
    then show ?thesis
      using read_string_at [OF _ tagged_at] fits by (simp add: decode_value_def)
  next
    case (PIntArray xs)
    then show ?thesis
      using decode_array [of xs vc_appendU64 vc_readU64] fits by (simp add: decode_value_def vc_reads)
  next
    case (PDoubleArray xs)
    then show ?thesis
      using decode_array [of xs vc_appendU64 vc_readU64] fits by (simp add: decode_value_def vc_reads)
  next
    case (PStringArray xs)
    then show ?thesis
      using decode_array [of xs string_field read_string] fits
      by (simp add: decode_value_def read_string_at)
  next
    case (PDateTime tv)
    then show ?thesis
      using read_datetime_at [OF _ tagged_at] fits by (simp add: decode_value_def)
  next
    case (PTime tv)
    then show ?thesis
      using read_time_at [OF _ tagged_at] fits by (simp add: decode_value_def)
  next
    case (PDuration dv)
    then show ?thesis
      using read_duration_at [OF tagged_at] by (simp add: decode_value_def)
  next
    case (PDateTimeArray xs)
    then show ?thesis
      using decode_array [of xs datetime_fields read_datetime] fits
      by (simp add: decode_value_def read_datetime_at)
  next
    case (PTimeArray xs)
    then show ?thesis
      using decode_array [of xs time_fields read_time] fits
      by (simp add: decode_value_def read_time_at)
  next
    case (PDurationArray xs)
    then show ?thesis
      using decode_array [of xs duration_fields read_duration] fits
      by (simp add: decode_value_def read_duration_at)
  next
    case (PBytes bs)
    have "unat (of_nat (length bs) :: 32 word) = length bs"
      using fits PBytes by (simp add: unat_of_nat)
    with PBytes tagged_at [of 14 "vc_appendU32 (of_nat (length bs)) @ bs"] show ?thesis
      by (auto simp: decode_value_def enc_at_append sv_substr_at dest!: vc_reads)
  qed
qed

section \<open>Edge adjacency values\<close>

lemma decodeEdgeAdjacency_encode [simp]:
  "decodeEdgeAdjacency (encodeEdgeAdjacency s d q l) = (s, d, q, l)"
  by (simp add: decodeEdgeAdjacency_def encodeEdgeAdjacency_def)

lemma vc_decodeU64_encode [simp]: "vc_decodeU64 (vc_encodeU64 v) = Inr v"
  by (simp add: vc_decodeU64_def vc_encodeU64_def read_be_at [OF enc_at_self])

section \<open>Properties\<close>

text \<open>
  C15. A property value that fits the format survives encoding and decoding unchanged, whatever its
  type: every scalar, string, byte string, temporal value and array.
\<close>

theorem value_roundtrip: "value_fits v \<Longrightarrow> decode_value (encode_value v) = Inr v"
  by (rule value_codec.dec_enc)

theorem value_roundtrip_witness:
  "value_fits (PStringArray [''ab'', ''c'']) \<and>
   decode_value (encode_value (PStringArray [''ab'', ''c''])) = Inr (PStringArray [''ab'', ''c''])"
  using value_roundtrip [of "PStringArray [''ab'', ''c'']"] by simp

text \<open>
  A value whose first byte is no tag of the format is rejected with the decoder's error, never
  read as some other value.
\<close>

theorem unknown_tag_rejected:
  "0x0E < t \<Longrightarrow> decode_value (t # bs) = Inl (Runtime_Error ''Unknown value type tag'')"
  by (auto simp: decode_value_def Let_def)

theorem unknown_tag_rejected_witness:
  "decode_value [0x0F, 1] = Inl (Runtime_Error ''Unknown value type tag'')"
  using unknown_tag_rejected [of "0x0F" "[1]"] by simp

end
