(* ===== verification/Index_Key_Codec.thy ===== *)
theory Index_Key_Codec
  imports Graph_Types
begin

text \<open>
  \<^verbatim>\<open>storage/kv/index_key_codec.{hpp,cpp}\<close>: sortable keys of the secondary index tables, a
  property value in an order-preserving form followed by the 8-byte entity id.
\<close>

section \<open>Encoders\<close>

definition sign_bit :: "64 word" where
  "sign_bit = 0x8000000000000000"

definition flip_double :: "64 word \<Rightarrow> 64 word" where
  "flip_double bits = (if bits AND sign_bit \<noteq> 0 then NOT bits else bits XOR sign_bit)"

fun encodeSortableValue :: "property_value \<Rightarrow> bytes" where
  "encodeSortableValue PNull = [0x00]"
| "encodeSortableValue (PBool b) = [0x01, if b then 1 else 0]"
| "encodeSortableValue (PInt i) = 0x02 # be_bytes 8 (i XOR sign_bit)"
| "encodeSortableValue (PDouble d) = 0x03 # be_bytes 8 (flip_double d)"
| "encodeSortableValue (PString s) = 0x04 # bytes_of_string s"
| "encodeSortableValue _ = [0xFE]"

definition encodeSortableValues :: "property_value list \<Rightarrow> bytes" where
  "encodeSortableValues values = concat (map encodeSortableValue values)"

definition encodeIndexKey1 :: "property_value \<Rightarrow> 64 word \<Rightarrow> bytes" where
  "encodeIndexKey1 value entity_id = encodeSortableValue value @ be_bytes 8 entity_id"

definition encodeIndexKey :: "property_value list \<Rightarrow> 64 word \<Rightarrow> bytes" where
  "encodeIndexKey values entity_id = encodeSortableValues values @ be_bytes 8 entity_id"

definition decodeEntityId :: "bytes \<Rightarrow> 64 word" where
  "decodeEntityId key = (if length key < 8 then 0 else be_word (drop (length key - 8) key))"

definition encodeEqualityPrefix1 :: "property_value \<Rightarrow> bytes" where
  "encodeEqualityPrefix1 value = encodeSortableValue value"

definition encodeEqualityPrefix :: "property_value list \<Rightarrow> bytes" where
  "encodeEqualityPrefix values = encodeSortableValues values"

section \<open>The entity id of a key\<close>

lemma decodeEntityId_encode [simp]:
  "decodeEntityId (encodeIndexKey values e) = e"
  "decodeEntityId (encodeIndexKey1 value e) = e"
  by (simp_all add: decodeEntityId_def encodeIndexKey_def encodeIndexKey1_def)

section \<open>Order\<close>

lemma bit_sign_bit: "bit sign_bit n \<longleftrightarrow> n = 63"
proof -
  have "sign_bit = push_bit 63 1" by (simp add: sign_bit_def)
  then have "bit sign_bit n = bit (push_bit 63 1 :: 64 word) n" by (rule arg_cong)
  also have "\<dots> \<longleftrightarrow> n = 63"
    by (simp only: bit_push_bit_iff bit_1_iff) auto
  finally show ?thesis .
qed

lemma sign_bit_and: "w AND sign_bit \<noteq> 0 \<longleftrightarrow> bit w 63"
proof
  assume "w AND sign_bit \<noteq> 0"
  then obtain n where "bit (w AND sign_bit) n" by (auto simp: bit_eq_iff)
  then show "bit w 63" by (auto simp: bit_and_iff bit_sign_bit)
next
  assume "bit w 63"
  then have "bit (w AND sign_bit) 63" by (simp add: bit_and_iff bit_sign_bit)
  then show "w AND sign_bit \<noteq> 0" by auto
qed

text \<open>Flipping the sign bit adds \<open>2 ^ 63\<close> to the signed value.\<close>

lemma uint_flip_pos: "\<not> bit w 63 \<Longrightarrow> uint (w XOR sign_bit) = uint (w :: 64 word) + 2 ^ 63"
proof -
  assume nb: "\<not> bit w 63"
  have "uint w AND uint sign_bit = 0"
    using nb by (intro bit_eqI) (auto simp: bit_and_iff bit_unsigned_iff bit_sign_bit)
  then have "uint w + uint sign_bit = uint w XOR uint sign_bit"
    by (rule disjunctive_add_eq_xor)
  then show ?thesis
    by (simp add: unsigned_xor_eq sign_bit_def)
qed

lemma flip_flip [simp]: "(w XOR sign_bit) XOR sign_bit = w"
  by (simp add: ac_simps)

lemma sint_cases: "sint (w :: 64 word) = (if bit w 63 then uint w - 2 ^ 64 else uint w)"
  using take_bit_int_eq_self [of "uint w" 64] uint_lt2p [of w]
  by (simp add: sint_uint signed_take_bit_eq_take_bit_minus bit_unsigned_iff)

lemma uint_flip_sign: "uint (w XOR sign_bit) = sint (w :: 64 word) + 2 ^ 63"
proof (cases "bit w 63")
  case True
  then have "\<not> bit (w XOR sign_bit) 63"
    by (simp add: bit_xor_iff bit_sign_bit)
  from uint_flip_pos [OF this] True show ?thesis
    by (simp add: sint_cases)
next
  case False
  then show ?thesis by (simp add: uint_flip_pos sint_cases)
qed

lemma be8_less: "be_bytes 8 v < be_bytes 8 w \<longleftrightarrow> uint (v :: 64 word) < uint (w :: 64 word)"
  by (simp add: be_bytes_less_iff word_less_alt)

text \<open>
  The value of an IEEE-754 double, scaled by \<open>2 ^ 1074\<close> so that it is an integer: exponent 0 is
  subnormal, an infinity is larger than every finite magnitude.
\<close>

definition double_mag :: "nat \<Rightarrow> nat" where
  "double_mag m = (if m div 2 ^ 52 = 0 then m else (2 ^ 52 + m mod 2 ^ 52) * 2 ^ (m div 2 ^ 52 - 1))"

definition double_scaled :: "64 word \<Rightarrow> int" where
  "double_scaled d =
     (if bit d 63 then - int (double_mag (unat (take_bit 63 d))) else int (double_mag (unat d)))"

lemma double_mag_Suc: "double_mag m < double_mag (Suc m)"
proof (cases "Suc (m mod 2 ^ 52) = 2 ^ 52")
  case True
  then have e: "Suc m div 2 ^ 52 = Suc (m div 2 ^ 52)" "Suc m mod 2 ^ 52 = 0"
    by (simp_all add: div_Suc mod_Suc)
  show ?thesis
  proof (cases "m div 2 ^ 52")
    case 0
    then have "m < 2 ^ 52" by (simp add: div_eq_0_iff)
    then show ?thesis using 0 e by (simp add: double_mag_def)
  next
    case (Suc k)
    have "m mod 2 ^ 52 < 2 ^ 52" by simp
    then have "(2 ^ 52 + m mod 2 ^ 52) * 2 ^ k < (2 ^ 52 + 2 ^ 52) * 2 ^ k"
      by (intro mult_strict_right_mono) auto
    then show ?thesis using Suc e by (simp add: double_mag_def)
  qed
next
  case False
  then have e: "Suc m div 2 ^ 52 = m div 2 ^ 52" "Suc m mod 2 ^ 52 = Suc (m mod 2 ^ 52)"
    by (simp_all add: div_Suc mod_Suc)
  show ?thesis
    unfolding double_mag_def e by simp
qed

lemma double_mag_mono: "double_mag m < double_mag n \<longleftrightarrow> m < n"
  using lift_Suc_mono_less_iff [of double_mag, OF double_mag_Suc] .

lemma double_mag_0_iff: "double_mag m = 0 \<longleftrightarrow> m = 0"
  using double_mag_mono [of 0 m] by (auto simp: double_mag_def)

lemma uint_NOT: "uint (NOT w) = 2 ^ 64 - 1 - uint (w :: 64 word)"
proof -
  have "uint (NOT w) = (- uint w - 1) mod 2 ^ 64"
    by (subst unsigned_not_eq) (simp add: not_eq_complement take_bit_eq_mod)
  also have "\<dots> = (2 ^ 64 + (- uint w - 1)) mod 2 ^ 64"
    by (rule mod_add_self1 [symmetric])
  also have "\<dots> = 2 ^ 64 - 1 - uint w"
    using uint_lt2p [of w] order_less_le_trans [OF _ uint_ge_0 [of w], of "- 1"]
    by (subst mod_pos_pos_trivial) auto
  finally show ?thesis .
qed

lemma unat_sign:
  assumes "bit d 63"
  shows "int (unat d) = 2 ^ 63 + int (unat (take_bit 63 (d :: 64 word)))"
proof -
  have "take_bit 63 d = d XOR sign_bit"
  proof (rule bit_word_eqI)
    fix n assume "n < LENGTH(64)"
    then have "n < 63 \<or> n = 63" by auto
    with assms show "bit (take_bit 63 d) n \<longleftrightarrow> bit (d XOR sign_bit) n"
      by (auto simp: bit_take_bit_iff bit_xor_iff bit_sign_bit)
  qed
  with assms show ?thesis
    by (simp add: uint_flip_sign sint_cases flip: uint_nat)
qed

lemma uint_flip_double:
  "uint (flip_double d) = (if bit d 63 then 2 ^ 63 - 1 - int (unat (take_bit 63 d)) else 2 ^ 63 + int (unat d))"
  using unat_sign [of d]
  by (simp add: flip_double_def sign_bit_and uint_NOT uint_flip_pos flip: uint_nat)

text \<open>
  Index keys of integers sort as the signed integers do, over the whole 64-bit range, so a range
  scan over the byte order of the index is a range scan over the values.
\<close>

theorem index_int_order:
  "encodeSortableValue (PInt i) < encodeSortableValue (PInt j) \<longleftrightarrow> sint i < sint j"
  by (simp add: be8_less uint_flip_sign)

text \<open>
  Index keys of doubles sort as the numbers do, infinities and subnormals included; the only pair
  of numbers told apart although equal is \<open>-0.0\<close> before \<open>+0.0\<close>.
\<close>

theorem index_double_order:
  "encodeSortableValue (PDouble a) < encodeSortableValue (PDouble b) \<longleftrightarrow>
     double_scaled a < double_scaled b \<or> a = sign_bit \<and> b = 0"
proof -
  have z: "unat (take_bit 63 d) = 0 \<longleftrightarrow> d = sign_bit" if "bit d 63" for d :: "64 word"
  proof
    assume "unat (take_bit 63 d) = 0"
    with unat_sign [OF that] have "uint d = uint sign_bit"
      by (simp add: sign_bit_def flip: uint_nat)
    then show "d = sign_bit" by (rule unsigned_word_eqI)
  qed (simp add: sign_bit_def)
  define f where "f d = unat (if bit d 63 then take_bit 63 d else d)" for d :: "64 word"
  have flip: "uint (flip_double d) = (if bit d 63 then 2 ^ 63 - 1 - int (f d) else 2 ^ 63 + int (f d))"
    and scaled: "double_scaled d = (if bit d 63 then - int (double_mag (f d)) else int (double_mag (f d)))"
    for d by (simp_all only: uint_flip_double double_scaled_def f_def if_True if_False split: if_splits) simp_all
  have zero: "double_mag (f d) = 0 \<longleftrightarrow> (if bit d 63 then d = sign_bit else d = 0)" for d
    using z [of d] by (simp add: double_mag_0_iff f_def unat_eq_zero)
  have "bit sign_bit 63" "\<not> bit (0 :: 64 word) 63" by (simp_all add: bit_sign_bit)
  then show ?thesis
    using zero [of a] zero [of b] double_mag_mono [of "f a" "f b"] double_mag_mono [of "f b" "f a"]
    by (cases "bit a 63"; cases "bit b 63") (auto simp: be8_less flip scaled)
qed

section \<open>Equality prefixes\<close>

text \<open>The indexable types whose encoding has a length fixed by its tag.\<close>

fun fixed_width :: "property_value \<Rightarrow> bool" where
  "fixed_width PNull \<longleftrightarrow> True"
| "fixed_width (PBool _) \<longleftrightarrow> True"
| "fixed_width (PInt _) \<longleftrightarrow> True"
| "fixed_width (PDouble _) \<longleftrightarrow> True"
| "fixed_width _ \<longleftrightarrow> False"

lemma unflip_double:
  "(if bit (flip_double d) 63 then flip_double d XOR sign_bit else NOT (flip_double d)) = d"
  by (simp add: flip_double_def sign_bit_and bit_not_iff bit_xor_iff bit_sign_bit)

lemma flip_double_inject [simp]: "flip_double a = flip_double b \<longleftrightarrow> a = b"
  using unflip_double [of a] unflip_double [of b] by metis

lemma flip_sign_inject [simp]: "i XOR sign_bit = j XOR sign_bit \<longleftrightarrow> i = j"
  by (metis flip_flip)

lemma sortable_prefix_step:
  assumes "fixed_width v" "fixed_width w"
  shows "prefix (encodeSortableValue v @ xs) (encodeSortableValue w @ ys) \<longleftrightarrow> v = w \<and> prefix xs ys"
  using assms by (elim fixed_width.elims(2)) (simp_all add: prefix_fixed_width)

lemma sortable_prefix_iff:
  "length vs = length ws \<Longrightarrow> list_all fixed_width vs \<Longrightarrow> list_all fixed_width ws \<Longrightarrow>
   prefix (encodeSortableValues vs) (encodeSortableValues ws @ rest) \<longleftrightarrow> vs = ws"
  unfolding encodeSortableValues_def
  by (induction vs ws rule: list_induct2) (simp_all add: sortable_prefix_step)

text \<open>
  On booleans, integers, doubles and nulls the equality prefix of a (composite) index selects
  exactly the entries with those values: no entry is missed and no other entry is met.
\<close>

theorem equality_prefix_exact:
  assumes "length vs = length ws" and "list_all fixed_width vs" and "list_all fixed_width ws"
  shows "prefix (encodeEqualityPrefix vs) (encodeIndexKey ws e) \<longleftrightarrow> vs = ws"
  using sortable_prefix_iff [OF assms] by (simp add: encodeEqualityPrefix_def encodeIndexKey_def)

theorem equality_prefix_exact_witness:
  "\<not> prefix (encodeEqualityPrefix [PInt 1, PBool True]) (encodeIndexKey [PInt 1, PBool False] 7)"
  using equality_prefix_exact [of "[PInt 1, PBool True]" "[PInt 1, PBool False]" 7] by simp

text \<open>
  On strings the prefix is not exact: the bytes of a string are not delimited, so the prefix of a
  string meets the entries of every longer string that starts with it.
\<close>

theorem equality_prefix_string_overmatch:
  "prefix (encodeEqualityPrefix [PString s]) (encodeIndexKey [PString (s @ t)] e)"
  by (simp add: encodeEqualityPrefix_def encodeIndexKey_def encodeSortableValues_def
      bytes_of_string_append)

end
