(* ===== verification/Meta_Codec.thy ===== *)
theory Meta_Codec
  imports Graph_Types
begin

text \<open>
  \<^verbatim>\<open>storage/meta/meta_codec.cpp\<close>: the binary form of the schema catalogue (labels, edge labels,
  properties, indexes) and of the id counters.  Unlike the key and value readers, these check
  every length and throw, so a truncated record is an error value and never a bad read.
\<close>

section \<open>Primitive helpers\<close>

abbreviation end_of_data :: "string \<Rightarrow> cpp_error" where
  "end_of_data what \<equiv> Runtime_Error (''MetadataCodec: unexpected end of data decoding '' @ what)"

definition mc_encodeU64 :: "64 word \<Rightarrow> bytes" where
  "mc_encodeU64 val = be_bytes 8 val"

definition mc_decodeU64 :: "bytes \<Rightarrow> nat \<Rightarrow> (64 word \<times> nat) res" where
  "mc_decodeU64 data off =
     (if length data < off + 8 then Inl (end_of_data ''U64'')
      else rbind (read_be 8 data off) (\<lambda>v. Inr (v, off + 8)))"

definition mc_encodeU32 :: "32 word \<Rightarrow> bytes" where
  "mc_encodeU32 val = be_bytes 4 val"

definition mc_decodeU32 :: "bytes \<Rightarrow> nat \<Rightarrow> (32 word \<times> nat) res" where
  "mc_decodeU32 data off =
     (if length data < off + 4 then Inl (end_of_data ''U32'')
      else rbind (read_be 4 data off) (\<lambda>v. Inr (v, off + 4)))"

definition mc_encodeU16 :: "16 word \<Rightarrow> bytes" where
  "mc_encodeU16 val = be_bytes 2 val"

definition mc_decodeU16 :: "bytes \<Rightarrow> nat \<Rightarrow> (16 word \<times> nat) res" where
  "mc_decodeU16 data off =
     (if length data < off + 2 then Inl (end_of_data ''U16'')
      else rbind (read_be 2 data off) (\<lambda>v. Inr (v, off + 2)))"

definition mc_encodeU8 :: "byte \<Rightarrow> bytes" where
  "mc_encodeU8 val = [val]"

definition mc_decodeU8 :: "bytes \<Rightarrow> nat \<Rightarrow> (byte \<times> nat) res" where
  "mc_decodeU8 data off =
     (if length data \<le> off then Inl (end_of_data ''U8'') else Inr (data ! off, off + 1))"

definition encodeString :: "string \<Rightarrow> bytes" where
  "encodeString str = mc_encodeU16 (of_nat (length str)) @ bytes_of_string str"

definition decodeString :: "bytes \<Rightarrow> nat \<Rightarrow> (string \<times> nat) res" where
  "decodeString data off =
     rbind (mc_decodeU16 data off) (\<lambda>(len, off).
       if length data < off + unat len then Inl (end_of_data ''string'')
       else Inr (string_of_bytes (take (unat len) (drop off data)), off + unat len))"

definition encode_bool :: "bool \<Rightarrow> bytes" where
  "encode_bool b = mc_encodeU8 (if b then 1 else 0)"

definition decode_bool :: "bytes \<Rightarrow> nat \<Rightarrow> (bool \<times> nat) res" where
  "decode_bool data off = rbind (mc_decodeU8 data off) (\<lambda>(b, off). Inr (b \<noteq> 0, off))"

text \<open>The counted loops: a 16-bit count, then the elements.\<close>

definition encode_vec :: "('a \<Rightarrow> bytes) \<Rightarrow> 'a list \<Rightarrow> bytes" where
  "encode_vec enc xs = mc_encodeU16 (of_nat (length xs)) @ concat (map enc xs)"

definition decode_vec :: "(bytes \<Rightarrow> nat \<Rightarrow> ('a \<times> nat) res) \<Rightarrow> bytes \<Rightarrow> nat \<Rightarrow> ('a list \<times> nat) res" where
  "decode_vec dec data off =
     rbind (mc_decodeU16 data off) (\<lambda>(count, off). read_n (dec data) (unat count) off)"

section \<open>PropertyValue\<close>

text \<open>\<^verbatim>\<open>value.index()\<close>: the position of the alternative in the variant.\<close>

fun variant_index :: "property_value \<Rightarrow> byte" where
  "variant_index PNull = 0"
| "variant_index (PBool _) = 1"
| "variant_index (PInt _) = 2"
| "variant_index (PDouble _) = 3"
| "variant_index (PString _) = 4"
| "variant_index (PIntArray _) = 5"
| "variant_index (PDoubleArray _) = 6"
| "variant_index (PStringArray _) = 7"
| "variant_index (PDateTime _) = 8"
| "variant_index (PTime _) = 9"
| "variant_index (PDuration _) = 10"
| "variant_index (PDateTimeArray _) = 11"
| "variant_index (PTimeArray _) = 12"
| "variant_index (PDurationArray _) = 13"
| "variant_index (PBytes _) = 14"

fun encode_payload :: "property_value \<Rightarrow> bytes" where
  "encode_payload (PBool b) = encode_bool b"
| "encode_payload (PInt i) = mc_encodeU64 i"
| "encode_payload (PDouble d) = mc_encodeU64 d"
| "encode_payload (PString s) = encodeString s"
| "encode_payload (PIntArray xs) = encode_vec mc_encodeU64 xs"
| "encode_payload (PDoubleArray xs) = encode_vec mc_encodeU64 xs"
| "encode_payload (PStringArray xs) = encode_vec encodeString xs"
| "encode_payload _ = []"

definition encodePropertyValue :: "property_value \<Rightarrow> bytes" where
  "encodePropertyValue value = mc_encodeU8 (variant_index value) @ encode_payload value"

definition decodePropertyValue :: "bytes \<Rightarrow> nat \<Rightarrow> (property_value \<times> nat) res" where
  "decodePropertyValue data off =
     rbind (mc_decodeU8 data off) (\<lambda>(tag, off).
       if tag = 0 then Inr (PNull, off)
       else if tag = 1 then rbind (decode_bool data off) (\<lambda>(b, off). Inr (PBool b, off))
       else if tag = 2 then rbind (mc_decodeU64 data off) (\<lambda>(v, off). Inr (PInt v, off))
       else if tag = 3 then rbind (mc_decodeU64 data off) (\<lambda>(v, off). Inr (PDouble v, off))
       else if tag = 4 then rbind (decodeString data off) (\<lambda>(s, off). Inr (PString s, off))
       else if tag = 5 then rbind (decode_vec mc_decodeU64 data off) (\<lambda>(v, off). Inr (PIntArray v, off))
       else if tag = 6 then rbind (decode_vec mc_decodeU64 data off) (\<lambda>(v, off). Inr (PDoubleArray v, off))
       else if tag = 7 then rbind (decode_vec decodeString data off) (\<lambda>(v, off). Inr (PStringArray v, off))
       else Inl (Runtime_Error ''MetadataCodec: unknown PropertyValue tag''))"

section \<open>PropertyDef, IndexDef\<close>

definition encodePropertyDef :: "property_def \<Rightarrow> bytes" where
  "encodePropertyDef prop =
     mc_encodeU16 (pd_id prop) @ encodeString (pd_name prop) @ mc_encodeU8 (ucast (pd_type prop)) @
     encode_bool (pd_required prop) @ encode_bool (pd_default_value prop \<noteq> None) @
     (case pd_default_value prop of None \<Rightarrow> [] | Some v \<Rightarrow> encodePropertyValue v)"

definition decodePropertyDef :: "bytes \<Rightarrow> nat \<Rightarrow> (property_def \<times> nat) res" where
  "decodePropertyDef data off =
     rbind (mc_decodeU16 data off) (\<lambda>(pid, off).
     rbind (decodeString data off) (\<lambda>(name, off).
     rbind (mc_decodeU8 data off) (\<lambda>(type, off).
     rbind (decode_bool data off) (\<lambda>(required, off).
     rbind (decode_bool data off) (\<lambda>(has_default, off).
     rbind (if has_default then rbind (decodePropertyValue data off) (\<lambda>(v, off). Inr (Some v, off))
            else Inr (None, off)) (\<lambda>(dflt, off).
       Inr (\<lparr>pd_id = pid, pd_name = name, pd_type = ucast type, pd_required = required,
             pd_default_value = dflt\<rparr>, off)))))))"

definition encode_accessor :: "index_accessor_def \<Rightarrow> bytes" where
  "encode_accessor acc =
     encode_bool (acc_is_strong acc) @ mc_encodeU16 (acc_source_label_id acc) @
     encodeString (acc_property_name acc)"

definition decode_accessor :: "bytes \<Rightarrow> nat \<Rightarrow> (index_accessor_def \<times> nat) res" where
  "decode_accessor data off =
     rbind (decode_bool data off) (\<lambda>(strong, off).
     rbind (mc_decodeU16 data off) (\<lambda>(source, off).
     rbind (decodeString data off) (\<lambda>(name, off).
       Inr (\<lparr>acc_is_strong = strong, acc_source_label_id = source, acc_property_name = name\<rparr>, off))))"

definition encodeIndexDef :: "index_def \<Rightarrow> bytes" where
  "encodeIndexDef idx =
     mc_encodeU32 (idx_index_id idx) @ encodeString (idx_name idx) @
     encode_vec encode_accessor (idx_accessors idx) @ encode_vec mc_encodeU16 (idx_prop_ids idx) @
     encode_bool (idx_unique idx) @ mc_encodeU8 (idx_state idx)"

definition decodeIndexDef :: "bytes \<Rightarrow> nat \<Rightarrow> (index_def \<times> nat) res" where
  "decodeIndexDef data off =
     rbind (mc_decodeU32 data off) (\<lambda>(iid, off).
     rbind (decodeString data off) (\<lambda>(name, off).
     rbind (decode_vec decode_accessor data off) (\<lambda>(accessors, off).
     rbind (decode_vec mc_decodeU16 data off) (\<lambda>(prop_ids, off).
     rbind (decode_bool data off) (\<lambda>(unique, off).
     rbind (mc_decodeU8 data off) (\<lambda>(state, off).
       Inr (\<lparr>idx_index_id = iid, idx_name = name, idx_accessors = accessors, idx_prop_ids = prop_ids,
             idx_unique = unique, idx_state = state\<rparr>, off)))))))"

section \<open>LabelDef, EdgeLabelDef, id counters\<close>

definition encodeLabelDef :: "label_def \<Rightarrow> bytes" where
  "encodeLabelDef d =
     mc_encodeU16 (ld_id d) @ encodeString (ld_name d) @ encode_vec encodePropertyDef (ld_properties d) @
     encode_vec mc_encodeU16 (ld_pk_prop_ids d) @ encode_vec encodeIndexDef (ld_indexes d)"

definition decodeLabelDef :: "bytes \<Rightarrow> label_def res" where
  "decodeLabelDef data =
     rbind (mc_decodeU16 data 0) (\<lambda>(lid, off).
     rbind (decodeString data off) (\<lambda>(name, off).
     rbind (decode_vec decodePropertyDef data off) (\<lambda>(properties, off).
     rbind (decode_vec mc_decodeU16 data off) (\<lambda>(pk, off).
     rbind (decode_vec decodeIndexDef data off) (\<lambda>(indexes, off).
       Inr \<lparr>ld_id = lid, ld_name = name, ld_properties = properties, ld_pk_prop_ids = pk,
            ld_indexes = indexes\<rparr>)))))"

definition encodeEdgeLabelDef :: "edge_label_def \<Rightarrow> bytes" where
  "encodeEdgeLabelDef d =
     mc_encodeU16 (eld_id d) @ encodeString (eld_name d) @ encode_vec encodePropertyDef (eld_properties d) @
     encode_bool (eld_directed d) @ encode_vec encodeIndexDef (eld_indexes d)"

definition decodeEdgeLabelDef :: "bytes \<Rightarrow> edge_label_def res" where
  "decodeEdgeLabelDef data =
     rbind (mc_decodeU16 data 0) (\<lambda>(lid, off).
     rbind (decodeString data off) (\<lambda>(name, off).
     rbind (decode_vec decodePropertyDef data off) (\<lambda>(properties, off).
     rbind (decode_bool data off) (\<lambda>(directed, off).
     rbind (decode_vec decodeIndexDef data off) (\<lambda>(indexes, off).
       Inr \<lparr>eld_id = lid, eld_name = name, eld_properties = properties, eld_directed = directed,
            eld_indexes = indexes\<rparr>)))))"

record next_ids =
  next_vertex_id :: vertex_id
  next_edge_id :: edge_id
  next_label_id :: label_id
  next_edge_label_id :: edge_label_id
  next_index_id :: "32 word"

definition encodeNextIds :: "next_ids \<Rightarrow> bytes" where
  "encodeNextIds n =
     mc_encodeU64 (next_vertex_id n) @ mc_encodeU64 (next_edge_id n) @ mc_encodeU16 (next_label_id n) @
     mc_encodeU16 (next_edge_label_id n) @ mc_encodeU32 (next_index_id n)"

definition decodeNextIds :: "bytes \<Rightarrow> next_ids res" where
  "decodeNextIds data =
     rbind (mc_decodeU64 data 0) (\<lambda>(vid, off).
     rbind (mc_decodeU64 data off) (\<lambda>(eid, off).
     rbind (mc_decodeU16 data off) (\<lambda>(lid, off).
     rbind (mc_decodeU16 data off) (\<lambda>(elid, off).
     rbind (mc_decodeU32 data off) (\<lambda>(iid, off).
       Inr \<lparr>next_vertex_id = vid, next_edge_id = eid, next_label_id = lid, next_edge_label_id = elid,
            next_index_id = iid\<rparr>)))))"

section \<open>What fits the format\<close>

text \<open>
  Lengths and counts are written as 16-bit numbers, a property type as one byte, and a default
  value only has a payload for the types up to string arrays.
\<close>

definition str_fits :: "string \<Rightarrow> bool" where
  "str_fits s \<longleftrightarrow> length s < 2 ^ 16"

definition vec_fits :: "('a \<Rightarrow> bool) \<Rightarrow> 'a list \<Rightarrow> bool" where
  "vec_fits P xs \<longleftrightarrow> length xs < 2 ^ 16 \<and> list_all P xs"

fun default_fits :: "property_value \<Rightarrow> bool" where
  "default_fits PNull \<longleftrightarrow> True"
| "default_fits (PBool _) \<longleftrightarrow> True"
| "default_fits (PInt _) \<longleftrightarrow> True"
| "default_fits (PDouble _) \<longleftrightarrow> True"
| "default_fits (PString s) \<longleftrightarrow> str_fits s"
| "default_fits (PIntArray xs) \<longleftrightarrow> length xs < 2 ^ 16"
| "default_fits (PDoubleArray xs) \<longleftrightarrow> length xs < 2 ^ 16"
| "default_fits (PStringArray xs) \<longleftrightarrow> vec_fits str_fits xs"
| "default_fits _ \<longleftrightarrow> False"

definition prop_fits :: "property_def \<Rightarrow> bool" where
  "prop_fits p \<longleftrightarrow> str_fits (pd_name p) \<and> pd_type p < 256 \<and>
     (case pd_default_value p of None \<Rightarrow> True | Some v \<Rightarrow> default_fits v)"

definition index_fits :: "index_def \<Rightarrow> bool" where
  "index_fits i \<longleftrightarrow> str_fits (idx_name i) \<and>
     vec_fits (\<lambda>a. str_fits (acc_property_name a)) (idx_accessors i) \<and> length (idx_prop_ids i) < 2 ^ 16"

definition label_fits :: "label_def \<Rightarrow> bool" where
  "label_fits d \<longleftrightarrow> str_fits (ld_name d) \<and> vec_fits prop_fits (ld_properties d) \<and>
     length (ld_pk_prop_ids d) < 2 ^ 16 \<and> vec_fits index_fits (ld_indexes d)"

definition edge_label_fits :: "edge_label_def \<Rightarrow> bool" where
  "edge_label_fits d \<longleftrightarrow> str_fits (eld_name d) \<and> vec_fits prop_fits (eld_properties d) \<and>
     vec_fits index_fits (eld_indexes d)"

section \<open>Field-by-field reading\<close>

text \<open>
  The contract of a field: wherever the encoding of a fitting value stands, the reader returns the
  value and the offset behind it.  The contract is closed under vectors, so each record is
  verified by splitting its bytes along its fields.
\<close>

locale field_codec =
  fixes enc :: "'a \<Rightarrow> bytes" and dec :: "bytes \<Rightarrow> nat \<Rightarrow> ('a \<times> nat) res" and fits :: "'a \<Rightarrow> bool"
  assumes reads: "fits x \<Longrightarrow> enc_at data off (enc x) \<Longrightarrow> dec data off = Inr (x, off + length (enc x))"
begin

lemma vec_reads:
  assumes "vec_fits fits xs" and "enc_at data off (encode_vec enc xs)"
  shows "decode_vec dec data off = Inr (xs, off + length (encode_vec enc xs))"
proof -
  have u: "unat (of_nat (length xs) :: 16 word) = length xs"
    using assms(1) by (simp add: unat_of_nat vec_fits_def)
  from assms(2) have cnt: "enc_at data off (mc_encodeU16 (of_nat (length xs)))"
    and at: "enc_at data (off + 2) (concat (map enc xs))"
    by (simp_all add: encode_vec_def enc_at_append mc_encodeU16_def)
  from cnt have "mc_decodeU16 data off = Inr (of_nat (length xs), off + 2)"
    using enc_at_length [OF cnt] by (simp add: mc_decodeU16_def mc_encodeU16_def read_be_at)
  moreover have "read_n (dec data) (length xs) (off + 2) =
      Inr (map id xs, off + 2 + length (concat (map enc xs)))"
    using assms(1) by (intro read_n_at [OF at]) (auto simp: vec_fits_def list_all_iff reads)
  ultimately show ?thesis
    using u by (simp add: decode_vec_def encode_vec_def mc_encodeU16_def)
qed

lemma roundtrip: "fits x \<Longrightarrow> rbind (dec (enc x) 0) (\<lambda>(y, _). Inr y) = Inr x"
  using reads [OF _ enc_at_self] by simp

end


lemma mc_lengths [simp, codec_len]:
  "length (mc_encodeU64 a) = 8" "length (mc_encodeU32 b) = 4" "length (mc_encodeU16 c) = 2"
  "length (mc_encodeU8 d) = 1" "length (encode_bool e) = 1"
  by (simp_all add: mc_encodeU64_def mc_encodeU32_def mc_encodeU16_def mc_encodeU8_def encode_bool_def)

interpretation u64: field_codec mc_encodeU64 mc_decodeU64 "\<lambda>_. True"
  by unfold_locales
    (auto simp: mc_encodeU64_def mc_decodeU64_def read_be_at dest: enc_at_length)

interpretation u32: field_codec mc_encodeU32 mc_decodeU32 "\<lambda>_. True"
  by unfold_locales
    (auto simp: mc_encodeU32_def mc_decodeU32_def read_be_at dest: enc_at_length)

interpretation u16: field_codec mc_encodeU16 mc_decodeU16 "\<lambda>_. True"
  by unfold_locales
    (auto simp: mc_encodeU16_def mc_decodeU16_def read_be_at dest: enc_at_length)

interpretation u8: field_codec mc_encodeU8 mc_decodeU8 "\<lambda>_. True"
  by unfold_locales (auto simp: mc_encodeU8_def mc_decodeU8_def enc_at_Cons byte_is_def)

interpretation flag: field_codec encode_bool decode_bool "\<lambda>_. True"
  by unfold_locales (auto simp: encode_bool_def decode_bool_def u8.reads)

interpretation str: field_codec encodeString decodeString str_fits
proof unfold_locales
  fix s data off
  assume fits: "str_fits s" and at: "enc_at data off (encodeString s)"
  from fits have u: "unat (of_nat (length s) :: 16 word) = length s"
    by (simp add: str_fits_def unat_of_nat)
  from at have "enc_at data (off + 2) (bytes_of_string s)"
    by (simp add: encodeString_def enc_at_append)
  from enc_at_take [OF this] enc_at_length [OF this]
  have "take (length s) (drop (off + 2) data) = bytes_of_string s" "off + 2 + length s \<le> length data"
    by simp_all
  moreover from at have "mc_decodeU16 data off = Inr (of_nat (length s), off + 2)"
    by (auto simp: encodeString_def enc_at_append u16.reads)
  ultimately show "decodeString data off = Inr (s, off + length (encodeString s))"
    using u by (simp add: decodeString_def encodeString_def)
qed

lemmas field_reads = u64.reads [simplified] u32.reads [simplified] u16.reads [simplified]
  u8.reads [simplified] flag.reads [simplified] str.reads

lemma vec_fits_True [simp]: "vec_fits (\<lambda>_. True) xs \<longleftrightarrow> length xs < 2 ^ 16"
  by (simp add: vec_fits_def list_all_iff)

interpretation pvalue: field_codec encodePropertyValue decodePropertyValue default_fits
proof unfold_locales
  fix v data off
  assume "default_fits v" "enc_at data off (encodePropertyValue v)"
  then show "decodePropertyValue data off = Inr (v, off + length (encodePropertyValue v))"
    by (cases v)
      (auto simp: encodePropertyValue_def decodePropertyValue_def enc_at_append field_reads
        u64.vec_reads str.vec_reads)
qed

lemma ucast_type: "t < 256 \<Longrightarrow> ucast (ucast t :: byte) = (t :: property_type)"
proof -
  assume "t < 256"
  then have "uint t < 256" by (simp add: word_less_alt)
  then have "uint (ucast (ucast t :: byte) :: property_type) = uint t"
    by (simp add: unsigned_ucast_eq take_bit_eq_mod word_mod_def take_bit_int_eq_self)
  then show ?thesis by (rule unsigned_word_eqI)
qed

interpretation pdef: field_codec encodePropertyDef decodePropertyDef prop_fits
proof unfold_locales
  fix p data off
  assume "prop_fits p" "enc_at data off (encodePropertyDef p)"
  then show "decodePropertyDef data off = Inr (p, off + length (encodePropertyDef p))"
    by (cases "pd_default_value p")
      (auto simp: encodePropertyDef_def decodePropertyDef_def prop_fits_def enc_at_append field_reads
        pvalue.reads ucast_type)
qed

interpretation accessor: field_codec encode_accessor decode_accessor "\<lambda>a. str_fits (acc_property_name a)"
  by unfold_locales
    (auto simp: encode_accessor_def decode_accessor_def enc_at_append field_reads)

interpretation idef: field_codec encodeIndexDef decodeIndexDef index_fits
  by unfold_locales
    (auto simp: encodeIndexDef_def decodeIndexDef_def index_fits_def enc_at_append field_reads
      accessor.vec_reads u16.vec_reads)

section \<open>Catalogue records\<close>

interpretation label_def_codec: codec encodeLabelDef decodeLabelDef label_fits
proof unfold_locales
  fix d assume "label_fits d"
  then show "decodeLabelDef (encodeLabelDef d) = Inr d"
    using enc_at_self [of "encodeLabelDef d"]
    by (auto simp: encodeLabelDef_def decodeLabelDef_def label_fits_def enc_at_append field_reads
        pdef.vec_reads u16.vec_reads idef.vec_reads)
qed

interpretation edge_label_def_codec: codec encodeEdgeLabelDef decodeEdgeLabelDef edge_label_fits
proof unfold_locales
  fix d assume "edge_label_fits d"
  then show "decodeEdgeLabelDef (encodeEdgeLabelDef d) = Inr d"
    using enc_at_self [of "encodeEdgeLabelDef d"]
    by (auto simp: encodeEdgeLabelDef_def decodeEdgeLabelDef_def edge_label_fits_def enc_at_append
        field_reads pdef.vec_reads idef.vec_reads)
qed

interpretation next_ids_codec: codec encodeNextIds decodeNextIds "\<lambda>_. True"
proof unfold_locales
  fix n show "decodeNextIds (encodeNextIds n) = Inr n"
    using enc_at_self [of "encodeNextIds n"]
    by (auto simp: encodeNextIds_def decodeNextIds_def enc_at_append field_reads)
qed

text \<open>
  C28. A label definition that fits the format (names and counts below \<open>2 ^ 16\<close>, default values up to
  string arrays) is read back exactly as it was stored: properties, primary key and indexes.
\<close>

theorem label_def_roundtrip: "label_fits d \<Longrightarrow> decodeLabelDef (encodeLabelDef d) = Inr d"
  by (rule label_def_codec.dec_enc)

definition sample_label :: label_def where
  "sample_label = \<lparr>ld_id = 3, ld_name = ''Person'',
     ld_properties = [\<lparr>pd_id = 0, pd_name = ''age'', pd_type = PT_INT64, pd_required = True,
                       pd_default_value = Some (PInt 7)\<rparr>],
     ld_pk_prop_ids = [0],
     ld_indexes = [\<lparr>idx_index_id = 1, idx_name = ''i'', idx_accessors = [], idx_prop_ids = [0],
                    idx_unique = True, idx_state = PUBLIC\<rparr>]\<rparr>"

theorem label_def_roundtrip_witness: "decodeLabelDef (encodeLabelDef sample_label) = Inr sample_label"
  by (rule label_def_roundtrip)
    (simp add: sample_label_def label_fits_def prop_fits_def index_fits_def vec_fits_def str_fits_def)

text \<open>
  The same holds for an edge label definition.
\<close>

theorem edge_label_def_roundtrip:
  "edge_label_fits d \<Longrightarrow> decodeEdgeLabelDef (encodeEdgeLabelDef d) = Inr d"
  by (rule edge_label_def_codec.dec_enc)

definition sample_edge_label :: edge_label_def where
  "sample_edge_label = \<lparr>eld_id = 2, eld_name = ''KNOWS'', eld_properties = ld_properties sample_label,
     eld_directed = True, eld_indexes = ld_indexes sample_label\<rparr>"

theorem edge_label_def_roundtrip_witness:
  "decodeEdgeLabelDef (encodeEdgeLabelDef sample_edge_label) = Inr sample_edge_label"
  by (rule edge_label_def_roundtrip)
    (simp add: sample_edge_label_def sample_label_def edge_label_fits_def prop_fits_def index_fits_def
      vec_fits_def str_fits_def)

text \<open>
  A default value of a temporal or byte-string type is written as a bare tag that no reader
  accepts: storing a property definition with such a default makes the record unreadable.
\<close>

theorem temporal_default_unreadable:
  assumes "8 \<le> variant_index v" and "pd_default_value p = Some v" and "str_fits (pd_name p)"
  shows "decodePropertyDef (encodePropertyDef p) 0 =
    Inl (Runtime_Error ''MetadataCodec: unknown PropertyValue tag'')"
proof -
  have tags: "variant_index v \<notin> {0, 1, 2, 3, 4, 5, 6, 7}"
    using assms(1) by (auto simp: word_le_nat_alt)
  show ?thesis
    using enc_at_self [of "encodePropertyDef p"] assms(2,3) tags
    by (auto simp: encodePropertyDef_def decodePropertyDef_def encodePropertyValue_def
        decodePropertyValue_def enc_at_append field_reads)
qed

theorem temporal_default_unreadable_witness:
  "decodePropertyDef (encodePropertyDef
      \<lparr>pd_id = 0, pd_name = ''t'', pd_type = PT_BYTES, pd_required = False, pd_default_value = Some (PBytes [1])\<rparr>) 0 =
    Inl (Runtime_Error ''MetadataCodec: unknown PropertyValue tag'')"
  by (rule temporal_default_unreadable [where v = "PBytes [1]"]) (simp_all add: str_fits_def)

end
