(* ===== verification/Txn_Controller.thy ===== *)
theory Txn_Controller
  imports Prelude
begin

text \<open>
  \<^verbatim>\<open>storage/data/session_types.hpp\<close>, \<^verbatim>\<open>storage/wt_error.hpp\<close> and
  \<^verbatim>\<open>storage/data/txn_controller.hpp\<close>: the pure logic of a transaction, without any storage call.
  Error messages are diagnostics only and are not modelled.
\<close>

section \<open>WiredTiger return codes and their classes\<close>

datatype wt_ret = RET_OK | RET_EBUSY | RET_ENOENT | RET_EINVAL | RET_NOTFOUND | RET_ROLLBACK
  | RET_CACHE_OVERFLOW | RET_PANIC | RET_OTHER int

datatype txn_kind = Kind_None | Kind_Read | Kind_Write

datatype txn_state = Txn_None | Txn_Active | Txn_Committed | Txn_RolledBack | Txn_Failed

datatype txn_error_class = Err_None | Err_Busy | Err_Rollback | Err_CacheOverflow | Err_Panic | Err_Unknown

fun is_retryable :: "txn_error_class \<Rightarrow> bool" where
  "is_retryable cls \<longleftrightarrow> cls = Err_Busy"

fun poisons_session :: "txn_error_class \<Rightarrow> bool" where
  "poisons_session cls \<longleftrightarrow>
     cls = Err_Rollback \<or> cls = Err_CacheOverflow \<or> cls = Err_Panic \<or> cls = Err_Unknown"

fun classifyWtError :: "wt_ret \<Rightarrow> txn_error_class" where
  "classifyWtError RET_OK = Err_None"
| "classifyWtError RET_EBUSY = Err_Busy"
| "classifyWtError RET_ROLLBACK = Err_Rollback"
| "classifyWtError RET_CACHE_OVERFLOW = Err_CacheOverflow"
| "classifyWtError RET_PANIC = Err_Panic"
| "classifyWtError _ = Err_Unknown"

section \<open>Outcomes and the sticky error\<close>

record txn_outcome =
  oc_state :: txn_state
  oc_wt_error :: wt_ret
  oc_error_class :: txn_error_class

definition no_outcome :: txn_outcome where
  "no_outcome = \<lparr>oc_state = Txn_None, oc_wt_error = RET_OK, oc_error_class = Err_None\<rparr>"

definition oc_committed :: "txn_outcome \<Rightarrow> bool" where
  "oc_committed out \<longleftrightarrow> oc_state out = Txn_Committed"

definition oc_failed :: "txn_outcome \<Rightarrow> bool" where
  "oc_failed out \<longleftrightarrow> oc_state out = Txn_Failed"

definition effective_error_class :: "txn_outcome \<Rightarrow> txn_error_class" where
  "effective_error_class out =
     (if oc_failed out \<and> oc_error_class out = Err_None then Err_Unknown else oc_error_class out)"

definition oc_retryable :: "txn_outcome \<Rightarrow> bool" where
  "oc_retryable out \<longleftrightarrow> oc_failed out \<and> is_retryable (effective_error_class out)"

definition oc_poisons :: "txn_outcome \<Rightarrow> bool" where
  "oc_poisons out \<longleftrightarrow> oc_failed out \<and> poisons_session (effective_error_class out)"

record sticky_error =
  se_has :: bool
  se_outcome :: txn_outcome

definition se_init :: sticky_error where
  "se_init = \<lparr>se_has = False, se_outcome = no_outcome\<rparr>"

definition se_set :: "txn_outcome \<Rightarrow> sticky_error \<Rightarrow> sticky_error" where
  "se_set out e = (if \<not> se_has e \<and> oc_failed out then \<lparr>se_has = True, se_outcome = out\<rparr> else e)"

definition se_set_message :: "txn_error_class \<Rightarrow> sticky_error \<Rightarrow> sticky_error" where
  "se_set_message cls e =
     (if \<not> se_has e
      then \<lparr>se_has = True, se_outcome = (se_outcome e)\<lparr>oc_state := Txn_Failed, oc_error_class := cls\<rparr>\<rparr>
      else e)"

definition se_fatal :: "sticky_error \<Rightarrow> bool" where
  "se_fatal e \<longleftrightarrow> se_has e \<and> poisons_session (effective_error_class (se_outcome e))"

definition se_error_class :: "sticky_error \<Rightarrow> txn_error_class" where
  "se_error_class e = (if se_has e then effective_error_class (se_outcome e) else Err_None)"

definition se_clear :: "sticky_error \<Rightarrow> sticky_error" where
  "se_clear e = se_init"

lemma se_set_has [simp]: "se_has (se_set out e) \<longleftrightarrow> se_has e \<or> oc_failed out"
  by (simp add: se_set_def)

lemma se_set_first [simp]: "se_has e \<Longrightarrow> se_set out e = e"
  by (simp add: se_set_def)

lemma se_clear_has [simp]: "\<not> se_has (se_clear e)" "\<not> se_has se_init"
  by (simp_all add: se_clear_def se_init_def)

text \<open>A failure is either retryable or poisons the session, never both and never neither.\<close>

lemma failed_retryable_or_poisons: "oc_failed out \<Longrightarrow> oc_retryable out \<noteq> oc_poisons out"
  by (cases "oc_error_class out")
    (simp_all add: oc_retryable_def oc_poisons_def effective_error_class_def)

section \<open>The transaction controller\<close>

record txn_controller =
  tc_state :: txn_state
  tc_kind :: txn_kind
  tc_open :: bool

definition tc_init :: txn_controller where
  "tc_init = \<lparr>tc_state = Txn_None, tc_kind = Kind_None, tc_open = False\<rparr>"

definition tc_begin :: "txn_kind \<Rightarrow> txn_controller \<Rightarrow> bool \<times> txn_controller" where
  "tc_begin kind c =
     (if tc_state c = Txn_Active \<or> tc_state c = Txn_Failed \<or> tc_open c then (False, c)
      else (True, \<lparr>tc_state = Txn_Active, tc_kind = kind, tc_open = True\<rparr>))"

definition tc_commit_request :: "txn_controller \<Rightarrow> txn_kind option" where
  "tc_commit_request c = (if tc_state c \<noteq> Txn_Active \<or> \<not> tc_open c then None else Some (tc_kind c))"

definition tc_on_commit_result :: "txn_outcome \<Rightarrow> txn_controller \<Rightarrow> txn_controller" where
  "tc_on_commit_result out c =
     (if \<not> tc_open c then c\<lparr>tc_state := Txn_Failed, tc_kind := Kind_None\<rparr>
      else \<lparr>tc_state = (if oc_committed out then Txn_Committed
                         else if oc_retryable out then Txn_RolledBack else Txn_Failed),
            tc_kind = Kind_None, tc_open = False\<rparr>)"

definition tc_on_rollback :: "txn_controller \<Rightarrow> txn_controller" where
  "tc_on_rollback c =
     c\<lparr>tc_open := False, tc_state := (if tc_state c = Txn_Active then Txn_RolledBack else tc_state c),
       tc_kind := Kind_None\<rparr>"

definition tc_poison :: "txn_controller \<Rightarrow> txn_controller" where
  "tc_poison c = c\<lparr>tc_state := Txn_Failed, tc_kind := Kind_None\<rparr>"

definition tc_active :: "txn_controller \<Rightarrow> bool" where
  "tc_active c \<longleftrightarrow> tc_state c = Txn_Active"

definition tc_poisoned :: "txn_controller \<Rightarrow> bool" where
  "tc_poisoned c \<longleftrightarrow> tc_state c = Txn_Failed"

definition tc_reset :: "txn_controller \<Rightarrow> txn_controller" where
  "tc_reset c =
     (if tc_state c \<noteq> Txn_Failed then \<lparr>tc_state = Txn_None, tc_kind = Kind_None, tc_open = False\<rparr>
      else c\<lparr>tc_open := False\<rparr>)"

lemmas tc_defs = tc_begin_def tc_on_commit_result_def tc_on_rollback_def tc_poison_def tc_reset_def

section \<open>The controller as a state machine\<close>

text \<open>
  The events of one controller.  The session reports a commit result only after
  \<^const>\<open>tc_commit_request\<close> allowed the commit; every other event may come in any state.
\<close>

datatype tc_event = Ev_Begin txn_kind | Ev_CommitResult txn_outcome | Ev_Rollback | Ev_Poison | Ev_Reset

inductive tc_step :: "txn_controller \<Rightarrow> tc_event \<Rightarrow> txn_controller \<Rightarrow> bool" where
  step_begin: "tc_step c (Ev_Begin kind) (snd (tc_begin kind c))"
| step_commit: "tc_commit_request c = Some kind \<Longrightarrow>
    tc_step c (Ev_CommitResult out) (tc_on_commit_result out c)"
| step_rollback: "tc_step c Ev_Rollback (tc_on_rollback c)"
| step_poison: "tc_step c Ev_Poison (tc_poison c)"
| step_reset: "tc_step c Ev_Reset (tc_reset c)"

inductive_cases tc_stepE [elim]: "tc_step c ev c'"

inductive tc_run :: "txn_controller \<Rightarrow> tc_event list \<Rightarrow> txn_controller \<Rightarrow> bool" where
  run_nil: "tc_run c [] c"
| run_snoc: "tc_run c evs c1 \<Longrightarrow> tc_step c1 ev c2 \<Longrightarrow> tc_run c (evs @ [ev]) c2"

text \<open>
  The consistency of the two views of a transaction: the logical state and whether the engine's
  transaction is still open.
\<close>

definition tc_inv :: "txn_controller \<Rightarrow> bool" where
  "tc_inv c \<longleftrightarrow>
     (tc_state c = Txn_Active \<longrightarrow> tc_open c) \<and>
     (tc_open c \<longrightarrow> tc_state c = Txn_Active \<or> tc_state c = Txn_Failed) \<and>
     (tc_kind c \<noteq> Kind_None \<longrightarrow> tc_state c = Txn_Active)"

lemma tc_step_inv: "tc_step c ev c' \<Longrightarrow> tc_inv c \<Longrightarrow> tc_inv c'"
  by (erule tc_stepE) (auto simp: tc_inv_def tc_defs)

lemma tc_step_failed: "tc_step c ev c' \<Longrightarrow> tc_poisoned c \<Longrightarrow> tc_poisoned c'"
  by (erule tc_stepE) (auto simp: tc_poisoned_def tc_defs tc_commit_request_def split: if_splits)

lemma tc_run_inv: "tc_run c evs c' \<Longrightarrow> tc_inv c \<Longrightarrow> tc_inv c'"
  by (induction rule: tc_run.induct) (auto intro: tc_step_inv)

lemma tc_run_failed: "tc_run c evs c' \<Longrightarrow> tc_poisoned c \<Longrightarrow> tc_poisoned c'"
  by (induction rule: tc_run.induct) (auto intro: tc_step_failed)

lemma tc_inv_init: "tc_inv tc_init"
  by (simp add: tc_inv_def tc_init_def)

text \<open>
  C27. In every state a transaction controller can reach, an active transaction is open in the engine,
  an open one is active or failed (never silently forgotten), and the kind is set only while active.
\<close>

theorem controller_consistent: "tc_run tc_init evs c \<Longrightarrow> tc_inv c"
  by (rule tc_run_inv [OF _ tc_inv_init])

definition sample_events :: "tc_event list" where
  "sample_events = [Ev_Begin Kind_Write, Ev_Poison]"

lemma sample_run: "tc_run tc_init sample_events \<lparr>tc_state = Txn_Failed, tc_kind = Kind_None, tc_open = True\<rparr>"
proof -
  have "tc_run tc_init ([] @ [Ev_Begin Kind_Write]) (snd (tc_begin Kind_Write tc_init))"
    by (rule run_snoc [OF run_nil step_begin])
  from run_snoc [OF this step_poison] show ?thesis
    by (simp add: sample_events_def tc_poison_def tc_begin_def tc_init_def)
qed

theorem controller_consistent_witness:
  "tc_inv \<lparr>tc_state = Txn_Failed, tc_kind = Kind_None, tc_open = True\<rparr>"
  by (rule controller_consistent [OF sample_run])

text \<open>
  A poisoned controller stays poisoned whatever happens next: neither a rollback nor a reset nor a
  new begin makes the session usable again, so a poisoned session never starts another transaction.
\<close>

theorem poison_permanent:
  "tc_run c evs c' \<Longrightarrow> tc_poisoned c \<Longrightarrow> tc_poisoned c' \<and> tc_begin kind c' = (False, c')"
  using tc_run_failed [of c evs c'] by (auto simp: tc_begin_def tc_poisoned_def)

theorem poison_permanent_witness:
  "tc_poisoned (tc_reset (tc_poison tc_init)) \<and> fst (tc_begin Kind_Read (tc_reset (tc_poison tc_init))) = False"
  using poison_permanent [OF run_snoc [OF run_nil step_reset, of "tc_poison tc_init"], of Kind_Read]
  by (simp add: tc_poisoned_def tc_poison_def)

end
