(* ===== verification/WT_Engine.thy ===== *)
theory WT_Engine
  imports Txn_Controller
begin

text \<open>
  WiredTiger is a third-party library: the model takes it as a parameter, a record of the calls the
  storage layer makes on a \<^verbatim>\<open>WT_SESSION\<close> and its cursors.  The hidden state \<open>'s\<close> holds the tables, the
  running transaction and whatever decides that a call fails; every call may return any error.
  A cursor position is a value (the record it stands on), held by the caller.

  The locale \<open>wiredtiger\<close> is the documented behaviour the code relies on; \<open>reliable_wiredtiger\<close> adds
  that no call fails for a reason outside the data.
\<close>

section \<open>The calls\<close>

type_synonym wt_position = "bytes \<times> bytes"
type_synonym db = "string \<Rightarrow> bytes \<Rightarrow> bytes option"

record 's wt_engine =
  wt_open_cursor :: "string \<Rightarrow> 's \<Rightarrow> wt_ret \<times> 's"
  wt_insert :: "string \<Rightarrow> bytes \<Rightarrow> bytes \<Rightarrow> 's \<Rightarrow> wt_ret \<times> 's"
  wt_remove :: "string \<Rightarrow> bytes \<Rightarrow> 's \<Rightarrow> wt_ret \<times> 's"
  wt_search :: "string \<Rightarrow> bytes \<Rightarrow> 's \<Rightarrow> wt_ret \<times> wt_position \<times> 's"
  wt_search_near :: "string \<Rightarrow> bytes \<Rightarrow> 's \<Rightarrow> wt_ret \<times> int \<times> wt_position \<times> 's"
  wt_next :: "string \<Rightarrow> wt_position option \<Rightarrow> 's \<Rightarrow> wt_ret \<times> wt_position \<times> 's"
  wt_reset :: "string \<Rightarrow> 's \<Rightarrow> wt_ret \<times> 's"
  wt_get_key :: "string \<Rightarrow> wt_position \<Rightarrow> 's \<Rightarrow> wt_ret \<times> bytes"
  wt_get_value :: "string \<Rightarrow> wt_position \<Rightarrow> 's \<Rightarrow> wt_ret \<times> bytes"
  wt_create :: "string \<Rightarrow> 's \<Rightarrow> wt_ret \<times> 's"
  wt_drop :: "string \<Rightarrow> 's \<Rightarrow> wt_ret \<times> 's"
  wt_checkpoint :: "'s \<Rightarrow> wt_ret \<times> 's"
  wt_begin_transaction :: "'s \<Rightarrow> wt_ret \<times> 's"
  wt_commit_transaction :: "'s \<Rightarrow> wt_ret \<times> 's"
  wt_rollback_transaction :: "'s \<Rightarrow> wt_ret \<times> 's"

section \<open>Tables as finite ordered maps\<close>

definition db_put :: "string \<Rightarrow> bytes \<Rightarrow> bytes \<Rightarrow> db \<Rightarrow> db" where
  "db_put t k v d = d(t := (d t)(k \<mapsto> v))"

definition db_del :: "string \<Rightarrow> bytes \<Rightarrow> db \<Rightarrow> db" where
  "db_del t k d = d(t := (d t)(k := None))"

definition db_drop :: "string \<Rightarrow> db \<Rightarrow> db" where
  "db_drop t d = d(t := Map.empty)"

lemma db_put_apply: "db_put t k v d t' k' = (if t = t' \<and> k = k' then Some v else d t' k')"
  by (simp add: db_put_def)

lemma db_del_apply: "db_del t k d t' k' = (if t = t' \<and> k = k' then None else d t' k')"
  by (simp add: db_del_def)

lemma db_drop_apply: "db_drop t d t' = (if t = t' then Map.empty else d t')"
  by (simp add: db_drop_def)

lemmas db_apply = db_put_apply db_del_apply db_drop_apply

text \<open>\<open>is_next m k k'\<close>: \<open>k'\<close> is the record behind \<open>k\<close> in key order.\<close>

definition is_first :: "(bytes \<Rightarrow> bytes option) \<Rightarrow> bytes \<Rightarrow> bool" where
  "is_first m k \<longleftrightarrow> k \<in> dom m \<and> (\<forall>j \<in> dom m. k \<le> j)"

definition is_next :: "(bytes \<Rightarrow> bytes option) \<Rightarrow> bytes \<Rightarrow> bytes \<Rightarrow> bool" where
  "is_next m k k' \<longleftrightarrow> k' \<in> dom m \<and> k < k' \<and> (\<forall>j \<in> dom m. k < j \<longrightarrow> k' \<le> j)"

definition is_prev :: "(bytes \<Rightarrow> bytes option) \<Rightarrow> bytes \<Rightarrow> bytes \<Rightarrow> bool" where
  "is_prev m k k' \<longleftrightarrow> k' \<in> dom m \<and> k' < k \<and> (\<forall>j \<in> dom m. j < k \<longrightarrow> j \<le> k')"

section \<open>The contract\<close>

locale wiredtiger =
  fixes w :: "'s wt_engine" and view :: "'s \<Rightarrow> db" and committed :: "'s \<Rightarrow> db" and in_txn :: "'s \<Rightarrow> bool"
  assumes finite_view: "finite (dom (view s t))"
    and open_cursor_same: "wt_open_cursor w t s = (r, s') \<Longrightarrow>
      view s' = view s \<and> committed s' = committed s \<and> in_txn s' = in_txn s"
    and insert_ok: "wt_insert w t k v s = (RET_OK, s') \<Longrightarrow> view s' = db_put t k v (view s)"
    and insert_err: "wt_insert w t k v s = (r, s') \<Longrightarrow> r \<noteq> RET_OK \<Longrightarrow> view s' = view s"
    and insert_txn: "wt_insert w t k v s = (r, s') \<Longrightarrow> in_txn s' = in_txn s \<and>
      (in_txn s \<longrightarrow> committed s' = committed s)"
    and remove_ok: "wt_remove w t k s = (RET_OK, s') \<Longrightarrow> view s' = db_del t k (view s)"
    and remove_err: "wt_remove w t k s = (r, s') \<Longrightarrow> r \<noteq> RET_OK \<Longrightarrow> view s' = view s"
    and remove_notfound: "wt_remove w t k s = (RET_NOTFOUND, s') \<Longrightarrow> view s t k = None"
    and remove_txn: "wt_remove w t k s = (r, s') \<Longrightarrow> in_txn s' = in_txn s \<and>
      (in_txn s \<longrightarrow> committed s' = committed s)"
    and search_same: "wt_search w t k s = (r, p, s') \<Longrightarrow>
      view s' = view s \<and> committed s' = committed s \<and> in_txn s' = in_txn s"
    and search_ok: "wt_search w t k s = (RET_OK, p, s') \<Longrightarrow> fst p = k \<and> view s t k = Some (snd p)"
    and search_notfound: "wt_search w t k s = (RET_NOTFOUND, p, s') \<Longrightarrow> view s t k = None"
    and search_near_same: "wt_search_near w t k s = (r, c, p, s') \<Longrightarrow>
      view s' = view s \<and> committed s' = committed s \<and> in_txn s' = in_txn s"
    and search_near_ok: "wt_search_near w t k s = (RET_OK, c, p, s') \<Longrightarrow>
      view s t (fst p) = Some (snd p) \<and>
      (if c = 0 then fst p = k
       else k \<notin> dom (view s t) \<and>
         (if c < 0 then is_prev (view s t) k (fst p) else is_next (view s t) k (fst p)))"
    and search_near_notfound: "wt_search_near w t k s = (RET_NOTFOUND, c, p, s') \<Longrightarrow>
      view s t = Map.empty"
    and next_same: "wt_next w t q s = (r, p, s') \<Longrightarrow>
      view s' = view s \<and> committed s' = committed s \<and> in_txn s' = in_txn s"
    and next_ok: "wt_next w t q s = (RET_OK, p, s') \<Longrightarrow>
      view s t (fst p) = Some (snd p) \<and>
      (case q of None \<Rightarrow> is_first (view s t) (fst p) | Some q' \<Rightarrow> is_next (view s t) (fst q') (fst p))"
    and next_notfound: "wt_next w t q s = (RET_NOTFOUND, p, s') \<Longrightarrow>
      (case q of None \<Rightarrow> view s t = Map.empty | Some q' \<Rightarrow> \<forall>j \<in> dom (view s t). j \<le> fst q')"
    and reset_same: "wt_reset w t s = (r, s') \<Longrightarrow>
      view s' = view s \<and> committed s' = committed s \<and> in_txn s' = in_txn s"
    and get_key_ok: "wt_get_key w t p s = (RET_OK, fst p)"
    and get_value_ok: "wt_get_value w t p s = (RET_OK, snd p)"
    and create_view: "wt_create w t s = (r, s') \<Longrightarrow> view s' = view s \<and> in_txn s' = in_txn s"
    and drop_view: "wt_drop w t s = (r, s') \<Longrightarrow>
      in_txn s' = in_txn s \<and> view s' = (if r = RET_OK then db_drop t (view s) else view s)"
    and drop_enoent: "wt_drop w t s = (RET_ENOENT, s') \<Longrightarrow> view s t = Map.empty"
    and checkpoint_same: "wt_checkpoint w s = (r, s') \<Longrightarrow>
      view s' = view s \<and> committed s' = committed s \<and> in_txn s' = in_txn s"
    and begin_ok: "\<not> in_txn s \<Longrightarrow> wt_begin_transaction w s = (RET_OK, s') \<Longrightarrow>
      in_txn s' \<and> view s' = committed s \<and> committed s' = committed s"
    and begin_err: "wt_begin_transaction w s = (r, s') \<Longrightarrow> r \<noteq> RET_OK \<Longrightarrow>
      view s' = view s \<and> committed s' = committed s \<and> in_txn s' = in_txn s"
    and commit_ok: "in_txn s \<Longrightarrow> wt_commit_transaction w s = (RET_OK, s') \<Longrightarrow>
      \<not> in_txn s' \<and> committed s' = view s \<and> view s' = view s"
    and commit_err: "in_txn s \<Longrightarrow> wt_commit_transaction w s = (r, s') \<Longrightarrow> r \<noteq> RET_OK \<Longrightarrow>
      \<not> in_txn s' \<and> committed s' = committed s \<and> view s' = committed s"
    and rollback_committed: "in_txn s \<Longrightarrow> wt_rollback_transaction w s = (r, s') \<Longrightarrow> committed s' = committed s"
    and rollback_ok: "in_txn s \<Longrightarrow> wt_rollback_transaction w s = (RET_OK, s') \<Longrightarrow>
      \<not> in_txn s' \<and> view s' = committed s"

locale reliable_wiredtiger = wiredtiger +
  assumes open_cursor_reliable: "fst (wt_open_cursor w t s) = RET_OK"
    and insert_reliable: "fst (wt_insert w t k v s) = RET_OK"
    and remove_reliable: "fst (wt_remove w t k s) = RET_OK \<or> fst (wt_remove w t k s) = RET_NOTFOUND"
    and search_reliable: "fst (wt_search w t k s) = RET_OK \<or> fst (wt_search w t k s) = RET_NOTFOUND"
    and search_near_reliable:
      "fst (wt_search_near w t k s) = RET_OK \<or> fst (wt_search_near w t k s) = RET_NOTFOUND"
    and next_reliable: "fst (wt_next w t q s) = RET_OK \<or> fst (wt_next w t q s) = RET_NOTFOUND"
    and reset_reliable: "fst (wt_reset w t s) = RET_OK"

end
