(* ===== verification/Mem_Engine.thy ===== *)
theory Mem_Engine
  imports WT_Engine
begin

text \<open>
  A concrete engine: tables as one list of rows in memory, a transaction as a copy to return to.
  It meets the contract of \<open>WT_Engine\<close>, so the contract is satisfiable, and every concrete input of
  the development runs on it.
\<close>

type_synonym mem_rows = "((string \<times> bytes) \<times> bytes) list"

record mem_state =
  mem_rows :: mem_rows
  mem_committed :: mem_rows
  mem_txn :: bool

definition mem_view :: "mem_state \<Rightarrow> db" where
  "mem_view s = (\<lambda>t k. map_of (mem_rows s) (t, k))"

definition mem_commit_view :: "mem_state \<Rightarrow> db" where
  "mem_commit_view s = (\<lambda>t k. map_of (if mem_txn s then mem_committed s else mem_rows s) (t, k))"

definition mem_keys :: "mem_state \<Rightarrow> string \<Rightarrow> bytes list" where
  "mem_keys s t = sort (map (\<lambda>r. snd (fst r)) (filter (\<lambda>r. fst (fst r) = t) (mem_rows s)))"

definition mem_pos :: "mem_state \<Rightarrow> string \<Rightarrow> bytes \<Rightarrow> wt_position" where
  "mem_pos s t k = (k, case map_of (mem_rows s) (t, k) of Some v \<Rightarrow> v | None \<Rightarrow> [])"

definition mem_at :: "mem_state \<Rightarrow> string \<Rightarrow> bytes list \<Rightarrow> wt_ret \<times> wt_position \<times> mem_state" where
  "mem_at s t ks = (case ks of [] \<Rightarrow> (RET_NOTFOUND, ([], []), s) | k # _ \<Rightarrow> (RET_OK, mem_pos s t k, s))"

definition mem_search_near :: "string \<Rightarrow> bytes \<Rightarrow> mem_state \<Rightarrow> wt_ret \<times> int \<times> wt_position \<times> mem_state" where
  "mem_search_near t k s =
     (if map_of (mem_rows s) (t, k) \<noteq> None then (RET_OK, 0, mem_pos s t k, s)
      else case filter (\<lambda>j. k < j) (mem_keys s t) of
        j # _ \<Rightarrow> (RET_OK, 1, mem_pos s t j, s)
      | [] \<Rightarrow> (case rev (filter (\<lambda>j. j < k) (mem_keys s t)) of
          j # _ \<Rightarrow> (RET_OK, - 1, mem_pos s t j, s)
        | [] \<Rightarrow> (RET_NOTFOUND, 0, ([], []), s)))"

definition mem_engine :: "mem_state wt_engine" where
  "mem_engine = \<lparr>
     wt_open_cursor = (\<lambda>t s. (RET_OK, s)),
     wt_insert = (\<lambda>t k v s. (RET_OK, s\<lparr>mem_rows := ((t, k), v) # filter (\<lambda>r. fst r \<noteq> (t, k)) (mem_rows s)\<rparr>)),
     wt_remove = (\<lambda>t k s. (RET_OK, s\<lparr>mem_rows := filter (\<lambda>r. fst r \<noteq> (t, k)) (mem_rows s)\<rparr>)),
     wt_search = (\<lambda>t k s. if map_of (mem_rows s) (t, k) = None then (RET_NOTFOUND, ([], []), s)
                          else (RET_OK, mem_pos s t k, s)),
     wt_search_near = mem_search_near,
     wt_next = (\<lambda>t q s. mem_at s t
       (case q of None \<Rightarrow> mem_keys s t | Some p \<Rightarrow> filter (\<lambda>j. fst p < j) (mem_keys s t))),
     wt_reset = (\<lambda>t s. (RET_OK, s)),
     wt_get_key = (\<lambda>t p s. (RET_OK, fst p)),
     wt_get_value = (\<lambda>t p s. (RET_OK, snd p)),
     wt_create = (\<lambda>t s. (RET_OK, s)),
     wt_drop = (\<lambda>t s. (RET_OK, s\<lparr>mem_rows := filter (\<lambda>r. fst (fst r) \<noteq> t) (mem_rows s)\<rparr>)),
     wt_checkpoint = (\<lambda>s. (RET_OK, s)),
     wt_begin_transaction = (\<lambda>s. (RET_OK, s\<lparr>mem_txn := True, mem_committed := mem_rows s\<rparr>)),
     wt_commit_transaction = (\<lambda>s. (RET_OK, s\<lparr>mem_txn := False\<rparr>)),
     wt_rollback_transaction = (\<lambda>s. (RET_OK, s\<lparr>mem_txn := False, mem_rows := mem_committed s\<rparr>))\<rparr>"

section \<open>It meets the contract\<close>

lemma set_mem_keys: "set (mem_keys s t) = dom (mem_view s t)"
  by (force simp: mem_keys_def mem_view_def dom_def map_of_eq_None_iff [symmetric] image_iff
      dest: weak_map_of_SomeI map_of_SomeD)

lemma sorted_mem_keys [simp]: "sorted (mem_keys s t)"
  by (simp add: mem_keys_def)

lemma mem_pos_ok: "k \<in> dom (mem_view s t) \<Longrightarrow> mem_view s t (fst (mem_pos s t k)) = Some (snd (mem_pos s t k))"
  by (auto simp: mem_pos_def mem_view_def)

lemma fst_mem_pos [simp]: "fst (mem_pos s t k) = k"
  by (simp add: mem_pos_def)

lemma mem_filter_head:
  assumes "filter P (mem_keys s t) = k # ks"
  shows "k \<in> dom (mem_view s t)" and "P k" and "\<forall>j \<in> dom (mem_view s t). P j \<longrightarrow> k \<le> j"
proof -
  have "set (k # ks) = {j \<in> dom (mem_view s t). P j}"
    using assms by (metis set_filter set_mem_keys)
  moreover have "sorted (k # ks)"
    using sorted_wrt_filter [OF sorted_mem_keys, of P s t] unfolding assms .
  ultimately show "k \<in> dom (mem_view s t)" "P k" "\<forall>j \<in> dom (mem_view s t). P j \<longrightarrow> k \<le> j"
    by auto
qed

lemma mem_filter_last:
  assumes "rev (filter P (mem_keys s t)) = k # ks"
  shows "k \<in> dom (mem_view s t)" and "P k" and "\<forall>j \<in> dom (mem_view s t). P j \<longrightarrow> j \<le> k"
proof -
  have f: "filter P (mem_keys s t) = rev ks @ [k]"
    using assms by (metis rev.simps(2) rev_rev_ident)
  then have "set (rev ks @ [k]) = {j \<in> dom (mem_view s t). P j}"
    by (metis set_filter set_mem_keys)
  moreover have "sorted (rev ks @ [k])"
    using sorted_wrt_filter [OF sorted_mem_keys, of P s t] unfolding f .
  ultimately show "k \<in> dom (mem_view s t)" "P k" "\<forall>j \<in> dom (mem_view s t). P j \<longrightarrow> j \<le> k"
    by (auto simp: sorted_append)
qed

lemma mem_filter_empty: "filter P (mem_keys s t) = [] \<Longrightarrow> k \<in> dom (mem_view s t) \<Longrightarrow> \<not> P k"
  by (metis filter_empty_conv set_mem_keys)

lemma mem_view_updates:
  "mem_view (s\<lparr>mem_rows := ((t, k), v) # filter (\<lambda>r. fst r \<noteq> (t, k)) (mem_rows s)\<rparr>) = db_put t k v (mem_view s)"
  "mem_view (s\<lparr>mem_rows := filter (\<lambda>r. fst r \<noteq> (t, k)) (mem_rows s)\<rparr>) = db_del t k (mem_view s)"
  "mem_view (s\<lparr>mem_rows := filter (\<lambda>r. fst (fst r) \<noteq> t) (mem_rows s)\<rparr>) = db_drop t (mem_view s)"
proof -
  have f: "map_of (filter (\<lambda>r. P (fst r)) rs) x = (if P x then map_of rs x else None)"
    for P and rs :: mem_rows and x
    by (induction rs) auto
  show "mem_view (s\<lparr>mem_rows := ((t, k), v) # filter (\<lambda>r. fst r \<noteq> (t, k)) (mem_rows s)\<rparr>) = db_put t k v (mem_view s)"
    using f [of "\<lambda>x. x \<noteq> (t, k)" "mem_rows s"] by (auto simp: mem_view_def db_put_def fun_eq_iff)
  show "mem_view (s\<lparr>mem_rows := filter (\<lambda>r. fst r \<noteq> (t, k)) (mem_rows s)\<rparr>) = db_del t k (mem_view s)"
    using f [of "\<lambda>x. x \<noteq> (t, k)" "mem_rows s"] by (auto simp: mem_view_def db_del_def fun_eq_iff)
  show "mem_view (s\<lparr>mem_rows := filter (\<lambda>r. fst (fst r) \<noteq> t) (mem_rows s)\<rparr>) = db_drop t (mem_view s)"
    using f [of "\<lambda>x. fst x \<noteq> t" "mem_rows s"] by (auto simp: mem_view_def db_drop_def fun_eq_iff)
qed

lemma mem_search_near_ok:
  assumes "mem_search_near t k s = (r, c, p, s')"
  shows "s' = s" and "r = RET_OK \<or> r = RET_NOTFOUND \<and> mem_view s t = Map.empty"
    and "r = RET_OK \<Longrightarrow> mem_view s t (fst p) = Some (snd p) \<and>
      (if c = 0 then fst p = k
       else k \<notin> dom (mem_view s t) \<and>
         (if c < 0 then is_prev (mem_view s t) k (fst p) else is_next (mem_view s t) k (fst p)))"
proof -
  consider (here) "k \<in> dom (mem_view s t)"
    | (above) j js where "k \<notin> dom (mem_view s t)" "filter (\<lambda>j. k < j) (mem_keys s t) = j # js"
    | (below) j js where "k \<notin> dom (mem_view s t)" "filter (\<lambda>j. k < j) (mem_keys s t) = []"
        "rev (filter (\<lambda>j. j < k) (mem_keys s t)) = j # js"
    | (none) "k \<notin> dom (mem_view s t)" "filter (\<lambda>j. k < j) (mem_keys s t) = []"
        "filter (\<lambda>j. j < k) (mem_keys s t) = []"
    by (metis rev_is_Nil_conv neq_Nil_conv)
  then have "s' = s \<and> (r = RET_OK \<or> r = RET_NOTFOUND \<and> mem_view s t = Map.empty) \<and>
    (r = RET_OK \<longrightarrow> mem_view s t (fst p) = Some (snd p) \<and>
      (if c = 0 then fst p = k
       else k \<notin> dom (mem_view s t) \<and>
         (if c < 0 then is_prev (mem_view s t) k (fst p) else is_next (mem_view s t) k (fst p))))"
  proof cases
    case here
    then have "map_of (mem_rows s) (t, k) \<noteq> None" by (auto simp: mem_view_def)
    with assms here mem_pos_ok [OF here] show ?thesis by (auto simp: mem_search_near_def)
  next
    case above
    then have "map_of (mem_rows s) (t, k) = None" by (auto simp: mem_view_def)
    with assms above mem_filter_head [OF above(2)] mem_pos_ok [OF mem_filter_head(1) [OF above(2)]]
    show ?thesis by (auto simp: mem_search_near_def is_next_def)
  next
    case below
    then have "map_of (mem_rows s) (t, k) = None" by (auto simp: mem_view_def)
    with assms below mem_filter_last [OF below(3)] mem_pos_ok [OF mem_filter_last(1) [OF below(3)]]
    show ?thesis by (auto simp: mem_search_near_def is_prev_def)
  next
    case none
    then have "mem_view s t = Map.empty"
      using mem_filter_empty [OF none(2)] mem_filter_empty [OF none(3)]
      by (metis dom_eq_empty_conv equals0I linorder_cases)
    moreover from none have "map_of (mem_rows s) (t, k) = None" by (auto simp: mem_view_def)
    ultimately show ?thesis using assms none by (auto simp: mem_search_near_def)
  qed
  then show "s' = s" and "r = RET_OK \<or> r = RET_NOTFOUND \<and> mem_view s t = Map.empty"
    and "r = RET_OK \<Longrightarrow> mem_view s t (fst p) = Some (snd p) \<and>
      (if c = 0 then fst p = k
       else k \<notin> dom (mem_view s t) \<and>
         (if c < 0 then is_prev (mem_view s t) k (fst p) else is_next (mem_view s t) k (fst p)))"
    by simp_all
qed

lemma mem_at_filter:
  assumes "mem_at s t (filter P (mem_keys s t)) = (r, p, s')"
  shows "s' = s" and "r = RET_OK \<or> r = RET_NOTFOUND"
    and "r = RET_OK \<Longrightarrow> mem_view s t (fst p) = Some (snd p) \<and> P (fst p) \<and>
      (\<forall>j \<in> dom (mem_view s t). P j \<longrightarrow> fst p \<le> j)"
    and "r = RET_NOTFOUND \<Longrightarrow> \<forall>j \<in> dom (mem_view s t). \<not> P j"
proof -
  show "s' = s" and "r = RET_OK \<or> r = RET_NOTFOUND"
    using assms by (auto simp: mem_at_def split: list.splits)
  show "mem_view s t (fst p) = Some (snd p) \<and> P (fst p) \<and> (\<forall>j \<in> dom (mem_view s t). P j \<longrightarrow> fst p \<le> j)"
    if "r = RET_OK"
  proof -
    from assms that obtain k ks where k: "filter P (mem_keys s t) = k # ks" and p: "p = mem_pos s t k"
      by (auto simp: mem_at_def split: list.splits)
    show ?thesis
      using mem_filter_head [OF k] mem_pos_ok [OF mem_filter_head(1) [OF k]] by (auto simp: p)
  qed
  show "\<forall>j \<in> dom (mem_view s t). \<not> P j" if "r = RET_NOTFOUND"
  proof -
    from assms that have "filter P (mem_keys s t) = []"
      by (auto simp: mem_at_def split: list.splits)
    from mem_filter_empty [OF this] show ?thesis by blast
  qed
qed

lemma mem_next_eq: "wt_next mem_engine t q s =
    mem_at s t (filter (\<lambda>j. case q of None \<Rightarrow> True | Some p \<Rightarrow> fst p < j) (mem_keys s t))"
  by (simp add: mem_engine_def split: option.splits)

interpretation mem: reliable_wiredtiger mem_engine mem_view mem_commit_view mem_txn
proof
  fix q s t r p s'
  show "finite (dom (mem_view s t))" by (simp flip: set_mem_keys)
  {
    assume "wt_next mem_engine t q s = (r, p, s')"
    note at = this [unfolded mem_next_eq]
    show "mem_view s' = mem_view s \<and> mem_commit_view s' = mem_commit_view s \<and> mem_txn s' = mem_txn s"
      using mem_at_filter(1) [OF at] by simp
  }
  show "fst (wt_next mem_engine t q s) = RET_OK \<or> fst (wt_next mem_engine t q s) = RET_NOTFOUND"
    unfolding mem_next_eq using mem_at_filter(2) by (metis prod.collapse)
next
  fix q s t p s'
  assume "wt_next mem_engine t q s = (RET_OK, p, s')"
  note at = this [unfolded mem_next_eq]
  show "mem_view s t (fst p) = Some (snd p) \<and>
      (case q of None \<Rightarrow> is_first (mem_view s t) (fst p) | Some q' \<Rightarrow> is_next (mem_view s t) (fst q') (fst p))"
    using mem_at_filter(3) [OF at] by (auto simp: is_first_def is_next_def split: option.splits)
next
  fix q s t p s'
  assume "wt_next mem_engine t q s = (RET_NOTFOUND, p, s')"
  note at = this [unfolded mem_next_eq]
  show "case q of None \<Rightarrow> mem_view s t = Map.empty | Some q' \<Rightarrow> \<forall>j \<in> dom (mem_view s t). j \<le> fst q'"
    using mem_at_filter(4) [OF at] by (auto simp: not_less split: option.splits)
next
  fix t k s r c p s'
  assume "wt_search_near mem_engine t k s = (r, c, p, s')"
  then have "mem_search_near t k s = (r, c, p, s')" by (simp add: mem_engine_def)
  from mem_search_near_ok(1) [OF this]
  show "mem_view s' = mem_view s \<and> mem_commit_view s' = mem_commit_view s \<and> mem_txn s' = mem_txn s"
    by simp
next
  fix t k s c p s'
  assume "wt_search_near mem_engine t k s = (RET_OK, c, p, s')"
  then have "mem_search_near t k s = (RET_OK, c, p, s')" by (simp add: mem_engine_def)
  from mem_search_near_ok(3) [OF this]
  show "mem_view s t (fst p) = Some (snd p) \<and>
      (if c = 0 then fst p = k
       else k \<notin> dom (mem_view s t) \<and>
         (if c < 0 then is_prev (mem_view s t) k (fst p) else is_next (mem_view s t) k (fst p)))"
    by simp
next
  fix t k s c p s'
  assume "wt_search_near mem_engine t k s = (RET_NOTFOUND, c, p, s')"
  then have "mem_search_near t k s = (RET_NOTFOUND, c, p, s')" by (simp add: mem_engine_def)
  from mem_search_near_ok(2) [OF this] show "mem_view s t = Map.empty" by simp
next
  fix t k s
  show "fst (wt_search_near mem_engine t k s) = RET_OK \<or> fst (wt_search_near mem_engine t k s) = RET_NOTFOUND"
    using mem_search_near_ok(2) [of t k s] by (cases "mem_search_near t k s") (auto simp: mem_engine_def)
next
  fix t k v s s'
  show "wt_insert mem_engine t k v s = (RET_OK, s') \<Longrightarrow> mem_view s' = db_put t k v (mem_view s)"
    "wt_remove mem_engine t k s = (RET_OK, s') \<Longrightarrow> mem_view s' = db_del t k (mem_view s)"
    by (auto simp: mem_engine_def mem_view_updates)
next
  fix t s r s'
  show "wt_drop mem_engine t s = (r, s') \<Longrightarrow>
      mem_txn s' = mem_txn s \<and> mem_view s' = (if r = RET_OK then db_drop t (mem_view s) else mem_view s)"
    by (auto simp: mem_engine_def mem_view_updates)
qed (auto simp: mem_engine_def mem_commit_view_def mem_view_def mem_pos_def split: if_splits option.splits)

end
