(* ===== verification/Graph_Session.thy ===== *)
theory Graph_Session
  imports Mem_Engine
begin

text \<open>
  \<^verbatim>\<open>storage/data/graph_session.hpp\<close>, \<^verbatim>\<open>storage/data/cursor_provider.hpp\<close>, \<^verbatim>\<open>storage/wt_session.*\<close> and
  \<^verbatim>\<open>storage/wt_cursor.*\<close>: one WiredTiger session with its cursor cache, its transaction and the
  sticky error that forbids a commit after any failure.

  A cursor handle is the return code of its \<^verbatim>\<open>open_cursor\<close> (valid iff \<open>RET_OK\<close>); point operations
  set their key first, so a cached cursor needs no position.  Closing cursors has no effect the
  code observes.
\<close>

section \<open>State\<close>

record 's wt_session =
  ws_present :: bool
  ws_db :: 's

record 's graph_session = "'s wt_session" +
  gs_cursors :: "string \<Rightarrow> wt_ret option"
  gs_txn :: txn_controller
  gs_err :: sticky_error
  gs_closed :: bool

definition new_graph_session :: "bool \<Rightarrow> 's \<Rightarrow> 's graph_session" where
  "new_graph_session present s =
     \<lparr>ws_present = present, ws_db = s, gs_cursors = Map.empty, gs_txn = tc_init, gs_err = se_init,
      gs_closed = False\<rparr>"

section \<open>Cursor provider\<close>

text \<open>\<^verbatim>\<open>WtCursor::WtCursor(session, table)\<close>; a null session gives \<open>EINVAL\<close>.\<close>

definition open_cursor :: "'s wt_engine \<Rightarrow> string \<Rightarrow> ('s, 'z) wt_session_scheme \<Rightarrow>
    wt_ret \<times> ('s, 'z) wt_session_scheme" where
  "open_cursor w table gs =
     (if \<not> ws_present gs then (RET_EINVAL, gs)
      else let (r, s) = wt_open_cursor w table (ws_db gs) in (r, gs\<lparr>ws_db := s\<rparr>))"

definition acquire_cursor :: "'s wt_engine \<Rightarrow> string \<Rightarrow> 's graph_session \<Rightarrow> wt_ret \<times> 's graph_session" where
  "acquire_cursor w table gs =
     (case gs_cursors gs table of
        Some r \<Rightarrow> (r, gs)
      | None \<Rightarrow> let (r, gs1) = open_cursor w table gs in (r, gs1\<lparr>gs_cursors := (gs_cursors gs1)(table \<mapsto> r)\<rparr>))"

definition acquire_scan_cursor :: "'s wt_engine \<Rightarrow> string \<Rightarrow> 's graph_session \<Rightarrow> wt_ret \<times> 's graph_session" where
  "acquire_scan_cursor w table gs = open_cursor w table gs"

definition clear_cursors :: "'s graph_session \<Rightarrow> 's graph_session" where
  "clear_cursors gs = gs\<lparr>gs_cursors := Map.empty\<rparr>"

section \<open>Failures\<close>

definition gs_fail :: "txn_error_class \<Rightarrow> wt_ret \<Rightarrow> 's graph_session \<Rightarrow> 's graph_session" where
  "gs_fail cls r gs =
     (let gs1 = gs\<lparr>gs_err := se_set \<lparr>oc_state = Txn_Failed, oc_wt_error = r, oc_error_class = cls\<rparr> (gs_err gs)\<rparr>
      in if poisons_session cls then gs1\<lparr>gs_txn := tc_poison (gs_txn gs1)\<rparr> else gs1)"

definition fail_from_wt :: "wt_ret \<Rightarrow> 's graph_session \<Rightarrow> 's graph_session" where
  "fail_from_wt r gs = gs_fail (classifyWtError r) r gs"

definition transaction_failed :: "'s graph_session \<Rightarrow> bool" where
  "transaction_failed gs \<longleftrightarrow> se_has (gs_err gs)"

section \<open>Transactions\<close>

definition gs_begin :: "'s wt_engine \<Rightarrow> txn_kind \<Rightarrow> 's graph_session \<Rightarrow> bool \<times> 's graph_session" where
  "gs_begin w kind gs =
     (if gs_closed gs \<or> tc_poisoned (gs_txn gs) then (False, gs)
      else let (started, c) = tc_begin kind (gs_txn gs) in
        if \<not> started then (False, gs)
        else let gs1 = gs\<lparr>gs_txn := c, gs_err := (if se_has (gs_err gs) then se_clear (gs_err gs) else gs_err gs)\<rparr> in
          if \<not> ws_present gs1 then
            (False, gs1\<lparr>gs_txn := tc_on_rollback (gs_txn gs1),
                        gs_err := se_set \<lparr>oc_state = Txn_Failed, oc_wt_error = RET_EINVAL,
                                          oc_error_class = Err_Unknown\<rparr> (gs_err gs1)\<rparr>)
          else let (r, s) = wt_begin_transaction w (ws_db gs1); gs2 = gs1\<lparr>ws_db := s\<rparr> in
            if r \<noteq> RET_OK then
              let cls = classifyWtError r;
                  c2 = tc_on_rollback (gs_txn gs2)
              in (False, gs2\<lparr>gs_txn := (if cls = Err_Panic then tc_poison c2 else c2),
                             gs_err := se_set \<lparr>oc_state = Txn_Failed, oc_wt_error = r,
                                               oc_error_class = cls\<rparr> (gs_err gs2)\<rparr>)
            else (True, gs2))"

definition begin_read :: "'s wt_engine \<Rightarrow> 's graph_session \<Rightarrow> bool \<times> 's graph_session" where
  "begin_read w gs = gs_begin w Kind_Read gs"

definition begin_write :: "'s wt_engine \<Rightarrow> 's graph_session \<Rightarrow> bool \<times> 's graph_session" where
  "begin_write w gs = gs_begin w Kind_Write gs"

definition rollback_failed :: "wt_ret \<Rightarrow> 's graph_session \<Rightarrow> 's graph_session" where
  "rollback_failed r gs =
     gs\<lparr>gs_txn := tc_poison (gs_txn gs),
        gs_err := se_set \<lparr>oc_state = Txn_Failed, oc_wt_error = r, oc_error_class = classifyWtError r\<rparr> (gs_err gs)\<rparr>"

definition rollback :: "'s wt_engine \<Rightarrow> 's graph_session \<Rightarrow> 's graph_session" where
  "rollback w gs =
     (if tc_open (gs_txn gs) \<and> ws_present gs then
        let (r, s) = wt_rollback_transaction w (ws_db gs); gs1 = gs\<lparr>ws_db := s\<rparr> in
          if r \<noteq> RET_OK then rollback_failed r gs1
          else gs1\<lparr>gs_txn := tc_on_rollback (gs_txn gs1)\<rparr>
      else gs\<lparr>gs_txn := tc_on_rollback (gs_txn gs)\<rparr>)"

definition commit :: "'s wt_engine \<Rightarrow> 's graph_session \<Rightarrow> txn_outcome \<times> 's graph_session" where
  "commit w gs =
     (if se_has (gs_err gs) then
        (\<lparr>oc_state = Txn_Failed, oc_wt_error = oc_wt_error (se_outcome (gs_err gs)),
          oc_error_class = se_error_class (gs_err gs)\<rparr>, rollback w gs)
      else case tc_commit_request (gs_txn gs) of
        None \<Rightarrow>
          let out = \<lparr>oc_state = Txn_Failed, oc_wt_error = RET_OK, oc_error_class = Err_None\<rparr>
          in (out, gs\<lparr>gs_err := se_set out (gs_err gs)\<rparr>)
      | Some _ \<Rightarrow>
          let (out, gs1) =
            (if \<not> ws_present gs then
               (\<lparr>oc_state = Txn_Failed, oc_wt_error = RET_EINVAL, oc_error_class = Err_Unknown\<rparr>, gs)
             else let (r, s) = wt_commit_transaction w (ws_db gs) in
               (if r = RET_OK then \<lparr>oc_state = Txn_Committed, oc_wt_error = RET_OK, oc_error_class = Err_None\<rparr>
                else \<lparr>oc_state = Txn_Failed, oc_wt_error = r, oc_error_class = classifyWtError r\<rparr>,
                gs\<lparr>ws_db := s\<rparr>))
          in (out, gs1\<lparr>gs_txn := tc_on_commit_result out (gs_txn gs1), gs_err := se_set out (gs_err gs1)\<rparr>))"

definition close :: "'s wt_engine \<Rightarrow> 's graph_session \<Rightarrow> 's graph_session" where
  "close w gs =
     (if gs_closed gs then gs
      else let gs1 = clear_cursors (gs\<lparr>gs_closed := True\<rparr>) in
        if tc_open (gs_txn gs1) then
          (if ws_present gs1 then
             let (r, s) = wt_rollback_transaction w (ws_db gs1); gs2 = gs1\<lparr>ws_db := s\<rparr> in
               if r \<noteq> RET_OK then rollback_failed r gs2
               else gs2\<lparr>gs_txn := tc_on_rollback (gs_txn gs2)\<rparr>
           else gs1\<lparr>gs_txn := tc_on_rollback (gs_txn gs1)\<rparr>)
        else gs1)"

definition end_statement :: "'s graph_session \<Rightarrow> 's graph_session" where
  "end_statement gs = clear_cursors gs"

definition reset_for_reuse :: "'s wt_engine \<Rightarrow> 's graph_session \<Rightarrow> 's graph_session" where
  "reset_for_reuse w gs =
     (let gs1 = (if tc_open (gs_txn gs) then rollback w gs else gs);
          gs2 = clear_cursors gs1
      in gs2\<lparr>gs_txn := tc_reset (gs_txn gs2), gs_err := se_clear (gs_err gs2), gs_closed := False\<rparr>)"

definition poisoned :: "'s graph_session \<Rightarrow> bool" where
  "poisoned gs \<longleftrightarrow> tc_poisoned (gs_txn gs)"

section \<open>The session invariant\<close>

text \<open>
  What the session keeps true of itself: the controller is consistent, and a commit is only
  possible when no failure has been recorded.
\<close>

definition gs_inv :: "'s graph_session \<Rightarrow> bool" where
  "gs_inv gs \<longleftrightarrow> tc_inv (gs_txn gs) \<and> (tc_poisoned (gs_txn gs) \<and> tc_open (gs_txn gs) \<longrightarrow> se_has (gs_err gs))"

lemmas session_defs = gs_begin_def begin_read_def begin_write_def rollback_def commit_def close_def
  rollback_failed_def reset_for_reuse_def gs_fail_def fail_from_wt_def clear_cursors_def end_statement_def

lemma oc_failed_simps [simp]:
  "oc_failed \<lparr>oc_state = Txn_Failed, oc_wt_error = r, oc_error_class = cls\<rparr>"
  "\<not> oc_failed \<lparr>oc_state = Txn_Committed, oc_wt_error = r, oc_error_class = cls\<rparr>"
  "oc_committed \<lparr>oc_state = Txn_Committed, oc_wt_error = r, oc_error_class = cls\<rparr>"
  "\<not> oc_committed \<lparr>oc_state = Txn_Failed, oc_wt_error = r, oc_error_class = cls\<rparr>"
  by (simp_all add: oc_failed_def oc_committed_def)

lemma gs_inv_new [simp]: "gs_inv (new_graph_session present s)"
  by (simp add: gs_inv_def new_graph_session_def tc_inv_init) (simp add: tc_poisoned_def tc_init_def)

lemmas gs_inv_simps = gs_inv_def tc_inv_def tc_defs tc_poisoned_def tc_commit_request_def

lemma gs_inv_begin: "gs_inv gs \<Longrightarrow> gs_inv (snd (gs_begin w kind gs))"
  by (auto simp: gs_begin_def gs_inv_simps Let_def split: prod.splits)

lemma gs_inv_rollback: "gs_inv gs \<Longrightarrow> gs_inv (rollback w gs)"
  by (auto simp: rollback_def rollback_failed_def gs_inv_simps Let_def split: prod.splits)

lemma gs_inv_commit: "gs_inv gs \<Longrightarrow> gs_inv (snd (commit w gs))"
  by (auto simp: commit_def gs_inv_rollback Let_def split: prod.splits option.splits)
     (auto simp: gs_inv_simps split: if_splits)

lemma gs_inv_close: "gs_inv gs \<Longrightarrow> gs_inv (close w gs)"
  by (auto simp: close_def clear_cursors_def rollback_failed_def gs_inv_simps Let_def split: prod.splits)

lemma gs_inv_fail: "gs_inv gs \<Longrightarrow> gs_inv (gs_fail cls r gs)"
  by (auto simp: gs_fail_def gs_inv_simps Let_def)

lemma gs_inv_reset: "gs_inv gs \<Longrightarrow> gs_inv (reset_for_reuse w gs)"
  using gs_inv_rollback [of gs w] by (auto simp: reset_for_reuse_def clear_cursors_def gs_inv_simps Let_def)

section \<open>Transactions against the engine's contract\<close>

text \<open>The controller's \<open>transaction_open\<close> is the truth about the engine.\<close>

definition linked :: "('s \<Rightarrow> bool) \<Rightarrow> 's graph_session \<Rightarrow> bool" where
  "linked in_txn gs \<longleftrightarrow> ws_present gs \<and> in_txn (ws_db gs) = tc_open (gs_txn gs)"

context wiredtiger
begin

lemma begin_linked:
  assumes "gs_begin w kind gs = (b, gs')" and "linked in_txn gs" and "gs_inv gs"
  shows "linked in_txn gs' \<and> committed (ws_db gs') = committed (ws_db gs) \<and>
    (b \<longrightarrow> \<not> transaction_failed gs' \<and> tc_open (gs_txn gs') \<and> view (ws_db gs') = committed (ws_db gs))"
proof -
  obtain r s where bt: "wt_begin_transaction w (ws_db gs) = (r, s)" by fastforce
  show ?thesis
  proof (cases "gs_closed gs \<or> tc_poisoned (gs_txn gs) \<or> \<not> fst (tc_begin kind (gs_txn gs))")
    case True
    then show ?thesis
      using assms by (cases "tc_begin kind (gs_txn gs)") (auto simp: gs_begin_def Let_def split: if_splits)
  next
    case False
    then have nt: "\<not> in_txn (ws_db gs)" and start: "tc_begin kind (gs_txn gs) =
        (True, \<lparr>tc_state = Txn_Active, tc_kind = kind, tc_open = True\<rparr>)"
      using assms(2) by (auto simp: linked_def tc_begin_def split: if_splits)
    show ?thesis
    proof (cases "r = RET_OK")
      case True
      with begin_ok [OF nt] bt False start assms(1,2) show ?thesis
        by (auto simp: gs_begin_def linked_def transaction_failed_def Let_def split: if_splits)
    next
      case err: False
      with begin_err [OF bt] bt nt False start assms(1,2) show ?thesis
        by (auto simp: gs_begin_def linked_def tc_on_rollback_def tc_poison_def Let_def split: if_splits)
    qed
  qed
qed

lemma rollback_keeps_committed: "linked in_txn gs \<Longrightarrow> committed (ws_db (rollback w gs)) = committed (ws_db gs)"
  by (cases "wt_rollback_transaction w (ws_db gs)")
    (auto simp: rollback_def rollback_failed_def linked_def Let_def dest: rollback_committed)

lemma close_keeps_committed: "linked in_txn gs \<Longrightarrow> committed (ws_db (close w gs)) = committed (ws_db gs)"
  by (cases "wt_rollback_transaction w (ws_db gs)")
    (auto simp: close_def clear_cursors_def rollback_failed_def linked_def Let_def dest: rollback_committed)

lemma commit_effect:
  assumes "commit w gs = (out, gs')" and "linked in_txn gs"
  shows "if oc_committed out then \<not> transaction_failed gs \<and> committed (ws_db gs') = view (ws_db gs)
    else committed (ws_db gs') = committed (ws_db gs)"
proof (cases "se_has (gs_err gs) \<or> tc_commit_request (gs_txn gs) = None")
  case True
  then show ?thesis
    using assms rollback_keeps_committed [OF assms(2)]
    by (auto simp: commit_def Let_def split: if_splits)
next
  case False
  then have "in_txn (ws_db gs)" "ws_present gs"
    using assms(2) by (auto simp: linked_def tc_commit_request_def split: if_splits)
  moreover obtain r s where ct: "wt_commit_transaction w (ws_db gs) = (r, s)" by fastforce
  ultimately show ?thesis
    using False assms(1) commit_ok [of "ws_db gs" s] commit_err [of "ws_db gs" r s]
    by (cases "r = RET_OK") (auto simp: commit_def Let_def transaction_failed_def)
qed

end

text \<open>
  C11. A commit is all or nothing and never hides a failure: when it reports success the database holds
  exactly the transaction's view and no operation of the transaction had failed; when it reports
  anything else the database is what it was before.
\<close>

theorem commit_all_or_nothing:
  assumes "wiredtiger w view committed in_txn" and "linked in_txn gs"
  shows "if oc_committed (fst (commit w gs))
    then \<not> transaction_failed gs \<and> committed (ws_db (snd (commit w gs))) = view (ws_db gs)
    else committed (ws_db (snd (commit w gs))) = committed (ws_db gs)"
  using wiredtiger.commit_effect [OF assms(1) _ assms(2), of "fst (commit w gs)" "snd (commit w gs)"]
  by simp

theorem commit_all_or_nothing_witness:
  defines "gs \<equiv> snd (begin_write mem_engine (new_graph_session True \<lparr>mem_rows = [], mem_committed = [], mem_txn = False\<rparr>))"
  shows "if oc_committed (fst (commit mem_engine gs))
    then \<not> transaction_failed gs \<and> mem_commit_view (ws_db (snd (commit mem_engine gs))) = mem_view (ws_db gs)
    else mem_commit_view (ws_db (snd (commit mem_engine gs))) = mem_commit_view (ws_db gs)"
proof (rule commit_all_or_nothing [OF mem.wiredtiger_axioms])
  show "linked mem_txn gs" unfolding gs_def by code_simp
qed

end
