(* ===== verification/Store_Monad.thy ===== *)
theory Store_Monad
  imports Graph_Session
begin

text \<open>
  Storage code as state transformers.  A program takes the session to an error or a value and the new
  session; \<^const>\<open>None\<close> is a loop that does not return.  An exception leaves the session as it was
  when thrown.  The loop combinators are the \<^verbatim>\<open>for\<close> loops of the code.

  \<open>safe_prog\<close> and \<open>runs\<close> are the two judgements every storage operation is proved with: a safe
  program always returns and keeps the frame of the session (in particular a failure stays
  recorded); \<open>runs m d x d'\<close> says what a run without a recorded failure computes from the tables \<open>d\<close>.
\<close>

section \<open>Programs\<close>

type_synonym ('st, 'a) prog = "'st \<Rightarrow> ((cpp_error + 'a) \<times> 'st) option"

definition ret :: "'a \<Rightarrow> ('st, 'a) prog" where
  "ret x = (\<lambda>s. Some (Inr x, s))"

definition liftr :: "'a res \<Rightarrow> ('st, 'a) prog" where
  "liftr r = (\<lambda>s. Some (r, s))"

definition bindp :: "('st, 'a) prog \<Rightarrow> ('a \<Rightarrow> ('st, 'b) prog) \<Rightarrow> ('st, 'b) prog" where
  "bindp m k = (\<lambda>s. case m s of
     None \<Rightarrow> None
   | Some (Inl e, s1) \<Rightarrow> Some (Inl e, s1)
   | Some (Inr x, s1) \<Rightarrow> k x s1)"

definition call :: "('st \<Rightarrow> 'a \<times> 'st) \<Rightarrow> ('st, 'a) prog" where
  "call f = (\<lambda>s. case f s of (x, s1) \<Rightarrow> Some (Inr x, s1))"

definition modp :: "('st \<Rightarrow> 'st) \<Rightarrow> ('st, unit) prog" where
  "modp f = (\<lambda>s. Some (Inr (), f s))"

definition getp :: "('st \<Rightarrow> 'a) \<Rightarrow> ('st, 'a) prog" where
  "getp f = (\<lambda>s. Some (Inr (f s), s))"

text \<open>\<^verbatim>\<open>if (!op) return false;\<close>\<close>

definition guard_then :: "('st, bool) prog \<Rightarrow> ('st, bool) prog \<Rightarrow> ('st, bool) prog" where
  "guard_then m k = bindp m (\<lambda>ok. if ok then k else ret False)"

definition seqp :: "('st, 'a) prog \<Rightarrow> ('st, 'b) prog \<Rightarrow> ('st, 'b) prog" where
  "seqp m k = bindp m (\<lambda>_. k)"

text \<open>\<^verbatim>\<open>for (x : xs) if (!op(x)) return false; return true;\<close>\<close>

fun all_p :: "('a \<Rightarrow> ('st, bool) prog) \<Rightarrow> 'a list \<Rightarrow> ('st, bool) prog" where
  "all_p f [] = ret True"
| "all_p f (x # xs) = guard_then (f x) (all_p f xs)"

text \<open>\<^verbatim>\<open>for (x : xs) op(x);\<close>\<close>

fun each_p :: "('a \<Rightarrow> ('st, 'b) prog) \<Rightarrow> 'a list \<Rightarrow> ('st, unit) prog" where
  "each_p f [] = ret ()"
| "each_p f (x # xs) = seqp (f x) (each_p f xs)"

text \<open>A loop with a local variable that may leave the function (\<open>Inr\<close> the early result).\<close>

fun loop_p :: "('a \<Rightarrow> 'b \<Rightarrow> ('st, 'b + 'c) prog) \<Rightarrow> 'a list \<Rightarrow> 'b \<Rightarrow> ('st, 'b + 'c) prog" where
  "loop_p f [] acc = ret (Inl acc)"
| "loop_p f (x # xs) acc = bindp (f x acc) (\<lambda>r. case r of Inl acc1 \<Rightarrow> loop_p f xs acc1 | Inr y \<Rightarrow> ret (Inr y))"

section \<open>Judgements\<close>

type_synonym ('s, 'a) sprog = "('s graph_session, 'a) prog"

text \<open>What every storage operation leaves alone, and that a failure stays recorded.\<close>

definition frame :: "('s \<Rightarrow> db) \<Rightarrow> ('s \<Rightarrow> bool) \<Rightarrow> 's graph_session \<Rightarrow> 's graph_session \<Rightarrow> bool" where
  "frame committed in_txn gs gs' \<longleftrightarrow>
     ws_present gs' = ws_present gs \<and> gs_closed gs' = gs_closed gs \<and>
     tc_open (gs_txn gs') = tc_open (gs_txn gs) \<and> in_txn (ws_db gs') = in_txn (ws_db gs) \<and>
     (in_txn (ws_db gs) \<longrightarrow> committed (ws_db gs') = committed (ws_db gs)) \<and>
     (transaction_failed gs \<longrightarrow> transaction_failed gs')"

definition safe_prog :: "('s \<Rightarrow> db) \<Rightarrow> ('s \<Rightarrow> bool) \<Rightarrow> ('s, 'a) sprog \<Rightarrow> bool" where
  "safe_prog committed in_txn m \<longleftrightarrow> (\<forall>gs. \<exists>x gs'. m gs = Some (x, gs') \<and> frame committed in_txn gs gs')"

definition runs :: "('s \<Rightarrow> db) \<Rightarrow> ('s, 'a) sprog \<Rightarrow> db \<Rightarrow> cpp_error + 'a \<Rightarrow> db \<Rightarrow> bool" where
  "runs view m d x d' \<longleftrightarrow>
     (\<forall>gs y gs'. ws_present gs \<and> view (ws_db gs) = d \<and> m gs = Some (y, gs') \<and> \<not> transaction_failed gs' \<longrightarrow>
       y = x \<and> view (ws_db gs') = d')"

lemma frame_refl [simp]: "frame c t gs gs"
  by (simp add: frame_def)

lemma frame_trans: "frame c t gs gs1 \<Longrightarrow> frame c t gs1 gs2 \<Longrightarrow> frame c t gs gs2"
  by (simp add: frame_def)

lemma frame_linked: "frame c t gs gs' \<Longrightarrow> linked t gs \<Longrightarrow> linked t gs'"
  by (auto simp: frame_def linked_def)

named_theorems safe "programs that always return and keep the frame"

lemma safe_ret [safe]: "safe_prog c t (ret x)"
  by (simp add: safe_prog_def ret_def)

lemma safe_liftr [safe]: "safe_prog c t (liftr r)"
  by (simp add: safe_prog_def liftr_def)

lemma safe_getp [safe]: "safe_prog c t (getp f)"
  by (simp add: safe_prog_def getp_def)

lemma safe_bindp [safe]:
  assumes m: "safe_prog c t m" and k: "\<And>x. safe_prog c t (k x)"
  shows "safe_prog c t (bindp m k)"
  unfolding safe_prog_def
proof
  fix gs
  from m obtain x gs1 where 1: "m gs = Some (x, gs1)" "frame c t gs gs1"
    unfolding safe_prog_def by blast
  show "\<exists>y gs'. bindp m k gs = Some (y, gs') \<and> frame c t gs gs'"
  proof (cases x)
    case (Inl e)
    with 1 show ?thesis by (simp add: bindp_def)
  next
    case (Inr z)
    from k [of z] obtain y gs2 where "k z gs1 = Some (y, gs2)" "frame c t gs1 gs2"
      unfolding safe_prog_def by blast
    with 1 Inr frame_trans show ?thesis by (fastforce simp: bindp_def)
  qed
qed

lemma safe_seqp [safe]: "safe_prog c t m \<Longrightarrow> safe_prog c t k \<Longrightarrow> safe_prog c t (seqp m k)"
  by (simp add: seqp_def safe_bindp)

lemma safe_guard [safe]: "safe_prog c t m \<Longrightarrow> safe_prog c t k \<Longrightarrow> safe_prog c t (guard_then m k)"
  by (auto simp: guard_then_def intro!: safe_bindp safe_ret)

lemma safe_all_p_mem: "(\<And>x. x \<in> set xs \<Longrightarrow> safe_prog c t (f x)) \<Longrightarrow> safe_prog c t (all_p f xs)"
  by (induction xs) (auto intro: safe_ret safe_guard)

lemma safe_each_p_mem: "(\<And>x. x \<in> set xs \<Longrightarrow> safe_prog c t (f x)) \<Longrightarrow> safe_prog c t (each_p f xs)"
  by (induction xs) (auto intro: safe_ret safe_seqp)

lemma safe_all_p [safe]: "(\<And>x. safe_prog c t (f x)) \<Longrightarrow> safe_prog c t (all_p f xs)"
  by (rule safe_all_p_mem)

lemma safe_each_p [safe]: "(\<And>x. safe_prog c t (f x)) \<Longrightarrow> safe_prog c t (each_p f xs)"
  by (rule safe_each_p_mem)

lemma safe_loop_p [safe]: "(\<And>x acc. safe_prog c t (f x acc)) \<Longrightarrow> safe_prog c t (loop_p f xs acc)"
  by (induction xs arbitrary: acc) (auto intro!: safe_ret safe_bindp split: sum.splits)

lemma safe_if [safe]: "safe_prog c t m \<Longrightarrow> safe_prog c t k \<Longrightarrow> safe_prog c t (if b then m else k)"
  by simp

lemma safe_case_option [safe]:
  "safe_prog c t m \<Longrightarrow> (\<And>x. safe_prog c t (k x)) \<Longrightarrow> safe_prog c t (case v of None \<Rightarrow> m | Some x \<Rightarrow> k x)"
  by (simp split: option.splits)

lemma safe_case_prod [safe]: "(\<And>x y. safe_prog c t (k x y)) \<Longrightarrow> safe_prog c t (case v of (x, y) \<Rightarrow> k x y)"
  by (simp split: prod.splits)

section \<open>Runs without failure\<close>

lemma runs_ret [simp]: "runs v (ret x) d (Inr x) d"
  by (simp add: runs_def ret_def)

lemma runs_liftr [simp]: "runs v (liftr r) d r d"
  by (simp add: runs_def liftr_def)

lemma runs_bindp:
  assumes m: "runs v m d (Inr x) d1" and k: "runs v (k x) d1 y d2"
    and fm: "safe_prog c t m" and fk: "\<And>z. safe_prog c t (k z)"
  shows "runs v (bindp m k) d y d2"
  unfolding runs_def
proof (intro allI impI, elim conjE)
  fix gs y' gs'
  assume pre: "ws_present gs" "v (ws_db gs) = d" and run: "bindp m k gs = Some (y', gs')"
    and ok: "\<not> transaction_failed gs'"
  from fm obtain r gs1 where 1: "m gs = Some (r, gs1)" "frame c t gs gs1"
    unfolding safe_prog_def by blast
  have ok1: "\<not> transaction_failed gs1"
  proof (cases r)
    case (Inl e)
    with run 1 ok show ?thesis by (simp add: bindp_def)
  next
    case (Inr z)
    with run 1 have "k z gs1 = Some (y', gs')" by (simp add: bindp_def)
    moreover obtain y2 gs2 where "k z gs1 = Some (y2, gs2)" "frame c t gs1 gs2"
      using fk [of z] unfolding safe_prog_def by blast
    ultimately show ?thesis using ok by (auto simp: frame_def)
  qed
  with m pre 1 have "r = Inr x" "v (ws_db gs1) = d1" unfolding runs_def by blast+
  moreover have "ws_present gs1" using 1(2) pre(1) by (simp add: frame_def)
  ultimately show "y' = y \<and> v (ws_db gs') = d2"
    using k run 1 ok unfolding runs_def by (simp add: bindp_def)
qed

lemma runs_bindp_error:
  assumes m: "runs v m d (Inl e) d1" and fm: "safe_prog c t m" and fk: "\<And>z. safe_prog c t (k z)"
  shows "runs v (bindp m k) d (Inl e) d1"
  unfolding runs_def
proof (intro allI impI, elim conjE)
  fix gs y' gs'
  assume pre: "ws_present gs" "v (ws_db gs) = d" and run: "bindp m k gs = Some (y', gs')"
    and ok: "\<not> transaction_failed gs'"
  from fm obtain r gs1 where 1: "m gs = Some (r, gs1)" "frame c t gs gs1"
    unfolding safe_prog_def by blast
  show "y' = Inl e \<and> v (ws_db gs') = d1"
  proof (cases r)
    case (Inl e')
    with run 1 have "y' = Inl e'" "gs' = gs1" by (simp_all add: bindp_def)
    with m pre 1 ok Inl show ?thesis unfolding runs_def by auto
  next
    case (Inr z)
    with run 1 have kz: "k z gs1 = Some (y', gs')" by (simp add: bindp_def)
    moreover obtain y2 gs2 where "k z gs1 = Some (y2, gs2)" "frame c t gs1 gs2"
      using fk [of z] unfolding safe_prog_def by blast
    ultimately have "\<not> transaction_failed gs1" using ok by (auto simp: frame_def)
    with m pre 1 Inr show ?thesis unfolding runs_def by blast
  qed
qed

lemma runs_seqp:
  "runs v m d (Inr x) d1 \<Longrightarrow> runs v k d1 y d2 \<Longrightarrow> safe_prog c t m \<Longrightarrow> safe_prog c t k \<Longrightarrow>
   runs v (seqp m k) d y d2"
  unfolding seqp_def by (rule runs_bindp)

lemma runs_guard:
  "runs v m d (Inr True) d1 \<Longrightarrow> runs v k d1 y d2 \<Longrightarrow> safe_prog c t m \<Longrightarrow> safe_prog c t k \<Longrightarrow>
   runs v (guard_then m k) d y d2"
  unfolding guard_then_def by (rule runs_bindp [where x = True]) (auto intro: safe)

lemma runs_all_p:
  assumes "\<And>x d. x \<in> set xs \<Longrightarrow> runs v (f x) d (Inr True) (g x d)" and "\<And>x. x \<in> set xs \<Longrightarrow> safe_prog c t (f x)"
  shows "runs v (all_p f xs) d (Inr True) (fold g xs d)"
  using assms by (induction xs arbitrary: d) (auto intro!: runs_guard safe_all_p_mem)

lemma runs_each_p:
  assumes "\<And>x d. x \<in> set xs \<Longrightarrow> runs v (f x) d (Inr (h x d)) (g x d)" and "\<And>x. x \<in> set xs \<Longrightarrow> safe_prog c t (f x)"
  shows "runs v (each_p f xs) d (Inr ()) (fold g xs d)"
  using assms by (induction xs arbitrary: d) (auto intro!: runs_seqp safe_each_p_mem)

section \<open>Total correctness of a call\<close>

text \<open>
  The call returns, keeps the frame, and unless a failure is now recorded its result and the tables
  satisfy \<open>P\<close>.
\<close>

definition completes :: "('s \<Rightarrow> db) \<Rightarrow> ('s \<Rightarrow> db) \<Rightarrow> ('s \<Rightarrow> bool) \<Rightarrow> ('s, 'a) sprog \<Rightarrow> 's graph_session \<Rightarrow>
    (cpp_error + 'a \<Rightarrow> db \<Rightarrow> bool) \<Rightarrow> bool" where
  "completes view committed in_txn m gs P \<longleftrightarrow>
     (\<exists>r gs'. m gs = Some (r, gs') \<and> frame committed in_txn gs gs' \<and>
       (\<not> transaction_failed gs' \<longrightarrow> P r (view (ws_db gs'))))"

lemma completesI:
  assumes "safe_prog committed in_txn m" and "runs view m (view (ws_db gs)) x d'" and "ws_present gs" and "P x d'"
  shows "completes view committed in_txn m gs P"
  using assms unfolding safe_prog_def runs_def completes_def by blast

lemma completes_mono:
  "completes view committed in_txn m gs P \<Longrightarrow> (\<And>r d. P r d \<Longrightarrow> Q r d) \<Longrightarrow> completes view committed in_txn m gs Q"
  unfolding completes_def by blast

end
