(* ===== verification/Table_Ops.thy ===== *)
theory Table_Ops
  imports Store_Monad Mem_Engine
begin

text \<open>
  \<^verbatim>\<open>storage/wt_table_ops.{hpp,cpp}\<close>: put, get, delete and prefix scan of a table, on a raw
  \<^verbatim>\<open>WT_SESSION\<close> (return values only) and on a \<^verbatim>\<open>GraphSession\<close> (every failure sticks to the session).
  A scan callback that captures local variables by reference is a function of an accumulator; it
  returns whether to go on.  A returned error of the raw scan is only logged.
\<close>

section \<open>Cursor primitives\<close>

type_synonym ('s, 'z) wts = "('s, 'z) wt_session_scheme"

definition putWithCursor :: "'s wt_engine \<Rightarrow> string \<Rightarrow> bytes \<Rightarrow> bytes \<Rightarrow> ('s, 'z) wts \<Rightarrow> wt_ret \<times> ('s, 'z) wts" where
  "putWithCursor w table key value gs =
     (let (r, s) = wt_insert w table key value (ws_db gs) in (r, gs\<lparr>ws_db := s\<rparr>))"

definition getWithCursor :: "'s wt_engine \<Rightarrow> string \<Rightarrow> bytes \<Rightarrow> ('s, 'z) wts \<Rightarrow> (wt_ret \<times> bytes) \<times> ('s, 'z) wts" where
  "getWithCursor w table key gs =
     (let (r, p, s) = wt_search w table key (ws_db gs); gs1 = gs\<lparr>ws_db := s\<rparr> in
        if r \<noteq> RET_OK then ((r, []), gs1) else (wt_get_value w table p s, gs1))"

definition delWithCursor :: "'s wt_engine \<Rightarrow> string \<Rightarrow> bytes \<Rightarrow> ('s, 'z) wts \<Rightarrow> wt_ret \<times> ('s, 'z) wts" where
  "delWithCursor w table key gs =
     (let (r, s) = wt_remove w table key (ws_db gs)
      in (if r \<noteq> RET_OK \<and> r \<noteq> RET_NOTFOUND then r else RET_OK, gs\<lparr>ws_db := s\<rparr>))"

text \<open>The \<^verbatim>\<open>while (true)\<close> of \<^verbatim>\<open>scanRangeWithCursor\<close>, entered on a positioned cursor.\<close>

partial_function (option) scan_loop ::
  "'s wt_engine \<Rightarrow> string \<Rightarrow> bytes \<Rightarrow> (bytes \<Rightarrow> bytes) option \<Rightarrow>
   (bytes \<Rightarrow> bytes \<Rightarrow> 'a \<Rightarrow> (('s, 'z) wts, bool \<times> 'a) prog) \<Rightarrow>
   wt_position \<Rightarrow> 'a \<Rightarrow> (('s, 'z) wts, wt_ret \<times> 'a) prog" where
  "scan_loop w table end_key end_key_view callback p acc gs =
     (case wt_get_key w table p (ws_db gs) of (r, key) \<Rightarrow>
      if r \<noteq> RET_OK then Some (Inr (r, acc), gs)
      else if end_key \<noteq> [] \<and> end_key \<le> (case end_key_view of Some f \<Rightarrow> f key | None \<Rightarrow> key)
      then Some (Inr (RET_OK, acc), gs)
      else case wt_get_value w table p (ws_db gs) of (r, value) \<Rightarrow>
      if r \<noteq> RET_OK then Some (Inr (r, acc), gs)
      else case callback key value acc gs of
        None \<Rightarrow> None
      | Some (res, gs1) \<Rightarrow> (case res of
          Inl e \<Rightarrow> Some (Inl e, gs1)
        | Inr (go_on, acc1) \<Rightarrow>
            if \<not> go_on then Some (Inr (RET_OK, acc1), gs1)
            else (case wt_next w table (Some p) (ws_db gs1) of (r, p1, s) \<Rightarrow>
              if r = RET_NOTFOUND then Some (Inr (RET_OK, acc1), gs1\<lparr>ws_db := s\<rparr>)
              else if r \<noteq> RET_OK then Some (Inr (r, acc1), gs1\<lparr>ws_db := s\<rparr>)
              else scan_loop w table end_key end_key_view callback p1 acc1 (gs1\<lparr>ws_db := s\<rparr>))))"

definition scanRangeWithCursor ::
  "'s wt_engine \<Rightarrow> string \<Rightarrow> bytes \<Rightarrow> bool \<Rightarrow> bytes \<Rightarrow> (bytes \<Rightarrow> bytes) option \<Rightarrow>
   (bytes \<Rightarrow> bytes \<Rightarrow> 'a \<Rightarrow> (('s, 'z) wts, bool \<times> 'a) prog) \<Rightarrow> 'a \<Rightarrow> (('s, 'z) wts, wt_ret \<times> 'a) prog" where
  "scanRangeWithCursor w table start_key exclusive_start end_key end_key_view callback acc gs =
     (if start_key \<noteq> [] then
        (case wt_search_near w table start_key (ws_db gs) of (r, cmp, p, s) \<Rightarrow>
         let gs1 = gs\<lparr>ws_db := s\<rparr> in
         if r = RET_NOTFOUND then Some (Inr (RET_OK, acc), gs1)
         else if r \<noteq> RET_OK then Some (Inr (r, acc), gs1)
         else if (if exclusive_start then cmp \<le> 0 else cmp < 0) then
           (case wt_next w table (Some p) s of (r, p1, s1) \<Rightarrow>
            let gs2 = gs\<lparr>ws_db := s1\<rparr> in
            if r = RET_NOTFOUND then Some (Inr (RET_OK, acc), gs2)
            else if r \<noteq> RET_OK then Some (Inr (r, acc), gs2)
            else scan_loop w table end_key end_key_view callback p1 acc gs2)
         else scan_loop w table end_key end_key_view callback p acc gs1)
      else
        (case wt_reset w table (ws_db gs) of (r, s) \<Rightarrow>
         if r \<noteq> RET_OK then Some (Inr (r, acc), gs\<lparr>ws_db := s\<rparr>)
         else case wt_next w table None s of (r, p, s1) \<Rightarrow>
           let gs2 = gs\<lparr>ws_db := s1\<rparr> in
           if r = RET_NOTFOUND then Some (Inr (RET_OK, acc), gs2)
           else if r \<noteq> RET_OK then Some (Inr (r, acc), gs2)
           else scan_loop w table end_key end_key_view callback p acc gs2))"

definition scanWithCursor ::
  "'s wt_engine \<Rightarrow> string \<Rightarrow> bytes \<Rightarrow> (bytes \<Rightarrow> bytes \<Rightarrow> 'a \<Rightarrow> (('s, 'z) wts, bool \<times> 'a) prog) \<Rightarrow>
   'a \<Rightarrow> (('s, 'z) wts, wt_ret \<times> 'a) prog" where
  "scanWithCursor w table prefx callback acc =
     (if prefx = [] then scanRangeWithCursor w table [] False [] None callback acc
      else scanRangeWithCursor w table prefx False [] None
        (\<lambda>key value acc. if prefix prefx key then callback key value acc else ret (False, acc)) acc)"

section \<open>Operations on a raw WiredTiger session\<close>

definition raw_table_put :: "'s wt_engine \<Rightarrow> string \<Rightarrow> bytes \<Rightarrow> bytes \<Rightarrow> (('s, 'z) wts, bool) prog" where
  "raw_table_put w table key value =
     bindp (getp ws_present) (\<lambda>present.
     if \<not> present then ret False
     else bindp (call (open_cursor w table)) (\<lambda>r.
       if r \<noteq> RET_OK then ret False
       else bindp (call (putWithCursor w table key value)) (\<lambda>r. ret (r = RET_OK))))"

definition raw_table_get :: "'s wt_engine \<Rightarrow> string \<Rightarrow> bytes \<Rightarrow> (('s, 'z) wts, bytes option) prog" where
  "raw_table_get w table key =
     bindp (getp ws_present) (\<lambda>present.
     if \<not> present then ret None
     else bindp (call (open_cursor w table)) (\<lambda>r.
       if r \<noteq> RET_OK then ret None
       else bindp (call (getWithCursor w table key)) (\<lambda>(r, value).
         ret (if r \<noteq> RET_OK then None else Some value))))"

definition raw_table_del :: "'s wt_engine \<Rightarrow> string \<Rightarrow> bytes \<Rightarrow> (('s, 'z) wts, bool) prog" where
  "raw_table_del w table key =
     bindp (getp ws_present) (\<lambda>present.
     if \<not> present then ret False
     else bindp (call (open_cursor w table)) (\<lambda>r.
       if r \<noteq> RET_OK then ret False
       else bindp (call (delWithCursor w table key)) (\<lambda>r. ret (r = RET_OK))))"

definition raw_table_scan ::
  "'s wt_engine \<Rightarrow> string \<Rightarrow> bytes \<Rightarrow> (bytes \<Rightarrow> bytes \<Rightarrow> 'a \<Rightarrow> (('s, 'z) wts, bool \<times> 'a) prog) \<Rightarrow>
   'a \<Rightarrow> (('s, 'z) wts, 'a) prog" where
  "raw_table_scan w table prefx callback acc =
     bindp (getp ws_present) (\<lambda>present.
     if \<not> present then ret acc
     else bindp (call (open_cursor w table)) (\<lambda>r.
       if r \<noteq> RET_OK then ret acc
       else bindp (scanWithCursor w table prefx callback acc) (\<lambda>(r, acc1). ret acc1)))"

section \<open>Operations on a graph session\<close>

definition table_put :: "'s wt_engine \<Rightarrow> string \<Rightarrow> bytes \<Rightarrow> bytes \<Rightarrow> ('s, bool) sprog" where
  "table_put w table key value =
     bindp (call (acquire_cursor w table)) (\<lambda>r.
     if r \<noteq> RET_OK then seqp (modp (fail_from_wt r)) (ret False)
     else bindp (call (putWithCursor w table key value)) (\<lambda>r.
       if r \<noteq> RET_OK then seqp (modp (fail_from_wt r)) (ret False)
       else ret True))"

definition table_get :: "'s wt_engine \<Rightarrow> string \<Rightarrow> bytes \<Rightarrow> ('s, bytes option) sprog" where
  "table_get w table key =
     bindp (call (acquire_cursor w table)) (\<lambda>r.
     if r \<noteq> RET_OK then seqp (modp (fail_from_wt r)) (ret None)
     else bindp (call (getWithCursor w table key)) (\<lambda>(r, value).
       if r = RET_NOTFOUND then ret None
       else if r \<noteq> RET_OK then seqp (modp (fail_from_wt r)) (ret None)
       else ret (Some value)))"

definition table_del :: "'s wt_engine \<Rightarrow> string \<Rightarrow> bytes \<Rightarrow> ('s, bool) sprog" where
  "table_del w table key =
     bindp (call (acquire_cursor w table)) (\<lambda>r.
     if r \<noteq> RET_OK then seqp (modp (fail_from_wt r)) (ret False)
     else bindp (call (delWithCursor w table key)) (\<lambda>r.
       if r \<noteq> RET_OK then seqp (modp (fail_from_wt r)) (ret False)
       else ret True))"

definition table_scan ::
  "'s wt_engine \<Rightarrow> string \<Rightarrow> bytes \<Rightarrow> (bytes \<Rightarrow> bytes \<Rightarrow> 'a \<Rightarrow> ('s, bool \<times> 'a) sprog) \<Rightarrow> 'a \<Rightarrow> ('s, 'a) sprog" where
  "table_scan w table prefx callback acc =
     bindp (call (acquire_scan_cursor w table)) (\<lambda>r.
     if r \<noteq> RET_OK then seqp (modp (fail_from_wt r)) (ret acc)
     else bindp (scanWithCursor w table prefx callback acc) (\<lambda>(r, acc1).
       if r \<noteq> RET_OK then seqp (modp (fail_from_wt r)) (ret acc1)
       else ret acc1))"

text \<open>\<^verbatim>\<open>wt::scan_range\<close> on an own scan cursor, as every caller in the store wraps it.\<close>

definition scan_range ::
  "'s wt_engine \<Rightarrow> string \<Rightarrow> bytes \<Rightarrow> bool \<Rightarrow> bytes \<Rightarrow> (bytes \<Rightarrow> bytes) option \<Rightarrow>
   (bytes \<Rightarrow> bytes \<Rightarrow> 'a \<Rightarrow> (('s, 'z) wts, bool \<times> 'a) prog) \<Rightarrow> 'a \<Rightarrow> (('s, 'z) wts, wt_ret \<times> 'a) prog" where
  "scan_range w table start_key exclusive_start end_key end_key_view callback acc =
     scanRangeWithCursor w table start_key exclusive_start end_key end_key_view callback acc"

end
