(* ===== verification/Scan_Proofs.thy ===== *)
theory Scan_Proofs
  imports Table_Proofs
begin

text \<open>
  Prefix and range scans of \<^verbatim>\<open>wt_table_ops.cpp\<close>: they return, and they visit the rows of the prefix
  (or range) in key order.
\<close>

section \<open>The rows ahead of a cursor\<close>

definition keys_after :: "(bytes \<Rightarrow> bytes option) \<Rightarrow> bytes \<Rightarrow> bytes list" where
  "keys_after m k = sorted_list_of_set {j \<in> dom m. k < j}"

definition keys_from :: "(bytes \<Rightarrow> bytes option) \<Rightarrow> bytes \<Rightarrow> bytes list" where
  "keys_from m k = sorted_list_of_set {j \<in> dom m. k \<le> j}"

definition scan_keys :: "(bytes \<Rightarrow> bytes option) \<Rightarrow> bytes \<Rightarrow> bytes list" where
  "scan_keys m p = sorted_list_of_set {j \<in> dom m. prefix p j}"

lemma sorted_list_of_set_Cons:
  fixes k :: "'a::linorder"
  assumes "finite A" and "k \<in> A" and "\<And>j. j \<in> A \<Longrightarrow> k \<le> j"
  shows "sorted_list_of_set A = k # sorted_list_of_set {j \<in> A. k < j}"
proof -
  have "A = insert k {j \<in> A. k < j}"
    using assms(2,3) by (auto simp: order.order_iff_strict)
  moreover have "sorted_list_of_set (insert k {j \<in> A. k < j}) = insort k (sorted_list_of_set {j \<in> A. k < j})"
    using assms(1) by (intro sorted_list_of_set.fold_insort_key.insert) auto
  moreover have "insort k (sorted_list_of_set {j \<in> A. k < j}) = k # sorted_list_of_set {j \<in> A. k < j}"
    using assms(1) by (intro insort_is_Cons) auto
  ultimately show ?thesis by simp
qed

lemma keys_from_Cons: "finite (dom m) \<Longrightarrow> k \<in> dom m \<Longrightarrow> keys_from m k = k # keys_after m k"
  unfolding keys_from_def keys_after_def
  by (subst sorted_list_of_set_Cons [of _ k]) (auto intro!: arg_cong [where f = sorted_list_of_set])

lemma keys_after_next: "finite (dom m) \<Longrightarrow> is_next m k k' \<Longrightarrow> keys_after m k = keys_from m k'"
  unfolding keys_from_def keys_after_def is_next_def
  by (intro arg_cong [where f = sorted_list_of_set]) auto

lemma keys_after_none: "\<forall>j \<in> dom m. j \<le> k \<Longrightarrow> keys_after m k = []"
proof -
  assume "\<forall>j \<in> dom m. j \<le> k"
  then have "{j \<in> dom m. k < j} = {}" by (auto simp: dom_def dest: leD)
  then show ?thesis unfolding keys_after_def by (simp only: sorted_list_of_set.sorted_key_list_of_set_empty)
qed

lemma keys_after_cong: "(\<And>j. k < j \<Longrightarrow> m j = m' j) \<Longrightarrow> keys_after m k = keys_after m' k"
  unfolding keys_after_def by (intro arg_cong [where f = sorted_list_of_set]) (auto simp: dom_def)

lemma keys_from_first: "is_first m k \<Longrightarrow> keys_from m k = keys_from m []"
  unfolding keys_from_def is_first_def
  by (intro arg_cong [where f = sorted_list_of_set]) auto

lemma keys_from_at: "finite (dom m) \<Longrightarrow> is_next m p k \<Longrightarrow> p \<notin> dom m \<Longrightarrow> keys_from m k = keys_from m p"
  unfolding keys_from_def is_next_def
  by (intro arg_cong [where f = sorted_list_of_set]) (auto simp: order.order_iff_strict)

lemma keys_from_prev:
  assumes "is_prev m p q" and "p \<notin> dom m"
  shows "keys_after m q = keys_from m p"
proof -
  have "q < j \<longleftrightarrow> p \<le> j" if "j \<in> dom m" for j
    using assms that unfolding is_prev_def by (meson leD le_less_linear less_le_trans)
  then show ?thesis
    unfolding keys_from_def keys_after_def by (intro arg_cong [where f = sorted_list_of_set]) auto
qed

lemma keys_after_absent: "k \<notin> dom m \<Longrightarrow> keys_after m k = keys_from m k"
  unfolding keys_from_def keys_after_def
  by (intro arg_cong [where f = sorted_list_of_set]) (auto simp: order.order_iff_strict)

definition range_keys :: "(bytes \<Rightarrow> bytes option) \<Rightarrow> bytes \<Rightarrow> bool \<Rightarrow> bytes list" where
  "range_keys m start excl = (if excl \<and> start \<noteq> [] then keys_after m start else keys_from m start)"

lemma keys_from_empty [simp]: "keys_from Map.empty p = []" "scan_keys Map.empty p = []" "keys_after Map.empty p = []"
  by (simp_all add: keys_from_def scan_keys_def keys_after_def)

section \<open>A scan on the tables themselves\<close>

text \<open>
  \<open>a_scan\<close> is the specification of a scan: the callback \<open>f\<close> is applied to the listed rows one after
  the other until it stops, fails, or the rows end.
\<close>

type_synonym 'a acallback = "bytes \<Rightarrow> bytes \<Rightarrow> 'a \<Rightarrow> db \<Rightarrow> (cpp_error + bool \<times> 'a) \<times> db"

fun a_scan :: "'a acallback \<Rightarrow> string \<Rightarrow> bytes list \<Rightarrow> 'a \<Rightarrow> db \<Rightarrow> (cpp_error + 'a) \<times> db" where
  "a_scan f tab [] a d = (Inr a, d)"
| "a_scan f tab (k # ks) a d =
     (case f k (the (d tab k)) a d of
        (Inl e, d1) \<Rightarrow> (Inl e, d1)
      | (Inr (go_on, a1), d1) \<Rightarrow> if go_on then a_scan f tab ks a1 d1 else (Inr a1, d1))"

text \<open>A callback that does not touch the rows still ahead.\<close>

definition looks_back :: "string \<Rightarrow> 'a acallback \<Rightarrow> bool" where
  "looks_back tab f \<longleftrightarrow>
     (\<forall>k v a d a' d' j. f k v a d = (Inr (True, a'), d') \<longrightarrow> k < j \<longrightarrow> d' tab j = d tab j)"

definition until :: "(bytes \<Rightarrow> bool) \<Rightarrow> 'a acallback \<Rightarrow> 'a acallback" where
  "until P f = (\<lambda>k v a d. if P k then f k v a d else (Inr (False, a), d))"

lemma looks_back_until: "looks_back tab f \<Longrightarrow> looks_back tab (until P f)"
  by (auto simp: looks_back_def until_def split: if_splits)

lemma a_scan_until: "a_scan (until P f) tab ks a d = a_scan f tab (takeWhile P ks) a d"
  by (induction ks arbitrary: a d) (auto simp: until_def split: sum.splits prod.splits)

lemma keys_from_takeWhile_prefix:
  assumes "finite (dom m)"
  shows "takeWhile (prefix p) (keys_from m p) = scan_keys m p"
proof (rule sorted_distinct_set_unique)
  let ?L = "keys_from m p"
  have L: "set ?L = {j \<in> dom m. p \<le> j}" "sorted ?L" "distinct ?L"
    using assms by (auto simp: keys_from_def)
  show "sorted (takeWhile (prefix p) ?L)" using L(2) by (simp add: sorted_takeWhile)
  show "distinct (takeWhile (prefix p) ?L)" using L(3) by simp
  have "takeWhile (prefix p) ?L = filter (prefix p) ?L"
  proof (rule takeWhile_eq_filter)
    fix y assume y: "y \<in> set (dropWhile (prefix p) ?L)"
    then obtain x xs where d: "dropWhile (prefix p) ?L = x # xs" by (cases "dropWhile (prefix p) ?L") auto
    have np: "\<not> prefix p x" using d by (metis hd_dropWhile list.discI list.sel(1))
    have "sorted (x # xs)" using L(2) d by (metis sorted_dropWhile)
    with y d have "x \<le> y" by auto
    moreover have "p \<le> x" using L(1) d by (metis (no_types, lifting) list.set_intros(1) mem_Collect_eq set_dropWhileD)
    ultimately show "\<not> prefix p y" using np prefix_interval by blast
  qed
  then show "set (takeWhile (prefix p) ?L) = set (scan_keys m p)"
    using assms L(1) prefix_imp_le by (auto simp: scan_keys_def)
  show "sorted (scan_keys m p)" "distinct (scan_keys m p)" by (simp_all add: scan_keys_def)
qed

definition before_end :: "bytes \<Rightarrow> (bytes \<Rightarrow> bytes) option \<Rightarrow> bytes \<Rightarrow> bool" where
  "before_end end_key ev k \<longleftrightarrow>
     \<not> (end_key \<noteq> [] \<and> end_key \<le> (case ev of Some f \<Rightarrow> f k | None \<Rightarrow> k))"

text \<open>The result of a cursor loop: an exception, an engine error, or what the specification says.\<close>

definition scan_result :: "cpp_error + wt_ret \<times> 'a \<Rightarrow> db \<Rightarrow> (cpp_error + 'a) \<times> db \<Rightarrow> bool" where
  "scan_result y d spec \<longleftrightarrow>
     (case y of Inl e \<Rightarrow> spec = (Inl e, d) | Inr (r, a) \<Rightarrow> r = RET_OK \<longrightarrow> spec = (Inr a, d))"

section \<open>Scans return\<close>

context wiredtiger
begin

definition keeps_order :: "string \<Rightarrow> 's graph_session \<Rightarrow> 's graph_session \<Rightarrow> bool" where
  "keeps_order tab gs gs' \<longleftrightarrow>
     frame committed in_txn gs gs' \<and> dom (view (ws_db gs') tab) \<subseteq> dom (view (ws_db gs) tab)"

definition safe_callback :: "string \<Rightarrow> (bytes \<Rightarrow> bytes \<Rightarrow> 'a \<Rightarrow> ('s, bool \<times> 'a) sprog) \<Rightarrow> bool" where
  "safe_callback tab cb \<longleftrightarrow> (\<forall>k v a gs. \<exists>x gs'. cb k v a gs = Some (x, gs') \<and> keeps_order tab gs gs')"

lemma keeps_order_refl [simp]: "keeps_order tab gs gs"
  by (simp add: keeps_order_def)

lemma keeps_order_trans: "keeps_order tab gs gs1 \<Longrightarrow> keeps_order tab gs1 gs2 \<Longrightarrow> keeps_order tab gs gs2"
  unfolding keeps_order_def using frame_trans by blast

lemma keeps_order_db:
  "view s = view (ws_db gs) \<and> committed s = committed (ws_db gs) \<and> in_txn s = in_txn (ws_db gs) \<Longrightarrow>
   keeps_order tab gs (gs\<lparr>ws_db := s\<rparr>)"
  unfolding keeps_order_def by (auto intro: frame_db)

lemma scan_loop_stop:
  "\<not> before_end end_key ev (fst p) \<Longrightarrow> scan_loop w tab end_key ev cb p acc gs = Some (Inr (RET_OK, acc), gs)"
  using get_key_ok [of tab p "ws_db gs"] by (subst scan_loop.simps) (simp add: before_end_def)

lemma scan_loop_step:
  assumes "before_end end_key ev (fst p)" and "cb (fst p) (snd p) acc gs = Some (x, gs1)"
    and "wt_next w tab (Some p) (ws_db gs1) = (r, q, s)"
  shows "scan_loop w tab end_key ev cb p acc gs =
    (case x of
       Inl e \<Rightarrow> Some (Inl e, gs1)
     | Inr (go_on, acc1) \<Rightarrow>
         if \<not> go_on then Some (Inr (RET_OK, acc1), gs1)
         else if r = RET_NOTFOUND then Some (Inr (RET_OK, acc1), gs1\<lparr>ws_db := s\<rparr>)
         else if r \<noteq> RET_OK then Some (Inr (r, acc1), gs1\<lparr>ws_db := s\<rparr>)
         else scan_loop w tab end_key ev cb q acc1 (gs1\<lparr>ws_db := s\<rparr>))"
  using assms get_key_ok [of tab p "ws_db gs"] get_value_ok [of tab p "ws_db gs"]
  by (subst scan_loop.simps) (auto simp: before_end_def split: sum.splits prod.splits)

lemma scan_loop_returns:
  assumes cb: "safe_callback tab cb"
  shows "\<exists>x gs'. scan_loop w tab end_key ev cb p acc gs = Some (x, gs') \<and> keeps_order tab gs gs'"
proof (induction "card {j \<in> dom (view (ws_db gs) tab). fst p < j}" arbitrary: gs p acc rule: less_induct)
  case less
  from cb obtain x gs1 where c: "cb (fst p) (snd p) acc gs = Some (x, gs1)" "keeps_order tab gs gs1"
    unfolding safe_callback_def by blast
  obtain r q s where n: "wt_next w tab (Some p) (ws_db gs1) = (r, q, s)" by (metis prod_cases3)
  have s: "keeps_order tab gs1 (gs1\<lparr>ws_db := s\<rparr>)"
    by (rule keeps_order_db) (rule next_same [OF n])
  note gs2 = keeps_order_trans [OF c(2) s]
  have rec: "\<exists>x gs'. scan_loop w tab end_key ev cb q a (gs1\<lparr>ws_db := s\<rparr>) = Some (x, gs') \<and> keeps_order tab gs gs'"
    if "r = RET_OK" for a
  proof -
    have v2: "view s = view (ws_db gs1)" using next_same [OF n] by simp
    have "is_next (view (ws_db gs1) tab) (fst p) (fst q)" using next_ok [of tab "Some p"] n that by auto
    then have q: "fst p < fst q" "fst q \<in> dom (view (ws_db gs1) tab)" by (auto simp: is_next_def)
    have "{j \<in> dom (view s tab). fst q < j} \<subset> {j \<in> dom (view (ws_db gs) tab). fst p < j}"
      using q c(2) v2 by (auto simp: keeps_order_def intro: order.strict_trans)
    then have "card {j \<in> dom (view s tab). fst q < j} < card {j \<in> dom (view (ws_db gs) tab). fst p < j}"
      by (intro psubset_card_mono finite_subset [OF _ finite_view]) auto
    from less.hyps [of "gs1\<lparr>ws_db := s\<rparr>" q a] this show ?thesis
      using keeps_order_trans [OF gs2] by fastforce
  qed
  show ?case
  proof (cases "before_end end_key ev (fst p)")
    case True
    show ?thesis
      unfolding scan_loop_step [where cb = cb, OF True c(1) n]
      using c(2) rec gs2 by (auto split: sum.splits prod.splits if_splits)
  qed (simp add: scan_loop_stop)
qed

lemma scanRange_returns:
  assumes cb: "safe_callback tab cb"
  shows "\<exists>x gs'. scanRangeWithCursor w tab start excl end_key ev cb acc gs = Some (x, gs') \<and> keeps_order tab gs gs'"
proof -
  note loop = scan_loop_returns [OF cb]
  have step: "\<exists>x gs'. scan_loop w tab end_key ev cb p acc (gs\<lparr>ws_db := s\<rparr>) = Some (x, gs') \<and> keeps_order tab gs gs'"
    if "keeps_order tab gs (gs\<lparr>ws_db := s\<rparr>)" for p s
    using loop [of end_key ev p acc "gs\<lparr>ws_db := s\<rparr>"] keeps_order_trans [OF that] by blast
  show ?thesis
  proof (cases "start = []")
    case True
    obtain r s where a: "wt_reset w tab (ws_db gs) = (r, s)" by fastforce
    obtain r1 p1 s1 where b: "wt_next w tab None s = (r1, p1, s1)" by (metis prod_cases3)
    have "keeps_order tab gs (gs\<lparr>ws_db := s\<rparr>)" "keeps_order tab gs (gs\<lparr>ws_db := s1\<rparr>)"
      using reset_same [OF a] next_same [OF b] by (auto intro!: keeps_order_db)
    then show ?thesis
      using True a b step [of s1 p1] by (auto simp: scanRangeWithCursor_def Let_def)
  next
    case False
    obtain r c p s where a: "wt_search_near w tab start (ws_db gs) = (r, c, p, s)" by (metis prod_cases4)
    obtain r1 p1 s1 where b: "wt_next w tab (Some p) s = (r1, p1, s1)" by (metis prod_cases3)
    have "keeps_order tab gs (gs\<lparr>ws_db := s\<rparr>)" "keeps_order tab gs (gs\<lparr>ws_db := s1\<rparr>)"
      using search_near_same [OF a] next_same [OF b] by (auto intro!: keeps_order_db)
    then show ?thesis
      using False a b step [of s p] step [of s1 p1]
      by (auto simp: scanRangeWithCursor_def Let_def)
  qed
qed

lemma scanWithCursor_returns:
  assumes cb: "safe_callback tab cb"
  shows "\<exists>x gs'. scanWithCursor w tab pre cb acc gs = Some (x, gs') \<and> keeps_order tab gs gs'"
proof -
  have "safe_callback tab (\<lambda>key value acc. if prefix pre key then cb key value acc else ret (False, acc))"
    using cb unfolding safe_callback_def ret_def by auto
  from scanRange_returns [OF this] scanRange_returns [OF cb] show ?thesis
    by (simp add: scanWithCursor_def)
qed

lemma keeps_order_imp_frame: "keeps_order tab gs gs' \<Longrightarrow> frame committed in_txn gs gs'"
  by (simp add: keeps_order_def)

lemma safe_scanWithCursor [safe]: "safe_callback tab cb \<Longrightarrow> safe_prog committed in_txn (scanWithCursor w tab pre cb acc)"
  unfolding safe_prog_def by (metis scanWithCursor_returns keeps_order_imp_frame)

lemma safe_scan_range [safe]: "safe_callback tab cb \<Longrightarrow> safe_prog committed in_txn (scan_range w tab a b c e cb acc)"
  unfolding safe_prog_def scan_range_def by (metis scanRange_returns keeps_order_imp_frame)

lemma safe_table_scan [safe]: "safe_callback tab cb \<Longrightarrow> safe_prog committed in_txn (table_scan w tab pre cb acc)"
  unfolding table_scan_def by (intro safe)

lemma safe_raw_scan [safe]: "safe_callback tab cb \<Longrightarrow> safe_prog committed in_txn (raw_table_scan w tab pre cb acc)"
  unfolding raw_table_scan_def by (intro safe)

lemma safe_callback_pure [safe]: "safe_callback tab (\<lambda>k v a. liftr (g k v a))"
  by (simp add: safe_callback_def liftr_def)

lemma keeps_order_del: "\<exists>x gs'. table_del w tab k gs = Some (x, gs') \<and> keeps_order tab' gs gs'"
proof -
  obtain r gs1 where a: "acquire_cursor w tab gs = (r, gs1)" by fastforce
  have g1: "keeps_order tab' gs gs1"
    using frame_acquire [of gs tab] view_acquire [of tab gs] a by (simp add: keeps_order_def)
  obtain r1 gs2 where b: "delWithCursor w tab k gs1 = (r1, gs2)" by fastforce
  have g2: "keeps_order tab' gs1 gs2"
    using frame_del [of gs1 tab k] del_with_cursor [OF b] b by (auto simp: keeps_order_def db_apply split: if_splits)
  have f: "keeps_order tab' h (fail_from_wt r h)" for r h
    by (simp add: keeps_order_def) (simp add: fail_from_wt_def gs_fail_def Let_def)
  show ?thesis
    using a b keeps_order_trans [OF g1 f] keeps_order_trans [OF g1 g2]
      keeps_order_trans [OF keeps_order_trans [OF g1 g2] f]
    by (simp add: table_del_def bindp_def call_def seqp_def modp_def ret_def)
qed

lemma safe_callback_del [safe]:
  "safe_callback tab (\<lambda>k v a. seqp (table_del w tab' k) (ret (True, a)))"
  unfolding safe_callback_def
proof (intro allI)
  fix k v a gs
  from keeps_order_del [of tab' k gs tab] obtain x gs' where
    "table_del w tab' k gs = Some (x, gs')" "keeps_order tab gs gs'" by blast
  then show "\<exists>x gs'. seqp (table_del w tab' k) (ret (True, a)) gs = Some (x, gs') \<and> keeps_order tab gs gs'"
    by (cases x) (auto simp: seqp_def bindp_def ret_def)
qed

section \<open>Scans visit the rows in order\<close>

lemma scan_loop_runs:
  assumes safe_cb: "safe_callback tab cb"
    and cb: "\<And>k v a d. runs view (cb k v a) d (fst (f k v a d)) (snd (f k v a d))"
    and lb: "looks_back tab f"
    and "ws_present gs" and "view (ws_db gs) tab (fst p) = Some (snd p)"
    and "scan_loop w tab end_key ev cb p acc gs = Some (y, gs')" and "\<not> transaction_failed gs'"
  shows "scan_result y (view (ws_db gs'))
    (a_scan (until (before_end end_key ev) f) tab (keys_from (view (ws_db gs) tab) (fst p)) acc (view (ws_db gs)))"
  using assms(4-)
proof (induction "length (keys_from (view (ws_db gs) tab) (fst p))" arbitrary: gs p acc rule: less_induct)
  case less
  let ?d = "view (ws_db gs)"
  have keys: "keys_from (?d tab) (fst p) = fst p # keys_after (?d tab) (fst p)"
    using less.prems(2) finite_view by (intro keys_from_Cons) auto
  show ?case
  proof (cases "before_end end_key ev (fst p)")
    case False
    with less.prems(3) have "y = Inr (RET_OK, acc)" "gs' = gs"
      by (simp_all add: scan_loop_stop)
    with False show ?thesis by (simp add: scan_result_def keys until_def)
  next
    case True
    from safe_cb obtain x gs1 where c: "cb (fst p) (snd p) acc gs = Some (x, gs1)" "keeps_order tab gs gs1"
      unfolding safe_callback_def by blast
    obtain r q s where n: "wt_next w tab (Some p) (ws_db gs1) = (r, q, s)" by (metis prod_cases3)
    have s: "view s = view (ws_db gs1)" using next_same [OF n] by simp
    note rest = less.prems(3) [unfolded scan_loop_step [where cb = cb, OF True c(1) n]]
    have nf: "\<not> transaction_failed gs1"
    proof
      assume f1: "transaction_failed gs1"
      have s1: "keeps_order tab gs1 (gs1\<lparr>ws_db := s\<rparr>)"
        by (rule keeps_order_db) (rule next_same [OF n])
      have "keeps_order tab gs1 gs'" if "scan_loop w tab end_key ev cb q a (gs1\<lparr>ws_db := s\<rparr>) = Some (y, gs')" for a
        using scan_loop_returns [OF safe_cb, of end_key ev q a "gs1\<lparr>ws_db := s\<rparr>"] that keeps_order_trans [OF s1]
        by auto
      with rest s1 have "keeps_order tab gs1 gs'" by (auto split: sum.splits prod.splits if_splits)
      with f1 less.prems(4) show False by (simp add: keeps_order_def frame_def)
    qed
    have fx: "f (fst p) (snd p) acc ?d = (x, view (ws_db gs1))"
      using cb [of "fst p" "snd p" acc ?d] less.prems(1) c(1) nf unfolding runs_def
      by (metis prod.collapse)
    have spec: "a_scan (until (before_end end_key ev) f) tab (keys_from (?d tab) (fst p)) acc ?d =
        (case x of Inl e \<Rightarrow> (Inl e, view (ws_db gs1))
         | Inr (go_on, a1) \<Rightarrow> if go_on
             then a_scan (until (before_end end_key ev) f) tab (keys_after (?d tab) (fst p)) a1 (view (ws_db gs1))
             else (Inr a1, view (ws_db gs1)))"
      using True less.prems(2) fx by (simp add: keys until_def split: sum.splits prod.splits)
    show ?thesis
    proof (cases "\<exists>a1. x = Inr (True, a1)")
      case False
      with rest show ?thesis
        unfolding spec by (auto simp: scan_result_def split: sum.splits prod.splits if_splits)
    next
      case True
      then obtain a1 where x: "x = Inr (True, a1)" by blast
      have "view (ws_db gs1) tab j = ?d tab j" if "fst p < j" for j
        using lb fx x that unfolding looks_back_def by fastforce
      then have same: "keys_after (view (ws_db gs1) tab) (fst p) = keys_after (?d tab) (fst p)"
        by (intro keys_after_cong) auto
      show ?thesis
      proof (cases "r = RET_OK")
        case True
        from next_ok [of tab "Some p"] n True have q: "is_next (view (ws_db gs1) tab) (fst p) (fst q)"
          "view s tab (fst q) = Some (snd q)" by (auto simp: s)
        have after: "keys_after (?d tab) (fst p) = keys_from (view s tab) (fst q)"
          using keys_after_next [OF finite_view q(1)] same by (simp add: s)
        have "ws_present gs1" using c(2) less.prems(1) by (simp add: keeps_order_def frame_def)
        then have "scan_result y (view (ws_db gs'))
            (a_scan (until (before_end end_key ev) f) tab (keys_from (view s tab) (fst q)) a1 (view s))"
          using less.hyps [of "gs1\<lparr>ws_db := s\<rparr>" q a1] rest x True q(2) less.prems(4) after keys by simp
        then show ?thesis unfolding spec using x after by (simp add: s)
      next
        case False
        show ?thesis
        proof (cases "r = RET_NOTFOUND")
          case True
          then have "keys_after (view (ws_db gs1) tab) (fst p) = []"
            using next_notfound [of tab "Some p"] n by (intro keys_after_none) auto
          then show ?thesis unfolding spec using rest x True same s by (auto simp: scan_result_def)
        next
          case nnf: False
          with rest x False show ?thesis by (auto simp: scan_result_def)
        qed
      qed
    qed
  qed
qed

lemma first_row_keys:
  assumes "wt_next w tab (Some p) s = (RET_OK, q, s1)"
  shows "keys_after (view s tab) (fst p) = keys_from (view s1 tab) (fst q)"
    and "view s1 tab (fst q) = Some (snd q)"
proof -
  have "is_next (view s tab) (fst p) (fst q)" "view s tab (fst q) = Some (snd q)" "view s1 = view s"
    using next_ok [OF assms] next_same [OF assms] by auto
  then show "keys_after (view s tab) (fst p) = keys_from (view s1 tab) (fst q)"
    and "view s1 tab (fst q) = Some (snd q)"
    using keys_after_next [OF finite_view] by auto
qed

lemma scanRange_runs:
  assumes safe_cb: "safe_callback tab cb"
    and cb: "\<And>k v a d. runs view (cb k v a) d (fst (f k v a d)) (snd (f k v a d))"
    and lb: "looks_back tab f" and pr: "ws_present gs"
    and run: "scanRangeWithCursor w tab start excl end_key ev cb acc gs = Some (y, gs')"
    and nf: "\<not> transaction_failed gs'"
  shows "scan_result y (view (ws_db gs'))
    (a_scan (until (before_end end_key ev) f) tab (range_keys (view (ws_db gs) tab) start excl) acc (view (ws_db gs)))"
proof -
  let ?d = "view (ws_db gs)"
  let ?spec = "\<lambda>ks. scan_result y (view (ws_db gs')) (a_scan (until (before_end end_key ev) f) tab ks acc ?d)"
  note loop = scan_loop_runs [OF safe_cb cb lb]
  have at: "?spec (keys_from (?d tab) (fst p))"
    if "scan_loop w tab end_key ev cb p acc (gs\<lparr>ws_db := s\<rparr>) = Some (y, gs')" "view s = ?d"
      "?d tab (fst p) = Some (snd p)" for p s
    using loop [of "gs\<lparr>ws_db := s\<rparr>" p end_key ev acc y gs'] that pr nf by simp
  have ends: "?spec []" if "y = Inr (RET_OK, acc)" "view (ws_db gs') = ?d"
    using that by (simp add: scan_result_def)
  have err: "?spec ks" if "y = Inr (r, acc)" "r \<noteq> RET_OK" for r ks
    using that by (simp add: scan_result_def)
  show ?thesis
  proof (cases "start = []")
    case True
    obtain r s where a: "wt_reset w tab (ws_db gs) = (r, s)" by fastforce
    obtain r1 p1 s1 where b: "wt_next w tab None s = (r1, p1, s1)" by (metis prod_cases3)
    note vs = reset_same [OF a] next_same [OF b]
    consider "r \<noteq> RET_OK" | "r = RET_OK" "r1 = RET_NOTFOUND" | "r = RET_OK" "r1 = RET_OK"
      | "r = RET_OK" "r1 \<noteq> RET_OK" "r1 \<noteq> RET_NOTFOUND" by blast
    then show ?thesis
    proof cases
      case 1
      with run True a show ?thesis by (intro err [of r]) (auto simp: scanRangeWithCursor_def)
    next
      case 2
      with next_notfound b vs have "?d tab = Map.empty" by fastforce
      moreover from run True a b 2 have "y = Inr (RET_OK, acc)" "gs' = gs\<lparr>ws_db := s1\<rparr>"
        by (auto simp: scanRangeWithCursor_def)
      ultimately show ?thesis using ends vs True by (simp add: range_keys_def)
    next
      case 3
      with next_ok b vs have p: "is_first (?d tab) (fst p1)" "?d tab (fst p1) = Some (snd p1)" by fastforce+
      from run True a b 3 have "scan_loop w tab end_key ev cb p1 acc (gs\<lparr>ws_db := s1\<rparr>) = Some (y, gs')"
        by (simp add: scanRangeWithCursor_def)
      from at [OF this _ p(2)] vs show ?thesis
        by (simp add: range_keys_def True keys_from_first [OF p(1)])
    next
      case 4
      with run True a b show ?thesis by (intro err [of r1]) (auto simp: scanRangeWithCursor_def)
    qed
  next
    case False
    obtain r c p s where a: "wt_search_near w tab start (ws_db gs) = (r, c, p, s)" by (metis prod_cases4)
    obtain r1 p1 s1 where b: "wt_next w tab (Some p) s = (r1, p1, s1)" by (metis prod_cases3)
    note vs = search_near_same [OF a] next_same [OF b]
    let ?skip = "if excl then c \<le> 0 else c < 0"
    have near: "r = RET_OK \<Longrightarrow> ?d tab (fst p) = Some (snd p) \<and>
        (if ?skip then keys_after (?d tab) (fst p) else keys_from (?d tab) (fst p)) = range_keys (?d tab) start excl"
      using search_near_ok [of tab start "ws_db gs" c p s] a False
        keys_from_prev [of "?d tab" start "fst p"] keys_from_at [OF finite_view, of "ws_db gs" tab start "fst p"]
        keys_after_absent [of start "?d tab"]
      by (auto simp: range_keys_def split: if_splits)
    consider "r = RET_NOTFOUND" | "r \<noteq> RET_OK" "r \<noteq> RET_NOTFOUND" | "r = RET_OK" "\<not> ?skip"
      | "r = RET_OK" ?skip "r1 = RET_NOTFOUND" | "r = RET_OK" ?skip "r1 = RET_OK"
      | "r = RET_OK" ?skip "r1 \<noteq> RET_OK" "r1 \<noteq> RET_NOTFOUND" by blast
    then show ?thesis
    proof cases
      case 1
      with search_near_notfound a have "?d tab = Map.empty" by blast
      moreover from run False a 1 have "y = Inr (RET_OK, acc)" "gs' = gs\<lparr>ws_db := s\<rparr>"
        by (auto simp: scanRangeWithCursor_def)
      ultimately show ?thesis using ends vs by (simp add: range_keys_def)
    next
      case 2
      with run False a show ?thesis by (intro err [of r]) (auto simp: scanRangeWithCursor_def Let_def)
    next
      case 3
      with run False a have "scan_loop w tab end_key ev cb p acc (gs\<lparr>ws_db := s\<rparr>) = Some (y, gs')"
        by (simp add: scanRangeWithCursor_def Let_def)
      from at [OF this] vs near 3 show ?thesis by simp
    next
      case 4
      have "keys_after (?d tab) (fst p) = []"
        using next_notfound [of tab "Some p" s p1 s1] b 4 vs by (intro keys_after_none) auto
      moreover from run False a b 4 have "y = Inr (RET_OK, acc)" "gs' = gs\<lparr>ws_db := s1\<rparr>"
        by (auto simp: scanRangeWithCursor_def Let_def split: if_splits)
      moreover have "keys_after (?d tab) (fst p) = range_keys (?d tab) start excl"
        using near [OF 4(1)] unfolding if_P [OF 4(2)] by blast
      ultimately show ?thesis using ends vs by simp
    next
      case 5
      with run False a b have "scan_loop w tab end_key ev cb p1 acc (gs\<lparr>ws_db := s1\<rparr>) = Some (y, gs')"
        by (simp add: scanRangeWithCursor_def Let_def split: if_splits)
      moreover have "keys_after (?d tab) (fst p) = range_keys (?d tab) start excl"
        using near [OF 5(1)] unfolding if_P [OF 5(2)] by blast
      ultimately show ?thesis using at [of p1 s1] vs first_row_keys [of tab p s p1 s1] b 5 by simp
    next
      case 6
      with run False a b show ?thesis
        by (intro err [of r1]) (auto simp: scanRangeWithCursor_def Let_def split: if_splits)
    qed
  qed
qed

lemma runs_until:
  assumes "\<And>k v a d. runs view (cb k v a) d (fst (f k v a d)) (snd (f k v a d))"
  shows "runs view (if P k then cb k v a else ret (False, a)) d (fst (until P f k v a d)) (snd (until P f k v a d))"
  using assms by (simp add: until_def)

lemma before_end_none [simp]: "before_end [] ev = (\<lambda>k. True)" "until (\<lambda>k. True) f = f"
  by (simp_all add: before_end_def until_def fun_eq_iff)

lemma scanWithCursor_runs:
  assumes safe_cb: "safe_callback tab cb"
    and cb: "\<And>k v a d. runs view (cb k v a) d (fst (f k v a d)) (snd (f k v a d))"
    and lb: "looks_back tab f" and pr: "ws_present gs"
    and run: "scanWithCursor w tab pre cb acc gs = Some (y, gs')" and nf: "\<not> transaction_failed gs'"
  shows "scan_result y (view (ws_db gs'))
    (a_scan f tab (scan_keys (view (ws_db gs) tab) pre) acc (view (ws_db gs)))"
proof (cases "pre = []")
  case True
  have "scan_keys m [] = keys_from m []" for m by (simp add: scan_keys_def keys_from_def)
  with scanRange_runs [OF safe_cb cb lb pr _ nf, of "[]" False "[]" None acc y] run True show ?thesis
    by (simp add: scanWithCursor_def range_keys_def)
next
  case False
  let ?cb = "\<lambda>key value acc. if prefix pre key then cb key value acc else ret (False, acc)"
  have "safe_callback tab ?cb"
    using safe_cb unfolding safe_callback_def ret_def by auto
  from scanRange_runs [OF this runs_until [where cb = cb, OF cb] looks_back_until [OF lb] pr _ nf, of pre False "[]" None acc y]
    run False keys_from_takeWhile_prefix [OF finite_view, of pre "ws_db gs" tab]
  show ?thesis
    by (simp add: scanWithCursor_def range_keys_def a_scan_until)
qed

lemma runs_table_scan:
  assumes safe_cb: "safe_callback tab cb"
    and cb: "\<And>k v a d. runs view (cb k v a) d (fst (f k v a d)) (snd (f k v a d))"
    and lb: "looks_back tab f"
  shows "runs view (table_scan w tab pre cb acc) d
    (fst (a_scan f tab (scan_keys (d tab) pre) acc d)) (snd (a_scan f tab (scan_keys (d tab) pre) acc d))"
  unfolding runs_def
proof (intro allI impI, elim conjE)
  fix gs y gs'
  assume pre: "ws_present gs" "view (ws_db gs) = d" and nf: "\<not> transaction_failed gs'"
    and run: "table_scan w tab pre cb acc gs = Some (y, gs')"
  obtain r gs1 where a: "acquire_scan_cursor w tab gs = (r, gs1)" by fastforce
  have v: "view (ws_db gs1) = d" "ws_present gs1"
    using frame_open [of gs tab] a pre view_open [of tab gs, folded acquire_scan_cursor_def, unfolded a snd_conv]
    by (auto simp: frame_def acquire_scan_cursor_def)
  have ok: "r = RET_OK"
    using run nf a by (auto simp: table_scan_def bindp_def call_def seqp_def modp_def ret_def split: if_splits)
  obtain z gs2 where sc: "scanWithCursor w tab pre cb acc gs1 = Some (z, gs2)"
    using scanWithCursor_returns [OF safe_cb] by blast
  have z: "(case z of Inl e \<Rightarrow> y = Inl e \<and> gs' = gs2 | Inr (r, a) \<Rightarrow> r = RET_OK \<and> y = Inr a \<and> gs' = gs2)"
    using run a ok sc nf
    by (auto simp: table_scan_def bindp_def call_def seqp_def modp_def ret_def split: sum.splits prod.splits if_splits)
  then have "gs' = gs2" by (auto split: sum.splits)
  with scanWithCursor_runs [OF safe_cb cb lb v(2) sc] nf v z
  show "y = fst (a_scan f tab (scan_keys (d tab) pre) acc d) \<and>
      view (ws_db gs') = snd (a_scan f tab (scan_keys (d tab) pre) acc d)"
    by (auto simp: scan_result_def split: sum.splits)
qed

section \<open>The two kinds of callback of the store\<close>

text \<open>Callbacks that only read: a scan is a fold over the rows.\<close>

end

definition scan_rows :: "(bytes \<Rightarrow> bytes option) \<Rightarrow> bytes \<Rightarrow> (bytes \<times> bytes) list" where
  "scan_rows m p = map (\<lambda>k. (k, the (m k))) (scan_keys m p)"

fun fold_rows :: "(bytes \<Rightarrow> bytes \<Rightarrow> 'a \<Rightarrow> (bool \<times> 'a) res) \<Rightarrow> (bytes \<times> bytes) list \<Rightarrow> 'a \<Rightarrow> 'a res" where
  "fold_rows g [] a = Inr a"
| "fold_rows g ((k, v) # rows) a =
     rbind (g k v a) (\<lambda>(go_on, a1). if go_on then fold_rows g rows a1 else Inr a1)"

lemma a_scan_pure:
  "a_scan (\<lambda>k v a d. (g k v a, d)) tab ks a d = (fold_rows g (map (\<lambda>k. (k, the (d tab k))) ks) a, d)"
  by (induction ks arbitrary: a) (auto simp: rbind_def split: sum.splits)

lemma a_scan_del:
  "a_scan (\<lambda>k v a d. (Inr (True, a), db_del tab k d)) tab ks a d = (Inr a, fold (db_del tab) ks d)"
  by (induction ks arbitrary: d) auto

context wiredtiger
begin

lemma runs_scan_pure:
  "runs view (table_scan w tab pre (\<lambda>k v a. liftr (g k v a)) acc) d (fold_rows g (scan_rows (d tab) pre) acc) d"
  using runs_table_scan [where f = "\<lambda>k v a d. (g k v a, d)" and cb = "\<lambda>k v a. liftr (g k v a)" and tab = tab
      and pre = pre and acc = acc and d = d, OF safe_callback_pure]
  by (simp add: a_scan_pure scan_rows_def looks_back_def)

lemma runs_scan_pureI:
  "fold_rows g (scan_rows (d tab) pre) acc = r \<Longrightarrow>
   runs view (table_scan w tab pre (\<lambda>k v a. liftr (g k v a)) acc) d r d"
  by (erule subst) (rule runs_scan_pure)

lemma runs_scan_del:
  "runs view (table_scan w tab pre (\<lambda>k v a. seqp (table_del w tab k) (ret (True, a))) acc) d
     (Inr acc) (fold (db_del tab) (scan_keys (d tab) pre) d)"
proof -
  have cb: "runs view (seqp (table_del w tab k) (ret (True, a))) d (Inr (True, a)) (db_del tab k d)"
    for k and a :: 'b and d
    by (rule runs_seqp [OF runs_table_del]) (auto intro: safe)
  have lb: "looks_back tab (\<lambda>k v (a :: 'b) d. (Inr (True, a), db_del tab k d))"
    by (auto simp: looks_back_def db_apply)
  have "runs view (table_scan w tab pre (\<lambda>k v a. seqp (table_del w tab k) (ret (True, a))) acc) d
      (fst (a_scan (\<lambda>k v a d. (Inr (True, a), db_del tab k d)) tab (scan_keys (d tab) pre) acc d))
      (snd (a_scan (\<lambda>k v a d. (Inr (True, a), db_del tab k d)) tab (scan_keys (d tab) pre) acc d))"
    by (rule runs_table_scan [OF safe_callback_del _ lb]) (simp add: cb)
  then show ?thesis by (simp add: a_scan_del)
qed

end

end
