(* ===== verification/Reliable_Runs.thy ===== *)
theory Reliable_Runs
  imports Scan_Proofs
begin

text \<open>
  On an engine whose calls do not fail for reasons outside the data, no operation records a failure.
  \<open>quiet\<close> is that judgement; with \<open>safe_prog\<close> and \<open>runs\<close> it turns the conditional results into
  results that are reached.
\<close>

definition clean :: "'s graph_session \<Rightarrow> bool" where
  "clean gs \<longleftrightarrow> ws_present gs \<and> \<not> transaction_failed gs \<and> (\<forall>t r. gs_cursors gs t = Some r \<longrightarrow> r = RET_OK)"

definition quiet :: "('s, 'a) sprog \<Rightarrow> bool" where
  "quiet m \<longleftrightarrow> (\<forall>gs x gs'. clean gs \<longrightarrow> m gs = Some (x, gs') \<longrightarrow> clean gs')"

named_theorems quiet "programs that record no failure on a reliable engine"

lemma quiet_ret [quiet]: "quiet (ret x)"
  by (simp add: quiet_def ret_def)

lemma quiet_liftr [quiet]: "quiet (liftr r)"
  by (simp add: quiet_def liftr_def)

lemma quiet_getp [quiet]: "quiet (getp f)"
  by (simp add: quiet_def getp_def)

lemma quiet_bindp [quiet]:
  assumes m: "quiet m" and k: "\<And>x. quiet (k x)"
  shows "quiet (bindp m k)"
  unfolding quiet_def
proof (intro allI impI)
  fix gs x gs' assume gs: "clean gs" and run: "bindp m k gs = Some (x, gs')"
  then obtain r gs1 where 1: "m gs = Some (r, gs1)" by (auto simp: bindp_def split: option.splits)
  with m gs have "clean gs1" unfolding quiet_def by blast
  with run 1 k show "clean gs'" by (cases r) (auto simp: bindp_def quiet_def)
qed

lemma quiet_seqp [quiet]: "quiet m \<Longrightarrow> quiet k \<Longrightarrow> quiet (seqp m k)"
  unfolding seqp_def by (intro quiet)

lemma quiet_if [quiet]: "quiet m \<Longrightarrow> quiet k \<Longrightarrow> quiet (if b then m else k)"
  by simp

lemma quiet_guard [quiet]: "quiet m \<Longrightarrow> quiet k \<Longrightarrow> quiet (guard_then m k)"
  unfolding guard_then_def by (intro quiet)

lemma quiet_all_p_mem: "(\<And>x. x \<in> set xs \<Longrightarrow> quiet (f x)) \<Longrightarrow> quiet (all_p f xs)"
  by (induction xs) (auto intro: quiet)

lemma quiet_each_p_mem: "(\<And>x. x \<in> set xs \<Longrightarrow> quiet (f x)) \<Longrightarrow> quiet (each_p f xs)"
  by (induction xs) (auto intro: quiet)

lemma quiet_all_p [quiet]: "(\<And>x. quiet (f x)) \<Longrightarrow> quiet (all_p f xs)"
  by (rule quiet_all_p_mem)

lemma quiet_each_p [quiet]: "(\<And>x. quiet (f x)) \<Longrightarrow> quiet (each_p f xs)"
  by (rule quiet_each_p_mem)

lemma quiet_case_option [quiet]: "quiet m \<Longrightarrow> (\<And>x. quiet (k x)) \<Longrightarrow> quiet (case v of None \<Rightarrow> m | Some x \<Rightarrow> k x)"
  by (simp split: option.splits)

lemma quiet_case_prod [quiet]: "(\<And>x y. quiet (k x y)) \<Longrightarrow> quiet (case v of (x, y) \<Rightarrow> k x y)"
  by (simp split: prod.splits)

text \<open>A call whose return code is \<open>RET_OK\<close> in clean sessions skips its error branch.\<close>

lemma quiet_call_ok:
  assumes "\<And>gs. clean gs \<Longrightarrow> ok (fst (f gs)) \<and> clean (snd (f gs))" and "\<And>x. ok x \<Longrightarrow> quiet (k x)"
  shows "quiet (bindp (call f) k)"
  unfolding quiet_def bindp_def call_def
proof (intro allI impI)
  fix gs x gs' assume gs: "clean gs" and r: "(case case f gs of (x, s1) \<Rightarrow> Some (Inr x, s1) of
      None \<Rightarrow> None | Some (Inl e, s1) \<Rightarrow> Some (Inl e, s1) | Some (Inr x, s1) \<Rightarrow> k x s1) = Some (x, gs')"
  obtain y gs1 where f: "f gs = (y, gs1)" by fastforce
  with assms(1) [OF gs] have "ok y" "clean gs1" by auto
  with assms(2) r f show "clean gs'" by (auto simp: quiet_def)
qed

context reliable_wiredtiger
begin

lemma clean_db [simp]: "clean (gs\<lparr>ws_db := s\<rparr>) = clean gs"
  by (simp add: clean_def transaction_failed_def)

lemma open_clean: "clean gs \<Longrightarrow> fst (open_cursor w t gs) = RET_OK \<and> clean (snd (open_cursor w t gs))"
  using open_cursor_reliable [of t "ws_db gs"] by (auto simp: open_cursor_def split: prod.splits) (simp add: clean_def)+

lemma acquire_clean: "clean gs \<Longrightarrow> fst (acquire_cursor w t gs) = RET_OK \<and> clean (snd (acquire_cursor w t gs))"
  using open_clean [of gs t]
  by (cases "open_cursor w t gs") (auto simp: acquire_cursor_def clean_def transaction_failed_def split: option.splits)

lemma put_clean: "clean gs \<Longrightarrow> fst (putWithCursor w t k v gs) = RET_OK \<and> clean (snd (putWithCursor w t k v gs))"
  using insert_reliable [of t k v "ws_db gs"] by (auto simp: putWithCursor_def split: prod.splits)

lemma del_clean: "clean gs \<Longrightarrow> fst (delWithCursor w t k gs) = RET_OK \<and> clean (snd (delWithCursor w t k gs))"
  using remove_reliable [of t k "ws_db gs"] by (auto simp: delWithCursor_def split: prod.splits)

lemma get_clean: "clean gs \<Longrightarrow>
    (fst (fst (getWithCursor w t k gs)) = RET_OK \<or> fst (fst (getWithCursor w t k gs)) = RET_NOTFOUND) \<and>
    clean (snd (getWithCursor w t k gs))"
  using search_reliable [of t k "ws_db gs"] get_value_ok
  by (auto simp: getWithCursor_def Let_def split: prod.splits)

lemma quiet_table_put [quiet]: "quiet (table_put w t k v)"
  unfolding table_put_def
  by (rule quiet_call_ok [where ok = "\<lambda>r. r = RET_OK", OF acquire_clean], assumption)
    (simp, rule quiet_call_ok [where ok = "\<lambda>r. r = RET_OK", OF put_clean], assumption, simp add: quiet)

lemma quiet_table_del [quiet]: "quiet (table_del w t k)"
  unfolding table_del_def
  by (rule quiet_call_ok [where ok = "\<lambda>r. r = RET_OK", OF acquire_clean], assumption)
    (simp, rule quiet_call_ok [where ok = "\<lambda>r. r = RET_OK", OF del_clean], assumption, simp add: quiet)

lemma quiet_table_get [quiet]: "quiet (table_get w t k)"
  unfolding table_get_def
  by (rule quiet_call_ok [where ok = "\<lambda>r. r = RET_OK", OF acquire_clean], assumption)
    (simp, rule quiet_call_ok [where ok = "\<lambda>x. fst x = RET_OK \<or> fst x = RET_NOTFOUND", OF get_clean],
      assumption, auto simp: quiet split: prod.splits)

text \<open>A scan of a clean session with a quiet callback reports no error.\<close>

lemma scan_loop_clean:
  assumes "scan_loop w t ek ekv cb p acc gs = Some y" and "clean gs" and "\<And>k v a. quiet (cb k v a)"
  shows "clean (snd y) \<and> (\<forall>r a. fst y = Inr (r, a) \<longrightarrow> r = RET_OK)"
proof -
  let ?P = "\<lambda>e t ek ekv cb' p acc gs y.
    e = w \<longrightarrow> cb' = cb \<longrightarrow> clean gs \<longrightarrow> clean (snd y) \<and> (\<forall>r a. fst y = Inr (r, a) \<longrightarrow> r = RET_OK)"
  have "?P w t ek ekv cb p acc gs y"
    apply (rule scan_loop.raw_induct [where P = ?P, OF _ assms(1)])
    subgoal premises prems for f e t ek ekv cb' p acc gs y
    proof (intro impI)
      assume e: "e = w" "cb' = cb" "clean gs"
      let ?key = "fst p" and ?val = "snd p"
      show "clean (snd y) \<and> (\<forall>r a. fst y = Inr (r, a) \<longrightarrow> r = RET_OK)"
      proof (cases "cb ?key ?val acc gs")
        case None
        with prems(2) e show ?thesis by (auto simp: get_key_ok get_value_ok split: if_splits)
      next
        case (Some c)
        obtain r gs1 where c: "c = (r, gs1)" by fastforce
        have gs1: "clean gs1" using assms(3) e Some c unfolding quiet_def by blast
        obtain r1 p1 s1 where n: "wt_next w t (Some p) (ws_db gs1) = (r1, p1, s1)" by (metis surj_pair)
        then have "r1 = RET_OK \<or> r1 = RET_NOTFOUND" using next_reliable [of t "Some p" "ws_db gs1"] by simp
        then show ?thesis
          using prems(2) e Some c gs1 n prems(1) [of w t ek ekv cb p1 _ "gs1\<lparr>ws_db := s1\<rparr>" y]
          by (auto simp: get_key_ok get_value_ok split: if_splits sum.splits)
      qed
    qed
    done
  with assms show ?thesis by blast
qed

lemma next_then_loop_clean:
  assumes "(case wt_next w t q s of (r, p1, s1) \<Rightarrow>
      if r = RET_NOTFOUND then Some (Inr (RET_OK, acc), gs\<lparr>ws_db := s1\<rparr>)
      else if r \<noteq> RET_OK then Some (Inr (r, acc), gs\<lparr>ws_db := s1\<rparr>)
      else scan_loop w t ek ekv cb p1 acc (gs\<lparr>ws_db := s1\<rparr>)) = Some (x, gs')"
    and "clean gs" and "\<And>k v a. quiet (cb k v a)"
  shows "clean gs' \<and> (\<forall>r a. x = Inr (r, a) \<longrightarrow> r = RET_OK)"
proof -
  obtain r p1 s1 where n: "wt_next w t q s = (r, p1, s1)" by (metis surj_pair)
  then have "r = RET_OK \<or> r = RET_NOTFOUND" using next_reliable [of t q s] by simp
  then show ?thesis
    using assms(1,2) n scan_loop_clean [where t = t and ek = ek and ekv = ekv and cb = cb and p = p1 and acc = acc
        and gs = "gs\<lparr>ws_db := s1\<rparr>" and y = "(x, gs')", OF _ _ assms(3)]
    by (auto split: if_splits)
qed

lemma scanRange_clean:
  assumes run: "scanRangeWithCursor w t start ex ek ekv cb acc gs = Some (x, gs')"
    and gs: "clean gs" and cb: "\<And>k v a. quiet (cb k v a)"
  shows "clean gs' \<and> (\<forall>r a. x = Inr (r, a) \<longrightarrow> r = RET_OK)"
proof (cases "start = []")
  case True
  obtain r s where r: "wt_reset w t (ws_db gs) = (r, s)" by fastforce
  then have "r = RET_OK" using reset_reliable [of t "ws_db gs"] by simp
  with run True r show ?thesis
    by (intro next_then_loop_clean [where t = t and q = None and s = s and cb = cb and ek = ek and ekv = ekv and acc = acc, OF _ gs cb]) (simp add: scanRangeWithCursor_def Let_def)
next
  case False
  obtain r c p s where n: "wt_search_near w t start (ws_db gs) = (r, c, p, s)" by (metis surj_pair)
  then have "r = RET_OK \<or> r = RET_NOTFOUND" using search_near_reliable [of t start "ws_db gs"] by simp
  then consider "r = RET_NOTFOUND" | "r = RET_OK" "if ex then c \<le> 0 else c < 0" | "r = RET_OK" "\<not> (if ex then c \<le> 0 else c < 0)"
    by blast
  then show ?thesis
  proof cases
    case 1
    with run False n gs show ?thesis by (auto simp: scanRangeWithCursor_def Let_def)
  next
    case 2
    have "clean gs' \<and> (\<forall>r a. x = Inr (r, a) \<longrightarrow> r = RET_OK)" if "(if ex then c \<le> 0 else c < 0) = True"
      using run False n 2 that
      by (intro next_then_loop_clean [where t = t and q = "Some p" and s = s and cb = cb and ek = ek and ekv = ekv and acc = acc, OF _ gs cb])
        (simp only: scanRangeWithCursor_def Let_def prod.case if_True if_False simp_thms wt_ret.distinct not_False_eq_True)
    with 2 show ?thesis by simp
  next
    case 3
    with run False n gs scan_loop_clean [where t = t and ek = ek and ekv = ekv and cb = cb and p = p and acc = acc
        and gs = "gs\<lparr>ws_db := s\<rparr>" and y = "(x, gs')", OF _ _ cb]
    show ?thesis by (simp add: scanRangeWithCursor_def Let_def)
  qed
qed

lemma scanWithCursor_clean:
  assumes run: "scanWithCursor w t p cb acc gs = Some (x, gs')" and gs: "clean gs" and cb: "\<And>k v a. quiet (cb k v a)"
  shows "clean gs' \<and> (\<forall>r a. x = Inr (r, a) \<longrightarrow> r = RET_OK)"
proof (cases "p = []")
  case True
  from scanRange_clean [OF _ gs cb] run True show ?thesis by (simp add: scanWithCursor_def)
next
  case False
  have "quiet (if prefix p k then cb k v a else ret (False, a))" for k v a
    using cb by (simp add: quiet_ret)
  from scanRange_clean [OF _ gs this] run False show ?thesis by (simp add: scanWithCursor_def)
qed

lemma quiet_scan [quiet]:
  assumes "\<And>k v a. quiet (cb k v a)"
  shows "quiet (table_scan w t p cb acc)"
proof -
  have "quiet (bindp (scanWithCursor w t p cb acc) (\<lambda>(r, acc1).
      if r \<noteq> RET_OK then seqp (modp (fail_from_wt r)) (ret acc1) else ret acc1))"
    unfolding quiet_def
  proof (intro allI impI)
    fix gs x gs' assume gs: "clean gs" and run: "bindp (scanWithCursor w t p cb acc) (\<lambda>(r, acc1).
        if r \<noteq> RET_OK then seqp (modp (fail_from_wt r)) (ret acc1) else ret acc1) gs = Some (x, gs')"
    then obtain y gs1 where 1: "scanWithCursor w t p cb acc gs = Some (y, gs1)" by (auto simp: bindp_def split: option.splits)
    from scanWithCursor_clean [OF 1 gs assms] run 1 show "clean gs'" by (cases y) (auto simp: bindp_def ret_def)
  qed
  then show ?thesis
    unfolding table_scan_def acquire_scan_cursor_def
    by (intro quiet_call_ok [where ok = "\<lambda>r. r = RET_OK", OF open_clean]) simp_all
qed

end

text \<open>Together: a call on a clean session of a reliable engine returns the computed result.\<close>

lemma runs_reliably:
  assumes "safe_prog c t m" and "runs view m (view (ws_db gs)) x d'" and "quiet m" and "clean gs"
  shows "\<exists>gs'. m gs = Some (x, gs') \<and> view (ws_db gs') = d' \<and> clean gs' \<and> frame c t gs gs'"
  using assms unfolding safe_prog_def runs_def quiet_def clean_def by blast

section \<open>Runs that are reached\<close>

text \<open>\<open>does view m d x d'\<close>: from a clean session that sees \<open>d\<close>, \<open>m\<close> returns \<open>x\<close> in a clean session that sees \<open>d'\<close>.\<close>

definition does :: "('s \<Rightarrow> db) \<Rightarrow> ('s, 'a) sprog \<Rightarrow> db \<Rightarrow> cpp_error + 'a \<Rightarrow> db \<Rightarrow> bool" where
  "does view m d x d' \<longleftrightarrow>
     (\<forall>gs. clean gs \<and> view (ws_db gs) = d \<longrightarrow> (\<exists>gs'. m gs = Some (x, gs') \<and> clean gs' \<and> view (ws_db gs') = d'))"

lemma doesI:
  "safe_prog c t m \<Longrightarrow> quiet m \<Longrightarrow> runs view m d x d' \<Longrightarrow> does view m d x d'"
  unfolding does_def using runs_reliably by blast

lemma does_ret [simp]: "does v (ret x) d (Inr x) d"
  by (simp add: does_def ret_def)

lemma does_liftr [simp]: "does v (liftr r) d r d"
  by (simp add: does_def liftr_def)

lemma does_bindp: "does v m d (Inr x) d1 \<Longrightarrow> does v (k x) d1 y d2 \<Longrightarrow> does v (bindp m k) d y d2"
  unfolding does_def bindp_def by fastforce

lemma does_seqp: "does v m d (Inr x) d1 \<Longrightarrow> does v k d1 y d2 \<Longrightarrow> does v (seqp m k) d y d2"
  unfolding seqp_def by (rule does_bindp)

lemma does_guard: "does v m d (Inr True) d1 \<Longrightarrow> does v k d1 y d2 \<Longrightarrow> does v (guard_then m k) d y d2"
  unfolding guard_then_def by (rule does_bindp [where x = True]) simp_all

lemma does_all_p:
  "(\<And>x d. x \<in> set xs \<Longrightarrow> does v (f x) d (Inr True) (g x d)) \<Longrightarrow> does v (all_p f xs) d (Inr True) (fold g xs d)"
  by (induction xs arbitrary: d) (auto intro!: does_guard)

lemma does_each_p:
  "(\<And>x d. x \<in> set xs \<Longrightarrow> does v (f x) d (Inr (h x d)) (g x d)) \<Longrightarrow> does v (each_p f xs) d (Inr ()) (fold g xs d)"
  by (induction xs arbitrary: d) (auto intro!: does_seqp)

lemma does_present: "does v (k True) d y d' \<Longrightarrow> does v (bindp (getp ws_present) k) d y d'"
  by (auto simp: does_def bindp_def getp_def clean_def)

lemma does_call:
  "(\<And>gs. clean gs \<Longrightarrow> v (ws_db gs) = d \<Longrightarrow> \<exists>gs1. f gs = (x, gs1) \<and> clean gs1 \<and> v (ws_db gs1) = d1) \<Longrightarrow>
   does v (call f) d (Inr x) d1"
  by (fastforce simp: does_def call_def)

context reliable_wiredtiger
begin

lemma does_table_put: "does view (table_put w t k b) d (Inr True) (db_put t k b d)"
  by (rule doesI [OF safe_table_put quiet_table_put runs_table_put])

lemma does_table_del: "does view (table_del w t k) d (Inr True) (db_del t k d)"
  by (rule doesI [OF safe_table_del quiet_table_del runs_table_del])

lemma does_table_get: "does view (table_get w t k) d (Inr (d t k)) d"
  by (rule doesI [OF safe_table_get quiet_table_get runs_table_get])

lemma does_scan_pure:
  "fold_rows g (scan_rows (d t) p) acc = r \<Longrightarrow> does view (table_scan w t p (\<lambda>k v a. liftr (g k v a)) acc) d r d"
  by (rule doesI [OF safe_table_scan [OF safe_callback_pure] quiet_scan [OF quiet_liftr] runs_scan_pureI])

lemma does_scan_del:
  "does view (table_scan w t p (\<lambda>k v a. seqp (table_del w t k) (ret (True, a))) acc) d
     (Inr acc) (fold (db_del t) (scan_keys (d t) p) d)"
  by (rule doesI [OF safe_table_scan [OF safe_callback_del] _ runs_scan_del]) (intro quiet)

text \<open>Raw operations.\<close>

lemma does_open: "does view (call (open_cursor w t)) d (Inr RET_OK) d"
proof (rule does_call)
  fix gs assume gs: "clean gs" "view (ws_db gs) = d"
  obtain r gs1 where o: "open_cursor w t gs = (r, gs1)" by fastforce
  then have "view (ws_db gs1) = d"
    using gs open_cursor_same [of t "ws_db gs"] by (auto simp: open_cursor_def clean_def split: prod.splits)
  with o gs open_clean [OF gs(1), of t] show "\<exists>gs1. open_cursor w t gs = (RET_OK, gs1) \<and> clean gs1 \<and> view (ws_db gs1) = d"
    by simp
qed

lemma does_opened:
  "does view m d y d' \<Longrightarrow> does view (bindp (getp ws_present) (\<lambda>present. if \<not> present then ret x
     else bindp (call (open_cursor w t)) (\<lambda>r. if r \<noteq> RET_OK then ret x else m))) d y d'"
  by (rule does_present) (simp add: does_bindp [OF does_open])

lemma does_raw_put: "does view (raw_table_put w t k b) d (Inr True) (db_put t k b d)"
proof -
  have "does view (call (putWithCursor w t k b)) d (Inr RET_OK) (db_put t k b d)"
  proof (rule does_call)
    fix gs assume gs: "clean gs" "view (ws_db gs) = d"
    obtain r s where i: "wt_insert w t k b (ws_db gs) = (r, s)" by fastforce
    then have "r = RET_OK" using insert_reliable [of t k b "ws_db gs"] by simp
    with gs i insert_ok [of t k b "ws_db gs" s] show "\<exists>gs1. putWithCursor w t k b gs = (RET_OK, gs1) \<and> clean gs1 \<and>
        view (ws_db gs1) = db_put t k b d" by (simp add: putWithCursor_def)
  qed
  from does_bindp [OF this, of "\<lambda>r. ret (r = RET_OK)"] show ?thesis
    unfolding raw_table_put_def by (intro does_opened) simp
qed

lemma does_raw_del: "does view (raw_table_del w t k) d (Inr True) (db_del t k d)"
proof -
  have "does view (call (delWithCursor w t k)) d (Inr RET_OK) (db_del t k d)"
  proof (rule does_call)
    fix gs assume gs: "clean gs" "view (ws_db gs) = d"
    obtain r gs1 where b: "delWithCursor w t k gs = (r, gs1)" by fastforce
    with del_clean [OF gs(1), of t k] have "r = RET_OK" "clean gs1" by auto
    with b gs del_with_cursor [OF b] show "\<exists>gs1. delWithCursor w t k gs = (RET_OK, gs1) \<and> clean gs1 \<and>
        view (ws_db gs1) = db_del t k d" by auto
  qed
  from does_bindp [OF this, of "\<lambda>r. ret (r = RET_OK)"] show ?thesis
    unfolding raw_table_del_def by (intro does_opened) simp
qed

lemma does_raw_get: "does view (raw_table_get w t k) d (Inr (d t k)) d"
proof -
  let ?x = "case d t k of Some b \<Rightarrow> (RET_OK, b) | None \<Rightarrow> (RET_NOTFOUND, [])"
  have "does view (call (getWithCursor w t k)) d (Inr ?x) d"
  proof (rule does_call)
    fix gs assume gs: "clean gs" "view (ws_db gs) = d"
    obtain r p s where n: "wt_search w t k (ws_db gs) = (r, p, s)" by (metis surj_pair)
    then have "r = RET_OK \<or> r = RET_NOTFOUND" using search_reliable [of t k "ws_db gs"] by simp
    with gs n search_ok [of t k "ws_db gs" p s] search_notfound [of t k "ws_db gs" p s] search_same [OF n] get_value_ok
    show "\<exists>gs1. getWithCursor w t k gs = (?x, gs1) \<and> clean gs1 \<and> view (ws_db gs1) = d"
      by (auto simp: getWithCursor_def Let_def)
  qed
  from does_bindp [OF this, of "\<lambda>(r, value). ret (if r \<noteq> RET_OK then None else Some value)"] show ?thesis
    unfolding raw_table_get_def by (intro does_opened) (simp split: option.splits)
qed

lemma does_raw_scan:
  assumes "fold_rows g (scan_rows (d t) p) acc = r"
  shows "does view (raw_table_scan w t p (\<lambda>k v a. liftr (g k v a)) acc) d r d"
proof -
  let ?m = "bindp (scanWithCursor w t p (\<lambda>k v a. liftr (g k v a)) acc) (\<lambda>(r, acc1). ret acc1)"
  have "does view ?m d r d"
    unfolding does_def
  proof (intro allI impI, elim conjE)
    fix gs assume gs: "clean gs" "view (ws_db gs) = d"
    obtain y gs' where run: "scanWithCursor w t p (\<lambda>k v a. liftr (g k v a)) acc gs = Some (y, gs')"
      using scanWithCursor_returns [OF safe_callback_pure, of t p g acc gs] by blast
    have c: "clean gs' \<and> (\<forall>r a. y = Inr (r, a) \<longrightarrow> r = RET_OK)"
      by (rule scanWithCursor_clean [OF run gs(1)]) (rule quiet_liftr)
    then have "scan_result y (view (ws_db gs'))
        (a_scan (\<lambda>k v a d. (g k v a, d)) t (scan_keys (view (ws_db gs) t) p) acc (view (ws_db gs)))"
      using gs by (intro scanWithCursor_runs [OF safe_callback_pure _ _ _ run]) (auto simp: looks_back_def clean_def)
    then show "\<exists>gs'. ?m gs = Some (r, gs') \<and> clean gs' \<and> view (ws_db gs') = d"
      using c run gs assms unfolding scan_result_def
      by (cases y) (auto simp: bindp_def ret_def a_scan_pure scan_rows_def)
  qed
  then show ?thesis unfolding raw_table_scan_def by (rule does_opened)
qed

end

end
