(* ===== verification/Vertex_Store.thy ===== *)
theory Vertex_Store
  imports Reliable_Runs Key_Codec Value_Codec
begin

text \<open>
  The vertex part of \<^verbatim>\<open>storage/data/sync_graph_data_store.cpp\<close>: insertion, deletion, labels and
  properties of vertices, and the label and existence scans.  A callback handed in by the query
  executor is a function of an accumulator of the executor.
\<close>

section \<open>Vertex summary (read cache)\<close>

definition kVertexSummaryOmitted :: "32 word" where "kVertexSummaryOmitted = 0xFFFFFFFF"
definition kVertexSummaryInlineMax :: nat where "kVertexSummaryInlineMax = 32"
definition kVertexSummaryVersion :: byte where "kVertexSummaryVersion = 1"

type_synonym label_props = "(label_id \<times> properties) list"

text \<open>The set entries of a property vector with their ids, in the order of the \<^verbatim>\<open>uint16_t\<close> loop.\<close>

definition prop_items :: "properties \<Rightarrow> (prop_id \<times> property_value) list" where
  "prop_items props =
     concat (map (\<lambda>i. case props ! i of Some v \<Rightarrow> [(of_nat i, v)] | None \<Rightarrow> []) [0..<length props])"

definition summary_entry :: "label_id \<Rightarrow> prop_id \<times> property_value \<Rightarrow> bytes" where
  "summary_entry label_id = (\<lambda>(prop_id, v).
     let encoded = encode_value v in
     be_bytes 2 label_id @ be_bytes 2 prop_id @
     (if length encoded \<le> kVertexSummaryInlineMax
      then be_bytes 4 (of_nat (length encoded) :: 32 word) @ encoded
      else be_bytes 4 kVertexSummaryOmitted))"

definition encodeVertexSummary :: "label_props \<Rightarrow> bytes" where
  "encodeVertexSummary label_props =
     (let lps = filter (\<lambda>lp. fst lp \<noteq> INVALID_LABEL_ID) label_props;
          labels = concat (map (\<lambda>lp. be_bytes 2 (fst lp)) lps);
          entries = concat (map (\<lambda>lp. concat (map (summary_entry (fst lp)) (prop_items (snd lp)))) lps);
          label_count = (of_nat (length lps) :: 16 word);
          entry_count = (of_nat (sum_list (map (\<lambda>lp. length (prop_items (snd lp))) lps)) :: 16 word)
      in if label_count = 0 \<and> entry_count = 0 then []
         else [kVertexSummaryVersion] @ be_bytes 2 label_count @ labels @ be_bytes 2 entry_count @ entries)"

record decoded_summary =
  ds_labels :: "label_id list"
  ds_props :: "(32 word \<times> bytes) list"

definition prop_key :: "label_id \<Rightarrow> prop_id \<Rightarrow> 32 word" where
  "prop_key label_id prop_id = push_bit 16 (ucast label_id) OR ucast prop_id"

text \<open>\<^const>\<open>None\<close> is the \<^verbatim>\<open>false\<close> of the decoder (every read is behind a length check).\<close>

definition decode_entry :: "bytes \<Rightarrow> nat \<Rightarrow> ((32 word \<times> bytes) \<times> nat) option" where
  "decode_entry value off =
     (if length value < off + 8 then None
      else let label_id = be_word (take 2 (drop off value));
               prop_id = be_word (take 2 (drop (off + 2) value));
               len = (be_word (take 4 (drop (off + 4) value)) :: 32 word);
               start = off + 8
        in if len = kVertexSummaryOmitted then Some ((prop_key label_id prop_id, []), start)
           else if length value < start + unat len then None
           else Some ((prop_key label_id prop_id, take (unat len) (drop start value)), start + unat len))"

fun decode_entries :: "nat \<Rightarrow> bytes \<Rightarrow> nat \<Rightarrow> (32 word \<times> bytes) list option" where
  "decode_entries 0 value off = Some []"
| "decode_entries (Suc n) value off =
     (case decode_entry value off of
        None \<Rightarrow> None
      | Some (entry, next_off) \<Rightarrow> map_option ((#) entry) (decode_entries n value next_off))"

definition decodeVertexSummary :: "bytes \<Rightarrow> decoded_summary option" where
  "decodeVertexSummary value =
     (if length value < 3 \<or> value ! 0 \<noteq> kVertexSummaryVersion then None
      else let label_count = unat (be_word (take 2 (drop 1 value)) :: 16 word); off = 3 in
        if length value < off + label_count * 2 then None
        else let labels = map (\<lambda>i. be_word (take 2 (drop (off + 2 * i) value))) [0..<label_count];
                 off = off + label_count * 2
          in if length value < off + 2 then None
             else let entry_count = unat (be_word (take 2 (drop off value)) :: 16 word)
               in map_option (\<lambda>ps. \<lparr>ds_labels = labels, ds_props = ps\<rparr>) (decode_entries entry_count value (off + 2)))"

section \<open>Helpers of the handlers\<close>

text \<open>\<^verbatim>\<open>WT_SESSION* session = gs.wt_session(); if (!session) return dflt;\<close>\<close>

definition with_session :: "'a \<Rightarrow> ('s, 'a) sprog \<Rightarrow> ('s, 'a) sprog" where
  "with_session dflt m = bindp (getp ws_present) (\<lambda>present. if present then m else ret dflt)"

text \<open>
  \<^verbatim>\<open>for (uint16_t i = 0; i < n; ++i) if (!op(i)) return false;\<close> The counter wraps, so with \<open>n\<close> above
  65535 the loop only ends when an operation fails.
\<close>

partial_function (option) u16_all :: "(16 word \<Rightarrow> ('st, bool) prog) \<Rightarrow> nat \<Rightarrow> 16 word \<Rightarrow> ('st, bool) prog" where
  "u16_all f n i s =
     (if unat i < n then
        (case f i s of
           None \<Rightarrow> None
         | Some (res, s1) \<Rightarrow> (case res of
             Inl e \<Rightarrow> Some (Inl e, s1)
           | Inr ok \<Rightarrow> if ok then u16_all f n (i + 1) s1 else Some (Inr False, s1)))
      else Some (Inr True, s))"

definition put_prop_rows :: "(prop_id \<Rightarrow> bytes \<Rightarrow> ('s, bool) sprog) \<Rightarrow> properties \<Rightarrow> ('s, bool) sprog" where
  "put_prop_rows put props =
     u16_all (\<lambda>prop_id. case props ! unat prop_id of
         Some v \<Rightarrow> put prop_id (encode_value v)
       | None \<Rightarrow> ret True) (length props) 0"

text \<open>\<^verbatim>\<open>if (i >= props.size()) props.resize(i + 1); props[i] = v;\<close>\<close>

definition set_prop :: "prop_id \<Rightarrow> property_value \<Rightarrow> properties \<Rightarrow> properties" where
  "set_prop i v props = (props @ replicate (Suc (unat i) - length props) None)[unat i := Some v]"

section \<open>Writers\<close>

definition insertVertex :: "'s wt_engine \<Rightarrow> 32 word \<Rightarrow> vertex_id \<Rightarrow> label_props \<Rightarrow> ('s, bool) sprog" where
  "insertVertex w capacity vid label_props = with_session False (
     guard_then (table_put w TABLE_VERTEX_EXISTENCE (encodeVertexExistenceKey vid) []) (
     guard_then (if capacity > 0
       then all_p (\<lambda>dir. table_put w TABLE_VERTEX_DATA (encodeVertexDataAdjStateKey vid dir)
                          (encodeAdjacencyState ADJ_COMPLETE 0)) [DIR_OUT, DIR_IN]
       else ret True) (
     guard_then (all_p (\<lambda>(label_id, props).
         if label_id = INVALID_LABEL_ID then ret True
         else guard_then (table_put w TABLE_VERTEX_DATA (encodeVertexDataLabelKey vid label_id) [])
             (guard_then (table_put w (labelFwdTable label_id) (encodeLabelForwardKey vid) [])
               (put_prop_rows (\<lambda>prop_id val.
                  table_put w TABLE_VERTEX_DATA (encodeVertexDataPropKey vid label_id prop_id) val) props))) label_props) (
     bindp (table_get w TABLE_VERTEX_SUMMARY (encodeVertexSummaryKey vid)) (\<lambda>old.
       if old \<noteq> None
       then guard_then (table_del w TABLE_VERTEX_SUMMARY (encodeVertexSummaryKey vid)) (ret True)
       else let summary = encodeVertexSummary label_props in
         if summary \<noteq> []
         then guard_then (table_put w TABLE_VERTEX_SUMMARY (encodeVertexSummaryKey vid) summary) (ret True)
         else ret True)))))"

definition getVertexLabels :: "'s wt_engine \<Rightarrow> vertex_id \<Rightarrow> ('s, label_id set) sprog" where
  "getVertexLabels w vid = with_session {} (
     table_scan w TABLE_VERTEX_DATA (encodeVertexDataLabelPrefix vid)
       (\<lambda>key value labels. liftr (rbind (decodeVertexDataLabelKey key) (\<lambda>(_, label_id).
          Inr (True, insert label_id labels)))) {})"

text \<open>A \<^verbatim>\<open>std::set\<close> is walked in increasing order.\<close>

definition delete_props :: "'s wt_engine \<Rightarrow> bytes \<Rightarrow> ('s, unit) sprog" where
  "delete_props w prefx =
     table_scan w TABLE_VERTEX_DATA prefx
       (\<lambda>key value a. seqp (table_del w TABLE_VERTEX_DATA key) (ret (True, a))) ()"

definition deleteVertex :: "'s wt_engine \<Rightarrow> vertex_id \<Rightarrow> ('s, bool) sprog" where
  "deleteVertex w vid = with_session False (
     bindp (getVertexLabels w vid) (\<lambda>labels.
     seqp (each_p (\<lambda>label_id.
         seqp (table_del w TABLE_VERTEX_DATA (encodeVertexDataLabelKey vid label_id)) (
         seqp (table_del w (labelFwdTable label_id) (encodeLabelForwardKey vid))
           (delete_props w (encodeVertexDataPropLabelPrefix vid label_id)))) (sorted_list_of_set labels)) (
     bindp (table_scan w TABLE_VERTEX_DATA (encodeVertexDataVertexPrefix vid)
         (\<lambda>key value keys. liftr (Inr (True, keys @ [key]))) []) (\<lambda>data_keys.
     seqp (each_p (table_del w TABLE_VERTEX_DATA) data_keys) (
     seqp (table_del w TABLE_VERTEX_EXISTENCE (encodeVertexExistenceKey vid)) (
     seqp (table_del w TABLE_VERTEX_SUMMARY (encodeVertexSummaryKey vid)) (
       ret True)))))))"

definition putVertexProperty :: "'s wt_engine \<Rightarrow> vertex_id \<Rightarrow> label_id \<Rightarrow> prop_id \<Rightarrow> property_value \<Rightarrow> ('s, bool) sprog" where
  "putVertexProperty w vid label_id prop_id value = with_session False (
     guard_then (table_put w TABLE_VERTEX_DATA (encodeVertexDataPropKey vid label_id prop_id) (encode_value value))
       (table_del w TABLE_VERTEX_SUMMARY (encodeVertexSummaryKey vid)))"

definition putVertexProperties :: "'s wt_engine \<Rightarrow> vertex_id \<Rightarrow> label_id \<Rightarrow> properties \<Rightarrow> ('s, bool) sprog" where
  "putVertexProperties w vid label_id props = with_session False (
     guard_then (put_prop_rows (\<lambda>prop_id val.
         table_put w TABLE_VERTEX_DATA (encodeVertexDataPropKey vid label_id prop_id) val) props)
       (table_del w TABLE_VERTEX_SUMMARY (encodeVertexSummaryKey vid)))"

definition deleteVertexProperty :: "'s wt_engine \<Rightarrow> vertex_id \<Rightarrow> label_id \<Rightarrow> prop_id \<Rightarrow> ('s, bool) sprog" where
  "deleteVertexProperty w vid label_id prop_id = with_session False (
     guard_then (table_del w TABLE_VERTEX_DATA (encodeVertexDataPropKey vid label_id prop_id))
       (table_del w TABLE_VERTEX_SUMMARY (encodeVertexSummaryKey vid)))"

definition addVertexLabel :: "'s wt_engine \<Rightarrow> vertex_id \<Rightarrow> label_id \<Rightarrow> ('s, bool) sprog" where
  "addVertexLabel w vid label_id = with_session False (
     guard_then (table_put w TABLE_VERTEX_DATA (encodeVertexDataLabelKey vid label_id) [])
     (guard_then (table_put w (labelFwdTable label_id) (encodeLabelForwardKey vid) [])
       (table_del w TABLE_VERTEX_SUMMARY (encodeVertexSummaryKey vid))))"

definition removeVertexLabel :: "'s wt_engine \<Rightarrow> vertex_id \<Rightarrow> label_id \<Rightarrow> ('s, bool) sprog" where
  "removeVertexLabel w vid label_id = with_session False (
     seqp (table_del w TABLE_VERTEX_DATA (encodeVertexDataLabelKey vid label_id)) (
     seqp (table_del w (labelFwdTable label_id) (encodeLabelForwardKey vid)) (
     seqp (delete_props w (encodeVertexDataPropLabelPrefix vid label_id)) (
     seqp (table_del w TABLE_VERTEX_SUMMARY (encodeVertexSummaryKey vid)) (
       ret True)))))"

section \<open>Readers\<close>

text \<open>The accumulator is the property vector and \<^verbatim>\<open>found_any\<close>.\<close>

definition collect_prop :: "(bytes \<Rightarrow> prop_id res) \<Rightarrow> bytes \<Rightarrow> bytes \<Rightarrow> properties \<times> bool \<Rightarrow> (bool \<times> properties \<times> bool) res" where
  "collect_prop id_of key value = (\<lambda>(props, found_any).
     rbind (id_of key) (\<lambda>prop_id. rbind (decode_value value) (\<lambda>v. Inr (True, set_prop prop_id v props, True))))"

definition vertex_prop_id :: "bytes \<Rightarrow> prop_id res" where
  "vertex_prop_id key = rbind (decodeVertexDataPropKey key) (\<lambda>(_, _, prop_id). Inr prop_id)"

definition getVertexProperties :: "'s wt_engine \<Rightarrow> vertex_id \<Rightarrow> label_id \<Rightarrow> ('s, properties option) sprog" where
  "getVertexProperties w vid label_id = with_session None (
     bindp (table_scan w TABLE_VERTEX_DATA (encodeVertexDataPropLabelPrefix vid label_id)
         (\<lambda>key value acc. liftr (collect_prop vertex_prop_id key value acc)) ([], False)) (\<lambda>(props, found_any).
       ret (if \<not> found_any then None else Some props)))"

definition getVertexProperty :: "'s wt_engine \<Rightarrow> vertex_id \<Rightarrow> label_id \<Rightarrow> prop_id \<Rightarrow> ('s, property_value option) sprog" where
  "getVertexProperty w vid label_id prop_id = with_session None (
     bindp (table_get w TABLE_VERTEX_DATA (encodeVertexDataPropKey vid label_id prop_id)) (\<lambda>val.
       case val of None \<Rightarrow> ret None | Some bs \<Rightarrow> liftr (rbind (decode_value bs) (\<lambda>v. Inr (Some v)))))"

definition scanVerticesByLabel :: "'s wt_engine \<Rightarrow> label_id \<Rightarrow> (vertex_id \<Rightarrow> 'a \<Rightarrow> bool \<times> 'a) \<Rightarrow> 'a \<Rightarrow> ('s, 'a) sprog" where
  "scanVerticesByLabel w label_id callback acc = with_session acc (
     table_scan w (labelFwdTable label_id) []
       (\<lambda>key value acc. liftr (rbind (decodeLabelForwardKey key) (\<lambda>vid. Inr (callback vid acc)))) acc)"

definition scanAllVertices :: "'s wt_engine \<Rightarrow> (vertex_id \<Rightarrow> 'a \<Rightarrow> bool \<times> 'a) \<Rightarrow> 'a \<Rightarrow> ('s, 'a) sprog" where
  "scanAllVertices w callback acc = with_session acc (
     table_scan w TABLE_VERTEX_EXISTENCE []
       (\<lambda>key value acc. liftr (rbind (decodeVertexExistenceKey key) (\<lambda>vid. Inr (callback vid acc)))) acc)"

definition countVerticesByLabel :: "'s wt_engine \<Rightarrow> label_id \<Rightarrow> ('s, 64 word) sprog" where
  "countVerticesByLabel w label_id = scanVerticesByLabel w label_id (\<lambda>_ count. (True, count + 1)) 0"

end
