(* ===== verification/Edge_Store.thy ===== *)
theory Edge_Store
  imports Vertex_Store
begin

text \<open>
  The edge part of \<^verbatim>\<open>storage/data/sync_graph_data_store.cpp\<close>: the adjacency cache in \<open>vertex_data\<close>
  with its promotion to \<open>edge_index\<close>, edges, edge properties and edge scans.  The adjacency functions
  work on the raw \<^verbatim>\<open>WT_SESSION\<close>: their failures are return values only.  \<open>cap\<close> is
  \<^verbatim>\<open>adjacency_cache_capacity_\<close>.
\<close>

section \<open>Adjacency cache\<close>

type_synonym adj_state = "adj_cache_state \<times> 32 word"

definition edge_key :: "vertex_id \<Rightarrow> direction \<Rightarrow> edge_label_id \<Rightarrow> vertex_id \<Rightarrow> 64 word \<Rightarrow> edge_index_key" where
  "edge_key vid dir label_id neighbor_id seq =
     \<lparr>ek_vertex_id = vid, ek_direction = dir, ek_edge_label_id = label_id, ek_neighbor_id = neighbor_id, ek_seq = seq\<rparr>"

definition getAdjacencyState :: "'s wt_engine \<Rightarrow> vertex_id \<Rightarrow> direction \<Rightarrow> (('s, 'z) wts, adj_state option) prog" where
  "getAdjacencyState w vid dir =
     bindp (raw_table_get w TABLE_VERTEX_DATA (encodeVertexDataAdjStateKey vid dir)) (\<lambda>val.
       ret (map_option decodeAdjacencyState val))"

definition putAdjacencyState :: "'s wt_engine \<Rightarrow> vertex_id \<Rightarrow> direction \<Rightarrow> adj_cache_state \<Rightarrow> 32 word \<Rightarrow>
    (('s, 'z) wts, bool) prog" where
  "putAdjacencyState w vid dir state count =
     raw_table_put w TABLE_VERTEX_DATA (encodeVertexDataAdjStateKey vid dir) (encodeAdjacencyState state count)"

text \<open>The accumulator is \<^verbatim>\<open>(keys, entries)\<close>.\<close>

definition collect_cached :: "direction \<Rightarrow> bytes \<Rightarrow> bytes \<Rightarrow> bytes list \<times> (bytes \<times> bytes) list \<Rightarrow>
    (bool \<times> bytes list \<times> (bytes \<times> bytes) list) res" where
  "collect_cached dir key value = (\<lambda>(keys, entries).
     if isVertexDataAdjStateKey key then Inr (True, keys, entries)
     else rbind (decodeVertexDataAdjEdgeKey key) (\<lambda>k.
       Inr (True, keys @ [key],
         entries @ [(encodeEdgeIndexKey (edge_key (ek_vertex_id k) dir (ek_edge_label_id k) (ek_neighbor_id k) (ek_seq k)), value)])))"

definition promoteAdjacency :: "'s wt_engine \<Rightarrow> vertex_id \<Rightarrow> direction \<Rightarrow> (('s, 'z) wts, bool) prog" where
  "promoteAdjacency w vid dir =
     bindp (raw_table_scan w TABLE_VERTEX_DATA (encodeVertexDataAdjPrefix vid dir)
         (\<lambda>key value acc. liftr (collect_cached dir key value acc)) ([], [])) (\<lambda>(keys, entries).
     guard_then (all_p (\<lambda>(key, value). raw_table_put w TABLE_EDGE_INDEX key value) entries) (
     seqp (each_p (raw_table_del w TABLE_VERTEX_DATA) keys) (
       putAdjacencyState w vid dir ADJ_OVERFLOW 0)))"

definition insertAdjacencyEdge :: "'s wt_engine \<Rightarrow> 32 word \<Rightarrow> vertex_id \<Rightarrow> direction \<Rightarrow> edge_label_id \<Rightarrow> vertex_id \<Rightarrow>
    64 word \<Rightarrow> edge_id \<Rightarrow> (('s, 'z) wts, bool) prog" where
  "insertAdjacencyEdge w cap vid dir label_id neighbor_id seq eid =
     (let edge_val = vc_encodeU64 eid;
          key = edge_key vid dir label_id neighbor_id seq;
          put_index = raw_table_put w TABLE_EDGE_INDEX (encodeEdgeIndexKey key) edge_val
      in if cap = 0 then put_index
         else bindp (getAdjacencyState w vid dir) (\<lambda>state.
           case state of
             None \<Rightarrow> put_index
           | Some (st, count) \<Rightarrow>
               if st = ADJ_OVERFLOW then put_index
               else if count \<ge> cap then guard_then (promoteAdjacency w vid dir) put_index
               else guard_then (raw_table_put w TABLE_VERTEX_DATA (encodeVertexDataAdjEdgeKey key) edge_val)
                 (putAdjacencyState w vid dir ADJ_COMPLETE (count + 1))))"

definition deleteAdjacencyEdge :: "'s wt_engine \<Rightarrow> 32 word \<Rightarrow> vertex_id \<Rightarrow> direction \<Rightarrow> edge_label_id \<Rightarrow> vertex_id \<Rightarrow>
    64 word \<Rightarrow> (('s, 'z) wts, bool) prog" where
  "deleteAdjacencyEdge w cap vid dir label_id neighbor_id seq =
     (let key = edge_key vid dir label_id neighbor_id seq;
          del_index = seqp (raw_table_del w TABLE_EDGE_INDEX (encodeEdgeIndexKey key)) (ret True)
      in if cap = 0 then del_index
         else bindp (getAdjacencyState w vid dir) (\<lambda>state.
           case state of
             None \<Rightarrow> del_index
           | Some (st, count) \<Rightarrow>
               if st = ADJ_COMPLETE then
                 seqp (raw_table_del w TABLE_VERTEX_DATA (encodeVertexDataAdjEdgeKey key))
                   (putAdjacencyState w vid dir ADJ_COMPLETE (if count > 0 then count - 1 else 0))
               else del_index))"

section \<open>Edge entries\<close>

record edge_index_entry =
  ee_neighbor_id :: vertex_id
  ee_edge_label_id :: edge_label_id
  ee_seq :: "64 word"
  ee_edge_id :: edge_id

record edge_type_entry =
  te_src_vertex_id :: vertex_id
  te_dst_vertex_id :: vertex_id
  te_seq :: "64 word"
  te_edge_id :: edge_id

definition entry_of :: "edge_index_key \<Rightarrow> bytes \<Rightarrow> edge_index_entry res" where
  "entry_of k value = rbind (vc_decodeU64 value) (\<lambda>eid.
     Inr \<lparr>ee_neighbor_id = ek_neighbor_id k, ee_edge_label_id = ek_edge_label_id k, ee_seq = ek_seq k, ee_edge_id = eid\<rparr>)"

text \<open>A row under an adjacency prefix, skipping the state row and filtered labels.\<close>

definition on_cached_edge :: "edge_label_id option \<Rightarrow> (edge_index_entry \<Rightarrow> 'a \<Rightarrow> bool \<times> 'a) \<Rightarrow> bytes \<Rightarrow> bytes \<Rightarrow> 'a \<Rightarrow>
    (bool \<times> 'a) res" where
  "on_cached_edge label_filter callback key value acc =
     (if isVertexDataAdjStateKey key then Inr (True, acc)
      else rbind (decodeVertexDataAdjEdgeKey key) (\<lambda>k.
        if label_filter \<noteq> None \<and> ek_edge_label_id k \<noteq> the label_filter then Inr (True, acc)
        else rbind (entry_of k value) (\<lambda>entry. Inr (callback entry acc))))"

definition collectCachedEdges :: "'s wt_engine \<Rightarrow> vertex_id \<Rightarrow> direction \<Rightarrow> edge_label_id option \<Rightarrow> edge_index_entry list \<Rightarrow>
    (('s, 'z) wts, bool \<times> edge_index_entry list) prog" where
  "collectCachedEdges w vid dir label_filter out =
     bindp (getAdjacencyState w vid dir) (\<lambda>state.
       case state of
         None \<Rightarrow> ret (False, out)
       | Some (st, _) \<Rightarrow>
           if st \<noteq> ADJ_COMPLETE then ret (False, out)
           else bindp (raw_table_scan w TABLE_VERTEX_DATA (encodeVertexDataAdjPrefix vid dir)
               (\<lambda>key value out. liftr (on_cached_edge label_filter (\<lambda>e out. (True, out @ [e])) key value out)) out)
             (\<lambda>out1. ret (True, out1)))"

section \<open>Edges\<close>

definition type_key :: "vertex_id \<Rightarrow> vertex_id \<Rightarrow> 64 word \<Rightarrow> bytes" where
  "type_key src dst seq = encodeEdgeTypeIndexKey \<lparr>tk_src_vertex_id = src, tk_dst_vertex_id = dst, tk_seq = seq\<rparr>"

definition insertEdge :: "'s wt_engine \<Rightarrow> 32 word \<Rightarrow> edge_id \<Rightarrow> vertex_id \<Rightarrow> vertex_id \<Rightarrow> edge_label_id \<Rightarrow> 64 word \<Rightarrow>
    properties \<Rightarrow> ('s, bool) sprog" where
  "insertEdge w cap eid src_id dst_id label_id seq props = with_session False (
     guard_then (table_put w (etypeTable label_id) (type_key src_id dst_id seq) (vc_encodeU64 eid)) (
     guard_then (put_prop_rows (\<lambda>prop_id val. table_put w (epropTable label_id) (encodeEPropKey eid prop_id) val) props) (
     guard_then (insertAdjacencyEdge w cap src_id DIR_OUT label_id dst_id seq eid) (
     guard_then (insertAdjacencyEdge w cap dst_id DIR_IN label_id src_id seq eid) (
       ret True)))))"

definition deleteEdge :: "'s wt_engine \<Rightarrow> 32 word \<Rightarrow> edge_id \<Rightarrow> edge_label_id \<Rightarrow> vertex_id \<Rightarrow> vertex_id \<Rightarrow> 64 word \<Rightarrow>
    ('s, bool) sprog" where
  "deleteEdge w cap eid label_id src_id dst_id seq = with_session False (
     guard_then (deleteAdjacencyEdge w cap src_id DIR_OUT label_id dst_id seq) (
     guard_then (deleteAdjacencyEdge w cap dst_id DIR_IN label_id src_id seq) (
     seqp (table_del w (etypeTable label_id) (type_key src_id dst_id seq)) (
     seqp (table_scan w (epropTable label_id) (encodeEPropPrefix eid)
         (\<lambda>key value a. seqp (table_del w (epropTable label_id) key) (ret (True, a))) ()) (
       ret True)))))"

section \<open>Edge properties\<close>

definition edge_prop_id :: "bytes \<Rightarrow> prop_id res" where
  "edge_prop_id key = rbind (decodeEPropKey key) (\<lambda>(_, prop_id). Inr prop_id)"

definition getEdgeProperties :: "'s wt_engine \<Rightarrow> edge_label_id \<Rightarrow> edge_id \<Rightarrow> ('s, properties option) sprog" where
  "getEdgeProperties w label_id eid = with_session None (
     bindp (table_scan w (epropTable label_id) (encodeEPropPrefix eid)
         (\<lambda>key value acc. liftr (collect_prop edge_prop_id key value acc)) ([], False)) (\<lambda>(props, found_any).
       ret (if \<not> found_any then None else Some props)))"

definition getEdgeProperty :: "'s wt_engine \<Rightarrow> edge_label_id \<Rightarrow> edge_id \<Rightarrow> prop_id \<Rightarrow> ('s, property_value option) sprog" where
  "getEdgeProperty w label_id eid prop_id = with_session None (
     bindp (table_get w (epropTable label_id) (encodeEPropKey eid prop_id)) (\<lambda>val.
       case val of None \<Rightarrow> ret None | Some bs \<Rightarrow> liftr (rbind (decode_value bs) (\<lambda>v. Inr (Some v)))))"

text \<open>\<^verbatim>\<open>out.resize(n)\<close> on the growing result.\<close>

definition resize :: "nat \<Rightarrow> 'a option list \<Rightarrow> 'a option list" where
  "resize n out = take n out @ replicate (n - length out) None"

definition getEdgePropertyBatch :: "'s wt_engine \<Rightarrow> edge_label_id \<Rightarrow> edge_id list \<Rightarrow> prop_id \<Rightarrow>
    ('s, property_value option list) sprog" where
  "getEdgePropertyBatch w label_id edge_ids prop_id =
     (let tab = epropTable label_id; n = length edge_ids in
      bindp (call (acquire_scan_cursor w tab)) (\<lambda>r.
      if r \<noteq> RET_OK then seqp (modp (fail_from_wt r)) (ret (resize n []))
      else bindp (loop_p (\<lambda>eid out.
          bindp (call (\<lambda>gs. let (r, p, s) = wt_search w tab (encodeEPropKey eid prop_id) (ws_db gs)
                             in ((r, snd (wt_get_value w tab p s)), gs\<lparr>ws_db := s\<rparr>))) (\<lambda>(r, value).
          if r = RET_NOTFOUND then ret (Inl (out @ [None]))
          else if r \<noteq> RET_OK then seqp (modp (fail_from_wt r)) (ret (Inr (resize n out)))
          else liftr (rbind (decode_value value) (\<lambda>v. Inr (Inl (out @ [Some v])))))) edge_ids []) (\<lambda>res.
        case res of Inl out \<Rightarrow> ret out | Inr out \<Rightarrow> ret out)))"

definition putEdgeProperty :: "'s wt_engine \<Rightarrow> edge_label_id \<Rightarrow> edge_id \<Rightarrow> prop_id \<Rightarrow> property_value \<Rightarrow> ('s, bool) sprog" where
  "putEdgeProperty w label_id eid prop_id value = with_session False (
     table_put w (epropTable label_id) (encodeEPropKey eid prop_id) (encode_value value))"

definition deleteEdgeProperty :: "'s wt_engine \<Rightarrow> edge_label_id \<Rightarrow> edge_id \<Rightarrow> prop_id \<Rightarrow> ('s, bool) sprog" where
  "deleteEdgeProperty w label_id eid prop_id = with_session False (
     table_del w (epropTable label_id) (encodeEPropKey eid prop_id))"

section \<open>Edge scans\<close>

definition on_index_edge :: "(edge_index_entry \<Rightarrow> 'a \<Rightarrow> bool \<times> 'a) \<Rightarrow> bytes \<Rightarrow> bytes \<Rightarrow> 'a \<Rightarrow> (bool \<times> 'a) res" where
  "on_index_edge callback key value acc =
     rbind (decodeEdgeIndexKey key) (\<lambda>k. rbind (entry_of k value) (\<lambda>entry. Inr (callback entry acc)))"

definition edge_index_prefix :: "vertex_id \<Rightarrow> direction \<Rightarrow> edge_label_id option \<Rightarrow> bytes" where
  "edge_index_prefix vid dir label_filter =
     (case label_filter of
        Some l \<Rightarrow> encodeEdgeIndexLabelPrefix vid dir l
      | None \<Rightarrow> encodeEdgeIndexPrefix vid dir)"

text \<open>\<open>scanEdges\<close> for one direction (the part below the \<^verbatim>\<open>BOTH\<close> case).\<close>

definition scanEdges_one :: "'s wt_engine \<Rightarrow> 32 word \<Rightarrow> vertex_id \<Rightarrow> direction \<Rightarrow> edge_label_id option \<Rightarrow>
    (edge_index_entry \<Rightarrow> 'a \<Rightarrow> bool \<times> 'a) \<Rightarrow> 'a \<Rightarrow> ('s, 'a) sprog" where
  "scanEdges_one w cap vid dir label_filter callback acc = with_session acc (
     bindp (if cap > 0 then getAdjacencyState w vid dir else ret None) (\<lambda>state.
     if state \<noteq> None \<and> fst (the state) = ADJ_COMPLETE
     then table_scan w TABLE_VERTEX_DATA (encodeVertexDataAdjPrefix vid dir)
       (\<lambda>key value acc. liftr (on_cached_edge label_filter callback key value acc)) acc
     else table_scan w TABLE_EDGE_INDEX (edge_index_prefix vid dir label_filter)
       (\<lambda>key value acc. liftr (on_index_edge callback key value acc)) acc))"

definition scanEdges :: "'s wt_engine \<Rightarrow> 32 word \<Rightarrow> vertex_id \<Rightarrow> direction \<Rightarrow> edge_label_id option \<Rightarrow>
    (edge_index_entry \<Rightarrow> 'a \<Rightarrow> bool \<times> 'a) \<Rightarrow> 'a \<Rightarrow> ('s, 'a) sprog" where
  "scanEdges w cap vid dir label_filter callback acc =
     (if dir = DIR_BOTH
      then with_session acc (bindp (scanEdges_one w cap vid DIR_OUT label_filter callback acc)
             (scanEdges_one w cap vid DIR_IN label_filter callback))
      else scanEdges_one w cap vid dir label_filter callback acc)"

definition scanEdgesExact :: "'s wt_engine \<Rightarrow> 32 word \<Rightarrow> vertex_id \<Rightarrow> direction \<Rightarrow> edge_label_id \<Rightarrow> vertex_id \<Rightarrow>
    (edge_index_entry \<Rightarrow> 'a \<Rightarrow> bool \<times> 'a) \<Rightarrow> 'a \<Rightarrow> ('s, 'a) sprog" where
  "scanEdgesExact w cap vid dir label_id neighbor_id callback acc = with_session acc (
     if cap > 0
     then scanEdges w cap vid dir (Some label_id)
       (\<lambda>e acc. if ee_neighbor_id e \<noteq> neighbor_id then (True, acc) else callback e acc) acc
     else table_scan w TABLE_EDGE_INDEX (encodeEdgeIndexNeighborPrefix vid dir label_id neighbor_id)
       (\<lambda>key value acc. liftr (on_index_edge callback key value acc)) acc)"

definition on_type_edge :: "(edge_type_entry \<Rightarrow> 'a \<Rightarrow> bool \<times> 'a) \<Rightarrow> bytes \<Rightarrow> bytes \<Rightarrow> 'a \<Rightarrow> (bool \<times> 'a) res" where
  "on_type_edge callback key value acc =
     rbind (decodeEdgeTypeIndexKey key) (\<lambda>k. rbind (vc_decodeU64 value) (\<lambda>eid.
       Inr (callback \<lparr>te_src_vertex_id = tk_src_vertex_id k, te_dst_vertex_id = tk_dst_vertex_id k,
                      te_seq = tk_seq k, te_edge_id = eid\<rparr> acc)))"

definition edge_type_prefix :: "vertex_id option \<Rightarrow> vertex_id option \<Rightarrow> bytes" where
  "edge_type_prefix src_filter dst_filter =
     (case (src_filter, dst_filter) of
        (Some s, Some d) \<Rightarrow> encodeEdgeTypeIndexPrefix2 s d
      | (Some s, None) \<Rightarrow> encodeEdgeTypeIndexPrefix1 s
      | (None, _) \<Rightarrow> [])"

definition scanEdgesByType :: "'s wt_engine \<Rightarrow> edge_label_id \<Rightarrow> vertex_id option \<Rightarrow> vertex_id option \<Rightarrow>
    (edge_type_entry \<Rightarrow> 'a \<Rightarrow> bool \<times> 'a) \<Rightarrow> 'a \<Rightarrow> ('s, 'a) sprog" where
  "scanEdgesByType w label_id src_filter dst_filter callback acc = with_session acc (
     table_scan w (etypeTable label_id) (edge_type_prefix src_filter dst_filter)
       (\<lambda>key value acc. liftr (on_type_edge callback key value acc)) acc)"

definition countDegree :: "'s wt_engine \<Rightarrow> 32 word \<Rightarrow> vertex_id \<Rightarrow> direction \<Rightarrow> edge_label_id option \<Rightarrow> ('s, 64 word) sprog" where
  "countDegree w cap vid dir label_filter =
     (let count_all = scanEdges w cap vid dir label_filter (\<lambda>_ count. (True, count + 1)) 0 in
      if cap > 0 \<and> dir \<noteq> DIR_BOTH \<and> label_filter = None
      then bindp (getAdjacencyState w vid dir) (\<lambda>state.
        if state \<noteq> None \<and> fst (the state) = ADJ_COMPLETE then ret (ucast (snd (the state))) else count_all)
      else count_all)"

end
