(* ===== verification/Vertex_Proofs.thy ===== *)
theory Vertex_Proofs
  imports Vertex_Store
begin

text \<open>
  What the vertex operations do to the tables.  The abstract reading of the tables (existence,
  labels, properties, label members), the well-formedness of the keys, and the invariant that the
  label rows of \<open>vertex_data\<close> and the label forward tables agree.
\<close>

section \<open>Deleting sets of rows\<close>

definition db_dels :: "(string \<times> bytes) set \<Rightarrow> db \<Rightarrow> db" where
  "db_dels S d = (\<lambda>t k. if (t, k) \<in> S then None else d t k)"

lemma db_dels_dels: "db_dels S (db_dels T d) = db_dels (S \<union> T) d"
  by (auto simp: db_dels_def fun_eq_iff)

lemma db_del_dels: "db_del t k d = db_dels {(t, k)} d"
  by (auto simp: db_dels_def db_del_def fun_eq_iff)

lemma fold_db_del: "fold (db_del t) ks d = db_dels ({t} \<times> set ks) d"
proof (induction ks arbitrary: d)
  case Nil
  show ?case by (simp add: db_dels_def fun_eq_iff)
next
  case (Cons k ks)
  have "fold (db_del t) (k # ks) d = db_dels ({t} \<times> set ks \<union> {(t, k)}) d"
    by (simp only: fold_Cons comp_apply Cons.IH db_del_dels db_dels_dels)
  then show ?case by (simp add: insert_Times_insert Un_commute)
qed

lemma fold_db_dels: "fold (\<lambda>x. db_dels (S x)) xs d = db_dels (\<Union>x \<in> set xs. S x) d"
proof (induction xs arbitrary: d)
  case Nil
  show ?case by (simp add: db_dels_def fun_eq_iff)
next
  case (Cons x xs)
  have "fold (\<lambda>x. db_dels (S x)) (x # xs) d = db_dels ((\<Union>x \<in> set xs. S x) \<union> S x) d"
    by (simp only: fold_Cons comp_apply Cons.IH db_dels_dels)
  then show ?case by (simp add: Un_commute)
qed

lemma db_dels_apply: "db_dels S d t k = (if (t, k) \<in> S then None else d t k)"
  by (simp add: db_dels_def)

lemma db_dels_absent: "(\<And>t k. (t, k) \<in> S \<Longrightarrow> (t, k) \<notin> T \<Longrightarrow> d t k = None) \<Longrightarrow> T \<subseteq> S \<Longrightarrow> db_dels T d = db_dels S d"
  by (auto simp: db_dels_def fun_eq_iff)

lemma set_scan_keys [simp]: "finite (dom m) \<Longrightarrow> set (scan_keys m p) = {k \<in> dom m. prefix p k}"
  by (simp add: scan_keys_def)

lemma fold_del_scan:
  assumes "finite (dom (d t))"
  shows "fold (db_del t) (scan_keys (d t) p) d = db_dels ({t} \<times> {k. prefix p k}) d"
  unfolding fold_db_del using assms by (intro db_dels_absent) auto

section \<open>Folds over scanned rows\<close>

lemma fold_rows_all:
  assumes "\<And>k v a. (k, v) \<in> set rows \<Longrightarrow> g k v a = Inr (True, upd k v a)"
  shows "fold_rows g rows a = Inr (fold (\<lambda>(k, v). upd k v) rows a)"
  using assms by (induction rows arbitrary: a) auto

lemma fold_insert_set: "fold (\<lambda>x. insert (f x)) xs A = f ` set xs \<union> A"
  by (induction xs arbitrary: A) auto

lemma set_scan_rows: "finite (dom m) \<Longrightarrow> set (scan_rows m p) = {(k, v). m k = Some v \<and> prefix p k}"
  by (auto simp: scan_rows_def)

section \<open>The counting loop over properties\<close>

lemma u16_all_list:
  "n < 2 ^ 16 \<Longrightarrow> i \<le> n \<Longrightarrow> u16_all f n (of_nat i) = all_p f (map of_nat [i..<n])"
proof (induction "n - i" arbitrary: i)
  case 0
  then have "unat (of_nat i :: 16 word) = i" by (simp add: unat_of_nat)
  with 0 show ?case by (intro ext) (subst u16_all.simps, simp add: ret_def)
next
  case (Suc k)
  then have u: "unat (of_nat i :: 16 word) = i" and lt: "i < n" by (simp_all add: unat_of_nat)
  have "u16_all f n (of_nat (Suc i)) = all_p f (map of_nat [Suc i..<n])"
    using Suc by (intro Suc.hyps(1)) auto
  then have rec: "u16_all f n (of_nat i + 1) = all_p f (map of_nat [Suc i..<n])"
    by (simp add: add.commute)
  have "map of_nat [i..<n] = (of_nat i :: 16 word) # map of_nat [Suc i..<n]"
    using lt by (simp add: upt_conv_Cons)
  then show ?case
    using u lt rec
    by (intro ext) (subst u16_all.simps,
        auto simp: guard_then_def bindp_def ret_def split: option.splits sum.splits)
qed

definition put_props_db :: "string \<Rightarrow> (prop_id \<Rightarrow> bytes) \<Rightarrow> (prop_id \<times> property_value) list \<Rightarrow> db \<Rightarrow> db" where
  "put_props_db t key items d = fold (\<lambda>(i, v). db_put t (key i) (encode_value v)) items d"

lemma put_props_db_other: "t' \<noteq> t \<or> k \<notin> range key \<Longrightarrow> put_props_db t key items d t' k = d t' k"
  unfolding put_props_db_def by (induction items arbitrary: d) (auto simp: db_apply)

lemma prop_items_fold:
  "fold (\<lambda>i. case props ! unat (i :: 16 word) of Some v \<Rightarrow> g i v | None \<Rightarrow> id) (map of_nat [0..<length props]) d =
   fold (\<lambda>(i, v). g i v) (prop_items props) d" if "length props < 2 ^ 16"
proof -
  have "fold (\<lambda>i. case props ! unat (i :: 16 word) of Some v \<Rightarrow> g i v | None \<Rightarrow> id) (map of_nat is) d =
      fold (\<lambda>(i, v). g i v) (concat (map (\<lambda>i. case props ! i of Some v \<Rightarrow> [(of_nat i, v)] | None \<Rightarrow> []) is)) d"
    if "\<forall>i \<in> set is. i < 2 ^ 16" for "is"
    using that by (induction "is" arbitrary: d) (auto simp: unat_of_nat split: option.splits)
  from this [of "[0..<length props]"] that show ?thesis by (simp add: prop_items_def)
qed

context wiredtiger
begin

lemma runs_finiteI: "((\<And>t. finite (dom (d t))) \<Longrightarrow> runs view m d x d') \<Longrightarrow> runs view m d x d'"
  unfolding runs_def using finite_view by blast

lemma runs_put_prop_rows:
  assumes "length props < 2 ^ 16"
  shows "runs view (put_prop_rows (\<lambda>i. table_put w tab (key i)) props) d (Inr True)
    (put_props_db tab key (prop_items props) d)"
proof -
  let ?f = "\<lambda>i. case props ! unat i of Some v \<Rightarrow> table_put w tab (key i) (encode_value v) | None \<Rightarrow> ret True"
  let ?g = "\<lambda>i. case props ! unat i of Some v \<Rightarrow> db_put tab (key i) (encode_value v) | None \<Rightarrow> id"
  have f: "runs view (?f i) d (Inr True) (?g i d)" for i d
    by (simp add: runs_table_put split: option.splits)
  have s: "safe_prog committed in_txn (?f i)" for i
    by (intro safe)
  have "put_prop_rows (\<lambda>i. table_put w tab (key i)) props = all_p ?f (map of_nat [0..<length props])"
    using u16_all_list [OF assms, of 0 ?f] by (simp add: put_prop_rows_def)
  moreover have "fold ?g (map of_nat [0..<length props]) d = put_props_db tab key (prop_items props) d"
    unfolding put_props_db_def by (rule prop_items_fold [OF assms])
  ultimately show ?thesis using runs_all_p [where f = ?f and g = ?g and xs = "map of_nat [0..<length props]" and d = d, OF f s] by simp
qed

lemma safe_put_prop_rows:
  assumes "length props < 2 ^ 16"
  shows "safe_prog committed in_txn (put_prop_rows (\<lambda>i. table_put w tab (key i)) props)"
proof -
  have "u16_all f (length props) 0 = all_p f (map of_nat [0..<length props])" for f :: "16 word \<Rightarrow> ('s, bool) sprog"
    using u16_all_list [OF assms, of 0 f] by simp
  then show ?thesis unfolding put_prop_rows_def by (simp only:) (intro safe)
qed

lemma safe_with_session [safe]: "safe_prog committed in_txn m \<Longrightarrow> safe_prog committed in_txn (with_session x m)"
  unfolding with_session_def by (intro safe)

lemma runs_with_session: "runs view m d y d' \<Longrightarrow> runs view (with_session x m) d y d'"
  by (auto simp: runs_def with_session_def bindp_def getp_def)

end

section \<open>Reading the tables\<close>

definition vertex_exists :: "db \<Rightarrow> vertex_id \<Rightarrow> bool" where
  "vertex_exists d v \<longleftrightarrow> d TABLE_VERTEX_EXISTENCE (encodeVertexExistenceKey v) \<noteq> None"

definition vertex_labels :: "db \<Rightarrow> vertex_id \<Rightarrow> label_id set" where
  "vertex_labels d v = {l. d TABLE_VERTEX_DATA (encodeVertexDataLabelKey v l) \<noteq> None}"

definition vertex_prop :: "db \<Rightarrow> vertex_id \<Rightarrow> label_id \<Rightarrow> prop_id \<Rightarrow> bytes option" where
  "vertex_prop d v l i = d TABLE_VERTEX_DATA (encodeVertexDataPropKey v l i)"

definition label_members :: "db \<Rightarrow> label_id \<Rightarrow> vertex_id set" where
  "label_members d l = {v. d (labelFwdTable l) (encodeLabelForwardKey v) \<noteq> None}"

definition vertex_data_key :: "bytes \<Rightarrow> bool" where
  "vertex_data_key k \<longleftrightarrow>
     (\<exists>v l. k = encodeVertexDataLabelKey v l) \<or> (\<exists>v l i. k = encodeVertexDataPropKey v l i) \<or>
     (\<exists>v dir. k = encodeVertexDataAdjStateKey v dir) \<or>
     (\<exists>e. k = encodeVertexDataAdjEdgeKey e \<and> (ek_direction e = DIR_OUT \<or> ek_direction e = DIR_IN))"

text \<open>Every key of the vertex tables is one the codec wrote.\<close>

definition wf_vertex_tables :: "db \<Rightarrow> bool" where
  "wf_vertex_tables d \<longleftrightarrow>
     (\<forall>k \<in> dom (d TABLE_VERTEX_DATA). vertex_data_key k) \<and>
     dom (d TABLE_VERTEX_EXISTENCE) \<subseteq> range encodeVertexExistenceKey \<and>
     (\<forall>l. dom (d (labelFwdTable l)) \<subseteq> range encodeLabelForwardKey)"

text \<open>The two places that record a label agree.\<close>

definition labels_agree :: "db \<Rightarrow> bool" where
  "labels_agree d \<longleftrightarrow> (\<forall>v l. l \<in> vertex_labels d v \<longleftrightarrow> v \<in> label_members d l)"

lemma label_rows:
  assumes "wf_vertex_tables d" and "d TABLE_VERTEX_DATA k = Some x" and "prefix (encodeVertexDataLabelPrefix v) k"
  obtains l where "k = encodeVertexDataLabelKey v l"
proof -
  have "vertex_data_key k" using assms(1,2) by (auto simp: wf_vertex_tables_def)
  with assms(3) that show ?thesis unfolding vertex_data_key_def by auto
qed

lemma prop_rows:
  assumes "wf_vertex_tables d" and "d TABLE_VERTEX_DATA k = Some x"
    and "prefix (encodeVertexDataPropLabelPrefix v l) k"
  obtains i where "k = encodeVertexDataPropKey v l i"
proof -
  have "vertex_data_key k" using assms(1,2) by (auto simp: wf_vertex_tables_def)
  with assms(3) that show ?thesis unfolding vertex_data_key_def by auto
qed

section \<open>Labels\<close>

context wiredtiger
begin

lemma safe_getVertexLabels [safe]: "safe_prog committed in_txn (getVertexLabels w v)"
  unfolding getVertexLabels_def by (intro safe)

lemma label_fold:
  assumes "finite (dom (d TABLE_VERTEX_DATA))" and "wf_vertex_tables d"
  shows "fold_rows (\<lambda>key value labels. rbind (decodeVertexDataLabelKey key) (\<lambda>(_, label_id). Inr (True, insert label_id labels)))
    (scan_rows (d TABLE_VERTEX_DATA) (encodeVertexDataLabelPrefix v)) {} = Inr (vertex_labels d v)"
proof -
  let ?rows = "scan_rows (d TABLE_VERTEX_DATA) (encodeVertexDataLabelPrefix v)"
  define lab where "lab k = (case decodeVertexDataLabelKey k of Inr (_, l) \<Rightarrow> l | _ \<Rightarrow> 0)" for k
  have rows: "set ?rows = {(k, x). d TABLE_VERTEX_DATA k = Some x \<and> prefix (encodeVertexDataLabelPrefix v) k}"
    using assms(1) by (rule set_scan_rows)
  have "fold_rows (\<lambda>key value labels. rbind (decodeVertexDataLabelKey key) (\<lambda>(_, label_id). Inr (True, insert label_id labels)))
      ?rows {} = Inr (fold (\<lambda>(k, x). insert (lab k)) ?rows {})"
  proof (rule fold_rows_all)
    fix k x and a :: "label_id set" assume "(k, x) \<in> set ?rows"
    then have "d TABLE_VERTEX_DATA k = Some x" "prefix (encodeVertexDataLabelPrefix v) k"
      using rows by auto
    then obtain l where "k = encodeVertexDataLabelKey v l"
      by (rule label_rows [OF assms(2)])
    then show "rbind (decodeVertexDataLabelKey k) (\<lambda>(_, label_id). Inr (True, insert label_id a)) =
        Inr (True, insert (lab k) a)" by (simp add: lab_def)
  qed
  moreover have "fold (\<lambda>(k, x). insert (lab k)) ?rows {} = lab ` fst ` set ?rows"
    using fold_insert_set [of "\<lambda>(k, x). lab k" ?rows "{}"] by (simp add: case_prod_unfold image_image)
  moreover have "lab ` fst ` set ?rows = vertex_labels d v"
  proof (intro set_eqI iffI)
    fix l assume "l \<in> lab ` fst ` set ?rows"
    then obtain k x where k: "d TABLE_VERTEX_DATA k = Some x" "prefix (encodeVertexDataLabelPrefix v) k" "l = lab k"
      unfolding rows by auto
    from label_rows [OF assms(2) k(1,2)] obtain l' where "k = encodeVertexDataLabelKey v l'" .
    with k show "l \<in> vertex_labels d v" by (simp add: vertex_labels_def lab_def)
  next
    fix l assume "l \<in> vertex_labels d v"
    then have "encodeVertexDataLabelKey v l \<in> fst ` set ?rows"
      unfolding rows vertex_labels_def by force
    then show "l \<in> lab ` fst ` set ?rows" by (rule rev_image_eqI) (simp add: lab_def)
  qed
  ultimately show ?thesis by simp
qed

lemma runs_getVertexLabels:
  assumes "wf_vertex_tables d"
  shows "runs view (getVertexLabels w v) d (Inr (vertex_labels d v)) d"
proof (rule runs_finiteI)
  assume "\<And>t. finite (dom (d t))"
  note fold_eq = label_fold [OF this assms, of v]
  show ?thesis
    unfolding getVertexLabels_def
    by (rule runs_with_session, rule runs_scan_pureI, rule fold_eq)
qed

section \<open>Insertion\<close>

end

definition short_props :: "label_props \<Rightarrow> bool" where
  "short_props lps \<longleftrightarrow> (\<forall>lp \<in> set lps. length (snd lp) < 2 ^ 16)"

definition label_group_db :: "vertex_id \<Rightarrow> label_id \<times> properties \<Rightarrow> db \<Rightarrow> db" where
  "label_group_db v = (\<lambda>(l, props) d.
     if l = INVALID_LABEL_ID then d
     else put_props_db TABLE_VERTEX_DATA (encodeVertexDataPropKey v l) (prop_items props)
       (db_put (labelFwdTable l) (encodeLabelForwardKey v) []
         (db_put TABLE_VERTEX_DATA (encodeVertexDataLabelKey v l) [] d)))"

definition adj_reset_db :: "32 word \<Rightarrow> vertex_id \<Rightarrow> db \<Rightarrow> db" where
  "adj_reset_db capacity v d =
     (if capacity > 0 then fold (\<lambda>dir. db_put TABLE_VERTEX_DATA (encodeVertexDataAdjStateKey v dir)
        (encodeAdjacencyState ADJ_COMPLETE 0)) [DIR_OUT, DIR_IN] d else d)"

definition summary_db :: "vertex_id \<Rightarrow> label_props \<Rightarrow> db \<Rightarrow> db" where
  "summary_db v lps d =
     (if d TABLE_VERTEX_SUMMARY (encodeVertexSummaryKey v) \<noteq> None
      then db_del TABLE_VERTEX_SUMMARY (encodeVertexSummaryKey v) d
      else if encodeVertexSummary lps \<noteq> []
      then db_put TABLE_VERTEX_SUMMARY (encodeVertexSummaryKey v) (encodeVertexSummary lps) d
      else d)"

definition insert_vertex_db :: "32 word \<Rightarrow> vertex_id \<Rightarrow> label_props \<Rightarrow> db \<Rightarrow> db" where
  "insert_vertex_db capacity v lps d =
     summary_db v lps (fold (label_group_db v) lps (adj_reset_db capacity v
       (db_put TABLE_VERTEX_EXISTENCE (encodeVertexExistenceKey v) [] d)))"

context wiredtiger
begin

lemma safe_label_group:
  assumes "length props < 2 ^ 16"
  shows "safe_prog committed in_txn (if l = INVALID_LABEL_ID then ret True
     else guard_then (table_put w TABLE_VERTEX_DATA (encodeVertexDataLabelKey v l) [])
         (guard_then (table_put w (labelFwdTable l) (encodeLabelForwardKey v) [])
           (put_prop_rows (\<lambda>prop_id val.
              table_put w TABLE_VERTEX_DATA (encodeVertexDataPropKey v l prop_id) val) props)))"
  by (intro safe safe_put_prop_rows assms)

lemma runs_label_group:
  assumes "length props < 2 ^ 16"
  shows "runs view (if l = INVALID_LABEL_ID then ret True
     else guard_then (table_put w TABLE_VERTEX_DATA (encodeVertexDataLabelKey v l) [])
         (guard_then (table_put w (labelFwdTable l) (encodeLabelForwardKey v) [])
           (put_prop_rows (\<lambda>prop_id val.
              table_put w TABLE_VERTEX_DATA (encodeVertexDataPropKey v l prop_id) val) props)))
    d (Inr True) (label_group_db v (l, props) d)"
proof (cases "l = 0")
  case False
  note rows = runs_put_prop_rows [OF assms] safe_put_prop_rows [OF assms]
  show ?thesis
    using False
    by (auto simp: label_group_db_def intro!: runs_guard [OF runs_table_put] rows safe_table_put safe_guard)
qed (simp add: label_group_db_def)

lemma insert_parts:
  assumes "short_props lps"
  shows "safe_prog committed in_txn (insertVertex w cap v lps)"
    and "runs view (insertVertex w cap v lps) d (Inr True) (insert_vertex_db cap v lps d)"
proof -
  let ?adj = "if cap > 0
       then all_p (\<lambda>dir. table_put w TABLE_VERTEX_DATA (encodeVertexDataAdjStateKey v dir)
                          (encodeAdjacencyState ADJ_COMPLETE 0)) [DIR_OUT, DIR_IN] else ret True"
  let ?grp = "all_p (\<lambda>(l, props). if l = INVALID_LABEL_ID then ret True
     else guard_then (table_put w TABLE_VERTEX_DATA (encodeVertexDataLabelKey v l) [])
         (guard_then (table_put w (labelFwdTable l) (encodeLabelForwardKey v) [])
           (put_prop_rows (\<lambda>prop_id val.
              table_put w TABLE_VERTEX_DATA (encodeVertexDataPropKey v l prop_id) val) props))) lps"
  let ?sum = "bindp (table_get w TABLE_VERTEX_SUMMARY (encodeVertexSummaryKey v)) (\<lambda>old.
       if old \<noteq> None
       then guard_then (table_del w TABLE_VERTEX_SUMMARY (encodeVertexSummaryKey v)) (ret True)
       else let summary = encodeVertexSummary lps in
         if summary \<noteq> []
         then guard_then (table_put w TABLE_VERTEX_SUMMARY (encodeVertexSummaryKey v) summary) (ret True)
         else ret True)"
  have len: "length (snd lp) < 2 ^ 16" if "lp \<in> set lps" for lp
    using assms that by (auto simp: short_props_def)
  have adj: "safe_prog committed in_txn ?adj" "runs view ?adj d (Inr True) (adj_reset_db cap v d)" for d
    unfolding adj_reset_db_def by (auto intro!: safe runs_guard [OF runs_table_put])
  let ?one = "\<lambda>(l, props). if l = INVALID_LABEL_ID then ret True
     else guard_then (table_put w TABLE_VERTEX_DATA (encodeVertexDataLabelKey v l) [])
         (guard_then (table_put w (labelFwdTable l) (encodeLabelForwardKey v) [])
           (put_prop_rows (\<lambda>prop_id val.
              table_put w TABLE_VERTEX_DATA (encodeVertexDataPropKey v l prop_id) val) props))"
  have one: "safe_prog committed in_txn (?one lp)" "runs view (?one lp) d (Inr True) (label_group_db v lp d)"
    if "lp \<in> set lps" for lp d
    using safe_label_group [OF len [OF that], of "fst lp" v] runs_label_group [OF len [OF that], of "fst lp" v d]
    by (simp_all only: case_prod_unfold prod.collapse)
  have grp: "safe_prog committed in_txn ?grp" "runs view ?grp d (Inr True) (fold (label_group_db v) lps d)" for d
    by (rule safe_all_p_mem one runs_all_p | assumption)+
  have upd: "safe_prog committed in_txn ?sum"
    unfolding Let_def by (intro safe)
  have sum: "runs view ?sum d (Inr True) (summary_db v lps d)" for d
    by (rule runs_bindp [OF runs_table_get])
      (auto simp: summary_db_def Let_def intro!: runs_guard [OF runs_table_put] runs_guard [OF runs_table_del] safe)
  note parts = adj grp upd sum
  show "safe_prog committed in_txn (insertVertex w cap v lps)"
    unfolding insertVertex_def by (rule parts safe_with_session safe_guard safe_table_put)+
  show "runs view (insertVertex w cap v lps) d (Inr True) (insert_vertex_db cap v lps d)"
    unfolding insertVertex_def insert_vertex_db_def
    by (rule parts runs_with_session run_guard [OF runs_table_put] run_guard [OF adj(2)] run_guard [OF grp(2)]
        safe_guard safe_table_put)+
qed

end

section \<open>What insertion means\<close>

lemma put_props_db_key:
  assumes "inj key"
  shows "put_props_db t key items d t (key i) =
    (case map_of (rev items) i of Some v \<Rightarrow> Some (encode_value v) | None \<Rightarrow> d t (key i))"
proof (induction items rule: rev_induct)
  case Nil
  show ?case by (simp add: put_props_db_def)
next
  case (snoc x items)
  obtain j v where x: "x = (j, v)" by fastforce
  have "put_props_db t key (items @ [x]) d = db_put t (key j) (encode_value v) (put_props_db t key items d)"
    by (simp add: put_props_db_def x)
  then show ?case using snoc assms by (auto simp: db_apply x inj_def)
qed

lemma map_of_prop_items:
  assumes "length props < 2 ^ 16"
  shows "map_of (rev (prop_items props)) i = (if unat i < length props then props ! unat i else None)"
proof -
  have d: "distinct (map fst (prop_items props))" and s: "(j, x) \<in> set (prop_items props) \<longleftrightarrow>
      unat j < length props \<and> props ! unat j = Some x" for j x
  proof -
    have n: "unat (of_nat m :: 16 word) = m" if "m < length props" for m
      using that assms by (simp add: unat_of_nat)
    have w: "of_nat (unat j) = j" by simp
    show "(j, x) \<in> set (prop_items props) \<longleftrightarrow> unat j < length props \<and> props ! unat j = Some x"
      using n w by (auto simp: prop_items_def split: option.splits intro!: bexI [of _ "unat j"])
    have "map fst (prop_items props) = filter (\<lambda>j. props ! unat j \<noteq> None) (map of_nat [0..<length props])"
    proof -
      have "map fst (concat (map (\<lambda>i. case props ! i of Some v \<Rightarrow> [(of_nat i, v)] | None \<Rightarrow> []) is)) =
          filter (\<lambda>j. props ! unat j \<noteq> None) (map (of_nat :: nat \<Rightarrow> 16 word) is)"
        if "\<forall>i \<in> set is. i < length props" for "is"
        using that by (induction "is") (auto simp: n split: option.splits)
      from this [of "[0..<length props]"] show ?thesis by (simp add: prop_items_def)
    qed
    moreover have "inj_on (of_nat :: nat \<Rightarrow> 16 word) {0..<length props}"
      by (rule inj_on_inverseI [of _ unat]) (simp add: n)
    ultimately show "distinct (map fst (prop_items props))"
      by (simp add: distinct_map)
  qed
  have "map_of (rev (prop_items props)) i = map_of (prop_items props) i"
    using d map_of_inject_set [of "rev (prop_items props)" "prop_items props"] by (simp flip: rev_map)
  moreover have "map_of (prop_items props) i = (if unat i < length props then props ! unat i else None)"
  proof (cases "\<exists>x. (i, x) \<in> set (prop_items props)")
    case True
    with d s show ?thesis by auto
  next
    case False
    then have "map_of (prop_items props) i = None" by (auto simp: map_of_eq_None_iff)
    with False s show ?thesis by (cases "props ! unat i") auto
  qed
  ultimately show ?thesis by simp
qed

lemma inj_prop_key: "inj (encodeVertexDataPropKey v l)"
  by (auto simp: inj_def)

lemma label_group_other:
  "t \<noteq> TABLE_VERTEX_DATA \<Longrightarrow> \<not> (\<exists>l. t = labelFwdTable l) \<Longrightarrow> label_group_db v lp d t k = d t k"
  by (cases lp) (auto simp: label_group_db_def put_props_db_other db_apply)

lemma label_groups_other:
  "t \<noteq> TABLE_VERTEX_DATA \<Longrightarrow> \<not> (\<exists>l. t = labelFwdTable l) \<Longrightarrow> fold (label_group_db v) lps d t k = d t k"
  by (induction lps arbitrary: d) (auto simp: label_group_other)

lemma label_group_labels:
  "vertex_labels (label_group_db v (l, props) d) v' =
     (if v' = v \<and> l \<noteq> INVALID_LABEL_ID then insert l (vertex_labels d v') else vertex_labels d v')"
  "label_members (label_group_db v (l, props) d) l' =
     (if l' = l \<and> l \<noteq> INVALID_LABEL_ID then insert v (label_members d l') else label_members d l')"
  by (auto simp: label_group_db_def vertex_labels_def label_members_def put_props_db_other db_apply image_def)

lemma label_groups_labels:
  "vertex_labels (fold (label_group_db v) lps d) v' =
     vertex_labels d v' \<union> (if v' = v then fst ` set lps - {INVALID_LABEL_ID} else {})"
  by (induction lps arbitrary: d) (auto simp: label_group_labels split: if_splits)

lemma label_groups_members:
  "label_members (fold (label_group_db v) lps d) l' =
     label_members d l' \<union> (if l' \<in> fst ` set lps - {INVALID_LABEL_ID} then {v} else {})"
  by (induction lps arbitrary: d) (auto simp: label_group_labels split: if_splits)

lemma label_group_prop:
  "length props < 2 ^ 16 \<Longrightarrow> vertex_prop (label_group_db v (l, props) d) v' l' i =
     (if v' = v \<and> l' = l \<and> l \<noteq> INVALID_LABEL_ID \<and> unat i < length props \<and> props ! unat i \<noteq> None
      then map_option encode_value (props ! unat i) else vertex_prop d v' l' i)"
proof -
  assume len: "length props < 2 ^ 16"
  show ?thesis
  proof (cases "v' = v \<and> l' = l")
    case True
    then show ?thesis
      using put_props_db_key [OF inj_prop_key [of v l], of TABLE_VERTEX_DATA "prop_items props" _ i] len
      by (auto simp: label_group_db_def vertex_prop_def map_of_prop_items db_apply split: option.splits)
  next
    case False
    then have "encodeVertexDataPropKey v' l' i \<notin> range (encodeVertexDataPropKey v l)" by auto
    then show ?thesis
      using False by (auto simp: label_group_db_def vertex_prop_def put_props_db_other db_apply)
  qed
qed

text \<open>What a list of label groups says of a property: the last group of the label that sets it.\<close>

definition group_prop :: "label_props \<Rightarrow> label_id \<Rightarrow> prop_id \<Rightarrow> property_value option" where
  "group_prop lps l i =
     fold (\<lambda>(l', props) old. if l' = l \<and> l \<noteq> INVALID_LABEL_ID \<and> unat i < length props \<and> props ! unat i \<noteq> None
        then props ! unat i else old) lps None"

lemma label_groups_prop:
  assumes "short_props lps"
  shows "vertex_prop (fold (label_group_db v) lps d) v' l i =
    (case (if v' = v then group_prop lps l i else None) of
       Some x \<Rightarrow> Some (encode_value x) | None \<Rightarrow> vertex_prop d v' l i)"
  using assms
proof (induction lps rule: rev_induct)
  case Nil
  show ?case by (simp add: group_prop_def)
next
  case (snoc lp lps)
  obtain l' props where lp: "lp = (l', props)" by fastforce
  from snoc show ?case
    by (auto simp: lp short_props_def label_group_prop group_prop_def split: option.splits)
qed

lemma insert_vertex_db_reads:
  "vertex_exists (insert_vertex_db cap v lps d) v' \<longleftrightarrow> v' = v \<or> vertex_exists d v'"
  "vertex_labels (insert_vertex_db cap v lps d) v' =
     vertex_labels d v' \<union> (if v' = v then fst ` set lps - {INVALID_LABEL_ID} else {})"
  "label_members (insert_vertex_db cap v lps d) l =
     label_members d l \<union> (if l \<in> fst ` set lps - {INVALID_LABEL_ID} then {v} else {})"
proof -
  let ?d = "adj_reset_db cap v (db_put TABLE_VERTEX_EXISTENCE (encodeVertexExistenceKey v) [] d)"
  have s: "summary_db v lps e t k = e t k" if "t \<noteq> TABLE_VERTEX_SUMMARY" for e t k
    using that by (auto simp: summary_db_def db_apply)
  have e: "vertex_exists (summary_db v lps e) v' = vertex_exists e v'"
    "vertex_labels (summary_db v lps e) v' = vertex_labels e v'" "label_members (summary_db v lps e) l = label_members e l" for e
    by (simp_all add: vertex_exists_def vertex_labels_def label_members_def s)
  have a: "vertex_exists ?d v' \<longleftrightarrow> v' = v \<or> vertex_exists d v'" "vertex_labels ?d v' = vertex_labels d v'"
    "label_members ?d l = label_members d l"
    by (auto simp: adj_reset_db_def vertex_exists_def vertex_labels_def label_members_def db_apply)
  show "vertex_exists (insert_vertex_db cap v lps d) v' \<longleftrightarrow> v' = v \<or> vertex_exists d v'"
    using a(1) by (simp add: insert_vertex_db_def e) (simp add: vertex_exists_def label_groups_other)
  show "vertex_labels (insert_vertex_db cap v lps d) v' =
     vertex_labels d v' \<union> (if v' = v then fst ` set lps - {INVALID_LABEL_ID} else {})"
    by (simp add: insert_vertex_db_def e label_groups_labels a)
  show "label_members (insert_vertex_db cap v lps d) l =
     label_members d l \<union> (if l \<in> fst ` set lps - {INVALID_LABEL_ID} then {v} else {})"
    by (simp add: insert_vertex_db_def e label_groups_members a)
qed

lemma insert_vertex_db_prop:
  assumes "short_props lps"
  shows "vertex_prop (insert_vertex_db cap v lps d) v' l i =
    (case (if v' = v then group_prop lps l i else None) of
       Some x \<Rightarrow> Some (encode_value x) | None \<Rightarrow> vertex_prop d v' l i)"
proof -
  have "vertex_prop (summary_db v lps e) v' l i = vertex_prop e v' l i" for e
    by (auto simp: vertex_prop_def summary_db_def db_apply)
  moreover have "vertex_prop (adj_reset_db cap v (db_put TABLE_VERTEX_EXISTENCE (encodeVertexExistenceKey v) [] d)) v' l i =
      vertex_prop d v' l i"
    by (auto simp: vertex_prop_def adj_reset_db_def db_apply)
  ultimately show ?thesis
    unfolding insert_vertex_db_def by (simp only: label_groups_prop [OF assms])
qed

end
