(* ===== verification/Vertex_Props.thy ===== *)
theory Vertex_Props
  imports Vertex_Proofs
begin

text \<open>
  Deletion, label and property updates and the readers of vertices, and the properties of the vertex
  store: what each operation means for existence, labels and properties, and the agreement of the
  label tables under every operation.
\<close>

section \<open>Deletion\<close>

definition vertex_rows :: "vertex_id \<Rightarrow> label_id set \<Rightarrow> (string \<times> bytes) set" where
  "vertex_rows v L =
     {TABLE_VERTEX_DATA} \<times> {k. prefix (encodeVertexDataVertexPrefix v) k} \<union>
     (\<lambda>l. (labelFwdTable l, encodeLabelForwardKey v)) ` L \<union>
     {(TABLE_VERTEX_EXISTENCE, encodeVertexExistenceKey v), (TABLE_VERTEX_SUMMARY, encodeVertexSummaryKey v)}"

definition label_rows_of :: "vertex_id \<Rightarrow> label_id \<Rightarrow> (string \<times> bytes) set" where
  "label_rows_of v l =
     {(TABLE_VERTEX_DATA, encodeVertexDataLabelKey v l), (labelFwdTable l, encodeLabelForwardKey v)} \<union>
     {TABLE_VERTEX_DATA} \<times> {k. prefix (encodeVertexDataPropLabelPrefix v l) k}"

lemma prop_prefix_vertex: "prefix (encodeVertexDataPropLabelPrefix v l) k \<Longrightarrow> prefix (encodeVertexDataVertexPrefix v) k"
  by (auto simp: vertex_key_defs prefix_def)

lemma label_rows_vertex: "label_rows_of v l \<subseteq> vertex_rows v (insert l L)"
  by (auto simp: label_rows_of_def vertex_rows_def prop_prefix_vertex)

lemma each_label_rows: "(\<Union>l \<in> set ls. label_rows_of v l) \<union> vertex_rows v {} = vertex_rows v (set ls)"
  using label_rows_vertex [of v _ "set ls"] by (auto simp: label_rows_of_def vertex_rows_def insert_absorb)

lemma fold_snoc: "fold (\<lambda>x a. a @ [f x]) xs a = a @ map f xs"
  by (induction xs arbitrary: a) auto

context wiredtiger
begin

lemma safe_delete_props [safe]: "safe_prog committed in_txn (delete_props w p)"
  unfolding delete_props_def by (intro safe)

lemma runs_delete_props:
  "runs view (delete_props w p) d (Inr ()) (db_dels ({TABLE_VERTEX_DATA} \<times> {k. prefix p k}) d)"
proof (rule runs_finiteI)
  assume "\<And>t. finite (dom (d t))"
  from fold_del_scan [of d TABLE_VERTEX_DATA p, OF this] runs_scan_del [of TABLE_VERTEX_DATA p "()" d]
  show "runs view (delete_props w p) d (Inr ()) (db_dels ({TABLE_VERTEX_DATA} \<times> {k. prefix p k}) d)"
    by (simp add: delete_props_def)
qed

lemma runs_delete_label:
  "runs view (seqp (table_del w TABLE_VERTEX_DATA (encodeVertexDataLabelKey v l)) (
     seqp (table_del w (labelFwdTable l) (encodeLabelForwardKey v))
       (delete_props w (encodeVertexDataPropLabelPrefix v l)))) d (Inr ()) (db_dels (label_rows_of v l) d)"
proof -
  have "db_dels ({TABLE_VERTEX_DATA} \<times> {k. prefix (encodeVertexDataPropLabelPrefix v l) k})
      (db_del (labelFwdTable l) (encodeLabelForwardKey v)
        (db_del TABLE_VERTEX_DATA (encodeVertexDataLabelKey v l) d)) = db_dels (label_rows_of v l) d"
    unfolding db_del_dels db_dels_dels label_rows_of_def by (rule arg_cong [where f = "\<lambda>S. db_dels S d"]) auto
  then show ?thesis
    by (rule subst) (rule run_seqp [OF runs_table_del run_seqp [OF runs_table_del runs_delete_props]], (intro safe)+)
qed

lemma runs_vertex_keys:
  assumes "finite (dom (d TABLE_VERTEX_DATA))"
  shows "runs view (table_scan w TABLE_VERTEX_DATA p (\<lambda>key value keys. liftr (Inr (True, keys @ [key]))) []) d
    (Inr (scan_keys (d TABLE_VERTEX_DATA) p)) d"
proof (rule runs_scan_pureI)
  have "fold_rows (\<lambda>key value keys. Inr (True, keys @ [key])) rows a = Inr (a @ map fst rows)" for rows a
    by (induction rows arbitrary: a) auto
  then show "fold_rows (\<lambda>key value keys. Inr (True, keys @ [key])) (scan_rows (d TABLE_VERTEX_DATA) p) [] =
      Inr (scan_keys (d TABLE_VERTEX_DATA) p)"
    by (simp add: scan_rows_def comp_def)
qed

lemma safe_deleteVertex [safe]: "safe_prog committed in_txn (deleteVertex w v)"
  unfolding deleteVertex_def by (intro safe)

lemma finite_vertex_labels:
  assumes "finite (dom (d TABLE_VERTEX_DATA))"
  shows "finite (vertex_labels d v)"
proof -
  have "encodeVertexDataLabelKey v ` vertex_labels d v \<subseteq> dom (d TABLE_VERTEX_DATA)"
    by (auto simp: vertex_labels_def)
  with assms have "finite (encodeVertexDataLabelKey v ` vertex_labels d v)"
    using finite_subset by blast
  then show ?thesis by (rule finite_imageD) (auto simp: inj_on_def)
qed

lemma runs_deleteVertex:
  assumes "wf_vertex_tables d"
  shows "runs view (deleteVertex w v) d (Inr True) (db_dels (vertex_rows v (vertex_labels d v)) d)"
proof (rule runs_finiteI)
  assume fin: "\<And>t. finite (dom (d t))"
  let ?ls = "sorted_list_of_set (vertex_labels d v)"
  let ?p = "encodeVertexDataVertexPrefix v"
  define d1 where "d1 = fold (\<lambda>l. db_dels (label_rows_of v l)) ?ls d"
  have "dom (d1 TABLE_VERTEX_DATA) \<subseteq> dom (d TABLE_VERTEX_DATA)"
    unfolding d1_def fold_db_dels by (auto simp: db_dels_apply split: if_splits)
  then have fin1: "finite (dom (d1 TABLE_VERTEX_DATA))" using fin finite_subset by blast
  have end_db: "db_del TABLE_VERTEX_SUMMARY (encodeVertexSummaryKey v)
      (db_del TABLE_VERTEX_EXISTENCE (encodeVertexExistenceKey v)
        (fold (db_del TABLE_VERTEX_DATA) (scan_keys (d1 TABLE_VERTEX_DATA) ?p) d1)) =
      db_dels (vertex_rows v (vertex_labels d v)) d"
  proof -
    have e: "vertex_rows v (vertex_labels d v) = (\<Union>l \<in> set ?ls. label_rows_of v l) \<union> vertex_rows v {}"
      using each_label_rows [of v ?ls] finite_vertex_labels [of d v] fin by simp
    have base: "vertex_rows v {} = {TABLE_VERTEX_DATA} \<times> {k. prefix ?p k} \<union>
        {(TABLE_VERTEX_EXISTENCE, encodeVertexExistenceKey v), (TABLE_VERTEX_SUMMARY, encodeVertexSummaryKey v)}"
      by (simp add: vertex_rows_def)
    show ?thesis
      unfolding fold_del_scan [where d = d1 and t = TABLE_VERTEX_DATA, OF fin1]
      unfolding d1_def fold_db_dels db_del_dels db_dels_dels e base
      by (rule arg_cong [where f = "\<lambda>S. db_dels S d"]) auto
  qed
  have keys: "runs view (each_p (table_del w TABLE_VERTEX_DATA) ks) d1 (Inr ()) (fold (db_del TABLE_VERTEX_DATA) ks d1)" for ks
    by (rule run_each_p [where h = "\<lambda>_ _. True"]) (rule runs_table_del safe_table_del)+
  have labels: "runs view (each_p (\<lambda>l. seqp (table_del w TABLE_VERTEX_DATA (encodeVertexDataLabelKey v l)) (
      seqp (table_del w (labelFwdTable l) (encodeLabelForwardKey v))
        (delete_props w (encodeVertexDataPropLabelPrefix v l)))) ?ls) d (Inr ()) d1"
    unfolding d1_def by (rule run_each_p [where h = "\<lambda>_ _. ()"]) (rule runs_delete_label, intro safe)
  show "runs view (deleteVertex w v) d (Inr True) (db_dels (vertex_rows v (vertex_labels d v)) d)"
    unfolding deleteVertex_def end_db [symmetric]
    by (rule runs_with_session, rule run_bindp [OF runs_getVertexLabels [OF assms]], rule run_seqp [OF labels],
        rule run_bindp [OF runs_vertex_keys [where d = d1, OF fin1]], rule run_seqp [OF keys],
        rule run_seqp [OF runs_table_del run_seqp [OF runs_table_del runs_ret]]) (intro safe)+
qed

section \<open>Label and property updates\<close>

lemma runs_addVertexLabel:
  "runs view (addVertexLabel w v l) d (Inr True)
     (db_del TABLE_VERTEX_SUMMARY (encodeVertexSummaryKey v)
       (db_put (labelFwdTable l) (encodeLabelForwardKey v) []
         (db_put TABLE_VERTEX_DATA (encodeVertexDataLabelKey v l) [] d)))"
  unfolding addVertexLabel_def
  by (rule runs_with_session, rule run_guard [OF runs_table_put run_guard [OF runs_table_put runs_table_del]])
    (intro safe)+

lemma safe_addVertexLabel [safe]: "safe_prog committed in_txn (addVertexLabel w v l)"
  unfolding addVertexLabel_def by (intro safe)

lemma runs_removeVertexLabel:
  "runs view (removeVertexLabel w v l) d (Inr True)
     (db_dels (insert (TABLE_VERTEX_SUMMARY, encodeVertexSummaryKey v) (label_rows_of v l)) d)"
proof -
  have "db_del TABLE_VERTEX_SUMMARY (encodeVertexSummaryKey v)
      (db_dels ({TABLE_VERTEX_DATA} \<times> {k. prefix (encodeVertexDataPropLabelPrefix v l) k})
        (db_del (labelFwdTable l) (encodeLabelForwardKey v)
          (db_del TABLE_VERTEX_DATA (encodeVertexDataLabelKey v l) d))) =
      db_dels (insert (TABLE_VERTEX_SUMMARY, encodeVertexSummaryKey v) (label_rows_of v l)) d"
    unfolding db_del_dels db_dels_dels label_rows_of_def by (rule arg_cong [where f = "\<lambda>S. db_dels S d"]) auto
  then show ?thesis
    unfolding removeVertexLabel_def
    by (rule subst) (rule runs_with_session, rule run_seqp [OF runs_table_del run_seqp [OF runs_table_del
        run_seqp [OF runs_delete_props run_seqp [OF runs_table_del runs_ret]]]], (intro safe)+)
qed

lemma safe_removeVertexLabel [safe]: "safe_prog committed in_txn (removeVertexLabel w v l)"
  unfolding removeVertexLabel_def by (intro safe)

lemma runs_putVertexProperty:
  "runs view (putVertexProperty w v l i x) d (Inr True)
     (db_del TABLE_VERTEX_SUMMARY (encodeVertexSummaryKey v)
       (db_put TABLE_VERTEX_DATA (encodeVertexDataPropKey v l i) (encode_value x) d))"
  unfolding putVertexProperty_def
  by (rule runs_with_session, rule run_guard [OF runs_table_put runs_table_del]) (intro safe)+

lemma safe_putVertexProperty [safe]: "safe_prog committed in_txn (putVertexProperty w v l i x)"
  unfolding putVertexProperty_def by (intro safe)

lemma runs_putVertexProperties:
  assumes "length props < 2 ^ 16"
  shows "runs view (putVertexProperties w v l props) d (Inr True)
     (db_del TABLE_VERTEX_SUMMARY (encodeVertexSummaryKey v)
       (put_props_db TABLE_VERTEX_DATA (encodeVertexDataPropKey v l) (prop_items props) d))"
  unfolding putVertexProperties_def
  by (rule runs_with_session, rule run_guard [OF runs_put_prop_rows [OF assms] runs_table_del])
    (rule safe_put_prop_rows [OF assms] safe_table_del)+

lemma safe_putVertexProperties: "length props < 2 ^ 16 \<Longrightarrow> safe_prog committed in_txn (putVertexProperties w v l props)"
  unfolding putVertexProperties_def by (intro safe_with_session safe_guard safe_put_prop_rows safe_table_del)

lemma runs_deleteVertexProperty:
  "runs view (deleteVertexProperty w v l i) d (Inr True)
     (db_del TABLE_VERTEX_SUMMARY (encodeVertexSummaryKey v)
       (db_del TABLE_VERTEX_DATA (encodeVertexDataPropKey v l i) d))"
  unfolding deleteVertexProperty_def
  by (rule runs_with_session, rule run_guard [OF runs_table_del runs_table_del]) (intro safe)+

lemma safe_deleteVertexProperty [safe]: "safe_prog committed in_txn (deleteVertexProperty w v l i)"
  unfolding deleteVertexProperty_def by (intro safe)

section \<open>Readers\<close>

lemma safe_getVertexProperty [safe]: "safe_prog committed in_txn (getVertexProperty w v l i)"
  unfolding getVertexProperty_def by (intro safe)

lemma runs_getVertexProperty:
  "runs view (getVertexProperty w v l i) d
     (case vertex_prop d v l i of None \<Rightarrow> Inr None | Some bs \<Rightarrow> rbind (decode_value bs) (\<lambda>x. Inr (Some x))) d"
  unfolding getVertexProperty_def vertex_prop_def
  by (rule runs_with_session, rule run_bindp [OF runs_table_get])
    (auto split: option.splits intro: safe)

lemma safe_scanVerticesByLabel [safe]: "safe_prog committed in_txn (scanVerticesByLabel w l cb acc)"
  unfolding scanVerticesByLabel_def by (intro safe)

lemma safe_scanAllVertices [safe]: "safe_prog committed in_txn (scanAllVertices w cb acc)"
  unfolding scanAllVertices_def by (intro safe)

lemma safe_getVertexProperties [safe]: "safe_prog committed in_txn (getVertexProperties w v l)"
  unfolding getVertexProperties_def by (intro safe)

end

section \<open>Scans in vertex order\<close>

fun visit :: "('x \<Rightarrow> 'a \<Rightarrow> bool \<times> 'a) \<Rightarrow> 'x list \<Rightarrow> 'a \<Rightarrow> 'a" where
  "visit cb [] a = a"
| "visit cb (x # xs) a = (case cb x a of (go_on, a1) \<Rightarrow> if go_on then visit cb xs a1 else a1)"

lemma fold_rows_visit:
  assumes "\<And>k v. (k, v) \<in> set rows \<Longrightarrow> dec k v = Inr (g k v)"
  shows "fold_rows (\<lambda>k v a. rbind (dec k v) (\<lambda>x. Inr (cb x a))) rows a = Inr (visit cb (map (\<lambda>(k, v). g k v) rows) a)"
  using assms by (induction rows arbitrary: a) (auto split: prod.splits)

lemma sorted_list_of_set_mono_image:
  fixes f :: "'x::linorder \<Rightarrow> 'y::linorder"
  assumes "finite A" and "\<And>x y. f x < f y \<longleftrightarrow> x < y"
  shows "sorted_list_of_set (f ` A) = map f (sorted_list_of_set A)"
proof (rule sorted_distinct_set_unique)
  have le: "f x \<le> f y \<longleftrightarrow> x \<le> y" for x y using assms(2) [of y x] by (simp add: not_less [symmetric])
  show "sorted (map f (sorted_list_of_set A))"
    by (simp add: sorted_map le)
  have "x = y" if "f x = f y" for x y using le [of x y] le [of y x] that by simp
  then show "distinct (map f (sorted_list_of_set A))" by (auto simp: distinct_map inj_on_def)
qed (use assms in auto)

text \<open>A table whose keys are 8-byte ids lists its ids in increasing order.\<close>

lemma id_table_rows:
  assumes "finite (dom m)" and "dom m \<subseteq> range encodeU64BE"
  shows "map fst (scan_rows m []) = map encodeU64BE (sorted_list_of_set {v. m (encodeU64BE v) \<noteq> None})"
proof -
  have img: "dom m = encodeU64BE ` {v. m (encodeU64BE v) \<noteq> None}"
    using assms(2) by auto
  then have "finite (encodeU64BE ` {v. m (encodeU64BE v) \<noteq> None})"
    using assms(1) by simp
  then have "finite {v. m (encodeU64BE v) \<noteq> None}"
    by (rule finite_imageD) (simp add: inj_on_def)
  then have "sorted_list_of_set (dom m) = map encodeU64BE (sorted_list_of_set {v. m (encodeU64BE v) \<noteq> None})"
    by (subst img) (intro sorted_list_of_set_mono_image prims_less(2))
  then show ?thesis by (simp add: scan_rows_def scan_keys_def comp_def)
qed

lemma visit_ids:
  assumes "finite (dom m)" and "dom m \<subseteq> range encodeU64BE"
    and dec: "\<And>v. dec (encodeU64BE v) = Inr v"
  shows "fold_rows (\<lambda>k x a. rbind (dec k) (\<lambda>v. Inr (cb v a))) (scan_rows m []) a =
    Inr (visit cb (sorted_list_of_set {v. m (encodeU64BE v) \<noteq> None}) a)"
proof -
  let ?ids = "sorted_list_of_set {v. m (encodeU64BE v) \<noteq> None}"
  define g where "g k = (case dec k of Inr v \<Rightarrow> v | Inl _ \<Rightarrow> 0)" for k
  have keys: "map fst (scan_rows m []) = map encodeU64BE ?ids" by (rule id_table_rows [OF assms(1,2)])
  then have "fst ` set (scan_rows m []) = encodeU64BE ` set ?ids" by (metis set_map)
  then have "dec k = Inr (g k)" if "(k, x) \<in> set (scan_rows m [])" for k x
    using that by (force simp: g_def dec)
  then have "fold_rows (\<lambda>k x a. rbind (dec k) (\<lambda>v. Inr (cb v a))) (scan_rows m []) a =
      Inr (visit cb (map (\<lambda>(k, x). g k) (scan_rows m [])) a)"
    by (rule fold_rows_visit)
  moreover have "map (\<lambda>(k, x). g k) (scan_rows m []) = map g (map fst (scan_rows m []))"
    by (simp add: case_prod_unfold comp_def)
  then have "map (\<lambda>(k, x). g k) (scan_rows m []) = ?ids"
    by (simp add: keys comp_def g_def dec)
  ultimately show ?thesis by simp
qed

context wiredtiger
begin

lemma runs_scanVerticesByLabel:
  assumes "wf_vertex_tables d"
  shows "runs view (scanVerticesByLabel w l cb acc) d
    (Inr (visit cb (sorted_list_of_set (label_members d l)) acc)) d"
proof (rule runs_finiteI)
  assume "\<And>t. finite (dom (d t))"
  then have "fold_rows (\<lambda>k x a. rbind (decodeLabelForwardKey k) (\<lambda>v. Inr (cb v a))) (scan_rows (d (labelFwdTable l)) []) acc =
      Inr (visit cb (sorted_list_of_set (label_members d l)) acc)"
    using assms visit_ids [of "d (labelFwdTable l)" decodeLabelForwardKey]
      label_forward_codec.dec_enc [simplified encodeLabelForwardKey_def]
    by (simp add: wf_vertex_tables_def label_members_def encodeLabelForwardKey_def [abs_def])
  then show "runs view (scanVerticesByLabel w l cb acc) d (Inr (visit cb (sorted_list_of_set (label_members d l)) acc)) d"
    unfolding scanVerticesByLabel_def by (intro runs_with_session runs_scan_pureI)
qed

lemma runs_scanAllVertices:
  assumes "wf_vertex_tables d"
  shows "runs view (scanAllVertices w cb acc) d
    (Inr (visit cb (sorted_list_of_set {v. vertex_exists d v}) acc)) d"
proof (rule runs_finiteI)
  assume "\<And>t. finite (dom (d t))"
  then have "fold_rows (\<lambda>k x a. rbind (decodeVertexExistenceKey k) (\<lambda>v. Inr (cb v a))) (scan_rows (d TABLE_VERTEX_EXISTENCE) []) acc =
      Inr (visit cb (sorted_list_of_set {v. vertex_exists d v}) acc)"
    using assms visit_ids [of "d TABLE_VERTEX_EXISTENCE" decodeVertexExistenceKey]
      existence_codec.dec_enc [simplified encodeVertexExistenceKey_def]
    by (simp add: wf_vertex_tables_def vertex_exists_def encodeVertexExistenceKey_def [abs_def])
  then show "runs view (scanAllVertices w cb acc) d (Inr (visit cb (sorted_list_of_set {v. vertex_exists d v}) acc)) d"
    unfolding scanAllVertices_def by (intro runs_with_session runs_scan_pureI)
qed

end

end
