(* ===== verification/Vertex_Invariant.thy ===== *)
theory Vertex_Invariant
  imports Vertex_Props
begin

text \<open>
  The vertex operations as one command language, and the invariant of the vertex tables: keys are
  well formed and the two records of a label agree.  The properties of the vertex store follow.
\<close>

section \<open>Operations as data\<close>

datatype vertex_op =
    Insert_Vertex vertex_id label_props
  | Delete_Vertex vertex_id
  | Add_Label vertex_id label_id
  | Remove_Label vertex_id label_id
  | Put_Property vertex_id label_id prop_id property_value
  | Put_Properties vertex_id label_id properties
  | Delete_Property vertex_id label_id prop_id

fun exec_vertex_op :: "'s wt_engine \<Rightarrow> 32 word \<Rightarrow> vertex_op \<Rightarrow> ('s, bool) sprog" where
  "exec_vertex_op w cap (Insert_Vertex v lps) = insertVertex w cap v lps"
| "exec_vertex_op w cap (Delete_Vertex v) = deleteVertex w v"
| "exec_vertex_op w cap (Add_Label v l) = addVertexLabel w v l"
| "exec_vertex_op w cap (Remove_Label v l) = removeVertexLabel w v l"
| "exec_vertex_op w cap (Put_Property v l i x) = putVertexProperty w v l i x"
| "exec_vertex_op w cap (Put_Properties v l props) = putVertexProperties w v l props"
| "exec_vertex_op w cap (Delete_Property v l i) = deleteVertexProperty w v l i"

abbreviation (input) drop_summary :: "vertex_id \<Rightarrow> db \<Rightarrow> db" where
  "drop_summary v \<equiv> db_del TABLE_VERTEX_SUMMARY (encodeVertexSummaryKey v)"

fun apply_vertex_op :: "32 word \<Rightarrow> vertex_op \<Rightarrow> db \<Rightarrow> db" where
  "apply_vertex_op cap (Insert_Vertex v lps) d = insert_vertex_db cap v lps d"
| "apply_vertex_op cap (Delete_Vertex v) d = db_dels (vertex_rows v (vertex_labels d v)) d"
| "apply_vertex_op cap (Add_Label v l) d =
     drop_summary v (db_put (labelFwdTable l) (encodeLabelForwardKey v) []
       (db_put TABLE_VERTEX_DATA (encodeVertexDataLabelKey v l) [] d))"
| "apply_vertex_op cap (Remove_Label v l) d =
     db_dels (insert (TABLE_VERTEX_SUMMARY, encodeVertexSummaryKey v) (label_rows_of v l)) d"
| "apply_vertex_op cap (Put_Property v l i x) d =
     drop_summary v (db_put TABLE_VERTEX_DATA (encodeVertexDataPropKey v l i) (encode_value x) d)"
| "apply_vertex_op cap (Put_Properties v l props) d =
     drop_summary v (put_props_db TABLE_VERTEX_DATA (encodeVertexDataPropKey v l) (prop_items props) d)"
| "apply_vertex_op cap (Delete_Property v l i) d =
     drop_summary v (db_del TABLE_VERTEX_DATA (encodeVertexDataPropKey v l i) d)"

text \<open>A property vector has fewer than \<open>2 ^ 16\<close> slots, so the \<^verbatim>\<open>uint16_t\<close> loops end.\<close>

fun short_op :: "vertex_op \<Rightarrow> bool" where
  "short_op (Insert_Vertex v lps) \<longleftrightarrow> short_props lps"
| "short_op (Put_Properties v l props) \<longleftrightarrow> length props < 2 ^ 16"
| "short_op _ \<longleftrightarrow> True"

section \<open>Well-formed keys\<close>

lemma vertex_data_keys [simp]:
  "vertex_data_key (encodeVertexDataLabelKey v l)" "vertex_data_key (encodeVertexDataPropKey v l i)"
  "vertex_data_key (encodeVertexDataAdjStateKey v dir)"
  by (auto simp: vertex_data_key_def)

lemma wf_put:
  assumes "wf_vertex_tables d" and "t = TABLE_VERTEX_DATA \<Longrightarrow> vertex_data_key k"
    and "t = TABLE_VERTEX_EXISTENCE \<Longrightarrow> k \<in> range encodeVertexExistenceKey"
    and "\<And>l. t = labelFwdTable l \<Longrightarrow> k \<in> range encodeLabelForwardKey"
  shows "wf_vertex_tables (db_put t k v d)"
  using assms unfolding wf_vertex_tables_def by (auto simp: db_apply subset_iff dom_def split: if_splits)

lemma wf_dels: "wf_vertex_tables d \<Longrightarrow> wf_vertex_tables (db_dels S d)"
  unfolding wf_vertex_tables_def by (auto simp: db_dels_apply subset_iff dom_def split: if_splits)

lemma wf_del: "wf_vertex_tables d \<Longrightarrow> wf_vertex_tables (db_del t k d)"
  by (simp add: db_del_dels wf_dels)

lemma wf_put_prop: "wf_vertex_tables d \<Longrightarrow> wf_vertex_tables (db_put TABLE_VERTEX_DATA (encodeVertexDataPropKey v l i) x d)"
  by (rule wf_put) auto

lemma wf_put_props:
  "wf_vertex_tables d \<Longrightarrow> wf_vertex_tables (put_props_db TABLE_VERTEX_DATA (encodeVertexDataPropKey v l) items d)"
  unfolding put_props_db_def by (induction items arbitrary: d) (auto simp: wf_put_prop)

lemma wf_label_group: "wf_vertex_tables d \<Longrightarrow> wf_vertex_tables (label_group_db v lp d)"
  by (cases lp) (auto simp: label_group_db_def intro!: wf_put wf_put_props)

lemma wf_label_groups: "wf_vertex_tables d \<Longrightarrow> wf_vertex_tables (fold (label_group_db v) lps d)"
  by (induction lps arbitrary: d) (auto intro: wf_label_group)

lemma wf_insert: "wf_vertex_tables d \<Longrightarrow> wf_vertex_tables (insert_vertex_db cap v lps d)"
  by (auto simp: insert_vertex_db_def summary_db_def adj_reset_db_def
      intro!: wf_put wf_del wf_label_groups)

lemma wf_apply: "wf_vertex_tables d \<Longrightarrow> wf_vertex_tables (apply_vertex_op cap op d)"
  by (cases op) (auto intro!: wf_insert wf_dels wf_put wf_del wf_put_props)

section \<open>Agreement of the label tables\<close>

lemma labels_agree_cong:
  "(\<And>v l. (l \<in> vertex_labels d' v) = (l \<in> vertex_labels d v)) \<Longrightarrow>
   (\<And>v l. (v \<in> label_members d' l) = (v \<in> label_members d l)) \<Longrightarrow> labels_agree d \<Longrightarrow> labels_agree d'"
  by (simp add: labels_agree_def)

lemma agree_props:
  "vertex_labels (put_props_db TABLE_VERTEX_DATA (encodeVertexDataPropKey v l) items d) v' = vertex_labels d v'"
  "label_members (put_props_db TABLE_VERTEX_DATA (encodeVertexDataPropKey v l) items d) l' = label_members d l'"
  by (auto simp: vertex_labels_def label_members_def put_props_db_other image_def)

lemma agree_delete_vertex:
  assumes "labels_agree d"
  shows "vertex_labels (db_dels (vertex_rows v (vertex_labels d v)) d) v' = (if v' = v then {} else vertex_labels d v')"
    and "label_members (db_dels (vertex_rows v (vertex_labels d v)) d) l = label_members d l - {v}"
proof -
  show "vertex_labels (db_dels (vertex_rows v (vertex_labels d v)) d) v' = (if v' = v then {} else vertex_labels d v')"
    by (auto simp: vertex_labels_def db_dels_apply vertex_rows_def)
  have "(labelFwdTable l, encodeLabelForwardKey u) \<in> vertex_rows v L \<longleftrightarrow> u = v \<and> l \<in> L" for u L
    by (auto simp: vertex_rows_def)
  then show "label_members (db_dels (vertex_rows v (vertex_labels d v)) d) l = label_members d l - {v}"
    using assms by (auto simp: label_members_def labels_agree_def db_dels_apply)
qed

lemma agree_remove_label:
  defines "S v l \<equiv> insert (TABLE_VERTEX_SUMMARY, encodeVertexSummaryKey v) (label_rows_of v l)"
  shows "vertex_labels (db_dels (S v l) d) v' = vertex_labels d v' - (if v' = v then {l} else {})"
    and "label_members (db_dels (S v l) d) l' = label_members d l' - (if l' = l then {v} else {})"
  by (auto simp: S_def vertex_labels_def label_members_def db_dels_apply label_rows_of_def split: if_splits)

lemma agree_apply:
  assumes "labels_agree d"
  shows "labels_agree (apply_vertex_op cap op d)"
proof (cases op)
  case (Insert_Vertex v lps)
  with assms show ?thesis by (auto simp: labels_agree_def insert_vertex_db_reads)
next
  case (Delete_Vertex v)
  with assms agree_delete_vertex [OF assms] show ?thesis by (auto simp: labels_agree_def)
next
  case (Add_Label v l)
  with assms show ?thesis
    by (auto simp: labels_agree_def vertex_labels_def label_members_def db_apply)
next
  case (Remove_Label v l)
  with assms show ?thesis by (simp add: labels_agree_def agree_remove_label)
next
  case (Put_Properties v l props)
  then show ?thesis
    by (auto intro!: labels_agree_cong [OF _ _ assms] simp: vertex_labels_def label_members_def db_apply
        put_props_db_other image_def)
qed (use assms in \<open>auto simp: labels_agree_def vertex_labels_def label_members_def db_apply\<close>)

section \<open>Every sequence of operations\<close>

context wiredtiger
begin

lemma safe_exec: "short_op op \<Longrightarrow> safe_prog committed in_txn (exec_vertex_op w cap op)"
  by (cases op) (auto intro: safe insert_parts(1) safe_putVertexProperties)

lemma runs_exec:
  "short_op op \<Longrightarrow> wf_vertex_tables d \<Longrightarrow> runs view (exec_vertex_op w cap op) d (Inr True) (apply_vertex_op cap op d)"
  by (cases op) (auto intro: insert_parts(2) runs_deleteVertex runs_addVertexLabel runs_removeVertexLabel
      runs_putVertexProperty runs_putVertexProperties runs_deleteVertexProperty)

lemma safe_ops: "list_all short_op ops \<Longrightarrow> safe_prog committed in_txn (each_p (exec_vertex_op w cap) ops)"
  by (rule safe_each_p_mem) (auto simp: list_all_iff intro: safe_exec)

lemma runs_ops:
  "list_all short_op ops \<Longrightarrow> wf_vertex_tables d \<Longrightarrow>
   runs view (each_p (exec_vertex_op w cap) ops) d (Inr ()) (fold (apply_vertex_op cap) ops d)"
  by (induction ops arbitrary: d) (auto intro!: run_seqp [OF runs_exec] safe_exec safe_ops wf_apply)

lemma ops_invariant:
  "wf_vertex_tables d \<Longrightarrow> labels_agree d \<Longrightarrow>
   wf_vertex_tables (fold (apply_vertex_op cap) ops d) \<and> labels_agree (fold (apply_vertex_op cap) ops d)"
  by (induction ops arbitrary: d) (auto intro: wf_apply agree_apply)

end

section \<open>On a reliable engine\<close>

lemma quiet_with_session [quiet]: "quiet m \<Longrightarrow> quiet (with_session x m)"
  unfolding with_session_def by (intro quiet)

lemma quiet_put_prop_rows:
  fixes put :: "prop_id \<Rightarrow> bytes \<Rightarrow> ('s, bool) sprog"
  assumes "length props < 2 ^ 16" and "\<And>i b. quiet (put i b)"
  shows "quiet (put_prop_rows put props)"
proof -
  have "u16_all f (length props) 0 = all_p f (map of_nat [0..<length props])" for f :: "16 word \<Rightarrow> ('s, bool) sprog"
    using u16_all_list [OF assms(1), of 0 f] by simp
  then show ?thesis unfolding put_prop_rows_def by (simp only:) (intro quiet assms(2))
qed

context reliable_wiredtiger
begin

lemma quiet_getVertexLabels [quiet]: "quiet (getVertexLabels w v)"
  unfolding getVertexLabels_def by (intro quiet)

lemma quiet_delete_props [quiet]: "quiet (delete_props w p)"
  unfolding delete_props_def by (intro quiet)

lemma quiet_insertVertex:
  assumes "short_props lps"
  shows "quiet (insertVertex w cap v lps)"
proof -
  have "quiet (case lp of (l, props) \<Rightarrow> if l = INVALID_LABEL_ID then ret True
      else guard_then (table_put w TABLE_VERTEX_DATA (encodeVertexDataLabelKey v l) [])
          (guard_then (table_put w (labelFwdTable l) (encodeLabelForwardKey v) [])
            (put_prop_rows (\<lambda>i val. table_put w TABLE_VERTEX_DATA (encodeVertexDataPropKey v l i) val) props)))"
    if "lp \<in> set lps" for lp
    using that assms by (auto simp: short_props_def intro!: quiet quiet_put_prop_rows split: prod.splits)
  then show ?thesis
    unfolding insertVertex_def Let_def
    by (intro quiet_with_session quiet_guard quiet_bindp quiet_if quiet_all_p quiet_all_p_mem quiet_ret
        quiet_table_put quiet_table_del quiet_table_get) auto
qed

lemma quiet_exec: "short_op op \<Longrightarrow> quiet (exec_vertex_op w cap op)"
proof (cases op)
  case (Put_Properties v l props)
  assume "short_op op"
  with Put_Properties show ?thesis
    unfolding exec_vertex_op.simps putVertexProperties_def
    by (auto intro!: quiet_with_session quiet_guard quiet_put_prop_rows quiet_table_put quiet_table_del
        simp: putVertexProperties_def)
qed (auto simp: deleteVertex_def addVertexLabel_def removeVertexLabel_def putVertexProperty_def
    deleteVertexProperty_def intro!: quiet_insertVertex quiet)

lemma quiet_ops: "list_all short_op ops \<Longrightarrow> quiet (each_p (exec_vertex_op w cap) ops)"
  by (rule quiet_each_p_mem) (auto simp: list_all_iff intro: quiet_exec)

end

end
