(* ===== verification/Edge_Proofs.thy ===== *)
theory Edge_Proofs
  imports Edge_Store Vertex_Invariant
begin

text \<open>
  The adjacency of a vertex as one map from (edge label, neighbour, sequence number) to the stored
  edge id, wherever the rows are kept, and what the adjacency operations do to it on a reliable
  engine: a promotion moves the rows and loses none.
\<close>

section \<open>The adjacency a database holds\<close>

type_synonym edge_ref = "edge_label_id \<times> vertex_id \<times> 64 word"

definition ref_key :: "vertex_id \<Rightarrow> direction \<Rightarrow> edge_ref \<Rightarrow> edge_index_key" where
  "ref_key v dir = (\<lambda>(l, n, q). edge_key v dir l n q)"

definition cached_edges :: "db \<Rightarrow> vertex_id \<Rightarrow> direction \<Rightarrow> edge_ref \<Rightarrow> bytes option" where
  "cached_edges d v dir e = d TABLE_VERTEX_DATA (encodeVertexDataAdjEdgeKey (ref_key v dir e))"

definition indexed_edges :: "db \<Rightarrow> vertex_id \<Rightarrow> direction \<Rightarrow> edge_ref \<Rightarrow> bytes option" where
  "indexed_edges d v dir e = d TABLE_EDGE_INDEX (encodeEdgeIndexKey (ref_key v dir e))"

definition state_of :: "db \<Rightarrow> vertex_id \<Rightarrow> direction \<Rightarrow> adj_state option" where
  "state_of d v dir = map_option decodeAdjacencyState (d TABLE_VERTEX_DATA (encodeVertexDataAdjStateKey v dir))"

definition uses_cache :: "32 word \<Rightarrow> db \<Rightarrow> vertex_id \<Rightarrow> direction \<Rightarrow> bool" where
  "uses_cache cap d v dir \<longleftrightarrow> cap > 0 \<and> (\<exists>c. state_of d v dir = Some (ADJ_COMPLETE, c))"

definition adjacency :: "32 word \<Rightarrow> db \<Rightarrow> vertex_id \<Rightarrow> direction \<Rightarrow> edge_ref \<Rightarrow> bytes option" where
  "adjacency cap d v dir = (if uses_cache cap d v dir then cached_edges d v dir else indexed_edges d v dir)"

definition one_dir :: "direction \<Rightarrow> bool" where
  "one_dir dir \<longleftrightarrow> dir = DIR_OUT \<or> dir = DIR_IN"

lemma one_dir_kind: "one_dir d \<Longrightarrow> one_dir d' \<Longrightarrow> adj_kind d = adj_kind d' \<longleftrightarrow> d = d'"
  by (auto simp: one_dir_def adj_kind_def)

text \<open>
  The invariant of the two edge tables: keys are well formed, a state is one of the two written
  ones, and a direction served by the cache has no row in \<open>edge_index\<close>.
\<close>

definition adj_inv :: "32 word \<Rightarrow> db \<Rightarrow> bool" where
  "adj_inv cap d \<longleftrightarrow>
     wf_vertex_tables d \<and> dom (d TABLE_EDGE_INDEX) \<subseteq> range encodeEdgeIndexKey \<and>
     (\<forall>v dir st c. one_dir dir \<longrightarrow> state_of d v dir = Some (st, c) \<longrightarrow> st = ADJ_COMPLETE \<or> st = ADJ_OVERFLOW) \<and>
     (\<forall>v dir. one_dir dir \<longrightarrow> uses_cache cap d v dir \<longrightarrow> indexed_edges d v dir = Map.empty)"

section \<open>Keys\<close>

lemma inj_ref_key: "ref_key v dir e = ref_key v dir e' \<longleftrightarrow> e = e'"
  by (auto simp: ref_key_def edge_key_def split: prod.splits)

lemma ref_key_sel [simp]: "ek_vertex_id (ref_key v dir e) = v" "ek_direction (ref_key v dir e) = dir"
  by (auto simp: ref_key_def edge_key_def split: prod.splits)

lemma ref_key_ex: "\<exists>e. k = ref_key (ek_vertex_id k) (ek_direction k) e"
  by (intro exI [of _ "(ek_edge_label_id k, ek_neighbor_id k, ek_seq k)"]) (simp add: ref_key_def edge_key_def)

lemma ref_key_eq [simp]: "ref_key v dir e = ref_key v' dir' e' \<longleftrightarrow> v = v' \<and> dir = dir' \<and> e = e'"
  by (metis inj_ref_key ref_key_sel)

lemma index_key_eq [simp]:
  "encodeEdgeIndexKey (ref_key v dir e) = encodeEdgeIndexKey (ref_key v' dir' e') \<longleftrightarrow> v = v' \<and> dir = dir' \<and> e = e'"
  by (metis edge_index_codec.dec_enc inj_ref_key ref_key_sel sum.inject(2))

lemma adj_key_eq [simp]:
  assumes "one_dir dir" and "one_dir dir'"
  shows "encodeVertexDataAdjEdgeKey (ref_key v dir e) = encodeVertexDataAdjEdgeKey (ref_key v' dir' e') \<longleftrightarrow>
    v = v' \<and> dir = dir' \<and> e = e'"
proof -
  have "decodeVertexDataAdjEdgeKey (encodeVertexDataAdjEdgeKey (ref_key u r f)) = Inr (ref_key u r f)" if "one_dir r" for u r f
    using that by (intro adj_edge_codec.dec_enc) (simp add: one_dir_def)
  then show ?thesis using assms by (metis inj_ref_key ref_key_sel sum.inject(2))
qed

lemma decode_adj_ref: "one_dir dir \<Longrightarrow> decodeVertexDataAdjEdgeKey (encodeVertexDataAdjEdgeKey (ref_key v dir e)) = Inr (ref_key v dir e)"
  by (intro adj_edge_codec.dec_enc) (simp add: one_dir_def)

lemma state_key_eq [simp]:
  "one_dir dir \<Longrightarrow> one_dir dir' \<Longrightarrow>
   encodeVertexDataAdjStateKey v dir = encodeVertexDataAdjStateKey v' dir' \<longleftrightarrow> v = v' \<and> dir = dir'"
  using one_dir_kind [of dir dir'] by (auto simp: encodeVertexDataAdjStateKey_def encodeU8_def)

section \<open>Rows under an adjacency prefix\<close>

definition cached_rows :: "db \<Rightarrow> vertex_id \<Rightarrow> direction \<Rightarrow> (bytes \<times> bytes) list" where
  "cached_rows d v dir =
     filter (\<lambda>(k, b). \<not> isVertexDataAdjStateKey k) (scan_rows (d TABLE_VERTEX_DATA) (encodeVertexDataAdjPrefix v dir))"

lemma adj_rows:
  assumes "wf_vertex_tables d" and "d TABLE_VERTEX_DATA k = Some b" and "prefix (encodeVertexDataAdjPrefix v dir) k"
    and "one_dir dir"
  shows "k = encodeVertexDataAdjStateKey v dir \<or> (\<exists>e. k = encodeVertexDataAdjEdgeKey (ref_key v dir e))"
proof -
  have "vertex_data_key k" using assms(1,2) by (auto simp: wf_vertex_tables_def)
  then consider v' l where "k = encodeVertexDataLabelKey v' l" | v' l i where "k = encodeVertexDataPropKey v' l i"
    | v' dir' where "k = encodeVertexDataAdjStateKey v' dir'"
    | e where "k = encodeVertexDataAdjEdgeKey e" "one_dir (ek_direction e)"
    unfolding vertex_data_key_def one_dir_def by metis
  then show ?thesis
  proof cases
    case 3
    with assms(3) have "v = v' \<and> adj_kind dir = adj_kind dir'" by simp
    with 3 show ?thesis by (simp add: encodeVertexDataAdjStateKey_def)
  next
    case 4
    with assms(3,4) have "ek_vertex_id e = v" "ek_direction e = dir" by (auto simp: one_dir_kind)
    with 4 ref_key_ex [of e] show ?thesis by metis
  qed (use assms(3) in auto)
qed

lemma set_cached_rows:
  assumes "finite (dom (d TABLE_VERTEX_DATA))" and "wf_vertex_tables d" and "one_dir dir"
  shows "set (cached_rows d v dir) =
    {(encodeVertexDataAdjEdgeKey (ref_key v dir e), b) | e b. cached_edges d v dir e = Some b}"
  using adj_rows [OF assms(2) _ _ assms(3)] assms(1)
  unfolding cached_rows_def set_filter set_scan_rows [OF assms(1)]
  by (fastforce simp: cached_edges_def)

section \<open>Promotion\<close>

definition index_key_of :: "direction \<Rightarrow> bytes \<Rightarrow> bytes" where
  "index_key_of dir k = (case decodeVertexDataAdjEdgeKey k of
     Inr e \<Rightarrow> encodeEdgeIndexKey (edge_key (ek_vertex_id e) dir (ek_edge_label_id e) (ek_neighbor_id e) (ek_seq e))
   | Inl _ \<Rightarrow> [])"

lemma index_key_of_ref [simp]:
  "one_dir dir \<Longrightarrow> index_key_of dir (encodeVertexDataAdjEdgeKey (ref_key v dir e)) = encodeEdgeIndexKey (ref_key v dir e)"
  by (auto simp: index_key_of_def decode_adj_ref) (auto simp: ref_key_def edge_key_def split: prod.splits)

definition promote_db :: "vertex_id \<Rightarrow> direction \<Rightarrow> db \<Rightarrow> db" where
  "promote_db v dir d =
     db_put TABLE_VERTEX_DATA (encodeVertexDataAdjStateKey v dir) (encodeAdjacencyState ADJ_OVERFLOW 0)
       (fold (db_del TABLE_VERTEX_DATA) (map fst (cached_rows d v dir))
         (fold (\<lambda>(k, b). db_put TABLE_EDGE_INDEX (index_key_of dir k) b) (cached_rows d v dir) d))"

lemma collect_cached_rows:
  assumes "\<And>k b. (k, b) \<in> set rows \<Longrightarrow> isVertexDataAdjStateKey k \<or> (\<exists>e. decodeVertexDataAdjEdgeKey k = Inr e)"
  shows "fold_rows (collect_cached dir) rows (keys, entries) =
    Inr (keys @ map fst (filter (\<lambda>(k, b). \<not> isVertexDataAdjStateKey k) rows),
      entries @ map (\<lambda>(k, b). (index_key_of dir k, b)) (filter (\<lambda>(k, b). \<not> isVertexDataAdjStateKey k) rows))"
  using assms
proof (induction rows arbitrary: keys entries)
  case (Cons r rows)
  obtain k b where r: "r = (k, b)" by fastforce
  have "isVertexDataAdjStateKey k \<or> (\<exists>e. decodeVertexDataAdjEdgeKey k = Inr e)"
    using Cons.prems [of k b] r by auto
  moreover have "\<And>k b. (k, b) \<in> set rows \<Longrightarrow> isVertexDataAdjStateKey k \<or> (\<exists>e. decodeVertexDataAdjEdgeKey k = Inr e)"
    using Cons.prems by (meson list.set_intros(2))
  note Cons.IH [OF this]
  ultimately show ?case by (auto simp: r collect_cached_def index_key_of_def)
qed simp

lemma fold_put_map:
  "fold (\<lambda>(k, b). db_put t (h k) b) rows d t' k' =
    (if t' = t then case map_of (rev (map (\<lambda>(k, b). (h k, b)) rows)) k' of Some b \<Rightarrow> Some b | None \<Rightarrow> d t k' else d t' k')"
  by (induction rows rule: rev_induct) (auto simp: db_apply split: option.splits)

context reliable_wiredtiger
begin

lemma does_finite: "((\<And>t. finite (dom (d t))) \<Longrightarrow> does view m d x d') \<Longrightarrow> does view m d x d'"
  unfolding does_def using finite_view by blast

lemma does_getAdjacencyState: "does view (getAdjacencyState w v dir) d (Inr (state_of d v dir)) d"
  unfolding getAdjacencyState_def state_of_def by (rule does_bindp [OF does_raw_get]) simp

lemma does_putAdjacencyState:
  "does view (putAdjacencyState w v dir st c) d (Inr True)
     (db_put TABLE_VERTEX_DATA (encodeVertexDataAdjStateKey v dir) (encodeAdjacencyState st c) d)"
  unfolding putAdjacencyState_def by (rule does_raw_put)

lemma does_promote:
  assumes "wf_vertex_tables d" and "one_dir dir"
  shows "does view (promoteAdjacency w v dir) d (Inr True) (promote_db v dir d)"
proof (rule does_finite)
  assume fin: "\<And>t. finite (dom (d t))"
  let ?rows = "scan_rows (d TABLE_VERTEX_DATA) (encodeVertexDataAdjPrefix v dir)"
  let ?keys = "map fst (cached_rows d v dir)"
  let ?ents = "map (\<lambda>(k, b). (index_key_of dir k, b)) (cached_rows d v dir)"
  have "isVertexDataAdjStateKey k \<or> (\<exists>e. decodeVertexDataAdjEdgeKey k = Inr e)"
    if "(k, b) \<in> set ?rows" for k b
  proof -
    from that have "d TABLE_VERTEX_DATA k = Some b" "prefix (encodeVertexDataAdjPrefix v dir) k"
      by (auto simp: set_scan_rows [OF fin])
    from adj_rows [OF assms(1) this assms(2)] assms(2) show ?thesis by (auto simp: decode_adj_ref)
  qed
  then have "fold_rows (collect_cached dir) ?rows ([], []) = Inr (?keys, ?ents)"
    unfolding cached_rows_def by (subst collect_cached_rows) auto
  then have scan: "does view (raw_table_scan w TABLE_VERTEX_DATA (encodeVertexDataAdjPrefix v dir)
      (\<lambda>key value acc. liftr (collect_cached dir key value acc)) ([], [])) d (Inr (?keys, ?ents)) d"
    by (rule does_raw_scan)
  have puts: "does view (all_p (\<lambda>(key, value). raw_table_put w TABLE_EDGE_INDEX key value) ?ents) d (Inr True)
      (fold (\<lambda>(k, b). db_put TABLE_EDGE_INDEX k b) ?ents d)"
    by (rule does_all_p) (auto intro: does_raw_put)
  have dels: "does view (each_p (raw_table_del w TABLE_VERTEX_DATA) ?keys) d' (Inr ()) (fold (db_del TABLE_VERTEX_DATA) ?keys d')" for d'
    by (rule does_each_p [where h = "\<lambda>_ _. True"]) (rule does_raw_del)
  have e: "fold (\<lambda>(k, b). db_put TABLE_EDGE_INDEX k b) ?ents d =
      fold (\<lambda>(k, b). db_put TABLE_EDGE_INDEX (index_key_of dir k) b) (cached_rows d v dir) d"
    by (simp add: fold_map comp_def case_prod_unfold)
  show "does view (promoteAdjacency w v dir) d (Inr True) (promote_db v dir d)"
    unfolding promoteAdjacency_def promote_db_def e [symmetric]
    by (rule does_bindp [OF scan]) (simp, rule does_guard [OF puts does_seqp [OF dels does_putAdjacencyState]])
qed

end

section \<open>What a promotion leaves\<close>

lemma map_of_single:
  assumes "\<And>b b'. (k, b) \<in> set xs \<Longrightarrow> (k, b') \<in> set xs \<Longrightarrow> b = b'"
  shows "map_of xs k = Some b \<longleftrightarrow> (k, b) \<in> set xs"
  using assms by (metis map_of_SomeD weak_map_of_SomeI)

lemma moved_rows:
  assumes "finite (dom (d TABLE_VERTEX_DATA))" and "wf_vertex_tables d" and "one_dir dir"
  shows "map_of (rev (map (\<lambda>(k, b). (index_key_of dir k, b)) (cached_rows d v dir))) (encodeEdgeIndexKey (ref_key v' dir' e)) =
    (if v' = v \<and> dir' = dir then cached_edges d v dir e else None)" (is "map_of ?xs ?k = ?r")
proof -
  have S: "(k, b) \<in> set ?xs \<longleftrightarrow> (\<exists>e. k = encodeEdgeIndexKey (ref_key v dir e) \<and> cached_edges d v dir e = Some b)" for k b
    using assms(3) by (force simp: set_cached_rows [OF assms] image_iff)
  then have m: "map_of ?xs ?k = Some b \<longleftrightarrow> ?r = Some b" for b
    by (subst map_of_single) (auto simp: S simp del: split_paired_Ex)
  show ?thesis using m by (cases ?r; cases "map_of ?xs ?k") auto
qed

lemma fold_del_apply: "fold (db_del t) ks d t' k = (if t' = t \<and> k \<in> set ks then None else d t' k)"
  by (auto simp: fold_db_del db_dels_apply)

lemma promote_db_reads:
  assumes "finite (dom (d TABLE_VERTEX_DATA))" and "wf_vertex_tables d" and "one_dir dir"
  shows "indexed_edges (promote_db v dir d) v' dir' e =
      (case (if v' = v \<and> dir' = dir then cached_edges d v dir e else None) of
         Some b \<Rightarrow> Some b | None \<Rightarrow> indexed_edges d v' dir' e)"
    and "one_dir dir' \<Longrightarrow> cached_edges (promote_db v dir d) v' dir' e =
      (if v' = v \<and> dir' = dir then None else cached_edges d v' dir' e)"
    and "one_dir dir' \<Longrightarrow> state_of (promote_db v dir d) v' dir' =
      (if v' = v \<and> dir' = dir then Some (ADJ_OVERFLOW, 0) else state_of d v' dir')"
proof -
  let ?ks = "map fst (cached_rows d v dir)"
  have ks: "encodeVertexDataAdjEdgeKey (ref_key v' dir' e) \<in> set ?ks \<longleftrightarrow> v' = v \<and> dir' = dir \<and> cached_edges d v dir e \<noteq> None"
    if "one_dir dir'" for v' dir' e
  proof -
    have "set ?ks = {encodeVertexDataAdjEdgeKey (ref_key v dir e) | e. cached_edges d v dir e \<noteq> None}"
      unfolding set_map set_cached_rows [OF assms] by force
    with that assms(3) show ?thesis by (auto simp del: split_paired_Ex)
  qed
  have st: "encodeVertexDataAdjStateKey v' dir' \<notin> set ?ks" for v' dir'
    by (auto simp: set_cached_rows [OF assms])
  show "indexed_edges (promote_db v dir d) v' dir' e =
      (case (if v' = v \<and> dir' = dir then cached_edges d v dir e else None) of
         Some b \<Rightarrow> Some b | None \<Rightarrow> indexed_edges d v' dir' e)"
    using moved_rows [OF assms, of v v' dir' e]
    by (auto simp: indexed_edges_def promote_db_def db_apply fold_del_apply fold_put_map split: option.splits)
  show "one_dir dir' \<Longrightarrow> cached_edges (promote_db v dir d) v' dir' e =
      (if v' = v \<and> dir' = dir then None else cached_edges d v' dir' e)"
    using ks [of dir' v' e] by (auto simp: cached_edges_def promote_db_def db_apply fold_del_apply fold_put_map)
  show "one_dir dir' \<Longrightarrow> state_of (promote_db v dir d) v' dir' =
      (if v' = v \<and> dir' = dir then Some (ADJ_OVERFLOW, 0) else state_of d v' dir')"
    using st [of v' dir'] assms(3) by (simp add: state_of_def promote_db_def db_apply fold_del_apply fold_put_map)
qed

lemma wf_put_index: "wf_vertex_tables d \<Longrightarrow> wf_vertex_tables (db_put TABLE_EDGE_INDEX k b d)"
  by (rule wf_put) auto

lemma wf_fold_put:
  "wf_vertex_tables d \<Longrightarrow> wf_vertex_tables (fold (\<lambda>(k, b). db_put TABLE_EDGE_INDEX (h k) b) rows d)"
  by (induction rows arbitrary: d) (auto simp: wf_put_index)

lemma wf_fold_del: "wf_vertex_tables d \<Longrightarrow> wf_vertex_tables (fold (db_del t) ks d)"
  by (simp add: fold_db_del wf_dels)

lemma wf_promote: "wf_vertex_tables d \<Longrightarrow> wf_vertex_tables (promote_db v dir d)"
  unfolding promote_db_def by (rule wf_put) (auto intro: wf_fold_put wf_fold_del)

lemma dom_index_promote:
  assumes "finite (dom (d TABLE_VERTEX_DATA))" and "wf_vertex_tables d" and "one_dir dir"
    and "dom (d TABLE_EDGE_INDEX) \<subseteq> range encodeEdgeIndexKey"
  shows "dom (promote_db v dir d TABLE_EDGE_INDEX) \<subseteq> range encodeEdgeIndexKey"
proof
  fix k assume k: "k \<in> dom (promote_db v dir d TABLE_EDGE_INDEX)"
  let ?xs = "rev (map (\<lambda>(k, b). (index_key_of dir k, b)) (cached_rows d v dir))"
  have e: "promote_db v dir d TABLE_EDGE_INDEX k =
      (case map_of ?xs k of Some b \<Rightarrow> Some b | None \<Rightarrow> d TABLE_EDGE_INDEX k)"
    by (simp add: promote_db_def db_apply fold_del_apply fold_put_map)
  show "k \<in> range encodeEdgeIndexKey"
  proof (cases "map_of ?xs k")
    case None
    with k e have "k \<in> dom (d TABLE_EDGE_INDEX)" by (simp add: domIff)
    with assms(4) show ?thesis by blast
  next
    case (Some b)
    then have "(k, b) \<in> set ?xs" by (rule map_of_SomeD)
    with assms(3) show ?thesis by (auto simp: set_cached_rows [OF assms(1-3)])
  qed
qed

end
