(* ===== verification/Edge_Adjacency.thy ===== *)
theory Edge_Adjacency
  imports Edge_Proofs
begin

text \<open>
  Insertion and deletion of one adjacency entry: on the adjacency map they are the map update and
  the map deletion, for every cache capacity and on both sides of a promotion.
\<close>

definition insert_adj_db :: "32 word \<Rightarrow> vertex_id \<Rightarrow> direction \<Rightarrow> edge_ref \<Rightarrow> edge_id \<Rightarrow> db \<Rightarrow> db" where
  "insert_adj_db cap v dir e eid d =
     (let to_index = db_put TABLE_EDGE_INDEX (encodeEdgeIndexKey (ref_key v dir e)) (vc_encodeU64 eid) in
      if cap = 0 then to_index d
      else case state_of d v dir of
        None \<Rightarrow> to_index d
      | Some (st, c) \<Rightarrow>
          if st = ADJ_OVERFLOW then to_index d
          else if c \<ge> cap then to_index (promote_db v dir d)
          else db_put TABLE_VERTEX_DATA (encodeVertexDataAdjStateKey v dir) (encodeAdjacencyState ADJ_COMPLETE (c + 1))
            (db_put TABLE_VERTEX_DATA (encodeVertexDataAdjEdgeKey (ref_key v dir e)) (vc_encodeU64 eid) d))"

definition delete_adj_db :: "32 word \<Rightarrow> vertex_id \<Rightarrow> direction \<Rightarrow> edge_ref \<Rightarrow> db \<Rightarrow> db" where
  "delete_adj_db cap v dir e d =
     (let from_index = db_del TABLE_EDGE_INDEX (encodeEdgeIndexKey (ref_key v dir e)) in
      if cap = 0 then from_index d
      else case state_of d v dir of
        None \<Rightarrow> from_index d
      | Some (st, c) \<Rightarrow>
          if st = ADJ_COMPLETE then
            db_put TABLE_VERTEX_DATA (encodeVertexDataAdjStateKey v dir) (encodeAdjacencyState ADJ_COMPLETE (if c > 0 then c - 1 else 0))
              (db_del TABLE_VERTEX_DATA (encodeVertexDataAdjEdgeKey (ref_key v dir e)) d)
          else from_index d)"

context reliable_wiredtiger
begin

lemma does_insertAdjacencyEdge:
  assumes "wf_vertex_tables d" and "one_dir dir"
  shows "does view (insertAdjacencyEdge w cap v dir l n q eid) d (Inr True) (insert_adj_db cap v dir (l, n, q) eid d)"
  unfolding insertAdjacencyEdge_def Let_def
  by (auto simp: insert_adj_db_def Let_def ref_key_def split: option.splits
      intro!: does_raw_put does_bindp [OF does_getAdjacencyState] does_guard [OF does_promote [OF assms] does_raw_put]
        does_guard [OF does_raw_put does_putAdjacencyState])

lemma does_deleteAdjacencyEdge:
  "does view (deleteAdjacencyEdge w cap v dir l n q) d (Inr True) (delete_adj_db cap v dir (l, n, q) d)"
  unfolding deleteAdjacencyEdge_def Let_def
  by (auto simp: delete_adj_db_def Let_def ref_key_def split: option.splits
      intro!: does_seqp [OF does_raw_del does_ret] does_bindp [OF does_getAdjacencyState]
        does_seqp [OF does_raw_del does_putAdjacencyState])

end

section \<open>Reads after single updates\<close>

lemma put_index_reads:
  "indexed_edges (db_put TABLE_EDGE_INDEX (encodeEdgeIndexKey (ref_key v dir e)) b d) v' dir' =
     (if v' = v \<and> dir' = dir then (indexed_edges d v dir)(e \<mapsto> b) else indexed_edges d v' dir')"
  "cached_edges (db_put TABLE_EDGE_INDEX k b d) v' dir' = cached_edges d v' dir'"
  "state_of (db_put TABLE_EDGE_INDEX k b d) v' dir' = state_of d v' dir'"
  by (auto simp: indexed_edges_def cached_edges_def state_of_def db_apply fun_eq_iff)

lemma del_index_reads:
  "indexed_edges (db_del TABLE_EDGE_INDEX (encodeEdgeIndexKey (ref_key v dir e)) d) v' dir' =
     (if v' = v \<and> dir' = dir then (indexed_edges d v dir)(e := None) else indexed_edges d v' dir')"
  "cached_edges (db_del TABLE_EDGE_INDEX k d) v' dir' = cached_edges d v' dir'"
  "state_of (db_del TABLE_EDGE_INDEX k d) v' dir' = state_of d v' dir'"
  by (auto simp: indexed_edges_def cached_edges_def state_of_def db_apply fun_eq_iff)

lemma put_cache_reads:
  assumes "one_dir dir" and "one_dir dir'"
  shows "indexed_edges (db_put TABLE_VERTEX_DATA k b d) v' dir' = indexed_edges d v' dir'"
    "cached_edges (db_put TABLE_VERTEX_DATA (encodeVertexDataAdjEdgeKey (ref_key v dir e)) b d) v' dir' =
       (if v' = v \<and> dir' = dir then (cached_edges d v dir)(e \<mapsto> b) else cached_edges d v' dir')"
    "state_of (db_put TABLE_VERTEX_DATA (encodeVertexDataAdjEdgeKey (ref_key v dir e)) b d) v' dir' = state_of d v' dir'"
    "cached_edges (db_put TABLE_VERTEX_DATA (encodeVertexDataAdjStateKey v dir) b d) v' dir' = cached_edges d v' dir'"
    "state_of (db_put TABLE_VERTEX_DATA (encodeVertexDataAdjStateKey v dir) (encodeAdjacencyState st c) d) v' dir' =
       (if v' = v \<and> dir' = dir then Some (st, c) else state_of d v' dir')"
  using assms by (auto simp: indexed_edges_def cached_edges_def state_of_def db_apply fun_eq_iff)

lemma del_cache_reads:
  assumes "one_dir dir" and "one_dir dir'"
  shows "indexed_edges (db_del TABLE_VERTEX_DATA k d) v' dir' = indexed_edges d v' dir'"
    "cached_edges (db_del TABLE_VERTEX_DATA (encodeVertexDataAdjEdgeKey (ref_key v dir e)) d) v' dir' =
       (if v' = v \<and> dir' = dir then (cached_edges d v dir)(e := None) else cached_edges d v' dir')"
    "state_of (db_del TABLE_VERTEX_DATA (encodeVertexDataAdjEdgeKey (ref_key v dir e)) d) v' dir' = state_of d v' dir'"
  using assms by (auto simp: indexed_edges_def cached_edges_def state_of_def db_apply fun_eq_iff)

lemmas adj_reads = put_index_reads del_index_reads put_cache_reads del_cache_reads

section \<open>Effect on the adjacency map\<close>

lemma insert_adj_adjacency:
  assumes fin: "finite (dom (d TABLE_VERTEX_DATA))" and inv: "adj_inv cap d" and dir: "one_dir dir" "one_dir dir'"
  shows "adjacency cap (insert_adj_db cap v dir e eid d) v' dir' =
    (if v' = v \<and> dir' = dir then (adjacency cap d v dir)(e \<mapsto> vc_encodeU64 eid) else adjacency cap d v' dir')"
proof -
  have wf: "wf_vertex_tables d" and excl: "uses_cache cap d v dir \<Longrightarrow> indexed_edges d v dir = Map.empty"
    and st: "\<And>st c. state_of d v dir = Some (st, c) \<Longrightarrow> st = ADJ_COMPLETE \<or> st = ADJ_OVERFLOW"
    using inv dir(1) unfolding adj_inv_def by blast+
  note pr = promote_db_reads [OF fin wf dir(1)]
  consider "cap = 0 \<or> state_of d v dir = None \<or> (\<exists>c. state_of d v dir = Some (ADJ_OVERFLOW, c))"
    | c where "cap > 0" "state_of d v dir = Some (ADJ_COMPLETE, c)" "c \<ge> cap"
    | c where "cap > 0" "state_of d v dir = Some (ADJ_COMPLETE, c)" "\<not> c \<ge> cap"
    using st by (cases "state_of d v dir") (auto simp: word_greater_zero_iff, blast)
  then show ?thesis
  proof cases
    case 1
    then have "insert_adj_db cap v dir e eid d = db_put TABLE_EDGE_INDEX (encodeEdgeIndexKey (ref_key v dir e)) (vc_encodeU64 eid) d"
      "\<not> uses_cache cap d v dir"
      by (auto simp: insert_adj_db_def uses_cache_def Let_def)
    then show ?thesis by (auto simp: adjacency_def uses_cache_def put_index_reads)
  next
    case 2
    then have used: "uses_cache cap d v dir" by (auto simp: uses_cache_def)
    have "indexed_edges (promote_db v dir d) v dir = cached_edges d v dir"
      using excl [OF used] by (auto simp: pr fun_eq_iff split: option.splits)
    moreover have "cached_edges (promote_db v dir d) v' dir' = cached_edges d v' dir'"
      "indexed_edges (promote_db v dir d) v' dir' = indexed_edges d v' dir'"
      if "\<not> (v' = v \<and> dir' = dir)" using that dir by (auto simp: pr fun_eq_iff)
    ultimately show ?thesis
      using 2 used dir by (auto simp: insert_adj_db_def Let_def adjacency_def uses_cache_def put_index_reads pr)
  next
    case 3
    then show ?thesis using dir by (auto simp: insert_adj_db_def Let_def adjacency_def uses_cache_def adj_reads)
  qed
qed

lemma delete_adj_adjacency:
  assumes inv: "adj_inv cap d" and dir: "one_dir dir" "one_dir dir'"
  shows "adjacency cap (delete_adj_db cap v dir e d) v' dir' =
    (if v' = v \<and> dir' = dir then (adjacency cap d v dir)(e := None) else adjacency cap d v' dir')"
proof (cases "uses_cache cap d v dir")
  case True
  then show ?thesis
    using dir by (auto simp: delete_adj_db_def Let_def adjacency_def uses_cache_def adj_reads)
next
  case False
  then have "delete_adj_db cap v dir e d = db_del TABLE_EDGE_INDEX (encodeEdgeIndexKey (ref_key v dir e)) d"
    by (auto simp: delete_adj_db_def Let_def uses_cache_def word_greater_zero_iff split: option.splits)
  with False show ?thesis by (auto simp: adjacency_def uses_cache_def del_index_reads)
qed

section \<open>The invariant is kept\<close>

lemma dom_index_put: "dom (d TABLE_EDGE_INDEX) \<subseteq> range encodeEdgeIndexKey \<Longrightarrow>
    dom (db_put TABLE_EDGE_INDEX (encodeEdgeIndexKey k) b d TABLE_EDGE_INDEX) \<subseteq> range encodeEdgeIndexKey"
  by (auto simp: db_put_def split: if_splits)

lemma dom_index_same: "t \<noteq> TABLE_EDGE_INDEX \<Longrightarrow> db_put t k b d TABLE_EDGE_INDEX = d TABLE_EDGE_INDEX"
  "t \<noteq> TABLE_EDGE_INDEX \<Longrightarrow> db_del t k d TABLE_EDGE_INDEX = d TABLE_EDGE_INDEX"
  "dom (d TABLE_EDGE_INDEX) \<subseteq> S \<Longrightarrow> dom (db_del TABLE_EDGE_INDEX k d TABLE_EDGE_INDEX) \<subseteq> S"
  by (auto simp: db_put_def db_del_def)

lemma wf_put_adj:
  "wf_vertex_tables d \<Longrightarrow> one_dir dir \<Longrightarrow> wf_vertex_tables (db_put TABLE_VERTEX_DATA (encodeVertexDataAdjEdgeKey (ref_key v dir e)) b d)"
  "wf_vertex_tables d \<Longrightarrow> wf_vertex_tables (db_put TABLE_VERTEX_DATA (encodeVertexDataAdjStateKey v dir) b d)"
  by (rule wf_put; auto simp: vertex_data_key_def one_dir_def)+

lemma adj_inv_insert:
  assumes fin: "finite (dom (d TABLE_VERTEX_DATA))" and inv: "adj_inv cap d" and dir: "one_dir dir"
  shows "adj_inv cap (insert_adj_db cap v dir e eid d)"
proof -
  have wf: "wf_vertex_tables d" and dom: "dom (d TABLE_EDGE_INDEX) \<subseteq> range encodeEdgeIndexKey"
    and st: "\<And>v dir st c. one_dir dir \<Longrightarrow> state_of d v dir = Some (st, c) \<Longrightarrow> st = ADJ_COMPLETE \<or> st = ADJ_OVERFLOW"
    and excl: "\<And>v dir. one_dir dir \<Longrightarrow> uses_cache cap d v dir \<Longrightarrow> indexed_edges d v dir = Map.empty"
    using inv unfolding adj_inv_def by blast+
  note pr = promote_db_reads [OF fin wf dir]
  note dp = dom_index_promote [OF fin wf dir dom]
  let ?d' = "insert_adj_db cap v dir e eid d"
  have "wf_vertex_tables ?d'"
    using wf dir by (auto simp: insert_adj_db_def Let_def split: option.splits
        intro!: wf_put_index wf_promote wf_put_adj)
  moreover have "dom (?d' TABLE_EDGE_INDEX) \<subseteq> range encodeEdgeIndexKey"
    using dom_index_put [where d = d, OF dom] dom_index_put [where d = "promote_db v dir d", OF dp] dom
    by (auto simp: insert_adj_db_def Let_def dom_index_same split: option.splits)
  moreover have "st = ADJ_COMPLETE \<or> st = ADJ_OVERFLOW" if "one_dir dir'" "state_of ?d' v' dir' = Some (st, c)" for v' dir' st c
    using that st [of dir' v'] dir
    by (auto simp: insert_adj_db_def Let_def adj_reads pr split: option.splits if_splits)
  moreover have "indexed_edges ?d' v' dir' = Map.empty" if "one_dir dir'" "uses_cache cap ?d' v' dir'" for v' dir'
    using that excl [of dir' v'] st [of dir v] dir
    by (auto simp: insert_adj_db_def Let_def adj_reads pr uses_cache_def fun_eq_iff split: option.splits if_splits)
  ultimately show ?thesis unfolding adj_inv_def by blast
qed

lemma adj_inv_delete:
  assumes inv: "adj_inv cap d" and dir: "one_dir dir"
  shows "adj_inv cap (delete_adj_db cap v dir e d)"
proof -
  have wf: "wf_vertex_tables d" and dom: "dom (d TABLE_EDGE_INDEX) \<subseteq> range encodeEdgeIndexKey"
    and st: "\<And>v dir st c. one_dir dir \<Longrightarrow> state_of d v dir = Some (st, c) \<Longrightarrow> st = ADJ_COMPLETE \<or> st = ADJ_OVERFLOW"
    and excl: "\<And>v dir. one_dir dir \<Longrightarrow> uses_cache cap d v dir \<Longrightarrow> indexed_edges d v dir = Map.empty"
    using inv unfolding adj_inv_def by blast+
  let ?d' = "delete_adj_db cap v dir e d"
  have "wf_vertex_tables ?d'"
    using wf by (auto simp: delete_adj_db_def Let_def split: option.splits intro!: wf_del wf_put_adj)
  moreover have "dom (?d' TABLE_EDGE_INDEX) \<subseteq> range encodeEdgeIndexKey"
    using dom by (simp add: delete_adj_db_def Let_def dom_index_same split: option.splits)
  moreover have "st = ADJ_COMPLETE \<or> st = ADJ_OVERFLOW" if "one_dir dir'" "state_of ?d' v' dir' = Some (st, c)" for v' dir' st c
    using that st [of dir' v'] dir
    by (auto simp: delete_adj_db_def Let_def adj_reads split: option.splits if_splits)
  moreover have "indexed_edges ?d' v' dir' = Map.empty" if "one_dir dir'" "uses_cache cap ?d' v' dir'" for v' dir'
    using that excl [of dir' v'] dir
    by (auto simp: delete_adj_db_def Let_def adj_reads uses_cache_def split: option.splits if_splits)
  ultimately show ?thesis unfolding adj_inv_def by blast
qed

end
