(* ===== verification/Edge_Scan.thy ===== *)
theory Edge_Scan
  imports Edge_Adjacency Vertex_Props
begin

text \<open>
  \<open>scanEdges\<close> visits the adjacency map in the order of edge label, neighbour and sequence number,
  whether the rows lie in the cache or in \<open>edge_index\<close>.
\<close>

section \<open>Adjacency as a sorted list of entries\<close>

definition matches :: "edge_label_id option \<Rightarrow> edge_ref \<Rightarrow> bool" where
  "matches lf e \<longleftrightarrow> lf = None \<or> lf = Some (fst e)"

definition entry_for :: "(edge_ref \<Rightarrow> bytes option) \<Rightarrow> edge_ref \<Rightarrow> edge_index_entry" where
  "entry_for m = (\<lambda>(l, n, q). \<lparr>ee_neighbor_id = n, ee_edge_label_id = l, ee_seq = q,
     ee_edge_id = (case vc_decodeU64 (the (m (l, n, q))) of Inr i \<Rightarrow> i | Inl _ \<Rightarrow> 0)\<rparr>)"

definition edge_list :: "(edge_ref \<Rightarrow> bytes option) \<Rightarrow> edge_label_id option \<Rightarrow> edge_index_entry list" where
  "edge_list m lf = map (entry_for m) (sorted_list_of_set {e \<in> dom m. matches lf e})"

text \<open>Every stored edge id has eight bytes.\<close>

definition ids_ok :: "(edge_ref \<Rightarrow> bytes option) \<Rightarrow> bool" where
  "ids_ok m \<longleftrightarrow> (\<forall>e b. m e = Some b \<longrightarrow> (\<exists>i. b = vc_encodeU64 i))"

lemma entry_of_ref:
  "ids_ok m \<Longrightarrow> m e = Some b \<Longrightarrow> entry_of (ref_key v dir e) b = Inr (entry_for m e)"
  unfolding ids_ok_def by (cases e) (fastforce simp: entry_of_def entry_for_def ref_key_def edge_key_def)

lemma label_ref [simp]: "ek_edge_label_id (ref_key v dir e) = fst e"
  by (cases e) (simp add: ref_key_def edge_key_def)

section \<open>Key order\<close>

lemma index_ref_less: "encodeEdgeIndexKey (ref_key v dir e) < encodeEdgeIndexKey (ref_key v dir e') \<longleftrightarrow> e < e'"
  by (auto simp: encodeEdgeIndexKey_def ref_key_def edge_key_def encodeU8_def prims_less split: prod.splits)

lemma adj_ref_less: "encodeVertexDataAdjEdgeKey (ref_key v dir e) < encodeVertexDataAdjEdgeKey (ref_key v dir e') \<longleftrightarrow> e < e'"
  by (auto simp: encodeVertexDataAdjEdgeKey_def ref_key_def edge_key_def encodeU8_def prims_less split: prod.splits)

lemma rows_of_refs:
  fixes key :: "edge_ref \<Rightarrow> bytes"
  assumes less: "\<And>e e'. key e < key e' \<longleftrightarrow> e < e'" and fin: "finite (dom m)" and rows: "{k \<in> dom m. prefix p k \<and> P k} = key ` A"
  shows "filter (\<lambda>(k, b). P k) (scan_rows m p) = map (\<lambda>e. (key e, the (m (key e)))) (sorted_list_of_set A)"
proof -
  have eq: "e = e'" if "key e = key e'" for e e'
    using less [of e e'] less [of e' e] that by (metis neq_iff order_less_irrefl)
  have "finite (key ` A)" unfolding rows [symmetric] using fin by simp
  then have "finite A" by (rule finite_imageD) (auto simp: inj_on_def eq)
  then have "sorted_list_of_set (key ` A) = map key (sorted_list_of_set A)"
    by (rule sorted_list_of_set_mono_image) (rule less)
  moreover have "filter P (scan_keys m p) = sorted_list_of_set {k \<in> dom m. prefix p k \<and> P k}"
    using fin by (intro sorted_distinct_set_unique) (auto simp: scan_keys_def intro: sorted_wrt_filter)
  ultimately show ?thesis
    by (simp add: scan_rows_def filter_map comp_def rows)
qed

section \<open>Folds that skip rows\<close>

lemma fold_rows_skip:
  assumes "\<And>k b a. (k, b) \<in> set rows \<Longrightarrow> \<not> P k \<Longrightarrow> g k b a = Inr (True, a)"
  shows "fold_rows g rows a = fold_rows g (filter (\<lambda>(k, b). P k) rows) a"
  using assms
proof (induction rows arbitrary: a)
  case (Cons r rows)
  obtain k b where r: "r = (k, b)" by fastforce
  have "fold_rows g rows = fold_rows g (filter (\<lambda>(k, b). P k) rows)"
    using Cons.prems by (intro ext Cons.IH) auto
  then show ?case using Cons.prems [of k b] by (auto simp: r rbind_def split: sum.splits)
qed simp

text \<open>A fold over the rows of a set of references is a visit of their entries.\<close>

lemma fold_rows_refs:
  assumes "\<And>e a. e \<in> set es \<Longrightarrow> g (key e) (val e) a = Inr (cb (ent e) a)"
  shows "fold_rows g (map (\<lambda>e. (key e, val e)) es) a = Inr (visit cb (map ent es) a)"
  using assms by (induction es arbitrary: a) (auto split: prod.splits)

lemma in_sorted_list_of_set: "x \<in> set (sorted_list_of_set A) \<Longrightarrow> x \<in> A"
  by (cases "finite A") auto

lemma cached_fold:
  assumes fin: "finite (dom (d TABLE_VERTEX_DATA))" and wf: "wf_vertex_tables d" and dir: "one_dir dir"
    and ids: "ids_ok (cached_edges d v dir)"
  shows "fold_rows (on_cached_edge lf cb) (scan_rows (d TABLE_VERTEX_DATA) (encodeVertexDataAdjPrefix v dir)) a =
    Inr (visit cb (edge_list (cached_edges d v dir) lf) a)"
proof -
  let ?m = "d TABLE_VERTEX_DATA" and ?p = "encodeVertexDataAdjPrefix v dir"
  let ?key = "\<lambda>e. encodeVertexDataAdjEdgeKey (ref_key v dir e)"
  let ?A = "{e \<in> dom (cached_edges d v dir). matches lf e}"
  let ?P = "\<lambda>k. \<exists>e. k = ?key e \<and> matches lf e"
  have rows: "{k \<in> dom ?m. prefix ?p k \<and> ?P k} = ?key ` ?A"
    using dir by (auto simp: cached_edges_def dom_def simp del: split_paired_Ex)
  have skip: "on_cached_edge lf cb k b a = Inr (True, a)"
    if "(k, b) \<in> set (scan_rows ?m ?p)" "\<not> ?P k" for k b a
  proof -
    from that(1) have "?m k = Some b" "prefix ?p k" by (auto simp: set_scan_rows [OF fin])
    from adj_rows [OF wf this dir] show ?thesis
      using that(2) dir decode_adj_ref [OF dir]
      by (auto simp: on_cached_edge_def matches_def simp del: split_paired_Ex)
  qed
  have "fold_rows (on_cached_edge lf cb) (scan_rows ?m ?p) a =
      fold_rows (on_cached_edge lf cb) (map (\<lambda>e. (?key e, the (?m (?key e)))) (sorted_list_of_set ?A)) a"
    unfolding rows_of_refs [where key = ?key and P = ?P, OF adj_ref_less fin rows, symmetric]
    by (rule fold_rows_skip [OF skip])
  also have "\<dots> = Inr (visit cb (map (entry_for (cached_edges d v dir)) (sorted_list_of_set ?A)) a)"
  proof (rule fold_rows_refs)
    fix e a assume "e \<in> set (sorted_list_of_set ?A)"
    then have "e \<in> ?A" by (rule in_sorted_list_of_set)
    then obtain b where b: "cached_edges d v dir e = Some b" "matches lf e" by auto
    then have "entry_of (ref_key v dir e) b = Inr (entry_for (cached_edges d v dir) e)"
      by (intro entry_of_ref [OF ids])
    with b dir show "on_cached_edge lf cb (?key e) (the (?m (?key e))) a = Inr (cb (entry_for (cached_edges d v dir) e) a)"
      by (auto simp: on_cached_edge_def decode_adj_ref cached_edges_def matches_def)
  qed
  finally show ?thesis by (simp add: edge_list_def)
qed

lemma index_fold:
  assumes fin: "finite (dom (d TABLE_EDGE_INDEX))" and dom: "dom (d TABLE_EDGE_INDEX) \<subseteq> range encodeEdgeIndexKey"
    and ids: "ids_ok (indexed_edges d v dir)"
  shows "fold_rows (on_index_edge cb) (scan_rows (d TABLE_EDGE_INDEX) (edge_index_prefix v dir lf)) a =
    Inr (visit cb (edge_list (indexed_edges d v dir) lf) a)"
proof -
  let ?m = "d TABLE_EDGE_INDEX" and ?p = "edge_index_prefix v dir lf"
  let ?key = "\<lambda>e. encodeEdgeIndexKey (ref_key v dir e)"
  let ?A = "{e \<in> dom (indexed_edges d v dir). matches lf e}"
  have pre: "prefix ?p (encodeEdgeIndexKey (ref_key u r e)) \<longleftrightarrow> u = v \<and> r = dir \<and> matches lf e" for u r e
    by (auto simp: edge_index_prefix_def matches_def split: option.splits)
  have "k \<in> ?key ` ?A" if "k \<in> dom ?m" "prefix ?p k" for k
  proof -
    from that(1) dom obtain x where "k = encodeEdgeIndexKey x" by auto
    moreover obtain e where "x = ref_key (ek_vertex_id x) (ek_direction x) e" using ref_key_ex by blast
    ultimately obtain u r where k: "k = encodeEdgeIndexKey (ref_key u r e)" by metis
    with that(2) pre have "u = v \<and> r = dir \<and> matches lf e" by simp
    with that(1) k show ?thesis by (auto simp: indexed_edges_def)
  qed
  then have rows: "{k \<in> dom ?m. prefix ?p k \<and> True} = ?key ` ?A"
    using pre by (auto simp: indexed_edges_def)
  have "fold_rows (on_index_edge cb) (scan_rows ?m ?p) a =
      fold_rows (on_index_edge cb) (map (\<lambda>e. (?key e, the (?m (?key e)))) (sorted_list_of_set ?A)) a"
    unfolding rows_of_refs [where key = ?key, OF index_ref_less fin rows, symmetric] by simp
  also have "\<dots> = Inr (visit cb (map (entry_for (indexed_edges d v dir)) (sorted_list_of_set ?A)) a)"
  proof (rule fold_rows_refs)
    fix e a assume "e \<in> set (sorted_list_of_set ?A)"
    then have "e \<in> ?A" by (rule in_sorted_list_of_set)
    then obtain b where b: "indexed_edges d v dir e = Some b" by auto
    then have "?m (?key e) = Some b" by (simp add: indexed_edges_def)
    then show "on_index_edge cb (?key e) (the (?m (?key e))) a = Inr (cb (entry_for (indexed_edges d v dir) e) a)"
      using entry_of_ref [OF ids b, of v dir] by (simp add: on_index_edge_def)
  qed
  finally show ?thesis by (simp add: edge_list_def)
qed

section \<open>The scans\<close>

context reliable_wiredtiger
begin

lemma does_with_session: "does view m d y d' \<Longrightarrow> does view (with_session x m) d y d'"
  unfolding with_session_def by (rule does_present) simp

lemma does_scanEdges_one:
  assumes inv: "adj_inv cap d" and dir: "one_dir dir" and ids: "ids_ok (adjacency cap d v dir)"
  shows "does view (scanEdges_one w cap v dir lf cb acc) d (Inr (visit cb (edge_list (adjacency cap d v dir) lf) acc)) d"
proof (rule does_finite)
  assume fin: "\<And>t. finite (dom (d t))"
  have wf: "wf_vertex_tables d" "dom (d TABLE_EDGE_INDEX) \<subseteq> range encodeEdgeIndexKey"
    using inv by (auto simp: adj_inv_def)
  let ?st = "if cap > 0 then state_of d v dir else None"
  have st: "does view (if cap > 0 then getAdjacencyState w v dir else ret None) d (Inr ?st) d"
    by (simp add: does_getAdjacencyState)
  have use: "uses_cache cap d v dir \<longleftrightarrow> ?st \<noteq> None \<and> fst (the ?st) = ADJ_COMPLETE"
    by (auto simp: uses_cache_def)
  show "does view (scanEdges_one w cap v dir lf cb acc) d (Inr (visit cb (edge_list (adjacency cap d v dir) lf) acc)) d"
    unfolding scanEdges_one_def
  proof (rule does_with_session, rule does_bindp [OF st], goal_cases)
    case 1
    show ?case
    proof (cases "uses_cache cap d v dir")
      case True
      then have "adjacency cap d v dir = cached_edges d v dir" by (simp add: adjacency_def)
      with True ids cached_fold [where d = d and v = v and dir = dir and cb = cb and lf = lf and a = acc, OF fin wf(1) dir] show ?thesis
        unfolding use [symmetric] by (simp add: does_scan_pure)
    next
      case False
      then have "adjacency cap d v dir = indexed_edges d v dir" by (simp add: adjacency_def)
      with False ids index_fold [where d = d and v = v and dir = dir and cb = cb and lf = lf and a = acc, OF fin wf(2)] show ?thesis
        unfolding use [symmetric] by (simp add: does_scan_pure)
    qed
  qed
qed

end

end
