(* ===== verification/Vertex_Theorems.thy ===== *)
theory Vertex_Theorems
  imports Vertex_Invariant
begin

text \<open>
  The properties of the vertex store, for every engine that meets the WiredTiger contract, with
  their instances on the engine in memory.
\<close>

section \<open>A database to run on\<close>

definition empty_mem :: mem_state where
  "empty_mem = \<lparr>mem_rows = [], mem_committed = [], mem_txn = False\<rparr>"

definition writing :: "mem_state graph_session" where
  "writing = snd (begin_write mem_engine (new_graph_session True empty_mem))"

lemma writing_present [simp]: "ws_present writing"
  by code_simp

lemma view_writing [simp]: "mem_view (ws_db writing) = (\<lambda>_ _. None)"
  by (simp add: writing_def begin_write_def gs_begin_def new_graph_session_def tc_defs tc_poisoned_def
      tc_init_def empty_mem_def mem_engine_def mem_view_def)

lemma clean_writing [simp]: "clean writing"
  by (simp add: clean_def writing_def begin_write_def gs_begin_def new_graph_session_def tc_defs tc_poisoned_def
      tc_init_def empty_mem_def mem_engine_def transaction_failed_def se_init_def)

lemma wf_empty [simp]: "wf_vertex_tables (\<lambda>_ _. None)" "labels_agree (\<lambda>_ _. None)"
  by (simp_all add: wf_vertex_tables_def labels_agree_def vertex_labels_def label_members_def)

section \<open>Writers\<close>

text \<open>
  C23. \<open>insertVertex\<close> returns true, and after it the vertex exists, carries the given labels in both
  label tables, and each property set by a group (the last one that sets it) reads back as its
  encoding; every other vertex, label and property is as before.
\<close>

theorem insertVertex_correct:
  assumes "wiredtiger w view committed in_txn" and "ws_present gs" and "short_props lps"
  shows "completes view committed in_txn (insertVertex w cap v lps) gs (\<lambda>r d'.
    let d = view (ws_db gs); new = fst ` set lps - {INVALID_LABEL_ID} in
    r = Inr True \<and>
    (\<forall>u. vertex_exists d' u \<longleftrightarrow> u = v \<or> vertex_exists d u) \<and>
    (\<forall>u. vertex_labels d' u = vertex_labels d u \<union> (if u = v then new else {})) \<and>
    (\<forall>l. label_members d' l = label_members d l \<union> (if l \<in> new then {v} else {})) \<and>
    (\<forall>u l i. vertex_prop d' u l i =
       (case (if u = v then group_prop lps l i else None) of
          Some x \<Rightarrow> Some (encode_value x) | None \<Rightarrow> vertex_prop d u l i)))"
  using assms
  by (intro completesI [OF wiredtiger.insert_parts(1) wiredtiger.insert_parts(2)])
    (simp_all add: insert_vertex_db_reads insert_vertex_db_prop Let_def)

theorem insertVertex_correct_witness:
  "completes mem_view mem_commit_view mem_txn (insertVertex mem_engine 4 7 [(1, [None, Some (PInt 5)])]) writing (\<lambda>r d'.
    r = Inr True \<and> vertex_exists d' 7 \<and> vertex_labels d' 7 = {1} \<and> label_members d' 1 = {7} \<and>
    vertex_prop d' 7 1 1 = Some (encode_value (PInt 5)))"
proof -
  have "short_props [(1, [None, Some (PInt 5)])]" by (simp add: short_props_def)
  from insertVertex_correct [OF mem.wiredtiger_axioms writing_present this, of 4 7]
  show ?thesis
    by (rule completes_mono)
      (simp add: Let_def vertex_labels_def vertex_prop_def label_members_def group_prop_def prop_items_def)
qed

text \<open>
  C24. \<open>deleteVertex\<close> leaves no trace of the vertex: it returns true, the existence, summary, label and
  property rows and every label forward row of the vertex are gone, and every other vertex keeps its
  existence, labels and properties.
\<close>

theorem deleteVertex_complete:
  assumes "wiredtiger w view committed in_txn" and "ws_present gs"
    and "wf_vertex_tables (view (ws_db gs))" and "labels_agree (view (ws_db gs))"
  shows "completes view committed in_txn (deleteVertex w v) gs (\<lambda>r d'.
    let d = view (ws_db gs) in
    r = Inr True \<and> \<not> vertex_exists d' v \<and> vertex_labels d' v = {} \<and> (\<forall>l. v \<notin> label_members d' l) \<and>
    (\<forall>k. prefix (encodeVertexDataVertexPrefix v) k \<longrightarrow> d' TABLE_VERTEX_DATA k = None) \<and>
    d' TABLE_VERTEX_SUMMARY (encodeVertexSummaryKey v) = None \<and>
    (\<forall>u. u \<noteq> v \<longrightarrow> vertex_exists d' u = vertex_exists d u \<and> vertex_labels d' u = vertex_labels d u \<and>
       (\<forall>l i. vertex_prop d' u l i = vertex_prop d u l i) \<and> (\<forall>l. u \<in> label_members d' l \<longleftrightarrow> u \<in> label_members d l)))"
proof (rule completesI [OF wiredtiger.safe_deleteVertex wiredtiger.runs_deleteVertex])
  let ?d = "view (ws_db gs)" let ?d' = "db_dels (vertex_rows v (vertex_labels ?d v)) ?d"
  note agree = agree_delete_vertex [OF assms(4)]
  have "\<not> vertex_exists ?d' v" "d' = ?d' \<Longrightarrow> d' TABLE_VERTEX_SUMMARY (encodeVertexSummaryKey v) = None" for d'
    by (simp_all add: vertex_exists_def db_dels_apply vertex_rows_def)
  moreover have "\<forall>k. prefix (encodeVertexDataVertexPrefix v) k \<longrightarrow> ?d' TABLE_VERTEX_DATA k = None"
    by (simp add: db_dels_apply vertex_rows_def)
  moreover have "vertex_exists ?d' u = vertex_exists ?d u \<and> vertex_prop ?d' u l i = vertex_prop ?d u l i" if "u \<noteq> v" for u l i
    using that by (auto simp: vertex_exists_def vertex_prop_def db_dels_apply vertex_rows_def)
  ultimately show "let d = view (ws_db gs) in
      Inr True = (Inr True :: cpp_error + bool) \<and> \<not> vertex_exists ?d' v \<and> vertex_labels ?d' v = {} \<and> (\<forall>l. v \<notin> label_members ?d' l) \<and>
      (\<forall>k. prefix (encodeVertexDataVertexPrefix v) k \<longrightarrow> ?d' TABLE_VERTEX_DATA k = None) \<and>
      ?d' TABLE_VERTEX_SUMMARY (encodeVertexSummaryKey v) = None \<and>
      (\<forall>u. u \<noteq> v \<longrightarrow> vertex_exists ?d' u = vertex_exists d u \<and> vertex_labels ?d' u = vertex_labels d u \<and>
         (\<forall>l i. vertex_prop ?d' u l i = vertex_prop d u l i) \<and> (\<forall>l. u \<in> label_members ?d' l \<longleftrightarrow> u \<in> label_members d l))"
    by (simp add: agree)
qed (use assms in auto)


theorem deleteVertex_complete_witness:
  "completes mem_view mem_commit_view mem_txn (deleteVertex mem_engine 7) writing (\<lambda>r d'.
     r = Inr True \<and> \<not> vertex_exists d' 7 \<and> vertex_labels d' 7 = {})"
proof -
  have "completes mem_view mem_commit_view mem_txn (deleteVertex mem_engine 7) writing (\<lambda>r d'.
     let d = mem_view (ws_db writing) in
     r = Inr True \<and> \<not> vertex_exists d' 7 \<and> vertex_labels d' 7 = {} \<and> (\<forall>l. 7 \<notin> label_members d' l) \<and>
     (\<forall>k. prefix (encodeVertexDataVertexPrefix 7) k \<longrightarrow> d' TABLE_VERTEX_DATA k = None) \<and>
     d' TABLE_VERTEX_SUMMARY (encodeVertexSummaryKey 7) = None \<and>
     (\<forall>u. u \<noteq> 7 \<longrightarrow> vertex_exists d' u = vertex_exists d u \<and> vertex_labels d' u = vertex_labels d u \<and>
        (\<forall>l i. vertex_prop d' u l i = vertex_prop d u l i) \<and> (\<forall>l. u \<in> label_members d' l \<longleftrightarrow> u \<in> label_members d l)))"
    by (rule deleteVertex_complete [OF mem.wiredtiger_axioms]) simp_all
  then show ?thesis by (rule completes_mono) (simp add: Let_def)
qed

section \<open>Transactions of vertex operations\<close>

text \<open>\<^verbatim>\<open>begin_write\<close>, the operations, \<^verbatim>\<open>commit\<close>; a caller that ignores the operations' results.\<close>

definition vertex_transaction :: "'s wt_engine \<Rightarrow> 32 word \<Rightarrow> vertex_op list \<Rightarrow> 's graph_session \<Rightarrow>
    (txn_outcome \<times> 's graph_session) option" where
  "vertex_transaction w cap ops gs =
     map_option (\<lambda>(r, gs2). commit w gs2) (each_p (exec_vertex_op w cap) ops (snd (begin_write w gs)))"

text \<open>
  C1. A write transaction of any sequence of vertex operations always ends, and the database then holds
  either the effect of all of them in order or none of them, whatever calls failed on the way; in both
  cases the keys stay well formed and the two label tables keep agreeing.
\<close>

theorem vertex_transaction_atomic:
  assumes wt: "wiredtiger w view committed in_txn" and linked: "linked in_txn gs" and inv: "gs_inv gs"
    and start: "fst (begin_write w gs)" and ops: "list_all short_op ops"
    and wf: "wf_vertex_tables (committed (ws_db gs))" "labels_agree (committed (ws_db gs))"
  shows "\<exists>out gs'. vertex_transaction w cap ops gs = Some (out, gs') \<and>
    (let d = committed (ws_db gs); d' = committed (ws_db gs') in
      d' = (if oc_committed out then fold (apply_vertex_op cap) ops d else d) \<and>
      wf_vertex_tables d' \<and> labels_agree d')"
proof -
  obtain gs1 where b: "begin_write w gs = (True, gs1)" using start by (cases "begin_write w gs") auto
  have 1: "linked in_txn gs1" "committed (ws_db gs1) = committed (ws_db gs)" "tc_open (gs_txn gs1)"
    "view (ws_db gs1) = committed (ws_db gs)"
    using wiredtiger.begin_linked [OF wt b [unfolded begin_write_def] linked inv] by auto
  note runs = wiredtiger.runs_ops [OF wt ops wf(1), of cap]
  from wiredtiger.safe_ops [OF wt ops, of cap] obtain r gs2
    where 2: "each_p (exec_vertex_op w cap) ops gs1 = Some (r, gs2)" "frame committed in_txn gs1 gs2"
    unfolding safe_prog_def by blast
  have lk: "linked in_txn gs2" using frame_linked [OF 2(2) 1(1)] .
  have same: "committed (ws_db gs2) = committed (ws_db gs)" using 1 2(2) by (auto simp: frame_def linked_def)
  have "view (ws_db gs2) = fold (apply_vertex_op cap) ops (committed (ws_db gs))" if "\<not> transaction_failed gs2"
    using runs 1(1,4) 2(1) that unfolding runs_def linked_def by auto
  with wiredtiger.commit_effect [OF wt _ lk, of "fst (commit w gs2)" "snd (commit w gs2)"] same
  have "committed (ws_db (snd (commit w gs2))) = (if oc_committed (fst (commit w gs2))
      then fold (apply_vertex_op cap) ops (committed (ws_db gs)) else committed (ws_db gs))"
    by (auto split: if_splits)
  with b 2(1) wiredtiger.ops_invariant [OF wt wf, of cap ops] wf show ?thesis
    by (cases "commit w gs2") (simp add: vertex_transaction_def Let_def)
qed

theorem vertex_transaction_atomic_witness:
  "\<exists>out gs'. vertex_transaction mem_engine 0 [Insert_Vertex 7 [(1, [Some (PBool True)])], Delete_Vertex 7]
      (new_graph_session True empty_mem) = Some (out, gs') \<and>
    (let d = (\<lambda>_ _. None); d' = mem_commit_view (ws_db gs') in
      d' = (if oc_committed out then fold (apply_vertex_op 0) [Insert_Vertex 7 [(1, [Some (PBool True)])], Delete_Vertex 7] d else d) \<and>
      wf_vertex_tables d' \<and> labels_agree d')"
proof -
  let ?gs = "new_graph_session True empty_mem"
  have e: "mem_commit_view (ws_db ?gs) = (\<lambda>_ _. None)"
    by (simp add: new_graph_session_def empty_mem_def mem_commit_view_def)
  have "linked mem_txn ?gs" "fst (begin_write mem_engine ?gs)" by code_simp+
  with vertex_transaction_atomic [OF mem.wiredtiger_axioms, of ?gs
      "[Insert_Vertex 7 [(1, [Some (PBool True)])], Delete_Vertex 7]" 0]
  show ?thesis by (simp add: e short_props_def)
qed

text \<open>
  C5. On a reliable engine a sequence of vertex operations inside a transaction runs to its end, records
  no failure and leaves exactly the tables of the abstract operations applied in order.
\<close>

theorem vertex_operations_succeed:
  assumes "reliable_wiredtiger w view committed in_txn" and "clean gs"
    and "list_all short_op ops" and "wf_vertex_tables (view (ws_db gs))"
  shows "\<exists>gs'. each_p (exec_vertex_op w cap) ops gs = Some (Inr (), gs') \<and> clean gs' \<and>
    view (ws_db gs') = fold (apply_vertex_op cap) ops (view (ws_db gs))"
proof -
  have wt: "wiredtiger w view committed in_txn" using assms(1) by (rule reliable_wiredtiger.axioms(1))
  from runs_reliably [OF wiredtiger.safe_ops [OF wt assms(3)] wiredtiger.runs_ops [OF wt assms(3,4)]
      reliable_wiredtiger.quiet_ops [OF assms(1,3)] assms(2)]
  show ?thesis by blast
qed

theorem vertex_operations_succeed_witness:
  "\<exists>gs'. each_p (exec_vertex_op mem_engine 4) [Insert_Vertex 7 [(1, [Some (PBool True)])], Remove_Label 7 1] writing =
      Some (Inr (), gs') \<and> clean gs' \<and>
    mem_view (ws_db gs') = fold (apply_vertex_op 4) [Insert_Vertex 7 [(1, [Some (PBool True)])], Remove_Label 7 1] (\<lambda>_ _. None)"
proof -
  from vertex_operations_succeed [OF mem.reliable_wiredtiger_axioms clean_writing,
      of "[Insert_Vertex 7 [(1, [Some (PBool True)])], Remove_Label 7 1]" 4]
  show ?thesis by (simp add: short_props_def)
qed

section \<open>Reading back\<close>

text \<open>
  A property written by \<open>putVertexProperty\<close> reads back as the same value through
  \<open>getVertexProperty\<close> in the same transaction, for every value that fits the stored format.
\<close>

theorem property_put_get:
  assumes "wiredtiger w view committed in_txn" and "ws_present gs" and "value_fits x"
  shows "completes view committed in_txn
    (seqp (putVertexProperty w v l i x) (getVertexProperty w v l i)) gs (\<lambda>r d'. r = Inr (Some x))"
proof (rule completesI)
  let ?d = "drop_summary v (db_put TABLE_VERTEX_DATA (encodeVertexDataPropKey v l i) (encode_value x) (view (ws_db gs)))"
  note sf = wiredtiger.safe_putVertexProperty [OF assms(1)] wiredtiger.safe_getVertexProperty [OF assms(1)]
  show "safe_prog committed in_txn (seqp (putVertexProperty w v l i x) (getVertexProperty w v l i))"
    by (intro safe_seqp sf)
  have "vertex_prop ?d v l i = Some (encode_value x)" by (simp add: vertex_prop_def db_apply)
  then have "runs view (getVertexProperty w v l i) ?d (Inr (Some x)) ?d"
    using wiredtiger.runs_getVertexProperty [OF assms(1), of v l i ?d] value_codec.dec_enc [OF assms(3)] by simp
  then show "runs view (seqp (putVertexProperty w v l i x) (getVertexProperty w v l i)) (view (ws_db gs))
      (Inr (Some x)) ?d"
    by (rule runs_seqp [OF wiredtiger.runs_putVertexProperty [OF assms(1)] _ sf])
qed (use assms in auto)

theorem property_put_get_witness:
  "completes mem_view mem_commit_view mem_txn
    (seqp (putVertexProperty mem_engine 7 1 2 (PInt 5)) (getVertexProperty mem_engine 7 1 2)) writing
    (\<lambda>r d'. r = Inr (Some (PInt 5)))"
  by (rule property_put_get [OF mem.wiredtiger_axioms]) simp_all

text \<open>
  C25. \<open>scanVerticesByLabel\<close> hands its callback exactly the vertices of the label, each once, in increasing
  id order, until the callback stops it, and changes nothing.
\<close>

theorem label_scan_exact:
  assumes "wiredtiger w view committed in_txn" and "ws_present gs" and "wf_vertex_tables (view (ws_db gs))"
  shows "completes view committed in_txn (scanVerticesByLabel w l cb acc) gs (\<lambda>r d'.
    d' = view (ws_db gs) \<and> r = Inr (visit cb (sorted_list_of_set (label_members (view (ws_db gs)) l)) acc))"
  using assms
  by (intro completesI [OF wiredtiger.safe_scanVerticesByLabel wiredtiger.runs_scanVerticesByLabel]) simp_all

theorem label_scan_exact_witness:
  "completes mem_view mem_commit_view mem_txn (scanVerticesByLabel mem_engine 1 (\<lambda>v vs. (True, vs @ [v])) []) writing
    (\<lambda>r d'. d' = (\<lambda>_ _. None) \<and> r = Inr [])"
proof -
  have "completes mem_view mem_commit_view mem_txn (scanVerticesByLabel mem_engine 1 (\<lambda>v vs. (True, vs @ [v])) []) writing
    (\<lambda>r d'. d' = mem_view (ws_db writing) \<and>
      r = Inr (visit (\<lambda>v vs. (True, vs @ [v])) (sorted_list_of_set (label_members (mem_view (ws_db writing)) 1)) []))"
    by (rule label_scan_exact [OF mem.wiredtiger_axioms]) simp_all
  then show ?thesis by (rule completes_mono) (simp add: label_members_def)
qed

section \<open>The 16-bit property counter\<close>

lemma u16_all_succeeds_short:
  fixes f :: "16 word \<Rightarrow> ('st, bool) prog"
  assumes run: "u16_all f n i s = Some y" and s: "good s"
    and ok: "\<And>i s. good s \<Longrightarrow> \<exists>s'. f i s = Some (Inr True, s') \<and> good s'"
  shows "n < 2 ^ 16"
proof -
  let ?P = "\<lambda>(g :: 16 word \<Rightarrow> ('st, bool) prog) n (i :: 16 word) s (y :: (cpp_error + bool) \<times> 'st).
    g = f \<longrightarrow> good s \<longrightarrow> n < 2 ^ 16"
  have "?P f n i s y"
    apply (rule u16_all.raw_induct [where P = ?P, OF _ run])
    subgoal premises prems for rec g n i s y
    proof (intro impI)
      assume g: "g = f" "good s"
      from ok [OF g(2), of i] obtain s1 where s1: "f i s = Some (Inr True, s1)" "good s1" by blast
      have "unat i < 2 ^ LENGTH(16)" by (rule unsigned_less)
      then show "n < 2 ^ 16"
        using prems(2) prems(1) [of f n "i + 1" s1 y] s1 g
        by (cases "unat i < n") auto
    qed
    done
  with s show ?thesis by simp
qed

text \<open>
  C31. The loops over a property vector count with a 16-bit index: given 65536 slots or more,
  \<open>putVertexProperties\<close> on a working engine never returns.
\<close>

theorem long_property_vector_hangs:
  assumes rel: "reliable_wiredtiger w view committed in_txn" and gs: "clean gs" and len: "2 ^ 16 \<le> length props"
  shows "putVertexProperties w v l props gs = None"
proof -
  have wt: "wiredtiger w view committed in_txn" using rel by (rule reliable_wiredtiger.axioms(1))
  let ?f = "\<lambda>i. case props ! unat i of
      Some x \<Rightarrow> table_put w TABLE_VERTEX_DATA (encodeVertexDataPropKey v l i) (encode_value x) | None \<Rightarrow> ret True"
  have "\<exists>s'. ?f i s = Some (Inr True, s') \<and> clean s'" if "clean s" for i s
  proof (cases "props ! unat i")
    case (Some x)
    with runs_reliably [OF wiredtiger.safe_table_put [OF wt] wiredtiger.runs_table_put [OF wt]
        reliable_wiredtiger.quiet_table_put [OF rel] that] show ?thesis by fastforce
  qed (use that in \<open>simp add: ret_def\<close>)
  then have "u16_all ?f (length props) 0 gs = None"
    using u16_all_succeeds_short [of ?f "length props" 0 gs _ clean] gs len by (cases "u16_all ?f (length props) 0 gs") auto
  with gs show ?thesis
    by (simp add: putVertexProperties_def with_session_def put_prop_rows_def guard_then_def bindp_def getp_def clean_def)
qed

theorem long_property_vector_hangs_witness:
  "putVertexProperties mem_engine 7 1 (replicate (2 ^ 16) (Some (PBool True))) writing = None"
  by (rule long_property_vector_hangs [OF mem.reliable_wiredtiger_axioms clean_writing]) simp

end
