(* ===== verification/Edge_Theorems.thy ===== *)
theory Edge_Theorems
  imports Edge_Scan Vertex_Theorems
begin

text \<open>
  The properties of the edge store.  An edge is recorded three times: in the OUT adjacency of its
  source, in the IN adjacency of its target and in the edge type table of its label.
\<close>

section \<open>Operations on the tables\<close>

definition insert_edge_db :: "32 word \<Rightarrow> edge_id \<Rightarrow> vertex_id \<Rightarrow> vertex_id \<Rightarrow> edge_label_id \<Rightarrow> 64 word \<Rightarrow> properties \<Rightarrow> db \<Rightarrow> db" where
  "insert_edge_db cap eid s t l q props d =
     insert_adj_db cap t DIR_IN (l, s, q) eid (insert_adj_db cap s DIR_OUT (l, t, q) eid
       (put_props_db (epropTable l) (encodeEPropKey eid) (prop_items props)
         (db_put (etypeTable l) (type_key s t q) (vc_encodeU64 eid) d)))"

definition delete_edge_db :: "32 word \<Rightarrow> edge_id \<Rightarrow> edge_label_id \<Rightarrow> vertex_id \<Rightarrow> vertex_id \<Rightarrow> 64 word \<Rightarrow> db \<Rightarrow> db" where
  "delete_edge_db cap eid l s t q d =
     db_dels ({epropTable l} \<times> {k. prefix (encodeEPropPrefix eid) k})
       (db_del (etypeTable l) (type_key s t q)
         (delete_adj_db cap t DIR_IN (l, s, q) (delete_adj_db cap s DIR_OUT (l, t, q) d)))"

definition type_row :: "db \<Rightarrow> edge_label_id \<Rightarrow> vertex_id \<Rightarrow> vertex_id \<Rightarrow> 64 word \<Rightarrow> bytes option" where
  "type_row d l s t q = d (etypeTable l) (type_key s t q)"

text \<open>The three records of every edge agree.\<close>

definition edges_agree :: "32 word \<Rightarrow> db \<Rightarrow> bool" where
  "edges_agree cap d \<longleftrightarrow> (\<forall>s t l q.
     adjacency cap d s DIR_OUT (l, t, q) = type_row d l s t q \<and>
     adjacency cap d t DIR_IN (l, s, q) = type_row d l s t q)"

lemma one_dirs [simp]: "one_dir DIR_OUT" "one_dir DIR_IN"
  by (simp_all add: one_dir_def)

lemma type_key_eq [simp]: "type_key s t q = type_key s' t' q' \<longleftrightarrow> s = s' \<and> t = t' \<and> q = q'"
  by (auto simp: type_key_def)

section \<open>Tables that the adjacency does not read\<close>

definition edge_free :: "string \<Rightarrow> bool" where
  "edge_free tab \<longleftrightarrow> tab \<noteq> TABLE_VERTEX_DATA \<and> tab \<noteq> TABLE_EDGE_INDEX \<and> tab \<noteq> TABLE_VERTEX_EXISTENCE \<and>
     (\<forall>l. tab \<noteq> labelFwdTable l)"

lemma edge_free_tables [simp]: "edge_free (etypeTable l)" "edge_free (epropTable l)"
  by (auto simp: edge_free_def)

lemma same_adjacency:
  assumes "d' TABLE_VERTEX_DATA = d TABLE_VERTEX_DATA" and "d' TABLE_EDGE_INDEX = d TABLE_EDGE_INDEX"
  shows "adjacency cap d' = adjacency cap d" "state_of d' = state_of d" "uses_cache cap d' = uses_cache cap d"
    "indexed_edges d' = indexed_edges d" "cached_edges d' = cached_edges d"
  using assms by (auto simp: fun_eq_iff adjacency_def uses_cache_def state_of_def indexed_edges_def cached_edges_def)

lemma same_adj_inv:
  assumes "\<And>tab. \<not> edge_free tab \<Longrightarrow> d' tab = d tab"
  shows "adj_inv cap d' = adj_inv cap d"
proof -
  have t: "d' TABLE_VERTEX_DATA = d TABLE_VERTEX_DATA" "d' TABLE_EDGE_INDEX = d TABLE_EDGE_INDEX"
    "d' TABLE_VERTEX_EXISTENCE = d TABLE_VERTEX_EXISTENCE" "d' (labelFwdTable l) = d (labelFwdTable l)" for l
    using assms by (auto simp: edge_free_def)
  show ?thesis
    unfolding adj_inv_def wf_vertex_tables_def t same_adjacency [OF t(1,2)] ..
qed

lemma put_props_free: "edge_free tab \<Longrightarrow> \<not> edge_free tab' \<Longrightarrow> put_props_db tab key items d tab' = d tab'"
  by (rule ext) (rule put_props_db_other, auto)

lemma put_free: "edge_free tab \<Longrightarrow> \<not> edge_free tab' \<Longrightarrow> db_put tab k b d tab' = d tab'"
  "edge_free tab \<Longrightarrow> \<not> edge_free tab' \<Longrightarrow> db_del tab k d tab' = d tab'"
  "edge_free tab \<Longrightarrow> \<not> edge_free tab' \<Longrightarrow> db_dels ({tab} \<times> S) d tab' = d tab'"
  by (auto simp: db_put_def db_del_def db_dels_def)

text \<open>The adjacency operations do not touch the type and property tables.\<close>

lemma insert_adj_other: "edge_free tab \<Longrightarrow> insert_adj_db cap v dir e eid d tab = d tab"
  by (rule ext) (auto simp: insert_adj_db_def promote_db_def Let_def edge_free_def db_apply fold_del_apply fold_put_map
      split: option.splits)

lemma delete_adj_other: "edge_free tab \<Longrightarrow> delete_adj_db cap v dir e d tab = d tab"
  by (rule ext) (auto simp: delete_adj_db_def Let_def edge_free_def db_apply split: option.splits)

section \<open>What the operations do\<close>

context reliable_wiredtiger
begin

lemma does_put_prop_rows:
  assumes "length props < 2 ^ 16"
  shows "does view (put_prop_rows (\<lambda>i. table_put w tab (key i)) props) d (Inr True) (put_props_db tab key (prop_items props) d)"
  by (rule doesI [OF safe_put_prop_rows [OF assms] quiet_put_prop_rows [OF assms quiet_table_put] runs_put_prop_rows [OF assms]])

lemma does_insertEdge:
  assumes wf: "wf_vertex_tables d" and len: "length props < 2 ^ 16"
  shows "does view (insertEdge w cap eid s t l q props) d (Inr True) (insert_edge_db cap eid s t l q props d)"
proof (rule does_finite)
  assume fin: "\<And>tab. finite (dom (d tab))"
  let ?d1 = "put_props_db (epropTable l) (encodeEPropKey eid) (prop_items props) (db_put (etypeTable l) (type_key s t q) (vc_encodeU64 eid) d)"
  have "?d1 tab = d tab" if "\<not> edge_free tab" for tab
    using that by (simp add: put_props_free put_free)
  then have same: "?d1 TABLE_VERTEX_DATA = d TABLE_VERTEX_DATA" "?d1 TABLE_VERTEX_EXISTENCE = d TABLE_VERTEX_EXISTENCE"
    "?d1 (labelFwdTable i) = d (labelFwdTable i)" for i
    by (auto simp: edge_free_def)
  have wf1: "wf_vertex_tables ?d1" using wf unfolding wf_vertex_tables_def same .
  have wf2: "wf_vertex_tables (insert_adj_db cap s DIR_OUT (l, t, q) eid ?d1)"
    using wf1 by (auto simp: insert_adj_db_def Let_def split: option.splits intro!: wf_put_index wf_promote wf_put_adj)
  show "does view (insertEdge w cap eid s t l q props) d (Inr True) (insert_edge_db cap eid s t l q props d)"
    unfolding insertEdge_def insert_edge_db_def
    by (rule does_with_session, rule does_guard [OF does_table_put], rule does_guard [OF does_put_prop_rows [OF len]],
        rule does_guard [OF does_insertAdjacencyEdge [OF wf1 one_dirs(1)]],
        rule does_guard [OF does_insertAdjacencyEdge [OF wf2 one_dirs(2)] does_ret])
qed

lemma does_deleteEdge:
  "does view (deleteEdge w cap eid l s t q) d (Inr True) (delete_edge_db cap eid l s t q d)"
proof (rule does_finite)
  assume fin: "\<And>tab. finite (dom (d tab))"
  let ?d1 = "db_del (etypeTable l) (type_key s t q) (delete_adj_db cap t DIR_IN (l, s, q) (delete_adj_db cap s DIR_OUT (l, t, q) d))"
  have "?d1 (epropTable l) = d (epropTable l)"
    by (simp add: delete_adj_other db_del_def)
  with fin have "finite (dom (?d1 (epropTable l)))" by simp
  from fold_del_scan [where d = ?d1, OF this] does_scan_del [of "epropTable l" "encodeEPropPrefix eid" "()" ?d1]
  have sc: "does view (table_scan w (epropTable l) (encodeEPropPrefix eid)
      (\<lambda>key value a. seqp (table_del w (epropTable l) key) (ret (True, a))) ()) ?d1 (Inr ()) (delete_edge_db cap eid l s t q d)"
    by (simp add: delete_edge_db_def)
  show "does view (deleteEdge w cap eid l s t q) d (Inr True) (delete_edge_db cap eid l s t q d)"
    unfolding deleteEdge_def
    by (rule does_with_session, rule does_guard [OF does_deleteAdjacencyEdge], rule does_guard [OF does_deleteAdjacencyEdge],
        rule does_seqp [OF does_table_del], rule does_seqp [OF sc does_ret])
qed

end

section \<open>The invariant through insertion and deletion\<close>

lemma finite_insert_adj:
  assumes "finite (dom (d TABLE_VERTEX_DATA))"
  shows "finite (dom (insert_adj_db cap v dir e eid d TABLE_VERTEX_DATA))"
proof (rule finite_subset)
  show "dom (insert_adj_db cap v dir e eid d TABLE_VERTEX_DATA) \<subseteq>
      dom (d TABLE_VERTEX_DATA) \<union> {encodeVertexDataAdjStateKey v dir, encodeVertexDataAdjEdgeKey (ref_key v dir e)}"
    by (auto simp: insert_adj_db_def promote_db_def Let_def db_apply fold_del_apply fold_put_map
        split: option.splits if_splits)
qed (use assms in simp)

lemma insert_edge_reads:
  assumes fin: "finite (dom (d TABLE_VERTEX_DATA))" and inv: "adj_inv cap d"
  shows "adj_inv cap (insert_edge_db cap eid s t l q props d)"
    and "one_dir dir \<Longrightarrow> adjacency cap (insert_edge_db cap eid s t l q props d) v dir =
      (if v = s \<and> dir = DIR_OUT then (adjacency cap d s dir)((l, t, q) \<mapsto> vc_encodeU64 eid)
       else if v = t \<and> dir = DIR_IN then (adjacency cap d t dir)((l, s, q) \<mapsto> vc_encodeU64 eid)
       else adjacency cap d v dir)"
    and "type_row (insert_edge_db cap eid s t l q props d) l' s' t' q' =
      (if l' = l \<and> s' = s \<and> t' = t \<and> q' = q then Some (vc_encodeU64 eid) else type_row d l' s' t' q')"
proof -
  define d1 where "d1 = put_props_db (epropTable l) (encodeEPropKey eid) (prop_items props)
    (db_put (etypeTable l) (type_key s t q) (vc_encodeU64 eid) d)"
  define d2 where "d2 = insert_adj_db cap s DIR_OUT (l, t, q) eid d1"
  have i: "insert_edge_db cap eid s t l q props d = insert_adj_db cap t DIR_IN (l, s, q) eid d2"
    by (simp add: insert_edge_db_def d1_def d2_def)
  have same: "d1 tab = d tab" if "\<not> edge_free tab" for tab
    using that by (simp add: d1_def put_props_free put_free)
  have "\<not> edge_free TABLE_VERTEX_DATA" "\<not> edge_free TABLE_EDGE_INDEX" by (simp_all add: edge_free_def)
  note adj1 = same_adjacency [OF same [OF this(1)] same [OF this(2)]] same [OF this(1)]
  have fin1: "finite (dom (d1 TABLE_VERTEX_DATA))" using fin adj1(6) by simp
  have fin2: "finite (dom (d2 TABLE_VERTEX_DATA))" unfolding d2_def using fin1 by (rule finite_insert_adj)
  have inv1: "adj_inv cap d1" using inv same_adj_inv [OF same] by simp
  have inv2: "adj_inv cap d2" unfolding d2_def by (rule adj_inv_insert [OF fin1 inv1 one_dirs(1)])
  show "adj_inv cap (insert_edge_db cap eid s t l q props d)"
    unfolding i by (rule adj_inv_insert [OF fin2 inv2 one_dirs(2)])
  show "one_dir dir \<Longrightarrow> adjacency cap (insert_edge_db cap eid s t l q props d) v dir =
      (if v = s \<and> dir = DIR_OUT then (adjacency cap d s dir)((l, t, q) \<mapsto> vc_encodeU64 eid)
       else if v = t \<and> dir = DIR_IN then (adjacency cap d t dir)((l, s, q) \<mapsto> vc_encodeU64 eid)
       else adjacency cap d v dir)"
    by (simp add: i insert_adj_adjacency [OF fin2 inv2]) (auto simp: d2_def insert_adj_adjacency [OF fin1 inv1] adj1)
  have "type_row (insert_edge_db cap eid s t l q props d) l' s' t' q' = type_row d1 l' s' t' q'"
    by (simp add: i d2_def type_row_def insert_adj_other)
  then show "type_row (insert_edge_db cap eid s t l q props d) l' s' t' q' =
      (if l' = l \<and> s' = s \<and> t' = t \<and> q' = q then Some (vc_encodeU64 eid) else type_row d l' s' t' q')"
    by (auto simp: type_row_def d1_def put_props_db_other db_apply)
qed

lemma delete_edge_reads:
  assumes inv: "adj_inv cap d"
  shows "adj_inv cap (delete_edge_db cap eid l s t q d)"
    and "one_dir dir \<Longrightarrow> adjacency cap (delete_edge_db cap eid l s t q d) v dir =
      (if v = s \<and> dir = DIR_OUT then (adjacency cap d s dir)((l, t, q) := None)
       else if v = t \<and> dir = DIR_IN then (adjacency cap d t dir)((l, s, q) := None)
       else adjacency cap d v dir)"
    and "type_row (delete_edge_db cap eid l s t q d) l' s' t' q' =
      (if l' = l \<and> s' = s \<and> t' = t \<and> q' = q then None else type_row d l' s' t' q')"
proof -
  define d1 where "d1 = delete_adj_db cap s DIR_OUT (l, t, q) d"
  define d2 where "d2 = delete_adj_db cap t DIR_IN (l, s, q) d1"
  let ?d' = "delete_edge_db cap eid l s t q d"
  have inv1: "adj_inv cap d1" unfolding d1_def by (rule adj_inv_delete [OF inv one_dirs(1)])
  have inv2: "adj_inv cap d2" unfolding d2_def by (rule adj_inv_delete [OF inv1 one_dirs(2)])
  have same: "?d' tab = d2 tab" if "\<not> edge_free tab" for tab
    using that by (simp add: delete_edge_db_def d1_def d2_def put_free)
  have "\<not> edge_free TABLE_VERTEX_DATA" "\<not> edge_free TABLE_EDGE_INDEX" by (simp_all add: edge_free_def)
  note adj = same_adjacency [OF same [OF this(1)] same [OF this(2)]]
  show "adj_inv cap ?d'" using inv2 same_adj_inv [OF same] by simp
  show "one_dir dir \<Longrightarrow> adjacency cap ?d' v dir =
      (if v = s \<and> dir = DIR_OUT then (adjacency cap d s dir)((l, t, q) := None)
       else if v = t \<and> dir = DIR_IN then (adjacency cap d t dir)((l, s, q) := None)
       else adjacency cap d v dir)"
    by (simp add: adj d2_def delete_adj_adjacency [OF inv1]) (auto simp: d1_def delete_adj_adjacency [OF inv])
  show "type_row ?d' l' s' t' q' = (if l' = l \<and> s' = s \<and> t' = t \<and> q' = q then None else type_row d l' s' t' q')"
    by (auto simp: type_row_def delete_edge_db_def db_dels_apply db_apply delete_adj_other)
qed

section \<open>Sequences of edge operations\<close>

datatype edge_op =
    Insert_Edge edge_id vertex_id vertex_id edge_label_id "64 word" properties
  | Delete_Edge edge_id edge_label_id vertex_id vertex_id "64 word"

fun exec_edge_op :: "'s wt_engine \<Rightarrow> 32 word \<Rightarrow> edge_op \<Rightarrow> ('s, bool) sprog" where
  "exec_edge_op w cap (Insert_Edge eid s t l q props) = insertEdge w cap eid s t l q props"
| "exec_edge_op w cap (Delete_Edge eid l s t q) = deleteEdge w cap eid l s t q"

type_synonym edge_map = "edge_label_id \<times> vertex_id \<times> vertex_id \<times> 64 word \<Rightarrow> bytes option"

definition all_edges :: "db \<Rightarrow> edge_map" where
  "all_edges d = (\<lambda>(l, s, t, q). type_row d l s t q)"

fun spec_edge_op :: "edge_op \<Rightarrow> edge_map \<Rightarrow> edge_map" where
  "spec_edge_op (Insert_Edge eid s t l q props) m = m((l, s, t, q) \<mapsto> vc_encodeU64 eid)"
| "spec_edge_op (Delete_Edge eid l s t q) m = m((l, s, t, q) := None)"

fun short_edge_op :: "edge_op \<Rightarrow> bool" where
  "short_edge_op (Insert_Edge eid s t l q props) \<longleftrightarrow> length props < 2 ^ 16"
| "short_edge_op (Delete_Edge eid l s t q) \<longleftrightarrow> True"

lemma agree_insert:
  assumes "finite (dom (d TABLE_VERTEX_DATA))" "adj_inv cap d" "edges_agree cap d"
  shows "edges_agree cap (insert_edge_db cap eid s t l q props d)"
  using assms(3) unfolding edges_agree_def
  by (simp add: insert_edge_reads [OF assms(1,2)])

lemma all_edges_insert:
  "finite (dom (d TABLE_VERTEX_DATA)) \<Longrightarrow> adj_inv cap d \<Longrightarrow>
   all_edges (insert_edge_db cap eid s t l q props d) = (all_edges d)((l, s, t, q) \<mapsto> vc_encodeU64 eid)"
  by (auto simp: all_edges_def fun_eq_iff insert_edge_reads)

lemma all_edges_delete:
  "adj_inv cap d \<Longrightarrow> all_edges (delete_edge_db cap eid l s t q d) = (all_edges d)((l, s, t, q) := None)"
  by (auto simp: all_edges_def fun_eq_iff delete_edge_reads)

lemma agree_delete:
  assumes "adj_inv cap d" "edges_agree cap d"
  shows "edges_agree cap (delete_edge_db cap eid l s t q d)"
  using assms(2) unfolding edges_agree_def
  by (simp add: delete_edge_reads [OF assms(1)])

context reliable_wiredtiger
begin

lemma edge_op_step:
  assumes gs: "clean gs" and inv: "adj_inv cap (view (ws_db gs))" "edges_agree cap (view (ws_db gs))" and op: "short_edge_op op"
  shows "\<exists>gs'. exec_edge_op w cap op gs = Some (Inr True, gs') \<and> clean gs' \<and> adj_inv cap (view (ws_db gs')) \<and>
    edges_agree cap (view (ws_db gs')) \<and> all_edges (view (ws_db gs')) = spec_edge_op op (all_edges (view (ws_db gs)))"
proof (cases op)
  case (Insert_Edge eid s t l q props)
  let ?d = "view (ws_db gs)"
  have wf: "wf_vertex_tables ?d" using inv by (simp add: adj_inv_def)
  have fin: "finite (dom (?d TABLE_VERTEX_DATA))" by (rule finite_view)
  from does_insertEdge [OF wf, of props cap eid s t l q] op Insert_Edge gs obtain gs'
    where "exec_edge_op w cap op gs = Some (Inr True, gs')" "clean gs'" "view (ws_db gs') = insert_edge_db cap eid s t l q props ?d"
    unfolding does_def by auto
  with insert_edge_reads(1) [OF fin inv(1)] agree_insert [OF fin inv] all_edges_insert [OF fin inv(1)] Insert_Edge
  show ?thesis by simp
next
  case (Delete_Edge eid l s t q)
  let ?d = "view (ws_db gs)"
  from does_deleteEdge [of cap eid l s t q ?d] Delete_Edge gs obtain gs'
    where "exec_edge_op w cap op gs = Some (Inr True, gs')" "clean gs'" "view (ws_db gs') = delete_edge_db cap eid l s t q ?d"
    unfolding does_def by auto
  with delete_edge_reads(1) [OF inv(1)] agree_delete [OF inv] all_edges_delete [OF inv(1)] Delete_Edge
  show ?thesis by simp
qed

lemma edge_ops_run:
  assumes "clean gs" and "adj_inv cap (view (ws_db gs))" and "edges_agree cap (view (ws_db gs))" and "list_all short_edge_op ops"
  shows "\<exists>gs'. each_p (exec_edge_op w cap) ops gs = Some (Inr (), gs') \<and> clean gs' \<and> adj_inv cap (view (ws_db gs')) \<and>
    edges_agree cap (view (ws_db gs')) \<and> all_edges (view (ws_db gs')) = fold spec_edge_op ops (all_edges (view (ws_db gs)))"
  using assms
proof (induction ops arbitrary: gs)
  case Nil
  then show ?case by (simp add: ret_def)
next
  case (Cons op ops)
  then have op: "short_edge_op op" "list_all short_edge_op ops" by auto
  from edge_op_step [OF Cons.prems(1-3) op(1)] obtain gs1 where 1: "exec_edge_op w cap op gs = Some (Inr True, gs1)"
    "clean gs1" "adj_inv cap (view (ws_db gs1))" "edges_agree cap (view (ws_db gs1))"
    "all_edges (view (ws_db gs1)) = spec_edge_op op (all_edges (view (ws_db gs)))"
    by blast
  from Cons.IH [OF 1(2-4) op(2)] 1 show ?case by (auto simp: seqp_def bindp_def)
qed

end

section \<open>Properties\<close>

lemma empty_edges [simp]: "adj_inv cap (\<lambda>_ _. None)" "edges_agree cap (\<lambda>_ _. None)"
  by (auto simp: adj_inv_def state_of_def indexed_edges_def edges_agree_def adjacency_def uses_cache_def type_row_def)

lemma adjacency_empty [simp]: "adjacency cap (\<lambda>_ _. None) v dir = Map.empty"
  by (auto simp: adjacency_def cached_edges_def indexed_edges_def)

text \<open>
  C2. Any sequence of edge insertions and deletions refines updates of one finite map of edges: on a
  reliable engine it runs to its end, the edge type tables hold exactly that map, and the OUT
  adjacency of every source and the IN adjacency of every target agree with it, for every cache
  capacity and across promotions from the cache to the edge index.
\<close>

theorem edge_operations_refine:
  assumes "reliable_wiredtiger w view committed in_txn" and "clean gs"
    and "adj_inv cap (view (ws_db gs))" and "edges_agree cap (view (ws_db gs))" and "list_all short_edge_op ops"
  shows "\<exists>gs'. each_p (exec_edge_op w cap) ops gs = Some (Inr (), gs') \<and>
    (let d = view (ws_db gs); d' = view (ws_db gs') in
     all_edges d' = fold spec_edge_op ops (all_edges d) \<and> edges_agree cap d' \<and> adj_inv cap d')"
  using reliable_wiredtiger.edge_ops_run [OF assms] by (auto simp: Let_def)

theorem edge_operations_refine_witness:
  "\<exists>gs'. each_p (exec_edge_op mem_engine 1) [Insert_Edge 10 1 2 3 0 [], Insert_Edge 11 1 4 3 0 [Some (PBool True)], Delete_Edge 10 3 1 2 0] writing =
      Some (Inr (), gs') \<and>
    (let d = mem_view (ws_db writing); d' = mem_view (ws_db gs') in
     all_edges d' = fold spec_edge_op [Insert_Edge 10 1 2 3 0 [], Insert_Edge 11 1 4 3 0 [Some (PBool True)], Delete_Edge 10 3 1 2 0] (all_edges d) \<and>
     edges_agree 1 d' \<and> adj_inv 1 d')"
  by (rule edge_operations_refine [OF mem.reliable_wiredtiger_axioms clean_writing]) simp_all

text \<open>
  C13. \<open>scanEdges\<close> in one direction hands its callback exactly the edges of the adjacency map that pass
  the label filter, each once, in the order of label, neighbour and sequence number, until the
  callback stops it; the tables do not change.
\<close>

theorem edge_scan_exact:
  assumes "reliable_wiredtiger w view committed in_txn" and "clean gs" and "one_dir dir"
    and "adj_inv cap (view (ws_db gs))" and "ids_ok (adjacency cap (view (ws_db gs)) v dir)"
  shows "\<exists>gs'. scanEdges w cap v dir lf cb acc gs =
      Some (Inr (visit cb (edge_list (adjacency cap (view (ws_db gs)) v dir) lf) acc), gs') \<and>
    view (ws_db gs') = view (ws_db gs)"
proof -
  have "dir \<noteq> DIR_BOTH" using assms(3) by (auto simp: one_dir_def)
  with reliable_wiredtiger.does_scanEdges_one [OF assms(1,4,3,5), of lf cb acc] assms(2) show ?thesis
    unfolding does_def by (auto simp: scanEdges_def)
qed

theorem edge_scan_exact_witness:
  "\<exists>gs'. scanEdges mem_engine 4 7 DIR_OUT (Some 3) (\<lambda>e es. (True, es @ [e])) [] writing =
      Some (Inr (visit (\<lambda>e es. (True, es @ [e])) (edge_list (adjacency 4 (mem_view (ws_db writing)) 7 DIR_OUT) (Some 3)) []), gs') \<and>
    mem_view (ws_db gs') = mem_view (ws_db writing)"
  by (rule edge_scan_exact [OF mem.reliable_wiredtiger_axioms clean_writing]) (simp_all add: ids_ok_def)

text \<open>
  A scan of both directions is the OUT scan followed by the IN scan, and a callback that stops the
  OUT half is called again for the IN edges: the request to stop does not end the scan.
\<close>

theorem both_scan_restarts:
  assumes "reliable_wiredtiger w view committed in_txn" and "clean gs" and "adj_inv cap (view (ws_db gs))"
    and "ids_ok (adjacency cap (view (ws_db gs)) v DIR_OUT)" and "ids_ok (adjacency cap (view (ws_db gs)) v DIR_IN)"
  shows "\<exists>gs'. scanEdges w cap v DIR_BOTH lf cb acc gs =
      Some (Inr (visit cb (edge_list (adjacency cap (view (ws_db gs)) v DIR_IN) lf)
        (visit cb (edge_list (adjacency cap (view (ws_db gs)) v DIR_OUT) lf) acc)), gs') \<and>
    view (ws_db gs') = view (ws_db gs)"
proof -
  let ?d = "view (ws_db gs)"
  note one = reliable_wiredtiger.does_scanEdges_one [OF assms(1,3)]
  have "does view (scanEdges w cap v DIR_BOTH lf cb acc) ?d
      (Inr (visit cb (edge_list (adjacency cap ?d v DIR_IN) lf) (visit cb (edge_list (adjacency cap ?d v DIR_OUT) lf) acc))) ?d"
    unfolding scanEdges_def if_P [OF refl]
    by (rule reliable_wiredtiger.does_with_session [OF assms(1)], rule does_bindp [OF one one])
      (simp_all add: assms(4,5))
  with assms(2) show ?thesis unfolding does_def by blast
qed

theorem both_scan_restarts_witness:
  "\<exists>gs'. scanEdges mem_engine 0 7 DIR_BOTH None (\<lambda>e n. (False, n + 1)) (0 :: nat) writing =
      Some (Inr (visit (\<lambda>e n. (False, n + 1)) (edge_list (adjacency 0 (mem_view (ws_db writing)) 7 DIR_IN) None)
        (visit (\<lambda>e n. (False, n + 1)) (edge_list (adjacency 0 (mem_view (ws_db writing)) 7 DIR_OUT) None) 0)), gs') \<and>
    mem_view (ws_db gs') = mem_view (ws_db writing)"
  by (rule both_scan_restarts [OF mem.reliable_wiredtiger_axioms clean_writing]) (simp_all add: ids_ok_def)

section \<open>Insertion of a vertex that has edges\<close>

lemma label_groups_adj:
  assumes "\<And>l. k \<noteq> encodeVertexDataLabelKey v l" and "\<And>l i. k \<noteq> encodeVertexDataPropKey v l i"
  shows "fold (label_group_db v) lps d TABLE_VERTEX_DATA k = d TABLE_VERTEX_DATA k"
proof (induction lps arbitrary: d)
  case (Cons lp lps)
  have "label_group_db v lp d TABLE_VERTEX_DATA k = d TABLE_VERTEX_DATA k"
  proof (cases lp)
    case (Pair l props)
    have "k \<notin> range (encodeVertexDataPropKey v l)" using assms(2) by auto
    with assms(1) [of l] Pair show ?thesis by (simp add: label_group_db_def put_props_db_other db_apply)
  qed
  with Cons.IH show ?case by simp
qed simp

lemma insert_vertex_adjacency:
  assumes "cap > 0" and "one_dir dir"
  shows "adjacency cap (insert_vertex_db cap v lps d) v dir = cached_edges d v dir"
proof -
  let ?d' = "insert_vertex_db cap v lps d"
  have s: "summary_db v lps e t k = e t k" if "t \<noteq> TABLE_VERTEX_SUMMARY" for e t k
    using that by (auto simp: summary_db_def db_apply)
  have "state_of ?d' v dir = Some (ADJ_COMPLETE, 0)"
    using assms by (simp add: state_of_def insert_vertex_db_def s label_groups_adj adj_reset_db_def db_apply)
      (auto simp: one_dir_def)
  moreover have "cached_edges ?d' v dir e = cached_edges d v dir e" for e
    by (simp add: cached_edges_def insert_vertex_db_def s label_groups_adj adj_reset_db_def db_apply)
  ultimately show ?thesis using assms by (auto simp: adjacency_def uses_cache_def)
qed

text \<open>
  With the adjacency cache on, inserting a vertex id again resets its two adjacency states to an
  empty COMPLETE cache: if its adjacency had been promoted to the edge index, none of its edges is
  seen afterwards, although no edge was deleted.
\<close>

theorem reinserted_vertex_hides_edges:
  assumes rel: "reliable_wiredtiger w view committed in_txn" and gs: "clean gs" and "short_props lps"
    and "cap > 0" and dir: "one_dir dir"
    and promoted: "cached_edges (view (ws_db gs)) v dir = Map.empty"
  shows "\<exists>gs'. insertVertex w cap v lps gs = Some (Inr True, gs') \<and>
    adjacency cap (view (ws_db gs')) v dir = Map.empty \<and>
    indexed_edges (view (ws_db gs')) v dir = indexed_edges (view (ws_db gs)) v dir"
proof -
  have wt: "wiredtiger w view committed in_txn" using rel by (rule reliable_wiredtiger.axioms(1))
  let ?d = "view (ws_db gs)"
  have "does view (insertVertex w cap v lps) ?d (Inr True) (insert_vertex_db cap v lps ?d)"
    using assms(3) by (intro doesI [OF wiredtiger.insert_parts(1) [OF wt] reliable_wiredtiger.quiet_insertVertex [OF rel]
        wiredtiger.insert_parts(2) [OF wt]])
  then obtain gs' where "insertVertex w cap v lps gs = Some (Inr True, gs')" "view (ws_db gs') = insert_vertex_db cap v lps ?d"
    using gs unfolding does_def by blast
  moreover have "indexed_edges (insert_vertex_db cap v lps ?d) v dir = indexed_edges ?d v dir"
  proof
    fix e
    have "fold (label_group_db v) lps d TABLE_EDGE_INDEX k = d TABLE_EDGE_INDEX k" for d k
      by (induction lps arbitrary: d) (auto simp: label_group_db_def put_props_db_other db_apply split: prod.splits)
    then show "indexed_edges (insert_vertex_db cap v lps ?d) v dir e = indexed_edges ?d v dir e"
      by (simp add: indexed_edges_def insert_vertex_db_def summary_db_def adj_reset_db_def db_apply)
  qed
  ultimately show ?thesis
    using promoted insert_vertex_adjacency [OF assms(4) dir] by simp
qed

theorem reinserted_vertex_hides_edges_witness:
  "\<exists>gs'. insertVertex mem_engine 4 7 [(1, [])] writing = Some (Inr True, gs') \<and>
    adjacency 4 (mem_view (ws_db gs')) 7 DIR_OUT = Map.empty \<and>
    indexed_edges (mem_view (ws_db gs')) 7 DIR_OUT = indexed_edges (mem_view (ws_db writing)) 7 DIR_OUT"
  by (rule reinserted_vertex_hides_edges [OF mem.reliable_wiredtiger_axioms clean_writing])
    (auto simp: short_props_def cached_edges_def)

section \<open>Degrees\<close>

text \<open>The count kept in the state row is the number of cached edges.\<close>

definition count_ok :: "db \<Rightarrow> vertex_id \<Rightarrow> direction \<Rightarrow> bool" where
  "count_ok d v dir \<longleftrightarrow> (\<forall>c. state_of d v dir = Some (ADJ_COMPLETE, c) \<longrightarrow> unat c = card (dom (cached_edges d v dir)))"

lemma visit_count: "visit (\<lambda>_ n. (True, n + 1)) xs (n :: 64 word) = n + of_nat (length xs)"
  by (induction xs arbitrary: n) (simp_all add: algebra_simps)

lemma length_edge_list: "length (edge_list m None) = card (dom m)"
  by (simp add: edge_list_def matches_def)

lemma count_ok_insert:
  assumes "count_ok d v dir" and "one_dir dir" and "\<not> uses_cache cap d v dir \<or> e \<notin> dom (cached_edges d v dir)"
    and "adj_inv cap d" and fin: "finite (dom (d TABLE_VERTEX_DATA))"
  shows "count_ok (insert_adj_db cap v dir e eid d) v dir"
proof (cases "\<exists>c. cap > 0 \<and> state_of d v dir = Some (ADJ_COMPLETE, c) \<and> c < cap")
  case True
  then obtain c where c: "cap > 0" "state_of d v dir = Some (ADJ_COMPLETE, c)" "c < cap" by blast
  have "finite (dom (cached_edges d v dir))"
  proof -
    have "inj (\<lambda>e. encodeVertexDataAdjEdgeKey (ref_key v dir e))" using assms(2) by (auto intro: injI)
    moreover have "dom (cached_edges d v dir) = (\<lambda>e. encodeVertexDataAdjEdgeKey (ref_key v dir e)) -` dom (d TABLE_VERTEX_DATA)"
      by (auto simp: cached_edges_def)
    ultimately show ?thesis using fin by (simp add: finite_vimageI)
  qed
  moreover have "unat (c + 1) = Suc (unat c)"
  proof -
    have "unat c < unat cap" using c(3) by (simp add: word_less_nat_alt)
    moreover have "unat cap < 2 ^ LENGTH(32)" by (rule unsigned_less)
    ultimately show ?thesis by (simp add: unat_plus_if')
  qed
  ultimately show ?thesis
    using assms c by (auto simp: count_ok_def insert_adj_db_def Let_def adj_reads uses_cache_def)
next
  case False
  have wf: "wf_vertex_tables d" and st: "\<And>st c. state_of d v dir = Some (st, c) \<Longrightarrow> st = ADJ_COMPLETE \<or> st = ADJ_OVERFLOW"
    using assms(2,4) unfolding adj_inv_def by blast+
  let ?put = "db_put TABLE_EDGE_INDEX (encodeEdgeIndexKey (ref_key v dir e)) (vc_encodeU64 eid)"
  have "insert_adj_db cap v dir e eid d = ?put d \<or> insert_adj_db cap v dir e eid d = ?put (promote_db v dir d)"
    using False st by (auto simp: insert_adj_db_def Let_def word_greater_zero_iff split: option.splits)
  moreover have "state_of (promote_db v dir d) v dir = Some (ADJ_OVERFLOW, 0)"
    using promote_db_reads(3) [where d = d, OF fin wf assms(2,2)] by simp
  ultimately show ?thesis using assms(1) by (auto simp: count_ok_def put_index_reads)
qed

context reliable_wiredtiger
begin

lemma does_countDegree:
  assumes inv: "adj_inv cap d" and dir: "one_dir dir" and ids: "ids_ok (adjacency cap d v dir)"
  shows "does view (countDegree w cap v dir None) d
    (Inr (if uses_cache cap d v dir then ucast (snd (the (state_of d v dir)))
          else of_nat (card (dom (adjacency cap d v dir))))) d"
proof -
  have nb: "dir \<noteq> DIR_BOTH" using dir by (auto simp: one_dir_def)
  have scan: "does view (scanEdges w cap v dir None (\<lambda>_ c. (True, c + 1)) 0) d (Inr (of_nat (card (dom (adjacency cap d v dir))) :: 64 word)) d"
    using does_scanEdges_one [OF assms, of None "\<lambda>_ c. (True, c + 1)" "0 :: 64 word"] nb
    by (simp add: scanEdges_def visit_count length_edge_list)
  show ?thesis
  proof (cases "cap > 0")
    case True
    have "does view (bindp (getAdjacencyState w v dir) (\<lambda>state. if state \<noteq> None \<and> fst (the state) = ADJ_COMPLETE
        then ret (ucast (snd (the state))) else scanEdges w cap v dir None (\<lambda>_ c. (True, c + 1)) (0 :: 64 word))) d
      (Inr (if uses_cache cap d v dir then ucast (snd (the (state_of d v dir)))
          else of_nat (card (dom (adjacency cap d v dir))))) d"
      by (rule does_bindp [OF does_getAdjacencyState]) (use True scan in \<open>auto simp: uses_cache_def\<close>)
    with True nb show ?thesis unfolding countDegree_def Let_def by simp
  next
    case False
    with scan show ?thesis unfolding countDegree_def Let_def by (simp add: uses_cache_def)
  qed
qed

end



text \<open>
  Deleting an edge that is not there still lowers the count of a cached adjacency: the degree read
  afterwards is one too small, although the adjacency is unchanged.
\<close>

theorem absent_edge_miscounts:
  assumes rel: "reliable_wiredtiger w view committed in_txn" and gs: "clean gs"
    and inv: "adj_inv cap (view (ws_db gs))" and ids: "ids_ok (adjacency cap (view (ws_db gs)) v DIR_OUT)"
    and cap: "cap > 0" and st: "state_of (view (ws_db gs)) v DIR_OUT = Some (ADJ_COMPLETE, c)" "c > 0"
    and absent: "adjacency cap (view (ws_db gs)) v DIR_OUT (l, n, q) = None"
  shows "\<exists>gs'. seqp (deleteAdjacencyEdge w cap v DIR_OUT l n q) (countDegree w cap v DIR_OUT None) gs =
      Some (Inr (ucast (c - 1)), gs') \<and>
    adjacency cap (view (ws_db gs')) v DIR_OUT = adjacency cap (view (ws_db gs)) v DIR_OUT"
proof -
  let ?d = "view (ws_db gs)" let ?d' = "delete_adj_db cap v DIR_OUT (l, n, q) ?d"
  have same: "adjacency cap ?d' v DIR_OUT = adjacency cap ?d v DIR_OUT"
    using absent by (auto simp: delete_adj_adjacency [OF inv] fun_upd_idem)
  have "state_of ?d' v DIR_OUT = Some (ADJ_COMPLETE, c - 1)"
    using cap st by (auto simp: delete_adj_db_def Let_def adj_reads)
  with cap have "uses_cache cap ?d' v DIR_OUT" "snd (the (state_of ?d' v DIR_OUT)) = c - 1" by (auto simp: uses_cache_def)
  with reliable_wiredtiger.does_countDegree [OF rel adj_inv_delete [OF inv one_dirs(1)] one_dirs(1), of v "(l, n, q)" v] ids same
  have "does view (countDegree w cap v DIR_OUT None) ?d' (Inr (ucast (c - 1))) ?d'" by simp
  from does_seqp [OF reliable_wiredtiger.does_deleteAdjacencyEdge [OF rel] this] gs same show ?thesis
    unfolding does_def by fastforce
qed

text \<open>Vertex 7 with one cached edge.\<close>

definition one_cached :: "mem_state graph_session" where
  "one_cached = new_graph_session True \<lparr>mem_rows =
     [((TABLE_VERTEX_DATA, encodeVertexDataAdjStateKey 7 DIR_OUT), encodeAdjacencyState ADJ_COMPLETE 1),
      ((TABLE_VERTEX_DATA, encodeVertexDataAdjEdgeKey (ref_key 7 DIR_OUT (3, 8, 0))), vc_encodeU64 5)],
     mem_committed = [], mem_txn = False\<rparr>"

lemma one_cached_view: "mem_view (ws_db one_cached) =
    db_put TABLE_VERTEX_DATA (encodeVertexDataAdjStateKey 7 DIR_OUT) (encodeAdjacencyState ADJ_COMPLETE 1)
      (db_put TABLE_VERTEX_DATA (encodeVertexDataAdjEdgeKey (ref_key 7 DIR_OUT (3, 8, 0))) (vc_encodeU64 5) (\<lambda>_ _. None))"
  by (auto simp: one_cached_def new_graph_session_def mem_view_def fun_eq_iff db_apply)

lemma one_cached_inv: "adj_inv 4 (mem_view (ws_db one_cached))"
proof -
  let ?d = "\<lambda>_ _. None" and ?d' = "mem_view (ws_db one_cached)"
  have e: "state_of ?d v dir = None" "indexed_edges ?d v dir = Map.empty" for v dir
    by (auto simp: state_of_def indexed_edges_def)
  have "wf_vertex_tables ?d'" unfolding one_cached_view by (intro wf_put_adj) simp_all
  moreover have "dom (?d' TABLE_EDGE_INDEX) \<subseteq> range encodeEdgeIndexKey"
    by (simp add: one_cached_view dom_index_same)
  moreover have "one_dir dir \<Longrightarrow> state_of ?d' v dir = (if v = 7 \<and> dir = DIR_OUT then Some (ADJ_COMPLETE, 1) else None)"
    "one_dir dir \<Longrightarrow> indexed_edges ?d' v dir = Map.empty" for v dir
    by (simp_all add: one_cached_view put_cache_reads e)
  ultimately show ?thesis by (auto simp: adj_inv_def split: if_splits)
qed

theorem absent_edge_miscounts_witness:
  "\<exists>gs'. seqp (deleteAdjacencyEdge mem_engine 4 7 DIR_OUT 3 9 0) (countDegree mem_engine 4 7 DIR_OUT None) one_cached =
      Some (Inr (ucast (1 - 1 :: 32 word)), gs') \<and>
    adjacency 4 (mem_view (ws_db gs')) 7 DIR_OUT = adjacency 4 (mem_view (ws_db one_cached)) 7 DIR_OUT"
proof (rule absent_edge_miscounts [OF mem.reliable_wiredtiger_axioms _ one_cached_inv])
  let ?d = "\<lambda>_ _. None"
  have adj: "adjacency 4 (mem_view (ws_db one_cached)) 7 DIR_OUT = [(3, 8, 0) \<mapsto> vc_encodeU64 5]"
    by (simp add: adjacency_def uses_cache_def one_cached_view put_cache_reads) (simp add: cached_edges_def fun_eq_iff)
  then show "ids_ok (adjacency 4 (mem_view (ws_db one_cached)) 7 DIR_OUT)"
    "adjacency 4 (mem_view (ws_db one_cached)) 7 DIR_OUT (3, 9, 0) = None"
    by (auto simp: ids_ok_def split: if_splits)
  show "state_of (mem_view (ws_db one_cached)) 7 DIR_OUT = Some (ADJ_COMPLETE, 1)"
    by (simp add: one_cached_view put_cache_reads)
  show "clean one_cached" by (simp add: clean_def one_cached_def new_graph_session_def transaction_failed_def se_init_def)
qed simp_all

end
