(* ===== verification/Index_Store.thy ===== *)
theory Index_Store
  imports Vertex_Store Index_Key_Codec
begin

text \<open>
  The index part of \<^verbatim>\<open>storage/data/sync_graph_data_store.{hpp,cpp}\<close>: entries, the unique check, the
  callback scans and the resumable cursor \<^verbatim>\<open>IndexScanCursorImpl\<close>.  An overload on one value has the
  suffix 1, the overload on a value list none; \<open>P\<close> marks the overloads with a payload and \<open>V\<close> the
  \<^verbatim>\<open>WithValue\<close> scans.  A cursor object is a record; the engine's cursor it owns is the position.
\<close>

section \<open>Entries\<close>

definition insertIndexEntry1 :: "'s wt_engine \<Rightarrow> string \<Rightarrow> property_value \<Rightarrow> 64 word \<Rightarrow> ('s, bool) sprog" where
  "insertIndexEntry1 w table v entity_id = (let key = encodeIndexKey1 v entity_id in
     with_session False (table_put w table key []))"

definition deleteIndexEntry1 :: "'s wt_engine \<Rightarrow> string \<Rightarrow> property_value \<Rightarrow> 64 word \<Rightarrow> ('s, bool) sprog" where
  "deleteIndexEntry1 w table v entity_id = (let key = encodeIndexKey1 v entity_id in
     with_session False (table_del w table key))"

definition insertIndexEntryP1 :: "'s wt_engine \<Rightarrow> string \<Rightarrow> property_value \<Rightarrow> 64 word \<Rightarrow> bytes \<Rightarrow> ('s, bool) sprog" where
  "insertIndexEntryP1 w table v entity_id payload = (let key = encodeIndexKey1 v entity_id in
     with_session False (table_put w table key payload))"

definition insertIndexEntry :: "'s wt_engine \<Rightarrow> string \<Rightarrow> property_value list \<Rightarrow> 64 word \<Rightarrow> ('s, bool) sprog" where
  "insertIndexEntry w table vs entity_id = (let key = encodeIndexKey vs entity_id in
     with_session False (table_put w table key []))"

definition insertIndexEntryP :: "'s wt_engine \<Rightarrow> string \<Rightarrow> property_value list \<Rightarrow> 64 word \<Rightarrow> bytes \<Rightarrow> ('s, bool) sprog" where
  "insertIndexEntryP w table vs entity_id payload = (let key = encodeIndexKey vs entity_id in
     with_session False (table_put w table key payload))"

definition deleteIndexEntry :: "'s wt_engine \<Rightarrow> string \<Rightarrow> property_value list \<Rightarrow> 64 word \<Rightarrow> ('s, bool) sprog" where
  "deleteIndexEntry w table vs entity_id = (let key = encodeIndexKey vs entity_id in
     with_session False (table_del w table key))"

text \<open>The accumulator is \<^verbatim>\<open>found\<close>.\<close>

definition on_unique_row :: "bytes \<Rightarrow> bytes \<Rightarrow> bytes \<Rightarrow> bool \<Rightarrow> (bool \<times> bool) res" where
  "on_unique_row prefx key value found =
     (if length key \<ge> length prefx then Inr (False, True) else Inr (True, found))"

definition checkUniqueConstraint1 :: "'s wt_engine \<Rightarrow> string \<Rightarrow> property_value \<Rightarrow> ('s, bool) sprog" where
  "checkUniqueConstraint1 w table v = (let prefx = encodeEqualityPrefix1 v in
     with_session False (
       bindp (table_scan w table prefx (\<lambda>key value found. liftr (on_unique_row prefx key value found)) False)
         (\<lambda>found. ret (\<not> found))))"

definition checkUniqueConstraint :: "'s wt_engine \<Rightarrow> string \<Rightarrow> property_value list \<Rightarrow> ('s, bool) sprog" where
  "checkUniqueConstraint w table vs = (let prefx = encodeEqualityPrefix vs in
     with_session False (
       bindp (table_scan w table prefx (\<lambda>key value found. liftr (on_unique_row prefx key value found)) False)
         (\<lambda>found. ret (\<not> found))))"

section \<open>Callback scans\<close>

definition scanIndexEquality1 :: "'s wt_engine \<Rightarrow> string \<Rightarrow> property_value \<Rightarrow> (64 word \<Rightarrow> 'a \<Rightarrow> bool \<times> 'a) \<Rightarrow> 'a \<Rightarrow>
    ('s, 'a) sprog" where
  "scanIndexEquality1 w table v callback acc =
     table_scan w table (encodeEqualityPrefix1 v)
       (\<lambda>key val acc. liftr (Inr (callback (decodeEntityId key) acc))) acc"

definition scanIndexEquality :: "'s wt_engine \<Rightarrow> string \<Rightarrow> property_value list \<Rightarrow> (64 word \<Rightarrow> 'a \<Rightarrow> bool \<times> 'a) \<Rightarrow> 'a \<Rightarrow>
    ('s, 'a) sprog" where
  "scanIndexEquality w table vs callback acc =
     table_scan w table (encodeEqualityPrefix vs)
       (\<lambda>key val acc. liftr (Inr (callback (decodeEntityId key) acc))) acc"

definition scanIndexEqualityV1 :: "'s wt_engine \<Rightarrow> string \<Rightarrow> property_value \<Rightarrow> (64 word \<Rightarrow> bytes \<Rightarrow> 'a \<Rightarrow> bool \<times> 'a) \<Rightarrow> 'a \<Rightarrow>
    ('s, 'a) sprog" where
  "scanIndexEqualityV1 w table v callback acc =
     table_scan w table (encodeEqualityPrefix1 v)
       (\<lambda>key val acc. liftr (Inr (callback (decodeEntityId key) val acc))) acc"

definition scanIndexEqualityV :: "'s wt_engine \<Rightarrow> string \<Rightarrow> property_value list \<Rightarrow> (64 word \<Rightarrow> bytes \<Rightarrow> 'a \<Rightarrow> bool \<times> 'a) \<Rightarrow> 'a \<Rightarrow>
    ('s, 'a) sprog" where
  "scanIndexEqualityV w table vs callback acc =
     table_scan w table (encodeEqualityPrefix vs)
       (\<lambda>key val acc. liftr (Inr (callback (decodeEntityId key) val acc))) acc"

definition stripEntityIdSuffix :: "bytes \<Rightarrow> bytes" where
  "stripEntityIdSuffix key = (if length key \<ge> 8 then take (length key - 8) key else key)"

text \<open>The encoded bounds: \<^verbatim>\<open>append(8, '\xFF')\<close> behind the lower one.\<close>

definition start_encoded1 :: "property_value option \<Rightarrow> bytes" where
  "start_encoded1 start = (case start of Some v \<Rightarrow> encodeSortableValue v @ replicate 8 0xFF | None \<Rightarrow> [])"

definition end_encoded1 :: "property_value option \<Rightarrow> bytes" where
  "end_encoded1 end_v = (case end_v of Some v \<Rightarrow> encodeSortableValue v | None \<Rightarrow> [])"

definition start_encoded :: "property_value list option \<Rightarrow> bytes" where
  "start_encoded start = (case start of Some vs \<Rightarrow> encodeSortableValues vs @ replicate 8 0xFF | None \<Rightarrow> [])"

definition end_encoded :: "property_value list option \<Rightarrow> bytes" where
  "end_encoded end_vs = (case end_vs of Some vs \<Rightarrow> encodeSortableValues vs | None \<Rightarrow> [])"

text \<open>Opening the scan cursor, the range scan and the two failure branches.\<close>

definition scan_encoded_range :: "'s wt_engine \<Rightarrow> string \<Rightarrow> bytes \<Rightarrow> bytes \<Rightarrow> (bytes \<Rightarrow> bytes \<Rightarrow> 'a \<Rightarrow> bool \<times> 'a) \<Rightarrow> 'a \<Rightarrow>
    ('s, 'a) sprog" where
  "scan_encoded_range w table start_key end_key callback acc =
     bindp (call (acquire_scan_cursor w table)) (\<lambda>r.
     if r \<noteq> RET_OK then seqp (modp (fail_from_wt r)) (ret acc)
     else bindp (scan_range w table start_key True end_key (Some stripEntityIdSuffix)
         (\<lambda>key value acc. liftr (Inr (callback key value acc))) acc) (\<lambda>(r, acc1).
       if r \<noteq> RET_OK then seqp (modp (fail_from_wt r)) (ret acc1) else ret acc1))"

definition scanIndexRange1 :: "'s wt_engine \<Rightarrow> string \<Rightarrow> property_value option \<Rightarrow> property_value option \<Rightarrow>
    (64 word \<Rightarrow> 'a \<Rightarrow> bool \<times> 'a) \<Rightarrow> 'a \<Rightarrow> ('s, 'a) sprog" where
  "scanIndexRange1 w table start end_v callback acc =
     scan_encoded_range w table (start_encoded1 start) (end_encoded1 end_v)
       (\<lambda>key value. callback (decodeEntityId key)) acc"

definition scanIndexRange :: "'s wt_engine \<Rightarrow> string \<Rightarrow> property_value list option \<Rightarrow> property_value list option \<Rightarrow>
    (64 word \<Rightarrow> 'a \<Rightarrow> bool \<times> 'a) \<Rightarrow> 'a \<Rightarrow> ('s, 'a) sprog" where
  "scanIndexRange w table start end_v callback acc =
     scan_encoded_range w table (start_encoded start) (end_encoded end_v)
       (\<lambda>key value. callback (decodeEntityId key)) acc"

definition scanIndexRangeV1 :: "'s wt_engine \<Rightarrow> string \<Rightarrow> property_value option \<Rightarrow> property_value option \<Rightarrow>
    (64 word \<Rightarrow> bytes \<Rightarrow> 'a \<Rightarrow> bool \<times> 'a) \<Rightarrow> 'a \<Rightarrow> ('s, 'a) sprog" where
  "scanIndexRangeV1 w table start end_v callback acc =
     scan_encoded_range w table (start_encoded1 start) (end_encoded1 end_v)
       (\<lambda>key value. callback (decodeEntityId key) value) acc"

definition scanIndexRangeV :: "'s wt_engine \<Rightarrow> string \<Rightarrow> property_value list option \<Rightarrow> property_value list option \<Rightarrow>
    (64 word \<Rightarrow> bytes \<Rightarrow> 'a \<Rightarrow> bool \<times> 'a) \<Rightarrow> 'a \<Rightarrow> ('s, 'a) sprog" where
  "scanIndexRangeV w table start end_v callback acc =
     scan_encoded_range w table (start_encoded start) (end_encoded end_v)
       (\<lambda>key value. callback (decodeEntityId key) value) acc"

section \<open>The index scan cursor\<close>

record index_cursor_spec =
  spec_start_key :: bytes
  spec_end_key :: bytes
  spec_exclusive_start :: bool
  spec_prefix_mode :: bool

record index_cursor =
  ic_table :: string
  ic_position :: "wt_position option"
  ic_spec :: index_cursor_spec
  ic_valid :: bool
  ic_entity_id :: "64 word"
  ic_value :: bytes

definition ic_fail :: "wt_ret \<Rightarrow> index_cursor \<Rightarrow> ('s, index_cursor) sprog" where
  "ic_fail wt_error c = seqp (modp (fail_from_wt wt_error)) (ret (c\<lparr>ic_valid := False\<rparr>))"

definition ic_readCurrent :: "'s wt_engine \<Rightarrow> wt_position \<Rightarrow> index_cursor \<Rightarrow> ('s, index_cursor) sprog" where
  "ic_readCurrent w p c0 = (let c = c0\<lparr>ic_position := Some p\<rparr>; spec = ic_spec c in
     bindp (getp (\<lambda>gs. wt_get_key w (ic_table c) p (ws_db gs))) (\<lambda>(r, key).
     if r \<noteq> RET_OK then ic_fail r c
     else if spec_prefix_mode spec \<and> \<not> prefix (spec_start_key spec) key then ret c
     else if spec_end_key spec \<noteq> [] \<and> spec_end_key spec \<le> (if length key \<ge> 8 then take (length key - 8) key else key)
     then ret c
     else bindp (getp (\<lambda>gs. wt_get_value w (ic_table c) p (ws_db gs))) (\<lambda>(r, value).
       if r \<noteq> RET_OK then ic_fail r c
       else ret (c\<lparr>ic_entity_id := decodeEntityId key, ic_value := value, ic_valid := True\<rparr>))))"

text \<open>\<^verbatim>\<open>ret = c->next(c); if (ret == WT_NOTFOUND) return; if (ret != 0) fail; ... readCurrent();\<close>\<close>

definition ic_advance :: "'s wt_engine \<Rightarrow> wt_position option \<Rightarrow> index_cursor \<Rightarrow> ('s, index_cursor) sprog" where
  "ic_advance w q c =
     bindp (call (\<lambda>gs. case wt_next w (ic_table c) q (ws_db gs) of (r, p, s) \<Rightarrow> ((r, p), gs\<lparr>ws_db := s\<rparr>))) (\<lambda>(r, p).
     if r = RET_NOTFOUND then ret c
     else if r \<noteq> RET_OK then ic_fail r c
     else ic_readCurrent w p c)"

definition ic_position_start :: "'s wt_engine \<Rightarrow> index_cursor \<Rightarrow> ('s, index_cursor) sprog" where
  "ic_position_start w c = (let spec = ic_spec c in
     if spec_start_key spec \<noteq> [] then
       bindp (call (\<lambda>gs. case wt_search_near w (ic_table c) (spec_start_key spec) (ws_db gs) of
           (r, cmp, p, s) \<Rightarrow> ((r, cmp, p), gs\<lparr>ws_db := s\<rparr>))) (\<lambda>(r, cmp, p).
       if r = RET_NOTFOUND then ret c
       else if r \<noteq> RET_OK then ic_fail r c
       else if (if spec_prefix_mode spec then cmp < 0
                else if spec_exclusive_start spec then cmp \<le> 0 else cmp < 0)
       then ic_advance w (Some p) c
       else ic_readCurrent w p c)
     else
       bindp (call (\<lambda>gs. case wt_reset w (ic_table c) (ws_db gs) of (r, s) \<Rightarrow> (r, gs\<lparr>ws_db := s\<rparr>))) (\<lambda>r.
       if r \<noteq> RET_OK then ic_fail r c else ic_advance w None c))"

definition ic_next :: "'s wt_engine \<Rightarrow> index_cursor \<Rightarrow> ('s, index_cursor) sprog" where
  "ic_next w c = (if \<not> ic_valid c then ret c else ic_advance w (ic_position c) (c\<lparr>ic_valid := False\<rparr>))"

text \<open>The constructor, behind the factories' check of the engine cursor; \<^const>\<open>None\<close> is \<^verbatim>\<open>nullptr\<close>.\<close>

definition new_index_cursor :: "string \<Rightarrow> index_cursor_spec \<Rightarrow> index_cursor" where
  "new_index_cursor table spec = \<lparr>ic_table = table, ic_position = None, ic_spec = spec, ic_valid = False,
     ic_entity_id = 0, ic_value = []\<rparr>"

definition open_index_cursor :: "'s wt_engine \<Rightarrow> string \<Rightarrow> index_cursor_spec \<Rightarrow> ('s, index_cursor option) sprog" where
  "open_index_cursor w table spec =
     bindp (call (acquire_scan_cursor w table)) (\<lambda>r.
     if r \<noteq> RET_OK then seqp (modp (fail_from_wt r)) (ret None)
     else bindp (ic_position_start w (new_index_cursor table spec)) (\<lambda>c. ret (Some c)))"

definition equality_spec :: "bytes \<Rightarrow> index_cursor_spec" where
  "equality_spec prefx = \<lparr>spec_start_key = prefx, spec_end_key = [], spec_exclusive_start = False, spec_prefix_mode = True\<rparr>"

definition range_spec :: "bytes \<Rightarrow> bytes \<Rightarrow> index_cursor_spec" where
  "range_spec start_key end_key =
     \<lparr>spec_start_key = start_key, spec_end_key = end_key, spec_exclusive_start = True, spec_prefix_mode = False\<rparr>"

definition createIndexEqualityCursor1 :: "'s wt_engine \<Rightarrow> string \<Rightarrow> property_value \<Rightarrow> ('s, index_cursor option) sprog" where
  "createIndexEqualityCursor1 w table v = open_index_cursor w table (equality_spec (encodeEqualityPrefix1 v))"

definition createIndexEqualityCursor :: "'s wt_engine \<Rightarrow> string \<Rightarrow> property_value list \<Rightarrow> ('s, index_cursor option) sprog" where
  "createIndexEqualityCursor w table vs = open_index_cursor w table (equality_spec (encodeEqualityPrefix vs))"

definition createIndexRangeCursor1 :: "'s wt_engine \<Rightarrow> string \<Rightarrow> property_value option \<Rightarrow> property_value option \<Rightarrow>
    ('s, index_cursor option) sprog" where
  "createIndexRangeCursor1 w table start end_v =
     open_index_cursor w table (range_spec (start_encoded1 start) (end_encoded1 end_v))"

definition createIndexRangeCursor :: "'s wt_engine \<Rightarrow> string \<Rightarrow> property_value list option \<Rightarrow> property_value list option \<Rightarrow>
    ('s, index_cursor option) sprog" where
  "createIndexRangeCursor w table start end_v =
     open_index_cursor w table (range_spec (start_encoded start) (end_encoded end_v))"

end
