(* ===== verification/Index_Cursor.thy ===== *)
theory Index_Cursor
  imports Index_Store Vertex_Theorems
begin

text \<open>
  Draining an index cursor is the callback scan: the two are the same function of the session, for
  every engine that meets the contract, failing calls included.
\<close>

section \<open>The client loop\<close>

text \<open>\<^verbatim>\<open>while (cur->valid()) { if (!callback(cur->entityId(), cur->value())) break; cur->next(); }\<close>\<close>

partial_function (option) index_cursor_drain :: "'s wt_engine \<Rightarrow> (64 word \<Rightarrow> bytes \<Rightarrow> 'a \<Rightarrow> bool \<times> 'a) \<Rightarrow>
    index_cursor \<Rightarrow> 'a \<Rightarrow> ('s, 'a) sprog" where
  "index_cursor_drain w cb c acc gs =
     (if \<not> ic_valid c then Some (Inr acc, gs)
      else case cb (ic_entity_id c) (ic_value c) acc of (go_on, acc1) \<Rightarrow>
        if \<not> go_on then Some (Inr acc1, gs)
        else (case ic_next w c gs of
            None \<Rightarrow> None
          | Some (res, gs1) \<Rightarrow> (case res of Inl e \<Rightarrow> Some (Inl e, gs1) | Inr c1 \<Rightarrow> index_cursor_drain w cb c1 acc1 gs1)))"

definition drain_cursor :: "'s wt_engine \<Rightarrow> (64 word \<Rightarrow> bytes \<Rightarrow> 'a \<Rightarrow> bool \<times> 'a) \<Rightarrow> ('s, index_cursor option) sprog \<Rightarrow> 'a \<Rightarrow>
    ('s, 'a) sprog" where
  "drain_cursor w cb create acc =
     bindp create (\<lambda>oc. case oc of None \<Rightarrow> ret acc | Some c \<Rightarrow> index_cursor_drain w cb c acc)"

section \<open>One position\<close>

text \<open>The row callback of the scan that corresponds to a cursor specification.\<close>

definition spec_callback :: "index_cursor_spec \<Rightarrow> (64 word \<Rightarrow> bytes \<Rightarrow> 'a \<Rightarrow> bool \<times> 'a) \<Rightarrow>
    bytes \<Rightarrow> bytes \<Rightarrow> 'a \<Rightarrow> ('s, bool \<times> 'a) sprog" where
  "spec_callback spec cb = (\<lambda>key value acc.
     if spec_prefix_mode spec \<longrightarrow> prefix (spec_start_key spec) key
     then liftr (Inr (cb (decodeEntityId key) value acc)) else ret (False, acc))"

definition scan_end :: "wt_ret \<times> 'a \<Rightarrow> ('s, 'a) sprog" where
  "scan_end = (\<lambda>(r, acc). if r \<noteq> RET_OK then seqp (modp (fail_from_wt r)) (ret acc) else ret acc)"

lemma drain_invalid [simp]: "\<not> ic_valid c \<Longrightarrow> index_cursor_drain w cb c acc = ret acc"
  by (rule ext, subst index_cursor_drain.simps) (simp add: ret_def)

lemma bindp_ret: "bindp (ret x) k = k x"
  by (simp add: bindp_def ret_def)

lemma drain_step:
  "ic_valid c \<Longrightarrow> cb (ic_entity_id c) (ic_value c) acc = (True, acc1) \<Longrightarrow>
   index_cursor_drain w cb c acc = bindp (ic_next w c) (\<lambda>c. index_cursor_drain w cb c acc1)"
  by (rule ext, subst index_cursor_drain.simps) (simp add: bindp_def split: option.splits sum.splits)

lemma drain_after_fail [simp]:
  "bindp (ic_fail r c) (\<lambda>c. index_cursor_drain w cb c acc) = seqp (modp (fail_from_wt r)) (ret acc)"
  by (simp add: ic_fail_def seqp_def bindp_def modp_def ret_def fun_eq_iff)

context wiredtiger
begin

lemma ic_readCurrent_eq:
  "ic_readCurrent w p c = ret (let c1 = c\<lparr>ic_position := Some p\<rparr>; spec = ic_spec c in
     if (spec_prefix_mode spec \<longrightarrow> prefix (spec_start_key spec) (fst p)) \<and>
        before_end (spec_end_key spec) (Some stripEntityIdSuffix) (fst p)
     then c1\<lparr>ic_entity_id := decodeEntityId (fst p), ic_value := snd p, ic_valid := True\<rparr> else c1)"
  by (auto simp: ic_readCurrent_def Let_def bindp_def getp_def get_key_ok get_value_ok before_end_def
      stripEntityIdSuffix_def ret_def fun_eq_iff)

lemma ic_readCurrent_in:
  "spec_prefix_mode (ic_spec c) \<longrightarrow> prefix (spec_start_key (ic_spec c)) (fst p) \<Longrightarrow>
   before_end (spec_end_key (ic_spec c)) (Some stripEntityIdSuffix) (fst p) \<Longrightarrow>
   ic_readCurrent w p c = ret (c\<lparr>ic_position := Some p, ic_entity_id := decodeEntityId (fst p),
     ic_value := snd p, ic_valid := True\<rparr>)"
  unfolding ic_readCurrent_eq Let_def by (subst if_P) simp_all

text \<open>
  The cursor reading position \<open>p\<close> and drained from there does what the scan loop does from \<open>p\<close>.
\<close>

lemma drain_from:
  assumes "\<And>k. before_end (spec_end_key spec) ev k = before_end (spec_end_key spec) (Some stripEntityIdSuffix) k"
    and "ic_table c = tab" and "ic_spec c = spec" and "\<not> ic_valid c"
  shows "bindp (ic_readCurrent w p c) (\<lambda>c. index_cursor_drain w cb c acc) gs =
    bindp (scan_loop w tab (spec_end_key spec) ev (spec_callback spec cb) p acc) scan_end gs"
  using assms(2-)
proof (induction "card {j \<in> dom (view (ws_db gs) tab). fst p < j}" arbitrary: gs p acc c rule: less_induct)
  case less
  let ?ek = "spec_end_key spec" let ?cb = "spec_callback spec cb"
  let ?in = "spec_prefix_mode spec \<longrightarrow> prefix (spec_start_key spec) (fst p)"
  obtain go_on acc1 where cb: "cb (decodeEntityId (fst p)) (snd p) acc = (go_on, acc1)" by fastforce
  obtain r q s where n: "wt_next w tab (Some p) (ws_db gs) = (r, q, s)" by (metis prod_cases3)
  note [simp] = bindp_def ret_def liftr_def scan_end_def spec_callback_def
  show ?case
  proof (cases "before_end ?ek ev (fst p)")
    case False
    with less.prems assms(1) show ?thesis by (simp add: ic_readCurrent_eq scan_loop_stop Let_def)
  next
    case True
    have callback: "?cb (fst p) (snd p) acc gs = Some (Inr (if ?in then (go_on, acc1) else (False, acc)), gs)"
      using cb by simp
    note loop = scan_loop_step [where cb = ?cb, OF True callback n]
    show ?thesis
    proof (cases "?in \<and> go_on")
      case False
      then show ?thesis using less.prems True assms(1) cb
        unfolding bindp_def loop by (auto simp: ic_readCurrent_eq Let_def index_cursor_drain.simps)
    next
      case go: True
      let ?c = "c\<lparr>ic_position := Some p, ic_entity_id := decodeEntityId (fst p), ic_value := snd p, ic_valid := True\<rparr>"
      let ?stale = "?c\<lparr>ic_valid := False\<rparr>" let ?gs = "gs\<lparr>ws_db := s\<rparr>"
      have "ic_readCurrent w p c = ret ?c"
        using go True less.prems(2) assms(1) by (intro ic_readCurrent_in) simp_all
      moreover have "index_cursor_drain w cb ?c acc = bindp (ic_next w ?c) (\<lambda>c. index_cursor_drain w cb c acc1)"
        using cb go by (intro drain_step) simp_all
      moreover have "ic_next w ?c = ic_advance w (Some p) ?stale" by (simp add: ic_next_def)
      ultimately have lhs: "bindp (ic_readCurrent w p c) (\<lambda>c. index_cursor_drain w cb c acc) gs =
          bindp (ic_advance w (Some p) ?stale) (\<lambda>c. index_cursor_drain w cb c acc1) gs"
        by (simp only: bindp_ret)
      have adv: "bindp (ic_advance w (Some p) ?stale) (\<lambda>c. index_cursor_drain w cb c acc1) gs =
          (if r = RET_NOTFOUND then Some (Inr acc1, ?gs)
           else if r \<noteq> RET_OK then Some (Inr acc1, fail_from_wt r ?gs)
           else bindp (ic_readCurrent w q ?stale) (\<lambda>c. index_cursor_drain w cb c acc1) ?gs)"
        using n less.prems by (simp add: ic_advance_def call_def ic_fail_def seqp_def modp_def)
      have rec: "bindp (ic_readCurrent w q ?stale) (\<lambda>c. index_cursor_drain w cb c acc1) ?gs =
          bindp (scan_loop w tab ?ek ev ?cb q acc1) scan_end ?gs" if "r = RET_OK"
      proof (rule less.hyps)
        have "view s = view (ws_db gs)" "is_next (view (ws_db gs) tab) (fst p) (fst q)"
          using next_same [OF n] next_ok [of tab "Some p"] n that by auto
        then have "{j \<in> dom (view (ws_db ?gs) tab). fst q < j} \<subset> {j \<in> dom (view (ws_db gs) tab). fst p < j}"
          by (auto simp: is_next_def intro: order.strict_trans)
        then show "card {j \<in> dom (view (ws_db ?gs) tab). fst q < j} < card {j \<in> dom (view (ws_db gs) tab). fst p < j}"
          by (intro psubset_card_mono finite_subset [OF _ finite_view]) auto
      qed (use less.prems in simp_all)
      have rhs: "bindp (scan_loop w tab ?ek ev ?cb p acc) scan_end gs =
          (if r = RET_NOTFOUND then Some (Inr acc1, ?gs)
           else if r \<noteq> RET_OK then Some (Inr acc1, fail_from_wt r ?gs)
           else bindp (scan_loop w tab ?ek ev ?cb q acc1) scan_end ?gs)"
        unfolding bindp_def loop using go by (simp add: seqp_def modp_def)
      show ?thesis unfolding lhs adv rhs using rec by simp
    qed
  qed
qed

lemma drain_advance:
  assumes ev: "\<And>k. before_end (spec_end_key spec) ev k = before_end (spec_end_key spec) (Some stripEntityIdSuffix) k"
    and c: "ic_table c = tab" "ic_spec c = spec" "\<not> ic_valid c"
    and n: "wt_next w tab q (ws_db gs) = (r, p, s)"
  shows "bindp (ic_advance w q c) (\<lambda>c. index_cursor_drain w cb c acc) gs =
    (if r = RET_NOTFOUND then Some (Inr acc, gs\<lparr>ws_db := s\<rparr>)
     else if r \<noteq> RET_OK then Some (Inr acc, fail_from_wt r (gs\<lparr>ws_db := s\<rparr>))
     else bindp (scan_loop w tab (spec_end_key spec) ev (spec_callback spec cb) p acc) scan_end (gs\<lparr>ws_db := s\<rparr>))"
  using drain_from [where cb = cb and acc = acc, OF ev c, of p "gs\<lparr>ws_db := s\<rparr>"] n c
  by (simp add: ic_advance_def bindp_def call_def ic_fail_def seqp_def modp_def ret_def)

lemma drain_start:
  assumes ev: "\<And>k. before_end (spec_end_key spec) ev k = before_end (spec_end_key spec) (Some stripEntityIdSuffix) k"
    and c: "ic_table c = tab" "ic_spec c = spec" "\<not> ic_valid c"
    and excl: "excl \<longleftrightarrow> \<not> spec_prefix_mode spec \<and> spec_exclusive_start spec"
  shows "bindp (ic_position_start w c) (\<lambda>c. index_cursor_drain w cb c acc) gs =
    bindp (scanRangeWithCursor w tab (spec_start_key spec) excl (spec_end_key spec) ev (spec_callback spec cb) acc) scan_end gs"
proof (cases "spec_start_key spec = []")
  case True
  obtain r s where a: "wt_reset w tab (ws_db gs) = (r, s)" by fastforce
  obtain r1 p1 s1 where b: "wt_next w tab None s = (r1, p1, s1)" by (metis prod_cases3)
  have "bindp (ic_position_start w c) (\<lambda>c. index_cursor_drain w cb c acc) gs =
      (if r \<noteq> RET_OK then Some (Inr acc, fail_from_wt r (gs\<lparr>ws_db := s\<rparr>))
       else bindp (ic_advance w None c) (\<lambda>c. index_cursor_drain w cb c acc) (gs\<lparr>ws_db := s\<rparr>))"
    using True a c by (simp add: ic_position_start_def bindp_def call_def ic_fail_def seqp_def modp_def ret_def)
  also have "\<dots> = bindp (scanRangeWithCursor w tab (spec_start_key spec) excl (spec_end_key spec) ev (spec_callback spec cb) acc) scan_end gs"
    using True a b drain_advance [OF ev c, of None "gs\<lparr>ws_db := s\<rparr>" r1 p1 s1 cb acc]
    by (simp add: scanRangeWithCursor_def bindp_def scan_end_def seqp_def modp_def ret_def)
  finally show ?thesis .
next
  case False
  obtain r cmp p s where a: "wt_search_near w tab (spec_start_key spec) (ws_db gs) = (r, cmp, p, s)" by (metis prod_cases4)
  obtain r1 p1 s1 where b: "wt_next w tab (Some p) s = (r1, p1, s1)" by (metis prod_cases3)
  let ?skip = "if excl then cmp \<le> 0 else cmp < 0"
  have "bindp (ic_position_start w c) (\<lambda>c. index_cursor_drain w cb c acc) gs =
      (if r = RET_NOTFOUND then Some (Inr acc, gs\<lparr>ws_db := s\<rparr>)
       else if r \<noteq> RET_OK then Some (Inr acc, fail_from_wt r (gs\<lparr>ws_db := s\<rparr>))
       else if ?skip then bindp (ic_advance w (Some p) c) (\<lambda>c. index_cursor_drain w cb c acc) (gs\<lparr>ws_db := s\<rparr>)
       else bindp (ic_readCurrent w p c) (\<lambda>c. index_cursor_drain w cb c acc) (gs\<lparr>ws_db := s\<rparr>))"
    unfolding ic_position_start_def Let_def c(2)
    using False a c excl by (simp add: bindp_def call_def ic_fail_def seqp_def modp_def ret_def)
  also have "\<dots> = bindp (scanRangeWithCursor w tab (spec_start_key spec) excl (spec_end_key spec) ev (spec_callback spec cb) acc) scan_end gs"
    unfolding drain_from [OF ev c, of p cb acc]
    using False a b drain_advance [OF ev c, of "Some p" "gs\<lparr>ws_db := s\<rparr>" r1 p1 s1 cb acc]
    by (simp add: scanRangeWithCursor_def bindp_def scan_end_def seqp_def modp_def ret_def Let_def)
  finally show ?thesis .
qed

lemma drain_open:
  assumes ev: "\<And>k. before_end (spec_end_key spec) ev k = before_end (spec_end_key spec) (Some stripEntityIdSuffix) k"
    and excl: "excl \<longleftrightarrow> \<not> spec_prefix_mode spec \<and> spec_exclusive_start spec"
  shows "drain_cursor w cb (open_index_cursor w tab spec) acc =
    bindp (call (acquire_scan_cursor w tab)) (\<lambda>r.
      if r \<noteq> RET_OK then seqp (modp (fail_from_wt r)) (ret acc)
      else bindp (scanRangeWithCursor w tab (spec_start_key spec) excl (spec_end_key spec) ev (spec_callback spec cb) acc) scan_end)"
proof
  fix gs
  obtain r gs1 where o: "acquire_scan_cursor w tab gs = (r, gs1)" by fastforce
  have assoc: "drain_cursor w cb (open_index_cursor w tab spec) acc gs =
    (if r \<noteq> RET_OK then Some (Inr acc, fail_from_wt r gs1)
     else bindp (ic_position_start w (new_index_cursor tab spec)) (\<lambda>c. index_cursor_drain w cb c acc) gs1)"
    using o by (auto simp: drain_cursor_def open_index_cursor_def bindp_def call_def seqp_def modp_def ret_def
        split: option.splits sum.splits)
  have "bindp (ic_position_start w (new_index_cursor tab spec)) (\<lambda>c. index_cursor_drain w cb c acc) gs1 =
      bindp (scanRangeWithCursor w tab (spec_start_key spec) excl (spec_end_key spec) ev (spec_callback spec cb) acc) scan_end gs1"
    by (rule drain_start [OF ev _ _ _ excl]) (simp_all add: new_index_cursor_def)
  then show "drain_cursor w cb (open_index_cursor w tab spec) acc gs =
    bindp (call (acquire_scan_cursor w tab)) (\<lambda>r.
      if r \<noteq> RET_OK then seqp (modp (fail_from_wt r)) (ret acc)
      else bindp (scanRangeWithCursor w tab (spec_start_key spec) excl (spec_end_key spec) ev (spec_callback spec cb) acc) scan_end) gs"
    unfolding assoc using o by (simp add: bindp_def call_def seqp_def modp_def ret_def)
qed

lemma drain_range_cursor:
  "drain_cursor w cb (open_index_cursor w tab (range_spec a b)) acc =
   scan_encoded_range w tab a b (\<lambda>key value. cb (decodeEntityId key) value) acc"
proof -
  have "drain_cursor w cb (open_index_cursor w tab (range_spec a b)) acc =
    bindp (call (acquire_scan_cursor w tab)) (\<lambda>r.
      if r \<noteq> RET_OK then seqp (modp (fail_from_wt r)) (ret acc)
      else bindp (scanRangeWithCursor w tab (spec_start_key (range_spec a b)) True (spec_end_key (range_spec a b))
        (Some stripEntityIdSuffix) (spec_callback (range_spec a b) cb) acc) scan_end)"
    by (rule drain_open) (simp_all add: range_spec_def)
  then show ?thesis
    by (simp add: scan_encoded_range_def scan_range_def range_spec_def scan_end_def spec_callback_def cong: if_cong)
qed

lemma drain_equality_cursor:
  "drain_cursor w cb (open_index_cursor w tab (equality_spec p)) acc =
   table_scan w tab p (\<lambda>key value acc. liftr (Inr (cb (decodeEntityId key) value acc))) acc"
proof -
  have "drain_cursor w cb (open_index_cursor w tab (equality_spec p)) acc =
    bindp (call (acquire_scan_cursor w tab)) (\<lambda>r.
      if r \<noteq> RET_OK then seqp (modp (fail_from_wt r)) (ret acc)
      else bindp (scanRangeWithCursor w tab (spec_start_key (equality_spec p)) False (spec_end_key (equality_spec p))
        None (spec_callback (equality_spec p) cb) acc) scan_end)"
    by (rule drain_open) (simp_all add: equality_spec_def before_end_def)
  then show ?thesis
    by (simp add: table_scan_def scanWithCursor_def scan_end_def spec_callback_def equality_spec_def cong: if_cong)
qed

end

section \<open>Properties\<close>

text \<open>
  C12. The resumable index cursors and the callback scans are two implementations of one iteration: on
  every engine that meets the contract, and whatever calls fail, draining the cursor made for a range
  or an equality is the same session transformer as the callback scan with that range or value, with
  the same entries in the same order, the same early stop, the same recorded failure and the same
  tables.  Both the single-value and the composite overloads agree.
\<close>

theorem index_cursor_equivalent:
  assumes "wiredtiger w view committed in_txn"
  shows "drain_cursor w cb (createIndexRangeCursor1 w tab lo hi) acc = scanIndexRangeV1 w tab lo hi cb acc \<and>
    drain_cursor w cb (createIndexRangeCursor w tab los his) acc = scanIndexRangeV w tab los his cb acc \<and>
    drain_cursor w cb (createIndexEqualityCursor1 w tab v) acc = scanIndexEqualityV1 w tab v cb acc \<and>
    drain_cursor w cb (createIndexEqualityCursor w tab vs) acc = scanIndexEqualityV w tab vs cb acc"
  by (simp add: createIndexRangeCursor1_def createIndexRangeCursor_def createIndexEqualityCursor1_def
      createIndexEqualityCursor_def scanIndexRangeV1_def scanIndexRangeV_def scanIndexEqualityV1_def
      scanIndexEqualityV_def wiredtiger.drain_range_cursor [OF assms] wiredtiger.drain_equality_cursor [OF assms])

theorem index_cursor_equivalent_witness:
  "drain_cursor mem_engine (\<lambda>e p ids. (True, ids @ [e])) (createIndexEqualityCursor1 mem_engine ''table:vidx_1'' (PInt 5)) [] =
   scanIndexEqualityV1 mem_engine ''table:vidx_1'' (PInt 5) (\<lambda>e p ids. (True, ids @ [e])) []"
  using index_cursor_equivalent [OF mem.wiredtiger_axioms, of "\<lambda>e p ids. (True, ids @ [e])" "''table:vidx_1''" _ _ "[]" _ _ "PInt 5"] by blast

end
