(* ===== verification/Index_Proofs.thy ===== *)
theory Index_Proofs
  imports Index_Cursor
begin

text \<open>
  What the index scans visit: range scans over values of fixed width, equality scans and the unique
  check, on a reliable engine.
\<close>

section \<open>Rows of a range scan\<close>

definition range_rows :: "(bytes \<Rightarrow> bytes option) \<Rightarrow> bytes \<Rightarrow> bytes \<Rightarrow> bytes list" where
  "range_rows m start_key end_key =
     takeWhile (before_end end_key (Some stripEntityIdSuffix)) (range_keys m start_key True)"

lemma fold_rows_collect:
  "fold_rows (\<lambda>k v ids. Inr (True, ids @ [f k])) rows acc = Inr (acc @ map (\<lambda>(k, v). f k) rows)"
  by (induction rows arbitrary: acc) auto

lemma bindp_assoc: "bindp (bindp m k) l = bindp m (\<lambda>x. bindp (k x) l)"
  by (auto simp: bindp_def fun_eq_iff split: option.splits sum.splits)

context reliable_wiredtiger
begin

lemma does_scan_encoded_range:
  "does view (scan_encoded_range w tab a b cb acc) d
     (fold_rows (\<lambda>k v a. Inr (cb k v a)) (map (\<lambda>k. (k, the (d tab k))) (range_rows (d tab) a b)) acc) d"
proof -
  let ?cb = "\<lambda>k v a. liftr (Inr (cb k v a))"
  let ?m = "bindp (scanRangeWithCursor w tab a True b (Some stripEntityIdSuffix) ?cb acc)
    (\<lambda>(r, acc1). if r \<noteq> RET_OK then seqp (modp (fail_from_wt r)) (ret acc1) else ret acc1)"
  let ?r = "fold_rows (\<lambda>k v a. Inr (cb k v a)) (map (\<lambda>k. (k, the (d tab k))) (range_rows (d tab) a b)) acc"
  have "does view ?m d ?r d"
    unfolding does_def
  proof (intro allI impI, elim conjE)
    fix gs assume gs: "clean gs" "view (ws_db gs) = d"
    obtain y gs' where run: "scanRangeWithCursor w tab a True b (Some stripEntityIdSuffix) ?cb acc gs = Some (y, gs')"
      using scanRange_returns [OF safe_callback_pure, of tab a True b "Some stripEntityIdSuffix" "\<lambda>k v a. Inr (cb k v a)" acc gs]
      by blast
    have c: "clean gs' \<and> (\<forall>r a. y = Inr (r, a) \<longrightarrow> r = RET_OK)"
      by (rule scanRange_clean [OF run gs(1)]) (rule quiet_liftr)
    then have "scan_result y (view (ws_db gs'))
        (a_scan (until (before_end b (Some stripEntityIdSuffix)) (\<lambda>k v a d. (Inr (cb k v a), d))) tab
          (range_keys (view (ws_db gs) tab) a True) acc (view (ws_db gs)))"
      using gs by (intro scanRange_runs [OF safe_callback_pure _ _ _ run]) (auto simp: looks_back_def clean_def)
    then show "\<exists>gs'. ?m gs = Some (?r, gs') \<and> clean gs' \<and> view (ws_db gs') = d"
      using c run gs unfolding scan_result_def
      by (cases y) (auto simp: bindp_def ret_def a_scan_until a_scan_pure range_rows_def)
  qed
  then show ?thesis
    unfolding scan_encoded_range_def scan_range_def acquire_scan_cursor_def
    by (intro does_bindp [OF does_open]) simp
qed

lemma does_collect_range:
  "does view (scanIndexRange1 w tab lo hi (\<lambda>e ids. (True, ids @ [e])) []) d
     (Inr (map decodeEntityId (range_rows (d tab) (start_encoded1 lo) (end_encoded1 hi)))) d"
  using does_scan_encoded_range [of tab "start_encoded1 lo" "end_encoded1 hi" "\<lambda>k v ids. (True, ids @ [decodeEntityId k])" "[]" d]
  unfolding scanIndexRange1_def by (simp add: fold_rows_collect comp_def)

end

section \<open>Order of index keys of fixed width\<close>

lemma sortable_append_less:
  assumes "fixed_width v" "fixed_width u"
  shows "encodeSortableValue v @ xs < encodeSortableValue u @ ys \<longleftrightarrow>
    encodeSortableValue v < encodeSortableValue u \<or> v = u \<and> xs < ys"
  using assms by (elim fixed_width.elims(2)) (auto simp: append_less_fixed_width)

lemma byte_le_max: "b \<le> (0xFF :: byte)"
  using unsigned_less [of b, where ?'a = nat] by (simp add: word_le_nat_alt)

lemma max_bytes_greatest: "length bs = n \<Longrightarrow> \<not> replicate n 0xFF < (bs :: bytes)"
proof (induction bs arbitrary: n)
  case (Cons b bs)
  have "\<not> 0xFF < b" using byte_le_max [of b] by (simp add: not_less)
  with Cons show ?case by (cases n) auto
qed simp

lemma strip_index_key [simp]: "stripEntityIdSuffix (encodeIndexKey1 v e) = encodeSortableValue v"
  by (simp add: stripEntityIdSuffix_def encodeIndexKey1_def)

text \<open>An index table on one column whose values have a fixed width.\<close>

definition fixed_index :: "(bytes \<Rightarrow> bytes option) \<Rightarrow> bool" where
  "fixed_index m \<longleftrightarrow> (\<forall>k \<in> dom m. \<exists>v e. fixed_width v \<and> k = encodeIndexKey1 v e)"

lemma index_key_less:
  "fixed_width v \<Longrightarrow> fixed_width u \<Longrightarrow> encodeIndexKey1 v e < encodeIndexKey1 u f \<longleftrightarrow>
     encodeSortableValue v < encodeSortableValue u \<or> v = u \<and> e < f"
  by (simp add: encodeIndexKey1_def sortable_append_less be_bytes_less_iff)

lemma encodeIndexKey1_inject:
  assumes "fixed_width v" "fixed_width u"
  shows "encodeIndexKey1 v e = encodeIndexKey1 u f \<longleftrightarrow> v = u \<and> e = f"
proof
  assume eq: "encodeIndexKey1 v e = encodeIndexKey1 u f"
  then have "e = f" using decodeEntityId_encode(2) by metis
  moreover have "prefix (encodeSortableValue v @ []) (encodeSortableValue u @ be_bytes 8 f)"
    using eq by (metis append_Nil2 encodeIndexKey1_def prefixI)
  ultimately show "v = u \<and> e = f" using sortable_prefix_step [OF assms, of "[]"] by simp
qed simp

lemma start_key_less:
  "fixed_width a \<Longrightarrow> fixed_width v \<Longrightarrow>
   start_encoded1 (Some a) < encodeIndexKey1 v e \<longleftrightarrow> encodeSortableValue a < encodeSortableValue v"
  by (simp add: start_encoded1_def encodeIndexKey1_def sortable_append_less max_bytes_greatest)

lemma sorted_takeWhile_filter:
  "sorted xs \<Longrightarrow> (\<And>x y. x \<in> set xs \<Longrightarrow> y \<in> set xs \<Longrightarrow> x \<le> y \<Longrightarrow> P y \<Longrightarrow> P x) \<Longrightarrow> takeWhile P xs = filter P xs"
proof (induction xs)
  case (Cons x xs)
  have IH: "takeWhile P xs = filter P xs"
  proof (rule Cons.IH)
    fix y z assume "y \<in> set xs" "z \<in> set xs" "y \<le> z" "P z"
    then show "P y" using Cons.prems(2) [of y z] by simp
  qed (use Cons.prems(1) in simp)
  have "\<not> P y" if y: "y \<in> set xs" and x: "\<not> P x" for y
    using Cons.prems(2) [of x y] Cons.prems(1) y x by auto
  with IH show ?case by (auto simp: filter_empty_conv)
qed simp

lemma encodeSortable_not_Nil [simp]: "encodeSortableValue v \<noteq> []"
  by (cases v rule: encodeSortableValue.cases) simp_all

lemma range_rows_fixed:
  assumes "fixed_index m" "finite (dom m)" "fixed_width a" "fixed_width b"
  shows "sorted (range_rows m (start_encoded1 (Some a)) (end_encoded1 (Some b)))"
    and "distinct (range_rows m (start_encoded1 (Some a)) (end_encoded1 (Some b)))"
    and "set (range_rows m (start_encoded1 (Some a)) (end_encoded1 (Some b))) =
      {k \<in> dom m. \<exists>v e. fixed_width v \<and> k = encodeIndexKey1 v e \<and>
         encodeSortableValue a < encodeSortableValue v \<and> encodeSortableValue v < encodeSortableValue b}"
proof -
  let ?K = "keys_after m (start_encoded1 (Some a))" and ?P = "before_end (encodeSortableValue b) (Some stripEntityIdSuffix)"
  have K: "sorted ?K" "distinct ?K" "set ?K = {k \<in> dom m. start_encoded1 (Some a) < k}"
    using assms(2) by (simp_all add: keys_after_def)
  have P: "?P (encodeIndexKey1 v e) \<longleftrightarrow> encodeSortableValue v < encodeSortableValue b" for v e
    by (auto simp: before_end_def)
  have "?P x" if h: "x \<in> set ?K" "y \<in> set ?K" "x \<le> y" "?P y" for x y
  proof -
    have "x \<in> dom m" "y \<in> dom m" using h(1,2) K(3) by simp_all
    then obtain v e u f where xy: "fixed_width v" "x = encodeIndexKey1 v e" "fixed_width u" "y = encodeIndexKey1 u f"
      using assms(1) [unfolded fixed_index_def] by metis
    with h(3) have "encodeSortableValue v < encodeSortableValue u \<or> v = u"
      using index_key_less [of v u e f] encodeIndexKey1_inject [of v u e f] by (auto simp: order.order_iff_strict)
    moreover have "encodeSortableValue u < encodeSortableValue b" using h(4) xy P by blast
    ultimately have "encodeSortableValue v < encodeSortableValue b" by (metis order.strict_trans)
    with xy P show ?thesis by blast
  qed
  then have "takeWhile ?P ?K = filter ?P ?K" by (rule sorted_takeWhile_filter [OF K(1)])
  then have R: "range_rows m (start_encoded1 (Some a)) (end_encoded1 (Some b)) = filter ?P ?K"
    by (simp add: range_rows_def range_keys_def end_encoded1_def start_encoded1_def)
  show "sorted (range_rows m (start_encoded1 (Some a)) (end_encoded1 (Some b)))"
    "distinct (range_rows m (start_encoded1 (Some a)) (end_encoded1 (Some b)))"
    using K R sorted_wrt_filter by auto
  show "set (range_rows m (start_encoded1 (Some a)) (end_encoded1 (Some b))) =
      {k \<in> dom m. \<exists>v e. fixed_width v \<and> k = encodeIndexKey1 v e \<and>
         encodeSortableValue a < encodeSortableValue v \<and> encodeSortableValue v < encodeSortableValue b}"
  proof (rule set_eqI)
    fix k
    have L: "k \<in> set (filter ?P ?K) \<longleftrightarrow> k \<in> dom m \<and> start_encoded1 (Some a) < k \<and> ?P k"
      using K(3) by simp
    show "k \<in> set (range_rows m (start_encoded1 (Some a)) (end_encoded1 (Some b))) \<longleftrightarrow>
      k \<in> {k \<in> dom m. \<exists>v e. fixed_width v \<and> k = encodeIndexKey1 v e \<and>
         encodeSortableValue a < encodeSortableValue v \<and> encodeSortableValue v < encodeSortableValue b}"
    proof (cases "k \<in> dom m")
      case True
      then obtain v e where k: "fixed_width v" "k = encodeIndexKey1 v e"
        using assms(1) [unfolded fixed_index_def] by metis
      show ?thesis
        unfolding R L mem_Collect_eq using True k start_key_less [OF assms(3) k(1), of e] P [of v e]
          encodeIndexKey1_inject [OF k(1)] by metis
    qed (simp add: R K(3))
  qed
qed

section \<open>Properties of the scans\<close>

lemma int_between:
  assumes "fixed_width v" "encodeSortableValue (PInt a) < encodeSortableValue v"
    "encodeSortableValue v < encodeSortableValue (PInt b)"
  shows "\<exists>i. v = PInt i"
  using assms by (elim fixed_width.elims(2)) simp_all

text \<open>
  C14. A range scan of an index over integer bounds returns the ids of exactly the entries strictly
  between the bounds, for the whole signed 64-bit range, in the order of value and then id, each once;
  entries of other types in the same index are not met.  The scan always ends and changes nothing.
\<close>

theorem index_range_exact:
  assumes "reliable_wiredtiger w view committed in_txn" and "clean gs" and "fixed_index (view (ws_db gs) tab)"
  shows "\<exists>entries gs'.
    scanIndexRange1 w tab (Some (PInt a)) (Some (PInt b)) (\<lambda>e ids. (True, ids @ [e])) [] gs = Some (Inr (map snd entries), gs') \<and>
    clean gs' \<and> view (ws_db gs') = view (ws_db gs) \<and>
    sorted_wrt (\<lambda>(i, e) (j, f). sint i < sint j \<or> i = j \<and> e < f) entries \<and>
    set entries = {(i, e). view (ws_db gs) tab (encodeIndexKey1 (PInt i) e) \<noteq> None \<and> sint a < sint i \<and> sint i < sint b}"
proof -
  let ?m = "view (ws_db gs) tab" and ?key = "\<lambda>(i, e). encodeIndexKey1 (PInt i) e"
  let ?R = "range_rows ?m (start_encoded1 (Some (PInt a))) (end_encoded1 (Some (PInt b)))"
  have fin: "finite (dom ?m)"
    by (rule wiredtiger.finite_view [OF reliable_wiredtiger.axioms(1) [OF assms(1)]])
  note R = range_rows_fixed [OF assms(3) fin, of "PInt a" "PInt b", simplified fixed_width.simps, OF TrueI TrueI]
  have mem: "k \<in> set ?R \<longleftrightarrow> (\<exists>i e. k = encodeIndexKey1 (PInt i) e \<and> k \<in> dom ?m \<and> sint a < sint i \<and> sint i < sint b)" for k
    unfolding R(3) mem_Collect_eq using int_between index_int_order by (metis fixed_width.simps(3))
  then obtain entries where E: "?R = map ?key entries"
    using ex_map_conv [of ?R ?key] by (auto simp del: split_paired_Ex)
  have ids: "map decodeEntityId ?R = map snd entries"
    unfolding E by (simp add: case_prod_beta)
  have "does view (scanIndexRange1 w tab (Some (PInt a)) (Some (PInt b)) (\<lambda>e ids. (True, ids @ [e])) []) (view (ws_db gs))
      (Inr (map decodeEntityId ?R)) (view (ws_db gs))"
    by (rule reliable_wiredtiger.does_collect_range [OF assms(1)])
  then obtain gs' where "scanIndexRange1 w tab (Some (PInt a)) (Some (PInt b)) (\<lambda>e ids. (True, ids @ [e])) [] gs =
      Some (Inr (map snd entries), gs')" "clean gs'" "view (ws_db gs') = view (ws_db gs)"
    unfolding ids does_def using assms(2) by blast
  moreover have "sorted_wrt (<) (map ?key entries)"
    using R(1,2) unfolding E by (simp add: strict_sorted_iff)
  then have "sorted_wrt (\<lambda>(i, e) (j, f). sint i < sint j \<or> i = j \<and> e < f) entries"
    unfolding sorted_wrt_map by (rule sorted_wrt_mono_rel [rotated]) (auto simp: index_key_less be8_less uint_flip_sign)
  moreover have "set entries = {(i, e). ?m (encodeIndexKey1 (PInt i) e) \<noteq> None \<and> sint a < sint i \<and> sint i < sint b}"
  proof -
    have "(i, e) \<in> set entries \<longleftrightarrow> encodeIndexKey1 (PInt i) e \<in> set ?R" for i e
      unfolding E by (force simp: encodeIndexKey1_inject)
    then show ?thesis by (auto simp: mem encodeIndexKey1_inject dom_def)
  qed
  ultimately show ?thesis by blast
qed

text \<open>Three index entries, one of them of another type.\<close>

definition indexed :: "mem_state graph_session" where
  "indexed = writing\<lparr>ws_db := (ws_db writing)\<lparr>mem_rows :=
     [((''table:vidx_1'', encodeIndexKey1 (PInt 5) 7), []), ((''table:vidx_1'', encodeIndexKey1 (PInt (- 3)) 8), []),
      ((''table:vidx_1'', encodeIndexKey1 (PBool True) 9), [])]\<rparr>\<rparr>"

lemma clean_indexed [simp]: "clean indexed"
  using clean_writing by (simp add: indexed_def clean_def transaction_failed_def)

lemma view_indexed: "mem_view (ws_db indexed) ''table:vidx_1'' =
    [encodeIndexKey1 (PInt 5) 7 \<mapsto> [], encodeIndexKey1 (PInt (- 3)) 8 \<mapsto> [], encodeIndexKey1 (PBool True) 9 \<mapsto> []]"
  by (auto simp: indexed_def mem_view_def fun_eq_iff)

theorem index_range_exact_witness:
  "\<exists>ids gs'. scanIndexRange1 mem_engine ''table:vidx_1'' (Some (PInt (- 4))) (Some (PInt 6)) (\<lambda>e ids. (True, ids @ [e])) []
     indexed = Some (Inr ids, gs') \<and> set ids = {7, 8}"
proof -
  have "fixed_index (mem_view (ws_db indexed) ''table:vidx_1'')"
    unfolding view_indexed fixed_index_def by (auto intro: exI fixed_width.simps [THEN iffD2])
  from index_range_exact [OF mem.reliable_wiredtiger_axioms clean_indexed this, of "- 4" 6]
  obtain entries gs' where run: "scanIndexRange1 mem_engine ''table:vidx_1'' (Some (PInt (- 4))) (Some (PInt 6))
      (\<lambda>e ids. (True, ids @ [e])) [] indexed = Some (Inr (map snd entries), gs')"
    and E: "set entries = {(i, e). mem_view (ws_db indexed) ''table:vidx_1'' (encodeIndexKey1 (PInt i) e) \<noteq> None \<and>
      sint (- 4 :: 64 word) < sint i \<and> sint i < sint (6 :: 64 word)}" by blast
  have "set entries = {(5, 7), (- 3, 8)}"
    unfolding E view_indexed by (auto simp: encodeIndexKey1_inject split: if_splits)
  then have "set (map snd entries) = {7, 8}" by simp
  with run show ?thesis by blast
qed

section \<open>Strings\<close>

text \<open>
  On strings the exclusive lower bound overshoots: eight bytes \<open>0xFF\<close> are appended to the bound
  although the strings that follow it in the index are not delimited, so a scan for values above \<open>s\<close>
  misses every longer string that starts with \<open>s\<close> (unless its next byte is \<open>0xFF\<close>).
\<close>

theorem string_range_misses:
  assumes "reliable_wiredtiger w view committed in_txn" and "clean gs"
    and "dom (view (ws_db gs) tab) = {encodeIndexKey1 (PString (s @ c # t)) e}" and "byte_of_char c \<noteq> 0xFF"
  shows "\<exists>gs'. scanIndexRange1 w tab (Some (PString s)) None (\<lambda>e ids. (True, ids @ [e])) [] gs = Some (Inr [], gs')"
proof -
  let ?m = "view (ws_db gs) tab" and ?a = "start_encoded1 (Some (PString s))"
  have "byte_of_char c < 0xFF" using assms(4) byte_le_max [of "byte_of_char c"] by (simp add: order.order_iff_strict)
  then have "encodeIndexKey1 (PString (s @ c # t)) e < ?a"
    by (simp add: encodeIndexKey1_def start_encoded1_def bytes_of_string_append append_less_fixed_width numeral_eq_Suc)
      (simp add: bytes_of_string_def)
  then have "keys_after ?m ?a = []" using assms(3) by (intro keys_after_none) auto
  then have "range_rows ?m ?a [] = []" by (simp add: range_rows_def range_keys_def start_encoded1_def)
  moreover have "does view (scanIndexRange1 w tab (Some (PString s)) None (\<lambda>e ids. (True, ids @ [e])) []) (view (ws_db gs))
      (Inr (map decodeEntityId (range_rows ?m ?a []))) (view (ws_db gs))"
    using reliable_wiredtiger.does_collect_range [OF assms(1), of tab "Some (PString s)" None]
    by (simp add: end_encoded1_def)
  ultimately show ?thesis using assms(2) unfolding does_def by fastforce
qed

definition string_indexed :: "mem_state graph_session" where
  "string_indexed = writing\<lparr>ws_db := (ws_db writing)\<lparr>mem_rows :=
     [((''table:vidx_1'', encodeIndexKey1 (PString ''ab'') 7), [])]\<rparr>\<rparr>"

theorem string_range_misses_witness:
  "\<exists>gs'. scanIndexRange1 mem_engine ''table:vidx_1'' (Some (PString ''a'')) None (\<lambda>e ids. (True, ids @ [e])) []
     string_indexed = Some (Inr [], gs')"
proof (rule string_range_misses [OF mem.reliable_wiredtiger_axioms])
  show "clean string_indexed" using clean_writing by (simp add: string_indexed_def clean_def transaction_failed_def)
  show "dom (mem_view (ws_db string_indexed) ''table:vidx_1'') = {encodeIndexKey1 (PString (''a'' @ CHR ''b'' # [])) 7}"
    by (auto simp: string_indexed_def mem_view_def dom_def split: if_splits)
  show "byte_of_char CHR ''b'' \<noteq> 0xFF" by (simp add: byte_of_char_def)
qed

end
