(* ===== verification/Calendar.thy ===== *)
theory Calendar
  imports Prelude "HOL-Library.Signed_Division"
begin

text \<open>
  The calendar of \<^verbatim>\<open>common/types/temporal_value.{hpp,cpp}\<close>.  The \<^verbatim>\<open>int64_t\<close> arithmetic is written over
  the integers with the truncating division of C++ (\<open>sdiv\<close>, \<open>smod\<close>); the bounds that keep it inside 64
  bits are part of the results.
\<close>

section \<open>Truncating division\<close>

lemma sdiv_pos: "0 \<le> a \<Longrightarrow> 0 < b \<Longrightarrow> a sdiv b = a div (b :: int)"
  by (cases "a = 0") (simp_all add: signed_divide_int_def)

lemma smod_pos: "0 \<le> a \<Longrightarrow> 0 < b \<Longrightarrow> a smod b = a mod (b :: int)"
  by (cases "a = 0") (simp_all add: signed_modulo_int_def)

lemma sdiv_neg: "a < 0 \<Longrightarrow> 0 < b \<Longrightarrow> a sdiv b = - (- a div (b :: int))"
  by (simp add: signed_divide_int_def)

lemma smod_zero_iff: "0 < b \<Longrightarrow> a smod b = 0 \<longleftrightarrow> a mod (b :: int) = 0"
  by (cases "a = 0") (simp_all add: signed_modulo_int_def sgn_0_0 flip: dvd_eq_mod_eq_0)

section \<open>Definitions\<close>

definition isLeapYear :: "int \<Rightarrow> bool" where
  "isLeapYear year \<longleftrightarrow> (year smod 4 = 0 \<and> year smod 100 \<noteq> 0) \<or> year smod 400 = 0"

definition daysInMonth :: "int \<Rightarrow> int \<Rightarrow> int" where
  "daysInMonth year month =
     (if month < 1 \<or> month > 12 then 0
      else if month = 2 \<and> isLeapYear year then 29
      else [31, 28, 31, 30, 31, 30, 31, 31, 30, 31, 30, 31] ! nat (month - 1))"

text \<open>The year of the era and the era of a year that starts in March, with the two fix-ups.\<close>

definition civilEra :: "int \<Rightarrow> int \<times> int" where
  "civilEra y =
     (let era = (if y \<ge> 0 then y sdiv 400
                 else let num = y - 399 in
                   num sdiv 400 - (if num < 0 \<and> num smod 400 \<noteq> 0 then 1 else 0));
          yoe = y - era * 400
      in if yoe \<ge> 400 then (yoe - 400, era + 1) else if yoe < 0 then (yoe + 400, era - 1) else (yoe, era))"

definition daysFromCivil :: "int \<Rightarrow> int \<Rightarrow> int \<Rightarrow> int" where
  "daysFromCivil y0 m d =
     (let y = y0 - (if m \<le> 2 then 1 else 0);
          (yoe, era) = civilEra y;
          doy = (153 * (m + (if m > 2 then - 3 else 9)) + 2) sdiv 5 + d - 1;
          doe = yoe * 365 + yoe sdiv 4 - yoe sdiv 100 + doy
      in era * 146097 + doe - 719468)"

definition civilFromDays :: "int \<Rightarrow> int \<times> int \<times> int" where
  "civilFromDays z0 =
     (let z = z0 + 719468;
          era = (if z \<ge> 0 then z else z - 146096) sdiv 146097;
          doe = z - era * 146097;
          yoe = (doe - doe sdiv 1460 + doe sdiv 36524 - doe sdiv 146096) sdiv 365;
          doy = doe - (365 * yoe + yoe sdiv 4 - yoe sdiv 100);
          mp = (5 * doy + 2) sdiv 153;
          d = doy - (153 * mp + 2) sdiv 5 + 1;
          m = mp + (if mp < 10 then 3 else - 9);
          y = yoe + era * 400
      in (y + (if m \<le> 2 then 1 else 0), m, d))"

definition normalizeDate :: "int \<Rightarrow> int \<Rightarrow> int \<Rightarrow> int \<times> int \<times> int" where
  "normalizeDate year month day =
     (let (year, month) =
            (if month < 1 \<or> month > 12 then
               let zero_based = month - 1;
                   year_shift = (if zero_based \<ge> 0 then zero_based sdiv 12 else - ((- zero_based + 11) sdiv 12))
               in (year + year_shift, zero_based - year_shift * 12 + 1)
             else (year, month));
          epoch_day = daysFromCivil year month 1 + (day - 1)
      in civilFromDays epoch_day)"

definition absoluteMonths :: "int \<Rightarrow> int \<Rightarrow> int" where
  "absoluteMonths year month = year * 12 + (month - 1)"

definition packedMonthDay :: "int \<Rightarrow> int \<Rightarrow> int \<Rightarrow> int" where
  "packedMonthDay year month day = absoluteMonths year month * 32 + day"

definition valid_date :: "int \<Rightarrow> int \<Rightarrow> int \<Rightarrow> bool" where
  "valid_date y m d \<longleftrightarrow> 1 \<le> m \<and> m \<le> 12 \<and> 1 \<le> d \<and> d \<le> daysInMonth y m"

section \<open>Eras\<close>

text \<open>A year counted from March is \<open>400 era + yoe\<close>; \<open>civil_day\<close> is the day number without the C++ detours.\<close>

definition civil_day :: "int \<Rightarrow> int \<Rightarrow> int" where
  "civil_day y doy = (y div 400) * 146097 + (365 * (y mod 400) + (y mod 400) div 4 - (y mod 400) div 100) + doy - 719468"

definition month_start :: "int \<Rightarrow> int" where
  "month_start mp = (153 * mp + 2) div 5"

lemma divmod_unique: "0 \<le> r \<Longrightarrow> r < b \<Longrightarrow> (b * q + r) div b = (q :: int) \<and> (b * q + r) mod b = r"
  by simp

lemma civilEra_eq: "civilEra y = (y mod 400, y div 400)"
proof (cases "y \<ge> 0")
  case True
  define yoe where "yoe = y mod 400"
  have "y - y div 400 * 400 = yoe" "0 \<le> yoe" "yoe < 400" by (simp_all add: minus_div_mult_eq_mod yoe_def)
  then show ?thesis unfolding yoe_def [symmetric] using True by (simp add: civilEra_def sdiv_pos Let_def)
next
  case False
  define num where "num = y - 399"
  have neg: "num < 0" using False by (simp add: num_def)
  define q r where "q = num div 400" and "r = num mod 400"
  have fl: "num sdiv 400 - (if num < 0 \<and> num smod 400 \<noteq> 0 then 1 else 0) = q"
    using neg by (auto simp: q_def divide_int_eq_signed_divide_int smod_zero_iff dvd_eq_mod_eq_0)
  have "400 * q + r = num" "0 \<le> r" "r < 400" by (simp_all add: q_def r_def)
  then have q: "y = 400 * q + r + 399" "0 \<le> r" "r < 400" by (simp_all add: num_def)
  have era: "civilEra y = (let yoe = y - q * 400 in
      if yoe \<ge> 400 then (yoe - 400, q + 1) else if yoe < 0 then (yoe + 400, q - 1) else (yoe, q))"
    unfolding civilEra_def Let_def num_def [symmetric] fl using False by simp
  show ?thesis
  proof (cases "r = 0")
    case True
    then have "y div 400 = q \<and> y mod 400 = 399" using divmod_unique [of 399 400 q] q(1) by simp
    then show ?thesis using True q era by simp
  next
    case nz: False
    have y: "y = 400 * (q + 1) + (r - 1)" using q(1) by simp
    have "y div 400 = q + 1 \<and> y mod 400 = r - 1" unfolding y by (rule divmod_unique) (use q nz in simp_all)
    then show ?thesis using nz q era by simp
  qed
qed

lemma daysFromCivil_day:
  assumes "1 \<le> m"
  shows "daysFromCivil y m d = civil_day (y - (if m \<le> 2 then 1 else 0)) (month_start (m + (if m > 2 then - 3 else 9)) + d - 1)"
  using assms by (simp add: daysFromCivil_def civil_day_def month_start_def civilEra_eq sdiv_pos Let_def)

text \<open>The digits of a year of the era: centuries, groups of four years, years.\<close>

lemma year_digits:
  assumes "0 \<le> (yoe :: int)" "yoe < 400"
  obtains c q r where "yoe = 100 * c + 4 * q + r" "0 \<le> c" "c \<le> 3" "0 \<le> q" "q \<le> 24" "0 \<le> r" "r \<le> 3"
    "yoe div 4 = 25 * c + q" "yoe div 100 = c"
proof -
  define c u where "c = yoe div 100" and "u = yoe mod 100"
  define q r where "q = u div 4" and "r = u mod 4"
  have 1: "yoe = 100 * c + u" "0 \<le> u" "u < 100" and 2: "u = 4 * q + r" "0 \<le> r" "r < 4"
    by (simp_all add: c_def u_def q_def r_def)
  have "yoe = 4 * (25 * c + q) + r" using 1 2 by simp
  with 2 have "yoe div 4 = 25 * c + q" using divmod_unique [of r 4 "25 * c + q"] by simp
  with 1 2 assms c_def show thesis by (intro that [of c q r]) simp_all
qed

text \<open>The day 365 of a year exists when the following calendar year is a leap year.\<close>

definition doy_ok :: "int \<Rightarrow> int \<Rightarrow> bool" where
  "doy_ok y doy \<longleftrightarrow> 0 \<le> doy \<and> (doy \<le> 364 \<or> doy = 365 \<and> isLeapYear (y + 1))"

lemma isLeapYear_mod: "isLeapYear y \<longleftrightarrow> (y mod 4 = 0 \<and> y mod 100 \<noteq> 0) \<or> y mod 400 = 0"
  by (simp add: isLeapYear_def smod_zero_iff)

lemma mod_top_zero:
  assumes "1 \<le> (a :: int)" "a \<le> b"
  shows "(b * k + a) mod b = 0 \<longleftrightarrow> a = b"
  using assms divmod_unique [of a b k] by (cases "a = b") simp_all

lemma leap_digits:
  assumes "0 \<le> c" "c \<le> 3" "0 \<le> q" "q \<le> 24" "0 \<le> r" "r \<le> (3 :: int)"
  shows "isLeapYear (400 * era + (100 * c + 4 * q + r) + 1) \<longleftrightarrow> r = 3 \<and> (q < 24 \<or> c = 3)"
proof -
  define y where "y = 400 * era + (100 * c + 4 * q + r) + 1"
  have e: "y = 4 * (100 * era + 25 * c + q) + (r + 1)" "y = 100 * (4 * era + c) + (4 * q + r + 1)"
    "y = 400 * era + (100 * c + 4 * q + r + 1)" by (simp_all add: y_def)
  have "y mod 4 = 0 \<longleftrightarrow> r + 1 = 4" unfolding e(1) by (rule mod_top_zero) (use assms in simp_all)
  moreover have "y mod 100 = 0 \<longleftrightarrow> 4 * q + r + 1 = 100" unfolding e(2) by (rule mod_top_zero) (use assms in simp_all)
  moreover have "y mod 400 = 0 \<longleftrightarrow> 100 * c + 4 * q + r + 1 = 400" unfolding e(3) by (rule mod_top_zero) (use assms in simp_all)
  ultimately have "y mod 4 = 0 \<longleftrightarrow> r = 3" "y mod 100 = 0 \<longleftrightarrow> r = 3 \<and> q = 24" "y mod 400 = 0 \<longleftrightarrow> r = 3 \<and> q = 24 \<and> c = 3"
    using assms by auto
  then show ?thesis using assms unfolding isLeapYear_mod y_def [symmetric] by auto
qed

text \<open>The year of the era found again from a day of the era.\<close>

lemma yoe_found:
  assumes "0 \<le> c" "c \<le> 3" "0 \<le> q" "q \<le> 24" "0 \<le> r" "r \<le> (3 :: int)" "0 \<le> doy"
    and "doy \<le> 364 \<or> doy = 365 \<and> r = 3 \<and> (q < 24 \<or> c = 3)"
    and doe: "doe = 36524 * c + 1461 * q + 365 * r + doy"
  shows "0 \<le> doe \<and> doe < 146097 \<and>
    (doe - doe div 1460 + doe div 36524 - doe div 146096) div 365 = 100 * c + 4 * q + r"
proof -
  have bound: "0 \<le> doe" "doe < 146097" using assms by auto
  have top: "doe div 36524 - doe div 146096 = c"
  proof (cases "doe = 146096")
    case True
    with assms have "c = 3" by auto
    with True show ?thesis by simp
  next
    case False
    with assms have "0 \<le> 1461 * q + 365 * r + doy" "1461 * q + 365 * r + doy < 36524" by auto
    moreover have "doe = 36524 * c + (1461 * q + 365 * r + doy)" using doe by simp
    ultimately have "doe div 36524 = c" using divmod_unique by metis
    moreover have "doe div 146096 = 0" using False bound by simp
    ultimately show ?thesis by simp
  qed
  define e where "e = 24 * c + q + 365 * r + doy"
  define x :: int where "x = (if e \<ge> 1460 then 1 else 0)"
  have "0 \<le> e - 1460 * x" "e - 1460 * x < 1460" using assms by (auto simp: e_def x_def)
  moreover have "1460 * (25 * c + q + x) + (e - 1460 * x) = doe" unfolding doe e_def by (simp add: algebra_simps)
  ultimately have "doe div 1460 = 25 * c + q + x" using divmod_unique by metis
  then have "doe - doe div 1460 + doe div 36524 - doe div 146096 = 365 * (100 * c + 4 * q + r) + (doy - x)"
    using top doe by simp
  moreover have "0 \<le> doy - x" "doy - x < 365" using assms by (auto simp: e_def x_def)
  ultimately have "(doe - doe div 1460 + doe div 36524 - doe div 146096) div 365 = 100 * c + 4 * q + r"
    using divmod_unique by metis
  with bound show ?thesis by simp
qed

definition year_start :: "int \<Rightarrow> int" where
  "year_start yoe = 365 * yoe + yoe div 4 - yoe div 100"

lemma yoe_of_day:
  assumes "doy_ok y doy"
  defines "doe \<equiv> year_start (y mod 400) + doy"
  shows "0 \<le> doe \<and> doe < 146097 \<and> (doe - doe div 1460 + doe div 36524 - doe div 146096) div 365 = y mod 400"
proof -
  have "0 \<le> y mod 400" "y mod 400 < 400" by simp_all
  then obtain c q r where d: "y mod 400 = 100 * c + 4 * q + r" "0 \<le> c" "c \<le> 3" "0 \<le> q" "q \<le> 24" "0 \<le> r" "r \<le> 3"
    "y mod 400 div 4 = 25 * c + q" "y mod 400 div 100 = c" by (rule year_digits)
  have "isLeapYear (y + 1) \<longleftrightarrow> r = 3 \<and> (q < 24 \<or> c = 3)"
    using leap_digits [OF d(2-7), of "y div 400"] mult_div_mod_eq [of 400 y] d(1) by simp
  moreover have "doe = 36524 * c + 1461 * q + 365 * r + doy"
    using d by (simp add: doe_def year_start_def)
  ultimately show ?thesis using yoe_found [OF d(2-7), of doy doe] assms(1) d(1) by (simp add: doy_ok_def)
qed

section \<open>Months\<close>

lemma div_between: "b * q \<le> a \<Longrightarrow> a < b * q + b \<Longrightarrow> 0 < b \<Longrightarrow> a div b = (q :: int)"
  using int_div_pos_eq [of a b q "a - b * q"] by simp

lemma month_cases:
  assumes "1 \<le> (m :: int)" "m \<le> 12"
  obtains "m = 1" | "m = 2" | "m = 3" | "m = 4" | "m = 5" | "m = 6" | "m = 7" | "m = 8" | "m = 9" | "m = 10" | "m = 11" | "m = 12"
proof -
  have "m = 1 \<or> m = 2 \<or> m = 3 \<or> m = 4 \<or> m = 5 \<or> m = 6 \<or> m = 7 \<or> m = 8 \<or> m = 9 \<or> m = 10 \<or> m = 11 \<or> m = 12"
    using assms by presburger
  then show thesis using that by blast
qed

definition march_month :: "int \<Rightarrow> int" where
  "march_month m = m + (if m > 2 then - 3 else 9)"

definition march_year :: "int \<Rightarrow> int \<Rightarrow> int" where
  "march_year y m = y - (if m \<le> 2 then 1 else 0)"

lemma valid_doy:
  assumes "valid_date y m d"
  defines "doy \<equiv> month_start (march_month m) + d - 1"
  shows "doy_ok (march_year y m) doy \<and> (5 * doy + 2) div 153 = march_month m \<and> 0 \<le> march_month m \<and> march_month m \<le> 11"
proof -
  have m: "1 \<le> m" "m \<le> 12" and d: "1 \<le> d" "d \<le> daysInMonth y m" using assms by (simp_all add: valid_date_def)
  from m show ?thesis
    by (cases rule: month_cases)
      (use d in \<open>auto simp: doy_def month_start_def march_month_def march_year_def daysInMonth_def doy_ok_def
        eval_nat_numeral intro!: div_between split: if_splits\<close>)
qed

lemma doy_valid:
  assumes "doy_ok y doy"
  obtains m d where "doy = month_start (march_month m) + d - 1" "valid_date (y + (if m \<le> 2 then 1 else 0)) m d"
proof -
  define mp where "mp = (5 * doy + 2) div 153"
  have doy: "0 \<le> doy" "doy \<le> 365" using assms by (auto simp: doy_ok_def)
  define m where "m = mp + (if mp < 10 then 3 else - 9)"
  have mp: "153 * mp \<le> 5 * doy + 2" "5 * doy + 2 < 153 * mp + 153" 
    using mult_div_mod_eq [of 153 "5 * doy + 2"] pos_mod_bound [of 153 "5 * doy + 2"] pos_mod_sign [of 153 "5 * doy + 2"]
    unfolding mp_def by linarith+
  with doy have "0 \<le> mp" "mp \<le> 11" by linarith+
  then have m: "1 \<le> m" "m \<le> 12" "mp = march_month m" by (auto simp: m_def march_month_def)
  define d where "d = doy - month_start mp + 1"
  have "valid_date (y + (if m \<le> 2 then 1 else 0)) m d"
    using m(1,2)
    by (cases rule: month_cases)
      (use mp doy assms m(3) in \<open>auto simp: valid_date_def d_def month_start_def march_month_def daysInMonth_def doy_ok_def
        eval_nat_numeral split: if_splits\<close>)
  moreover have "doy = month_start (march_month m) + d - 1" using m(3) by (simp add: d_def)
  ultimately show thesis by (rule that [rotated])
qed

section \<open>Round trip of dates and day numbers\<close>

lemma civil_day_start: "civil_day y doy = (y div 400) * 146097 + year_start (y mod 400) + doy - 719468"
  by (simp add: civil_day_def year_start_def)

lemma civilFromDays_day:
  assumes ok: "doy_ok y doy" and mp: "(5 * doy + 2) div 153 = mp" "0 \<le> mp" "mp \<le> 11"
  shows "civilFromDays (civil_day y doy) =
    (let m = mp + (if mp < 10 then 3 else - 9) in (y + (if m \<le> 2 then 1 else 0), m, doy - month_start mp + 1))"
proof -
  define doe where "doe = year_start (y mod 400) + doy"
  define z where "z = civil_day y doy + 719468"
  have doe: "0 \<le> doe" "doe < 146097" "(doe - doe div 1460 + doe div 36524 - doe div 146096) div 365 = y mod 400"
    using yoe_of_day [OF ok] by (simp_all add: doe_def)
  have z: "z = 146097 * (y div 400) + doe" by (simp add: z_def doe_def civil_day_start)
  have era: "(if z \<ge> 0 then z else z - 146096) sdiv 146097 = y div 400"
  proof (cases "z \<ge> 0")
    case True
    then show ?thesis using div_between [of 146097 "y div 400" z] doe z by (simp add: sdiv_pos)
  next
    case False
    have "- (z - 146096) div 146097 = - (y div 400)"
      by (rule div_between) (use doe z in simp_all)
    with False show ?thesis by (simp add: sdiv_neg)
  qed
  have pos: "0 \<le> doe - doe div 1460 + doe div 36524 - doe div 146096"
  proof (rule ccontr)
    assume "\<not> 0 \<le> doe - doe div 1460 + doe div 36524 - doe div 146096"
    then have "(doe - doe div 1460 + doe div 36524 - doe div 146096) div 365 < 0" by (simp add: neg_imp_zdiv_neg_iff)
    moreover have "0 \<le> y mod 400" by simp
    ultimately show False using doe(3) by linarith
  qed
  have yoe: "(doe - doe sdiv 1460 + doe sdiv 36524 - doe sdiv 146096) sdiv 365 = y mod 400"
    using doe pos by (simp add: sdiv_pos)
  have doy: "doe - (365 * (y mod 400) + (y mod 400) sdiv 4 - (y mod 400) sdiv 100) = doy"
    by (simp add: sdiv_pos doe_def year_start_def)
  have "(5 * doy + 2) sdiv 153 = mp" using ok mp by (simp add: sdiv_pos doy_ok_def)
  moreover have "(153 * mp + 2) sdiv 5 = month_start mp" using mp by (simp add: sdiv_pos month_start_def)
  moreover have "z - y div 400 * 146097 = doe" using z by simp
  moreover have "y mod 400 + y div 400 * 400 = y" by simp
  ultimately show ?thesis
    unfolding civilFromDays_def z_def [symmetric] Let_def era by (simp only: yoe doy)
qed

lemma march_month_inverse:
  "1 \<le> m \<Longrightarrow> m \<le> 12 \<Longrightarrow> march_month m + (if march_month m < 10 then 3 else - 9) = m"
  by (auto simp: march_month_def)

lemma daysFromCivil_march:
  "1 \<le> m \<Longrightarrow> daysFromCivil y m d = civil_day (march_year y m) (month_start (march_month m) + d - 1)"
  by (simp add: daysFromCivil_day march_year_def march_month_def)

lemma civil_inverse:
  assumes "valid_date y m d"
  shows "civilFromDays (daysFromCivil y m d) = (y, m, d)"
proof -
  have m: "1 \<le> m" "m \<le> 12" using assms by (simp_all add: valid_date_def)
  note v = valid_doy [OF assms]
  show ?thesis
    using civilFromDays_day [of "march_year y m" "month_start (march_month m) + d - 1" "march_month m"] v
    by (simp add: daysFromCivil_march m Let_def march_month_inverse m) (simp add: march_year_def)
qed

lemma day_digits:
  assumes "0 \<le> (doe :: int)" "doe < 146097"
  obtains c q r doy where "doe = 36524 * c + 1461 * q + 365 * r + doy" "0 \<le> c" "c \<le> 3" "0 \<le> q" "q \<le> 24" "0 \<le> r" "r \<le> 3"
    "0 \<le> doy" "doy \<le> 364 \<or> doy = 365 \<and> r = 3 \<and> (q < 24 \<or> c = 3)"
proof -
  define c where "c = min 3 (doe div 36524)"
  define u where "u = doe - 36524 * c"
  have dm: "36524 * (doe div 36524) \<le> doe" "doe < 36524 * (doe div 36524) + 36524"
    using mult_div_mod_eq [of 36524 doe] pos_mod_bound [of 36524 doe] pos_mod_sign [of 36524 doe] by linarith+
  then have c: "0 \<le> c" "c \<le> 3" "0 \<le> u" "u \<le> 36524" "u = 36524 \<longrightarrow> c = 3"
    using assms by (auto simp: c_def u_def min_def)
  define q where "q = u div 1461"
  define t where "t = u - 1461 * q"
  have qm: "0 \<le> t" "t < 1461"
    using mult_div_mod_eq [of 1461 u] pos_mod_bound [of 1461 u] pos_mod_sign [of 1461 u] unfolding t_def q_def by linarith+
  have q: "0 \<le> q" "q \<le> 24" using qm c by (auto simp: t_def)
  define r where "r = min 3 (t div 365)"
  have tm: "365 * (t div 365) \<le> t" "t < 365 * (t div 365) + 365"
    using mult_div_mod_eq [of 365 t] pos_mod_bound [of 365 t] pos_mod_sign [of 365 t] by linarith+
  have "0 \<le> r" "r \<le> 3" "0 \<le> t - 365 * r" "t - 365 * r \<le> 364 \<or> t - 365 * r = 365 \<and> r = 3 \<and> t = 1460"
    using tm qm by (auto simp: r_def min_def)
  then show thesis
    using c q by (intro that [of c q r "t - 365 * r"]) (auto simp: t_def u_def)
qed

lemma every_day: "\<exists>y doy. doy_ok y doy \<and> civil_day y doy = z"
proof -
  define era doe where "era = (z + 719468) div 146097" and "doe = (z + 719468) mod 146097"
  have "0 \<le> doe" "doe < 146097" by (simp_all add: doe_def)
  then obtain c q r doy where d: "doe = 36524 * c + 1461 * q + 365 * r + doy" "0 \<le> c" "c \<le> 3" "0 \<le> q" "q \<le> 24" "0 \<le> r" "r \<le> 3"
    "0 \<le> doy" "doy \<le> 364 \<or> doy = 365 \<and> r = 3 \<and> (q < 24 \<or> c = 3)" by (rule day_digits)
  define yoe where "yoe = 100 * c + 4 * q + r"
  have yoe: "0 \<le> yoe" "yoe < 400" "yoe div 4 = 25 * c + q" "yoe div 100 = c"
    using d by (auto simp: yoe_def intro!: div_between)
  define y where "y = 400 * era + yoe"
  have "y div 400 = era" "y mod 400 = yoe" using divmod_unique [OF yoe(1,2), of era] by (simp_all add: y_def)
  moreover have "146097 * era + doe = z + 719468" by (simp add: era_def doe_def)
  ultimately have "civil_day y doy = z"
    using d(1) yoe by (simp add: civil_day_start year_start_def) (simp add: yoe_def)
  moreover have "doy_ok y doy"
    using leap_digits [OF d(2-7), of era] d(8,9) by (auto simp: doy_ok_def y_def yoe_def)
  ultimately show ?thesis by blast
qed

lemma day_number_inverse:
  assumes "civilFromDays z = (y, m, d)"
  shows "valid_date y m d \<and> daysFromCivil y m d = z"
proof -
  obtain y1 doy where d: "doy_ok y1 doy" "civil_day y1 doy = z" using every_day by blast
  from doy_valid [OF d(1)] obtain m1 e where
    e: "doy = month_start (march_month m1) + e - 1" "valid_date (y1 + (if m1 \<le> 2 then 1 else 0)) m1 e" by blast
  let ?y = "y1 + (if m1 \<le> 2 then 1 else 0)"
  have "daysFromCivil ?y m1 e = z"
    using e d by (subst daysFromCivil_march) (auto simp: valid_date_def march_year_def)
  with civil_inverse [OF e(2)] e(2) assms show ?thesis by auto
qed

text \<open>
  Converting a date of the proleptic Gregorian calendar to its day number and back gives the same
  date, for every year, negative ones included.
\<close>

theorem civil_roundtrip:
  assumes "valid_date y m d"
  shows "civilFromDays (daysFromCivil y m d) = (y, m, d)"
  by (rule civil_inverse [OF assms])

theorem civil_roundtrip_witness: "civilFromDays (daysFromCivil (- 4) 2 29) = (- 4, 2, 29)"
  by (rule civil_roundtrip) (simp add: valid_date_def daysInMonth_def isLeapYear_mod)

text \<open>
  Every day number converts to a date that exists (month 1 to 12, day within the month), and the
  day number of that date is the one started from.
\<close>

theorem day_number_roundtrip:
  "case civilFromDays z of (y, m, d) \<Rightarrow> valid_date y m d \<and> daysFromCivil y m d = z"
  using day_number_inverse by (auto split: prod.splits)

end
