(* ===== verification/Calendar_Order.thy ===== *)
theory Calendar_Order
  imports Calendar
begin

text \<open>
  Day numbers count days: they agree with the calendar's successor function and follow the order of
  dates, which gives the range of years that a range of day numbers allows.
\<close>

section \<open>From one year to the next\<close>

lemma year_start_digits:
  assumes "0 \<le> c" "c \<le> 3" "0 \<le> q" "q \<le> 24" "0 \<le> r" "r \<le> (3 :: int)"
  shows "year_start (100 * c + 4 * q + r) = 36524 * c + 1461 * q + 365 * r"
proof -
  have "(100 * c + 4 * q + r) div 4 = 25 * c + q" "(100 * c + 4 * q + r) div 100 = c"
    using assms by (auto intro!: div_between)
  then show ?thesis by (simp add: year_start_def)
qed

lemma civil_day_add: "civil_day y (a + b) = civil_day y a + b"
  by (simp add: civil_day_def)

lemma next_year: "civil_day (y + 1) 0 = civil_day y (if isLeapYear (y + 1) then 366 else 365)"
proof -
  have "0 \<le> y mod 400" "y mod 400 < 400" by simp_all
  then obtain c q r where d: "y mod 400 = 100 * c + 4 * q + r" "0 \<le> c" "c \<le> 3" "0 \<le> q" "q \<le> 24" "0 \<le> r" "r \<le> 3"
    by (rule year_digits)
  have leap: "isLeapYear (y + 1) \<longleftrightarrow> r = 3 \<and> (q < 24 \<or> c = 3)"
    using leap_digits [OF d(2-7), of "y div 400"] mult_div_mod_eq [of 400 y] d(1) by simp
  define era where "era = y div 400"
  have y: "y = 400 * era + (100 * c + 4 * q + r)" using mult_div_mod_eq [of 400 y] d(1) by (simp add: era_def)
  have day: "civil_day (400 * e + (100 * c' + 4 * q' + r')) 0 = e * 146097 + 36524 * c' + 1461 * q' + 365 * r' - 719468"
    if "0 \<le> c'" "c' \<le> 3" "0 \<le> q'" "q' \<le> 24" "0 \<le> r'" "r' \<le> 3" for e c' q' r'
    using divmod_unique [of "100 * c' + 4 * q' + r'" 400 e] year_start_digits [OF that] that by (simp add: civil_day_start)
  have now: "civil_day y 0 = era * 146097 + 36524 * c + 1461 * q + 365 * r - 719468"
    unfolding y by (rule day [OF d(2-7)])
  consider "r < 3" | "r = 3" "q < 24" | "r = 3" "q = 24" "c < 3" | "r = 3" "q = 24" "c = 3" using d by linarith
  then have "civil_day (y + 1) 0 = civil_day y 0 + (if isLeapYear (y + 1) then 366 else 365)"
  proof cases
    case 1
    have e: "y + 1 = 400 * (era) + (100 * (c) + 4 * (q) + (r + 1))" using y 1 by simp
    have "civil_day (y + 1) 0 = (era) * 146097 + 36524 * (c) + 1461 * (q) + 365 * (r + 1) - 719468"
      unfolding e by (rule day) (use d 1 in simp_all)
    moreover have "\<not> isLeapYear (y + 1)" using leap 1 by simp
    ultimately show ?thesis using now 1 by simp
  next
    case 2
    have e: "y + 1 = 400 * (era) + (100 * (c) + 4 * (q + 1) + (0))" using y 2 by simp
    have "civil_day (y + 1) 0 = (era) * 146097 + 36524 * (c) + 1461 * (q + 1) + 365 * (0) - 719468"
      unfolding e by (rule day) (use d 2 in simp_all)
    moreover have "isLeapYear (y + 1)" using leap 2 by simp
    ultimately show ?thesis using now 2 by simp
  next
    case 3
    have e: "y + 1 = 400 * (era) + (100 * (c + 1) + 4 * (0) + (0))" using y 3 by simp
    have "civil_day (y + 1) 0 = (era) * 146097 + 36524 * (c + 1) + 1461 * (0) + 365 * (0) - 719468"
      unfolding e by (rule day) (use d 3 in simp_all)
    moreover have "\<not> isLeapYear (y + 1)" using leap 3 by simp
    ultimately show ?thesis using now 3 by simp
  next
    case 4
    have e: "y + 1 = 400 * (era + 1) + (100 * (0) + 4 * (0) + (0))" using y 4 by simp
    have "civil_day (y + 1) 0 = (era + 1) * 146097 + 36524 * (0) + 1461 * (0) + 365 * (0) - 719468"
      unfolding e by (rule day) (use d 4 in simp_all)
    moreover have "isLeapYear (y + 1)" using leap 4 by simp
    ultimately show ?thesis using now 4 by simp
  qed
  then show ?thesis using civil_day_add [of y 0 365] civil_day_add [of y 0 366] by simp
qed

section \<open>The successor of a date\<close>

definition next_date :: "int \<times> int \<times> int \<Rightarrow> int \<times> int \<times> int" where
  "next_date = (\<lambda>(y, m, d).
     if d < daysInMonth y m then (y, m, d + 1)
     else if m < 12 then (y, m + 1, 1) else (y + 1, 1, 1))"

lemma isLeapYear_29: "daysInMonth y 2 = (if isLeapYear y then 29 else 28)"
  by (simp add: daysInMonth_def)

lemma month_step:
  assumes "1 \<le> m" "m \<le> 12" "m \<noteq> 2"
  shows "month_start (march_month (if m < 12 then m + 1 else 1)) = month_start (march_month m) + daysInMonth y m"
    and "march_year (if m < 12 then y else y + 1) (if m < 12 then m + 1 else 1) = march_year y m"
  using assms
  by (cases rule: month_cases [OF assms(1,2)]; simp add: month_start_def march_month_def march_year_def daysInMonth_def eval_nat_numeral)+

lemma month_end:
  assumes "1 \<le> m" "m \<le> 12"
  shows "daysFromCivil (if m < 12 then y else y + 1) (if m < 12 then m + 1 else 1) 1 = daysFromCivil y m 1 + daysInMonth y m"
proof (cases "m = 2")
  case True
  have "daysFromCivil y 3 1 = civil_day ((y - 1) + 1) 0"
    by (simp add: daysFromCivil_march march_year_def march_month_def month_start_def)
  also have "\<dots> = civil_day (y - 1) (if isLeapYear y then 366 else 365)" using next_year [of "y - 1"] by simp
  also have "\<dots> = daysFromCivil y 2 1 + daysInMonth y 2"
    by (simp add: daysFromCivil_march march_year_def march_month_def month_start_def isLeapYear_29 civil_day_def)
  finally show ?thesis using True by simp
next
  case False
  have "1 \<le> (if m < 12 then m + 1 else 1)" using assms by simp
  then show ?thesis
    unfolding daysFromCivil_march [OF assms(1)] using month_step [OF assms False, of y]
    by (simp only: daysFromCivil_march) (simp add: civil_day_def)
qed

lemma daysFromCivil_day_add: "1 \<le> m \<Longrightarrow> daysFromCivil y m d = daysFromCivil y m 1 + d - 1"
  by (simp add: daysFromCivil_march civil_day_def)

text \<open>
  C29. The closed formula of \<open>daysFromCivil\<close> is the count of days since 1970-01-01: it is 0 there and
  grows by one from every date to the calendar's next date, across month ends, leap days, centuries
  and eras.
\<close>

theorem day_number_counts:
  assumes "valid_date y m d"
  shows "daysFromCivil 1970 1 1 = 0 \<and> (case next_date (y, m, d) of (y', m', d') \<Rightarrow>
    valid_date y' m' d' \<and> daysFromCivil y' m' d' = daysFromCivil y m d + 1)"
proof -
  have m: "1 \<le> m" "m \<le> 12" and d: "1 \<le> d" "d \<le> daysInMonth y m" using assms by (simp_all add: valid_date_def)
  have "daysFromCivil 1970 1 1 = 0"
    by (simp add: daysFromCivil_march march_year_def march_month_def month_start_def civil_day_def)
  moreover have first: "valid_date y' m' 1" if "1 \<le> m'" "m' \<le> 12" for y' m'
    using that by (cases rule: month_cases) (simp_all add: valid_date_def daysInMonth_def eval_nat_numeral)
  moreover have "daysFromCivil y m d = daysFromCivil y m 1 + d - 1" by (rule daysFromCivil_day_add [OF m(1)])
  ultimately show ?thesis
    using month_end [OF m, of y] m d first daysFromCivil_day_add [OF m(1), of y "d + 1"]
    by (auto simp: next_date_def valid_date_def split: if_splits)
qed

theorem day_number_counts_witness: "daysFromCivil 2000 3 1 = daysFromCivil 2000 2 29 + 1"
  using day_number_counts [of 2000 2 29] by (simp add: next_date_def valid_date_def daysInMonth_def isLeapYear_mod)

section \<open>Order\<close>

text \<open>The months in one sequence, by \<open>absoluteMonths\<close>.\<close>

definition month_first :: "int \<Rightarrow> int" where
  "month_first k = daysFromCivil (k div 12) (k mod 12 + 1) 1"

definition month_len :: "int \<Rightarrow> int" where
  "month_len k = daysInMonth (k div 12) (k mod 12 + 1)"

lemma absoluteMonths_divmod:
  "1 \<le> m \<Longrightarrow> m \<le> 12 \<Longrightarrow> absoluteMonths y m div 12 = y \<and> absoluteMonths y m mod 12 = m - 1"
  using divmod_unique [of "m - 1" 12 y] by (simp add: absoluteMonths_def mult.commute)

lemma daysFromCivil_month:
  assumes "1 \<le> m" "m \<le> 12"
  shows "daysFromCivil y m d = month_first (absoluteMonths y m) + d - 1" and "daysInMonth y m = month_len (absoluteMonths y m)"
  using absoluteMonths_divmod [OF assms, of y] daysFromCivil_day_add [OF assms(1), of y d]
  by (simp_all add: month_first_def month_len_def)

lemma month_len_bounds: "28 \<le> month_len k \<and> month_len k \<le> 31"
proof -
  have "1 \<le> k mod 12 + 1" "k mod 12 + 1 \<le> 12" using pos_mod_bound [of 12 k] pos_mod_sign [of 12 k] by linarith+
  then show ?thesis unfolding month_len_def
    by (cases rule: month_cases) (simp_all add: daysInMonth_def eval_nat_numeral)
qed

lemma month_first_Suc: "month_first (k + 1) = month_first k + month_len k"
proof -
  define y m where "y = k div 12" and "m = k mod 12 + 1"
  have m: "1 \<le> m" "m \<le> 12" using pos_mod_bound [of 12 k] pos_mod_sign [of 12 k] unfolding m_def by linarith+
  have k: "k = absoluteMonths y m" by (simp add: absoluteMonths_def y_def m_def)
  have "k + 1 = absoluteMonths (if m < 12 then y else y + 1) (if m < 12 then m + 1 else 1)"
    using m by (auto simp: k absoluteMonths_def)
  then have "month_first (k + 1) = daysFromCivil (if m < 12 then y else y + 1) (if m < 12 then m + 1 else 1) 1"
    using m daysFromCivil_month(1) [of "if m < 12 then m + 1 else 1" "if m < 12 then y else y + 1" 1] by simp
  then show ?thesis using month_end [OF m, of y] by (simp add: month_first_def month_len_def y_def m_def)
qed

lemma months_ascend: "j \<le> k \<Longrightarrow> month_first j + 28 * (k - j) \<le> month_first k"
proof (induction k rule: int_ge_induct)
  case (step i)
  then show ?case using month_first_Suc [of i] month_len_bounds [of i] by simp
qed simp

lemma months_ascend_upper: "j \<le> k \<Longrightarrow> month_first k \<le> month_first j + 31 * (k - j)"
proof (induction k rule: int_ge_induct)
  case (step i)
  then show ?case using month_first_Suc [of i] month_len_bounds [of i] by simp
qed simp

definition date_less :: "int \<times> int \<times> int \<Rightarrow> int \<times> int \<times> int \<Rightarrow> bool" where
  "date_less = (\<lambda>(y, m, d) (y', m', d'). y < y' \<or> y = y' \<and> (m < m' \<or> m = m' \<and> d < d'))"

lemma date_less_days:
  assumes "valid_date y m d" "valid_date y' m' d'" "date_less (y, m, d) (y', m', d')"
  shows "daysFromCivil y m d < daysFromCivil y' m' d'"
proof -
  let ?k = "absoluteMonths y m" let ?k' = "absoluteMonths y' m'"
  have v: "1 \<le> m" "m \<le> 12" "1 \<le> m'" "m' \<le> 12" "1 \<le> d" "d \<le> month_len ?k" "1 \<le> d'"
    using assms(1,2) by (auto simp: valid_date_def daysFromCivil_month)
  have "?k < ?k' \<or> ?k = ?k' \<and> d < d'"
    using assms(3) v by (auto simp: date_less_def absoluteMonths_def)
  then show ?thesis
    using v months_ascend [of "?k + 1" ?k'] month_first_Suc [of ?k] by (auto simp: daysFromCivil_month(1))
qed

lemma date_less_iff:
  assumes "valid_date y m d" "valid_date y' m' d'"
  shows "daysFromCivil y m d < daysFromCivil y' m' d' \<longleftrightarrow> date_less (y, m, d) (y', m', d')"
proof -
  have "date_less (y, m, d) (y', m', d') \<or> (y, m, d) = (y', m', d') \<or> date_less (y', m', d') (y, m, d)"
    by (auto simp: date_less_def)
  with date_less_days [OF assms] date_less_days [OF assms(2,1)] show ?thesis by fastforce
qed

lemma day_number_inject:
  assumes "valid_date y m d" "valid_date y' m' d'" "daysFromCivil y m d = daysFromCivil y' m' d'"
  shows "(y, m, d) = (y', m', d')"
  using civil_inverse [OF assms(1)] civil_inverse [OF assms(2)] assms(3) by (simp only:)

lemma epoch_day_years:
  assumes "valid_date y m d"
  shows "- 365243219162 \<le> daysFromCivil y m d \<and> daysFromCivil y m d \<le> 365241780471 \<longleftrightarrow>
    - 999999999 \<le> y \<and> y \<le> 999999999"
proof -
  have hi: "valid_date 999999999 12 31" and lo: "valid_date (- 999999999) 1 1"
    by (simp_all add: valid_date_def daysInMonth_def eval_nat_numeral)
  have n: "daysFromCivil 999999999 12 31 = 365241780471" "daysFromCivil (- 999999999) 1 1 = - 365243219162"
    by (simp_all add: daysFromCivil_march march_year_def march_month_def month_start_def civil_day_def)
  have "1 \<le> m" "m \<le> 12" "1 \<le> d" "d \<le> 31"
    using assms month_len_bounds [of "absoluteMonths y m"] by (auto simp: valid_date_def daysFromCivil_month)
  then have "\<not> date_less (999999999, 12, 31) (y, m, d) \<longleftrightarrow> y \<le> 999999999"
    "\<not> date_less (y, m, d) (- 999999999, 1, 1) \<longleftrightarrow> - 999999999 \<le> y"
    by (auto simp: date_less_def)
  then show ?thesis
    using date_less_iff [OF hi assms] date_less_iff [OF assms lo] unfolding n by (auto simp: not_less)
qed

text \<open>
  The range of day numbers that \<open>addDuration\<close> accepts is exactly the range of years from
  \<open>-999999999\<close> to \<open>999999999\<close>: inside it the year fits the 32-bit field it is narrowed to.
\<close>

theorem epoch_day_range:
  assumes "valid_date y m d"
  shows "- 365243219162 \<le> daysFromCivil y m d \<and> daysFromCivil y m d \<le> 365241780471 \<longleftrightarrow>
    - 999999999 \<le> y \<and> y \<le> 999999999"
  by (rule epoch_day_years [OF assms])

theorem epoch_day_range_witness: "daysFromCivil 2024 2 29 \<le> 365241780471"
  using epoch_day_range [of 2024 2 29] by (simp add: valid_date_def daysInMonth_def isLeapYear_mod)

section \<open>Normalization\<close>

lemma normalize_months:
  "1 \<le> m \<and> m \<le> 12 \<Longrightarrow> (m - 1) div 12 = 0 \<and> (m - 1) mod 12 + 1 = (m :: int)"
  by simp

lemma floor12: "(if k \<ge> 0 then k sdiv 12 else - ((- k + 11) sdiv 12)) = k div (12 :: int)"
proof (cases "k \<ge> 0")
  case False
  have "(- k + 11) div 12 = - (k div 12)"
    using mult_div_mod_eq [of 12 k] pos_mod_bound [of 12 k] pos_mod_sign [of 12 k] by (intro div_between) linarith+
  with False show ?thesis by (simp add: sdiv_pos)
qed (simp add: sdiv_pos)

lemma normalizeDate_months:
  "normalizeDate y m d = civilFromDays (month_first (absoluteMonths y m) + d - 1)"
proof (cases "1 \<le> m \<and> m \<le> 12")
  case True
  then show ?thesis by (simp add: normalizeDate_def daysFromCivil_month(1) [of m y 1] add_diff_eq)
next
  case False
  have "absoluteMonths (y + (m - 1) div 12) (m - 1 - (m - 1) div 12 * 12 + 1) = absoluteMonths y m"
    by (simp add: absoluteMonths_def)
  moreover have "1 \<le> m - 1 - (m - 1) div 12 * 12 + 1" "m - 1 - (m - 1) div 12 * 12 + 1 \<le> 12"
    using mult_div_mod_eq [of 12 "m - 1"] pos_mod_bound [of 12 "m - 1"] pos_mod_sign [of 12 "m - 1"] by linarith+
  ultimately have "daysFromCivil (y + (m - 1) div 12) (m - 1 - (m - 1) div 12 * 12 + 1) 1 = month_first (absoluteMonths y m)"
    by (simp add: daysFromCivil_month(1))
  moreover have "m < 1 \<or> m > 12" using False by linarith
  ultimately show ?thesis
    by (simp add: normalizeDate_def floor12 Let_def add_diff_eq del: minus_div_mult_eq_mod)
qed

end
