(* ===== verification/Temporal_Value.thy ===== *)
theory Temporal_Value
  imports Calendar_Order Graph_Types
begin

text \<open>
  Equality, order and arithmetic of temporal values (\<^verbatim>\<open>common/types/temporal_value.cpp\<close>).  Fields are
  the words of the structs, read by \<^const>\<open>sint\<close> and narrowed back by \<^const>\<open>word_of_int\<close>; the
  \<^verbatim>\<open>int64_t\<close> and \<^verbatim>\<open>__int128\<close> locals between are integers, with \<open>to_i64\<close> for the explicit casts.
  A thrown \<^verbatim>\<open>QueryException\<close> is its kind.
\<close>

section \<open>Errors and casts\<close>

datatype query_error_kind = QE_Arithmetic | QE_Argument | QE_Syntax

type_synonym 'a qres = "query_error_kind + 'a"

definition qbind :: "'a qres \<Rightarrow> ('a \<Rightarrow> 'b qres) \<Rightarrow> 'b qres" where
  "qbind r k = (case r of Inl e \<Rightarrow> Inl e | Inr x \<Rightarrow> k x)"

lemma qbind_simps [simp]: "qbind (Inl e) k = Inl e" "qbind (Inr x) k = k x"
  by (simp_all add: qbind_def)

definition to_i64 :: "int \<Rightarrow> int" where
  "to_i64 x = sint (word_of_int x :: 64 word)"

abbreviation (input) DT_DATE :: date_time_kind where "DT_DATE \<equiv> 0"
abbreviation (input) DT_LOCAL_DATETIME :: date_time_kind where "DT_LOCAL_DATETIME \<equiv> 1"
abbreviation (input) DT_DATETIME :: date_time_kind where "DT_DATETIME \<equiv> 2"
abbreviation (input) TM_LOCAL_TIME :: time_kind where "TM_LOCAL_TIME \<equiv> 0"
abbreviation (input) TM_TIME :: time_kind where "TM_TIME \<equiv> 1"

abbreviation (input) NANOS :: int where "NANOS \<equiv> 1000000000"
abbreviation (input) DAY_NANOS :: int where "DAY_NANOS \<equiv> 86400000000000"

section \<open>Equality\<close>

text \<open>
  \<^verbatim>\<open>tz_name == o.tz_name\<close> compares shared pointers, not names.  Whether two equal names share one
  string is not in the values: it is the parameter \<open>same_tz\<close>.
\<close>

definition datetime_eq :: "(tz_name_ptr \<Rightarrow> tz_name_ptr \<Rightarrow> bool) \<Rightarrow> date_time_value \<Rightarrow> date_time_value \<Rightarrow> bool" where
  "datetime_eq same_tz a b =
     (if dt_kind a \<noteq> dt_kind b then False
      else if dt_kind a = DT_DATE then dt_year a = dt_year b \<and> dt_month a = dt_month b \<and> dt_day a = dt_day b
      else if dt_kind a = DT_LOCAL_DATETIME then
        dt_year a = dt_year b \<and> dt_month a = dt_month b \<and> dt_day a = dt_day b \<and> dt_hour a = dt_hour b \<and>
        dt_minute a = dt_minute b \<and> dt_second a = dt_second b \<and> dt_nanos a = dt_nanos b
      else if dt_kind a = DT_DATETIME then
        dt_year a = dt_year b \<and> dt_month a = dt_month b \<and> dt_day a = dt_day b \<and> dt_hour a = dt_hour b \<and>
        dt_minute a = dt_minute b \<and> dt_second a = dt_second b \<and> dt_nanos a = dt_nanos b \<and>
        dt_tz_offset_sec a = dt_tz_offset_sec b \<and> same_tz (dt_tz_name a) (dt_tz_name b)
      else False)"

definition time_eq :: "(tz_name_ptr \<Rightarrow> tz_name_ptr \<Rightarrow> bool) \<Rightarrow> time_value \<Rightarrow> time_value \<Rightarrow> bool" where
  "time_eq same_tz a b =
     (if tm_kind a \<noteq> tm_kind b then False
      else if tm_kind a = TM_LOCAL_TIME then
        tm_hour a = tm_hour b \<and> tm_minute a = tm_minute b \<and> tm_second a = tm_second b \<and> tm_nanos a = tm_nanos b
      else if tm_kind a = TM_TIME then
        tm_hour a = tm_hour b \<and> tm_minute a = tm_minute b \<and> tm_second a = tm_second b \<and> tm_nanos a = tm_nanos b \<and>
        tm_tz_offset_sec a = tm_tz_offset_sec b \<and> same_tz (tm_tz_name a) (tm_tz_name b)
      else False)"

definition duration_eq :: "duration_value \<Rightarrow> duration_value \<Rightarrow> bool" where
  "duration_eq a b \<longleftrightarrow> du_months a = du_months b \<and> du_days a = du_days b \<and> du_seconds a = du_seconds b \<and>
     du_nanos a = du_nanos b"

section \<open>Comparable form and order\<close>

definition day_nanos :: "int \<Rightarrow> int \<Rightarrow> int \<Rightarrow> int \<Rightarrow> int" where
  "day_nanos hour minute second nanos = (hour * 3600 + minute * 60 + second) * NANOS + nanos"

definition dt_day_nanos :: "date_time_value \<Rightarrow> int" where
  "dt_day_nanos tv = day_nanos (sint (dt_hour tv)) (sint (dt_minute tv)) (sint (dt_second tv)) (sint (dt_nanos tv))"

definition dt_epoch_day :: "date_time_value \<Rightarrow> int" where
  "dt_epoch_day tv = daysFromCivil (sint (dt_year tv)) (sint (dt_month tv)) (sint (dt_day tv))"

definition dt_comparable :: "date_time_value \<Rightarrow> int" where
  "dt_comparable tv = dt_epoch_day tv * DAY_NANOS +
     (dt_day_nanos tv - (if dt_kind tv = DT_DATETIME then sint (dt_tz_offset_sec tv) * NANOS else 0))"

definition tm_day_nanos :: "time_value \<Rightarrow> int" where
  "tm_day_nanos tv = day_nanos (sint (tm_hour tv)) (sint (tm_minute tv)) (sint (tm_second tv)) (sint (tm_nanos tv))"

definition tm_comparable :: "time_value \<Rightarrow> int" where
  "tm_comparable tv = tm_day_nanos tv - (if tm_kind tv = TM_TIME then sint (tm_tz_offset_sec tv) * NANOS else 0)"

definition dt_localFieldsLess :: "date_time_value \<Rightarrow> date_time_value \<Rightarrow> bool" where
  "dt_localFieldsLess a b =
     (if dt_year a \<noteq> dt_year b then sint (dt_year a) < sint (dt_year b)
      else if dt_month a \<noteq> dt_month b then sint (dt_month a) < sint (dt_month b)
      else if dt_day a \<noteq> dt_day b then sint (dt_day a) < sint (dt_day b)
      else if dt_hour a \<noteq> dt_hour b then sint (dt_hour a) < sint (dt_hour b)
      else if dt_minute a \<noteq> dt_minute b then sint (dt_minute a) < sint (dt_minute b)
      else if dt_second a \<noteq> dt_second b then sint (dt_second a) < sint (dt_second b)
      else sint (dt_nanos a) < sint (dt_nanos b))"

definition tm_localFieldsLess :: "time_value \<Rightarrow> time_value \<Rightarrow> bool" where
  "tm_localFieldsLess a b =
     (if tm_hour a \<noteq> tm_hour b then sint (tm_hour a) < sint (tm_hour b)
      else if tm_minute a \<noteq> tm_minute b then sint (tm_minute a) < sint (tm_minute b)
      else if tm_second a \<noteq> tm_second b then sint (tm_second a) < sint (tm_second b)
      else sint (tm_nanos a) < sint (tm_nanos b))"

definition dt_less :: "date_time_value \<Rightarrow> date_time_value \<Rightarrow> bool" where
  "dt_less a b =
     (if dt_kind a \<noteq> dt_kind b then False
      else if dt_kind a = DT_DATE \<or> dt_kind a = DT_LOCAL_DATETIME then dt_localFieldsLess a b
      else if dt_kind a = DT_DATETIME then
        (if dt_comparable a \<noteq> dt_comparable b then dt_comparable a < dt_comparable b else dt_localFieldsLess a b)
      else False)"

definition tm_less :: "time_value \<Rightarrow> time_value \<Rightarrow> bool" where
  "tm_less a b =
     (if tm_kind a \<noteq> tm_kind b then False
      else if tm_kind a = TM_TIME \<and> tm_comparable a \<noteq> tm_comparable b then tm_comparable a < tm_comparable b
      else tm_localFieldsLess a b)"

section \<open>Adding a duration\<close>

text \<open>Months first, the day clamped to the last day of the target month.\<close>

definition shift_months :: "int \<Rightarrow> int \<Rightarrow> int \<Rightarrow> int \<Rightarrow> int \<times> int \<times> int" where
  "shift_months year month day months =
     (let total = absoluteMonths year month + months;
          y = (if total \<ge> 0 then total sdiv 12 else - ((- total + 11) sdiv 12));
          m = total - y * 12 + 1;
          last_day = daysInMonth y m
      in (y, m, if last_day > 0 \<and> day > last_day then last_day else day))"

text \<open>Whole seconds and the rest, the rest made non-negative.\<close>

definition split_nanos :: "int \<Rightarrow> int \<Rightarrow> int \<times> int" where
  "split_nanos seconds nanos =
     (let total = seconds * NANOS + nanos;
          add_seconds = to_i64 (total sdiv NANOS); add_nanos = to_i64 (total smod NANOS)
      in if add_nanos < 0 then (add_seconds - 1, add_nanos + NANOS) else (add_seconds, add_nanos))"

text \<open>Carries from the nanoseconds up to the hours, truncating; the fields may come out negative.\<close>

definition carry_time :: "int \<times> int \<Rightarrow> int \<times> int \<times> int \<times> int \<Rightarrow> int \<times> int \<times> int \<times> int" where
  "carry_time = (\<lambda>(add_seconds, add_nanos) (hour, minute, second, nanos).
     let nanos = nanos + add_nanos;
         second = second + add_seconds + nanos sdiv NANOS;
         nanos = nanos smod NANOS;
         minute = minute + second sdiv 60;
         second = second smod 60;
         hour = hour + minute sdiv 60;
         minute = minute smod 60
     in (hour, minute, second, nanos))"

text \<open>Borrows for the negative fields.\<close>

definition borrow_time :: "int \<times> int \<times> int \<times> int \<Rightarrow> int \<times> int \<times> int \<times> int" where
  "borrow_time = (\<lambda>(hour, minute, second, nanos).
     let (second, nanos) = (if nanos < 0 then (second - 1, nanos + NANOS) else (second, nanos));
         (minute, second) = (if second < 0 then let bm = (- second + 59) sdiv 60 in (minute - bm, second + bm * 60)
                             else (minute, second));
         (hour, minute) = (if minute < 0 then let bh = (- minute + 59) sdiv 60 in (hour - bh, minute + bh * 60)
                           else (hour, minute))
     in (hour, minute, second, nanos))"

text \<open>The lambda \<^verbatim>\<open>narrow\<close>: the range check and the casts.\<close>

definition narrow_datetime :: "date_time_value \<Rightarrow> int \<times> int \<times> int \<Rightarrow> int \<times> int \<times> int \<times> int \<Rightarrow> date_time_value qres" where
  "narrow_datetime t = (\<lambda>(year, month, day) (hour, minute, second, nanos).
     let epoch_day = daysFromCivil year month day in
     if epoch_day < - 365243219162 \<or> epoch_day > 365241780471 then Inl QE_Arithmetic
     else Inr (t\<lparr>dt_year := word_of_int year, dt_month := word_of_int month, dt_day := word_of_int day,
       dt_hour := word_of_int hour, dt_minute := word_of_int minute, dt_second := word_of_int second,
       dt_nanos := word_of_int nanos\<rparr>))"

abbreviation (input) MAX_EPOCH_DAY :: int where "MAX_EPOCH_DAY \<equiv> 365241780471"

definition addDuration_dt :: "date_time_value \<Rightarrow> duration_value \<Rightarrow> date_time_value qres" where
  "addDuration_dt t du =
     (let days = sint (du_days du); months = sint (du_months du); seconds = sint (du_seconds du); nanos = sint (du_nanos du);
          kMaxSeconds = MAX_EPOCH_DAY * 86400
      in if days < - MAX_EPOCH_DAY \<or> days > MAX_EPOCH_DAY \<or> months < (- MAX_EPOCH_DAY) sdiv 28 \<or>
            months > MAX_EPOCH_DAY sdiv 28 \<or> seconds < - kMaxSeconds \<or> seconds > kMaxSeconds
         then Inl QE_Arithmetic
         else
           let date = (sint (dt_year t), sint (dt_month t), sint (dt_day t));
               time = (sint (dt_hour t), sint (dt_minute t), sint (dt_second t), sint (dt_nanos t));
               (year, month, day) = (if months \<noteq> 0 then (case date of (y, m, d) \<Rightarrow> shift_months y m d months) else date);
               (year, month, day) = normalizeDate year month (day + days)
           in if dt_kind t = DT_DATE then
                let extra_days = to_i64 ((seconds * NANOS + nanos) sdiv DAY_NANOS)
                in narrow_datetime t (normalizeDate year month (day + extra_days)) time
              else
                let (hour, minute, second, nanos) = carry_time (split_nanos seconds nanos) time;
                    extra_days = (if hour < 0 then (hour - 23) sdiv 24 else hour sdiv 24);
                    (year, month, day) = normalizeDate year month (day + extra_days);
                    (hour, minute, second, nanos) = borrow_time (hour - extra_days * 24, minute, second, nanos)
                in if hour < 0 then
                     let bd = (- hour + 23) sdiv 24
                     in narrow_datetime t (normalizeDate year month (day - bd)) (hour + bd * 24, minute, second, nanos)
                   else narrow_datetime t (year, month, day) (hour, minute, second, nanos))"

definition addDuration_tm :: "time_value \<Rightarrow> duration_value \<Rightarrow> time_value" where
  "addDuration_tm t du =
     (let (hour, minute, second, nanos) = carry_time (split_nanos (sint (du_seconds du)) (sint (du_nanos du)))
            (sint (tm_hour t), sint (tm_minute t), sint (tm_second t), sint (tm_nanos t));
          hour = hour smod 24;
          hour = (if hour < 0 then hour + 24 else hour);
          (hour, minute, second, nanos) = borrow_time (hour, minute, second, nanos)
      in t\<lparr>tm_hour := word_of_int hour, tm_minute := word_of_int minute, tm_second := word_of_int second,
           tm_nanos := word_of_int nanos\<rparr>)"

definition neg_duration :: "duration_value \<Rightarrow> duration_value" where
  "neg_duration du = \<lparr>du_months = - du_months du, du_days = - du_days du, du_seconds = - du_seconds du, du_nanos = - du_nanos du\<rparr>"

definition subDuration_dt :: "date_time_value \<Rightarrow> duration_value \<Rightarrow> date_time_value qres" where
  "subDuration_dt t du = addDuration_dt t (neg_duration du)"

definition subDuration_tm :: "time_value \<Rightarrow> duration_value \<Rightarrow> time_value" where
  "subDuration_tm t du = addDuration_tm t (neg_duration du)"

section \<open>Arithmetic of durations\<close>

definition checkedNarrow :: "int \<Rightarrow> (64 word) qres" where
  "checkedNarrow v = (if v > 9223372036854775807 \<or> v < - 9223372036854775808 then Inl QE_Argument else Inr (word_of_int v))"

definition normalizeDuration :: "duration_value \<Rightarrow> duration_value" where
  "normalizeDuration du =
     (let n = sint (du_nanos du);
          du = (if n < 0 then du\<lparr>du_nanos := du_nanos du + 1000000000, du_seconds := du_seconds du - 1\<rparr>
                else if n \<ge> NANOS then du\<lparr>du_nanos := du_nanos du - 1000000000, du_seconds := du_seconds du + 1\<rparr>
                else du)
      in if sint (du_seconds du) < 0 \<and> sint (du_nanos du) > 0
         then du\<lparr>du_nanos := du_nanos du - 1000000000, du_seconds := du_seconds du + 1\<rparr>
         else if sint (du_seconds du) > 0 \<and> sint (du_nanos du) < 0
         then du\<lparr>du_nanos := du_nanos du + 1000000000, du_seconds := du_seconds du - 1\<rparr>
         else du)"

definition normalizeDurationNanos :: "duration_value \<Rightarrow> duration_value qres" where
  "normalizeDurationNanos du =
     (let n = sint (du_nanos du); s = sint (du_seconds du) in
      if n \<ge> 0 \<and> n < NANOS then Inr du
      else let carry = n sdiv NANOS; rem = n smod NANOS;
               (rem, carry) = (if rem < 0 then (rem + NANOS, carry - 1) else (rem, carry))
        in if carry > 0 \<and> s > 9223372036854775807 - carry then Inl QE_Argument
           else if carry < 0 \<and> s < - 9223372036854775808 - carry then Inl QE_Argument
           else Inr (du\<lparr>du_seconds := word_of_int (s + carry), du_nanos := word_of_int rem\<rparr>))"

text \<open>The common tail of the duration operations: seconds and nanoseconds from a total.\<close>

definition finish_duration :: "int \<Rightarrow> int \<Rightarrow> int \<Rightarrow> duration_value qres" where
  "finish_duration months days sum_ns =
     qbind (checkedNarrow months) (\<lambda>m. qbind (checkedNarrow days) (\<lambda>d.
     qbind (checkedNarrow (sum_ns sdiv NANOS)) (\<lambda>s.
       normalizeDurationNanos \<lparr>du_months = m, du_days = d, du_seconds = s, du_nanos = word_of_int (sum_ns smod NANOS)\<rparr>)))"

definition total_nanos :: "duration_value \<Rightarrow> int" where
  "total_nanos du = sint (du_seconds du) * NANOS + sint (du_nanos du)"

definition addDurations :: "duration_value \<Rightarrow> duration_value \<Rightarrow> duration_value qres" where
  "addDurations a b =
     finish_duration (sint (du_months a) + sint (du_months b)) (sint (du_days a) + sint (du_days b))
       (total_nanos a + total_nanos b)"

definition subDurations :: "duration_value \<Rightarrow> duration_value \<Rightarrow> duration_value qres" where
  "subDurations a b = addDurations a (neg_duration b)"

definition mulDuration :: "duration_value \<Rightarrow> 64 word \<Rightarrow> duration_value qres" where
  "mulDuration du factor =
     finish_duration (sint (du_months du) * sint factor) (sint (du_days du) * sint factor)
       (total_nanos du * sint factor)"

definition durationOrderNanos :: "duration_value \<Rightarrow> int" where
  "durationOrderNanos du =
     (let total_seconds = sint (du_months du) * 2629746 + sint (du_days du) * 86400 + sint (du_seconds du)
      in total_seconds * NANOS + sint (du_nanos du))"

section \<open>Durations between values\<close>

definition addMonthsClamped :: "date_time_value \<Rightarrow> int \<Rightarrow> date_time_value" where
  "addMonthsClamped a months =
     (if months = 0 then a
      else let total = absoluteMonths (sint (dt_year a)) (sint (dt_month a)) + months;
               y = (if total \<ge> 0 then total sdiv 12 else - ((- total + 11) sdiv 12));
               r = a\<lparr>dt_year := word_of_int y, dt_month := word_of_int (total - y * 12 + 1)\<rparr>;
               last_day = daysInMonth (sint (dt_year r)) (sint (dt_month r))
        in if last_day > 0 \<and> sint (dt_day r) > last_day then r\<lparr>dt_day := word_of_int last_day\<rparr> else r)"

definition localFieldsNanos :: "date_time_value \<Rightarrow> int" where
  "localFieldsNanos tv = dt_epoch_day tv * DAY_NANOS + dt_day_nanos tv"

definition timeOfDayNanos :: "date_time_value \<Rightarrow> bool \<Rightarrow> int" where
  "timeOfDayNanos v utc =
     dt_day_nanos v - (if utc \<and> dt_kind v = DT_DATETIME then sint (dt_tz_offset_sec v) * NANOS else 0)"

text \<open>\<^verbatim>\<open>LocalDate.minusDays(1)\<close> on the end date.\<close>

definition minus_day :: "int \<times> int \<times> int \<Rightarrow> int \<times> int \<times> int" where
  "minus_day = (\<lambda>(y, m, d).
     if d - 1 < 1 then
       (let (y, m) = (if m - 1 < 1 then (y - 1, 12) else (y, m - 1)) in (y, m, daysInMonth y m))
     else (y, m, d - 1))"

definition durationBetween_dt :: "date_time_value \<Rightarrow> date_time_value \<Rightarrow> duration_value qres" where
  "durationBetween_dt a b =
     (let has_time = (dt_kind a \<noteq> DT_DATE);
          both_zoned = (dt_kind a = DT_DATETIME \<and> dt_kind b = DT_DATETIME);
          end_date = (sint (dt_year b), sint (dt_month b), sint (dt_day b));
          (end_year, end_month, end_day) =
            (if has_time \<and> timeOfDayNanos b both_zoned < timeOfDayNanos a both_zoned then minus_day end_date else end_date);
          packed_a = packedMonthDay (sint (dt_year a)) (sint (dt_month a)) (sint (dt_day a));
          packed_b = packedMonthDay end_year end_month end_day;
          months = (packed_b - packed_a) sdiv 32;
          mid = addMonthsClamped a months;
          days = dt_epoch_day b - dt_epoch_day mid;
          frame = (\<lambda>v. if both_zoned then dt_comparable v else localFieldsNanos v);
          rem_ns = to_i64 (frame b - frame mid - days * DAY_NANOS);
          (days, rem_ns) = (if days > 0 \<and> rem_ns < 0 then (days - 1, rem_ns + DAY_NANOS)
                            else if days < 0 \<and> rem_ns > 0 then (days + 1, rem_ns - DAY_NANOS)
                            else (days, rem_ns))
      in normalizeDurationNanos \<lparr>du_months = word_of_int months, du_days = word_of_int days,
           du_seconds = word_of_int (rem_ns sdiv NANOS), du_nanos = word_of_int (rem_ns smod NANOS)\<rparr>)"

definition subtractDateTimes :: "date_time_value \<Rightarrow> date_time_value \<Rightarrow> duration_value qres" where
  "subtractDateTimes a b = durationBetween_dt b a"

definition subtractTimes :: "time_value \<Rightarrow> time_value \<Rightarrow> duration_value qres" where
  "subtractTimes a b =
     (let (a_norm, b_norm) = (if tm_kind a \<noteq> tm_kind b
            then (a\<lparr>tm_kind := TM_LOCAL_TIME\<rparr>, b\<lparr>tm_kind := TM_LOCAL_TIME\<rparr>) else (a, b));
          diff_ns = tm_comparable a_norm - tm_comparable b_norm
      in normalizeDurationNanos \<lparr>du_months = 0, du_days = 0, du_seconds = word_of_int (diff_ns sdiv NANOS),
           du_nanos = word_of_int (diff_ns smod NANOS)\<rparr>)"

definition durationBetween_tm :: "time_value \<Rightarrow> time_value \<Rightarrow> duration_value qres" where
  "durationBetween_tm a b = subtractTimes b a"

section \<open>Epoch conversion\<close>

definition new_datetime :: date_time_value where
  "new_datetime = \<lparr>dt_year = 1970, dt_nanos = 0, dt_tz_offset_sec = 0, dt_month = 1, dt_day = 1, dt_hour = 0, dt_minute = 0,
     dt_second = 0, dt_kind = DT_DATE, dt_tz_name = None\<rparr>"

definition datetimeFromEpoch :: "64 word \<Rightarrow> 64 word \<Rightarrow> date_time_value qres" where
  "datetimeFromEpoch seconds nanos =
     (let total = sint seconds * NANOS + sint nanos;
          days = to_i64 (total sdiv DAY_NANOS); day_ns = to_i64 (total smod DAY_NANOS);
          (day_ns, days) = (if day_ns < 0 then (day_ns + DAY_NANOS, days - 1) else (day_ns, days));
          (y, m, d) = civilFromDays days
      in if y < - 999999999 \<or> y > 999999999 then Inl QE_Argument
         else let sec_of_day = day_ns sdiv NANOS; min_of_day = sec_of_day sdiv 60
           in Inr (new_datetime\<lparr>dt_kind := DT_DATETIME, dt_year := word_of_int y, dt_month := word_of_int m,
                dt_day := word_of_int d, dt_nanos := word_of_int (day_ns smod NANOS),
                dt_second := word_of_int (sec_of_day smod 60), dt_minute := word_of_int (min_of_day smod 60),
                dt_hour := word_of_int (min_of_day sdiv 60)\<rparr>))"

end
