(* ===== verification/Doubles.thy ===== *)
theory Doubles
  imports Index_Key_Codec
begin

text \<open>
  Comparison of \<^verbatim>\<open>double\<close> values, given as IEEE-754 bit patterns, and the conversion
  \<^verbatim>\<open>static_cast<double>(int64_t)\<close>, which rounds to the nearest representable number, ties to even.
\<close>

section \<open>Comparison\<close>

definition double_nan :: "64 word \<Rightarrow> bool" where
  "double_nan d \<longleftrightarrow> take_bit 63 d > 0x7FF0000000000000"

text \<open>\<^verbatim>\<open>operator==\<close>: no NaN equals anything, the two zeros are equal.\<close>

definition double_eq :: "64 word \<Rightarrow> 64 word \<Rightarrow> bool" where
  "double_eq a b \<longleftrightarrow> \<not> double_nan a \<and> \<not> double_nan b \<and> (a = b \<or> take_bit 63 a = 0 \<and> take_bit 63 b = 0)"

text \<open>\<^verbatim>\<open>operator<\<close>: patterns of numbers are sign and magnitude, and the magnitudes order as the numbers do.\<close>

definition double_key :: "64 word \<Rightarrow> int" where
  "double_key d = (if bit d 63 then - int (unat (take_bit 63 d)) else int (unat (take_bit 63 d)))"

definition double_less :: "64 word \<Rightarrow> 64 word \<Rightarrow> bool" where
  "double_less a b \<longleftrightarrow> \<not> double_nan a \<and> \<not> double_nan b \<and> double_key a < double_key b"

section \<open>Conversion\<close>

fun bit_length :: "nat \<Rightarrow> nat" where
  "bit_length n = (if n = 0 then 0 else Suc (bit_length (n div 2)))"

declare bit_length.simps [simp del]

text \<open>The leading 53 bits of a magnitude, rounded.\<close>

definition round_even :: "nat \<Rightarrow> nat \<Rightarrow> nat" where
  "round_even m s = (let q = m div 2 ^ s; r = m mod 2 ^ s
     in if 2 * r > 2 ^ s \<or> 2 * r = 2 ^ s \<and> odd q then q + 1 else q)"

definition double_of_nat :: "nat \<Rightarrow> nat" where
  "double_of_nat m =
     (if m = 0 then 0
      else let e = bit_length m - 1;
               q = (if e \<le> 52 then m * 2 ^ (52 - e) else round_even m (e - 52))
        in (e + 1022) * 2 ^ 52 + q)"

definition double_of_int64 :: "64 word \<Rightarrow> 64 word" where
  "double_of_int64 i =
     (if sint i < 0 then of_nat (2 ^ 63 + double_of_nat (nat (- sint i))) else of_nat (double_of_nat (nat (sint i))))"

section \<open>Facts\<close>

lemma word_sign_split: "bit a 63 = bit b 63 \<Longrightarrow> take_bit 63 a = take_bit 63 b \<Longrightarrow> a = (b :: 64 word)"
proof (rule bit_word_eqI)
  fix n assume s: "bit a 63 = bit b 63" and t: "take_bit 63 a = take_bit 63 b" and "n < LENGTH(64)"
  then consider "n = 63" | "n < 63" by fastforce
  then show "bit a n = bit b n"
  proof cases
    case 2
    then show ?thesis using arg_cong [OF t, of "\<lambda>w. bit w n"] by (simp add: bit_take_bit_iff)
  qed (simp add: s)
qed

lemma double_key_eq: "double_key a = double_key b \<longleftrightarrow> a = b \<or> take_bit 63 a = 0 \<and> take_bit 63 b = 0"
proof -
  define f where "f w = unat (take_bit 63 w)" for w :: "64 word"
  have f1: "f w = 0 \<longleftrightarrow> take_bit 63 w = 0" for w by (simp add: f_def unat_eq_zero)
  have f2: "f v = f w \<longleftrightarrow> take_bit 63 v = take_bit 63 w" for v w by (simp only: f_def word_unat_eq_iff)
  have "double_key w = (if bit w 63 then - int (f w) else int (f w))" for w by (simp add: double_key_def f_def)
  then show ?thesis using word_sign_split [of a b] f1 [of a] f1 [of b] f2 [of a b] by auto
qed

lemma double_eq_key: "double_eq a b \<longleftrightarrow> \<not> double_nan a \<and> \<not> double_nan b \<and> double_key a = double_key b"
  by (simp add: double_eq_def double_key_eq)

lemma take_bit_63: "\<not> bit d 63 \<Longrightarrow> take_bit 63 d = (d :: 64 word)"
  using word_sign_split [of "take_bit 63 d" d] by (simp add: bit_take_bit_iff)

lemma double_scaled_key:
  "double_scaled d = (if double_key d < 0 then - int (double_mag (nat (- double_key d))) else int (double_mag (nat (double_key d))))"
proof -
  define n where "n = unat (take_bit 63 d)"
  have "double_key d = (if bit d 63 then - int n else int n)"
    "double_scaled d = (if bit d 63 then - int (double_mag n) else int (double_mag n))"
    using take_bit_63 [of d] by (simp_all add: double_key_def double_scaled_def n_def)
  then show ?thesis by (simp add: double_mag_0_iff)
qed

lemma double_key_less: "double_key a < double_key b \<longleftrightarrow> double_scaled a < double_scaled b"
proof -
  have "0 < double_mag (nat (- k))" if "k < 0" for k using that double_mag_0_iff [of "nat (- k)"] by auto
  from this [of "double_key a"] this [of "double_key b"] show ?thesis
    by (cases "double_key a < 0"; cases "double_key b < 0")
      (simp_all add: double_scaled_key double_mag_mono, linarith+)
qed

text \<open>Integers of at most 53 bits convert exactly.\<close>

lemma bit_length_bounds: "m \<noteq> 0 \<Longrightarrow> 2 ^ (bit_length m - 1) \<le> m \<and> m < 2 ^ bit_length m"
proof (induction m rule: bit_length.induct)
  case (1 m)
  show ?case
  proof (cases "m div 2 = 0")
    case True
    with 1(2) have "m = 1" by simp
    then show ?thesis by (simp add: bit_length.simps)
  next
    case False
    obtain k where k: "bit_length (m div 2) = Suc k" using False by (simp add: bit_length.simps)
    have "2 ^ k \<le> m div 2" "m div 2 < 2 ^ Suc k" using 1(1) [OF 1(2) False] k by auto
    moreover have "bit_length m = Suc (Suc k)" using 1(2) k by (simp add: bit_length.simps)
    ultimately show ?thesis by auto
  qed
qed

lemma double_mag_parts: "e \<noteq> 0 \<Longrightarrow> 2 ^ 52 \<le> q \<Longrightarrow> q < 2 ^ 53 \<Longrightarrow> double_mag ((e - 1) * 2 ^ 52 + q) = q * 2 ^ (e - 1)"
proof -
  assume e: "e \<noteq> 0" and q: "2 ^ 52 \<le> q" "q < (2 ^ 53 :: nat)"
  obtain f where f: "q = 2 ^ 52 + f" "f < 2 ^ 52" using q by (auto simp: le_iff_add)
  have s: "(e - 1) * 2 ^ 52 + q = f + e * 2 ^ 52" using e f(1) by (cases e) auto
  have d: "(f + e * 2 ^ 52) div 2 ^ 52 = e" "(f + e * 2 ^ 52) mod 2 ^ 52 = f" using f(2) by simp_all
  show "double_mag ((e - 1) * 2 ^ 52 + q) = q * 2 ^ (e - 1)" unfolding s double_mag_def d using e f(1) by simp
qed

lemma double_of_nat_exact:
  assumes "m \<le> 2 ^ 53"
  shows "double_mag (double_of_nat m) = m * 2 ^ 1074 \<and> double_of_nat m < 2 ^ 63"
proof -
  define e where "e = bit_length m - 1"
  consider "m = 0" | "m = 2 ^ 53" | "m \<noteq> 0" "m < 2 ^ 53" using assms by linarith
  then show ?thesis
  proof cases
    case 3
    have b: "2 ^ e \<le> m" "m < 2 ^ Suc e" using bit_length_bounds [OF 3(1)] 3(1) bit_length.simps [of m] by (auto simp: e_def)
    with 3(2) have "(2 :: nat) ^ e < 2 ^ 53" by linarith
    then have e: "e \<le> 52" by (subst (asm) power_strict_increasing_iff) auto
    define q where "q = m * 2 ^ (52 - e)"
    have q: "2 ^ 52 \<le> q" "q < 2 ^ 53"
      using mult_le_mono1 [OF b(1), of "2 ^ (52 - e)"] mult_less_mono1 [OF b(2), of "2 ^ (52 - e)"] e
      by (simp_all add: q_def flip: power_add power_Suc)
    have d: "double_of_nat m = (e + 1023 - 1) * 2 ^ 52 + q"
      using 3(1) e unfolding q_def e_def by (simp add: double_of_nat_def Let_def)
    have "double_mag (double_of_nat m) = q * 2 ^ (e + 1023 - 1)" unfolding d by (rule double_mag_parts) (use q in auto)
    also have "\<dots> = m * 2 ^ 1074" using e by (simp add: q_def flip: power_add)
    finally have "double_mag (double_of_nat m) = m * 2 ^ 1074" .
    moreover have "double_of_nat m < 2 ^ 63" using e q by (simp add: d)
    ultimately show ?thesis by blast
  qed (simp_all add: double_of_nat_def double_mag_def bit_length.simps round_even_def)
qed

lemma of_nat_sign:
  assumes "k < 2 ^ 63"
  shows "unat (of_nat k :: 64 word) = k" "\<not> bit (of_nat k :: 64 word) 63" "bit (of_nat (2 ^ 63 + k) :: 64 word) 63"
    "take_bit 63 (of_nat (2 ^ 63 + k) :: 64 word) = of_nat k"
proof -
  have u: "unat (of_nat j :: 64 word) = j" if "j < 2 ^ 64" for j using that by (simp add: unsigned_of_nat take_bit_nat_eq_self)
  have b: "bit (w :: 64 word) 63 \<longleftrightarrow> odd (unat w div 2 ^ 63)" for w
    using bit_unsigned_iff [of w 63, where ?'a = nat] by (simp add: bit_iff_odd)
  have d: "(2 ^ 63 + k) div 2 ^ 63 = 1" "k div 2 ^ 63 = 0" "(2 ^ 63 + k) mod 2 ^ 63 = k" using assms by simp_all
  show k: "unat (of_nat k :: 64 word) = k" using assms by (intro u) simp
  have k2: "unat (of_nat (2 ^ 63 + k) :: 64 word) = 2 ^ 63 + k" using assms by (intro u) simp
  show "\<not> bit (of_nat k :: 64 word) 63" unfolding b k d by simp
  show "bit (of_nat (2 ^ 63 + k) :: 64 word) 63" unfolding b k2 d by simp
  show "take_bit 63 (of_nat (2 ^ 63 + k) :: 64 word) = of_nat k"
    by (simp only: word_unat_eq_iff unsigned_take_bit_eq k2 k) (simp only: take_bit_eq_mod d)
qed

lemma double_scaled_of_int64:
  assumes "\<bar>sint i\<bar> \<le> 2 ^ 53"
  shows "double_scaled (double_of_int64 i) = sint i * 2 ^ 1074"
proof -
  define n where "n = nat \<bar>sint i\<bar>"
  have n: "n \<le> 2 ^ 53" using assms by (simp add: n_def nat_le_iff)
  note x = double_of_nat_exact [OF n]
  note w = of_nat_sign [OF conjunct2 [OF x]]
  show ?thesis
  proof (cases "sint i < 0")
    case True
    then show ?thesis using w x by (simp add: double_of_int64_def double_scaled_def n_def)
  next
    case False
    then show ?thesis using w x by (simp add: double_of_int64_def double_scaled_def n_def)
  qed
qed

end
