(* ===== verification/Index_Maintenance.thy ===== *)
theory Index_Maintenance
  imports Index_Proofs Temporal_Value Doubles
begin

text \<open>
  \<^verbatim>\<open>storage/data/index_maintenance.hpp\<close>: which index entries a vertex or an edge has, and their
  insertion under unique constraints.  A \<^verbatim>\<open>std::unordered_map\<close> of definitions is a map.
\<close>

section \<open>Equality of property values\<close>

text \<open>\<^verbatim>\<open>operator==\<close> of the variant: the same alternative with equal contents.\<close>

definition property_eq :: "(tz_name_ptr \<Rightarrow> tz_name_ptr \<Rightarrow> bool) \<Rightarrow> property_value \<Rightarrow> property_value \<Rightarrow> bool" where
  "property_eq same_tz x y =
     (case x of
        PDouble a \<Rightarrow> (case y of PDouble b \<Rightarrow> double_eq a b | _ \<Rightarrow> False)
      | PDoubleArray a \<Rightarrow> (case y of PDoubleArray b \<Rightarrow> list_all2 double_eq a b | _ \<Rightarrow> False)
      | PDateTime a \<Rightarrow> (case y of PDateTime b \<Rightarrow> datetime_eq same_tz a b | _ \<Rightarrow> False)
      | PTime a \<Rightarrow> (case y of PTime b \<Rightarrow> time_eq same_tz a b | _ \<Rightarrow> False)
      | PDuration a \<Rightarrow> (case y of PDuration b \<Rightarrow> duration_eq a b | _ \<Rightarrow> False)
      | PDateTimeArray a \<Rightarrow> (case y of PDateTimeArray b \<Rightarrow> list_all2 (datetime_eq same_tz) a b | _ \<Rightarrow> False)
      | PTimeArray a \<Rightarrow> (case y of PTimeArray b \<Rightarrow> list_all2 (time_eq same_tz) a b | _ \<Rightarrow> False)
      | PDurationArray a \<Rightarrow> (case y of PDurationArray b \<Rightarrow> list_all2 duration_eq a b | _ \<Rightarrow> False)
      | _ \<Rightarrow> x = y)"

section \<open>Entries\<close>

record index_entry =
  en_table :: string
  en_values :: "property_value list"
  en_id :: "64 word"
  en_unique :: bool

type_synonym label_defs = "label_id \<rightharpoonup> label_def"
type_synonym edge_label_defs = "edge_label_id \<rightharpoonup> edge_label_def"

definition UINT16_MAX :: prop_id where "UINT16_MAX = 0xFFFF"

definition findPropId :: "label_defs \<Rightarrow> label_id \<Rightarrow> string \<Rightarrow> prop_id" where
  "findPropId defs label_id prop_name =
     (case defs label_id of
        None \<Rightarrow> UINT16_MAX
      | Some ld \<Rightarrow> (case find (\<lambda>pd. pd_name pd = prop_name) (ld_properties ld) of
          Some pd \<Rightarrow> pd_id pd | None \<Rightarrow> UINT16_MAX))"

text \<open>\<^verbatim>\<open>pid < props.size() && props[pid].has_value()\<close>\<close>

definition prop_at :: "properties \<Rightarrow> prop_id \<Rightarrow> property_value option" where
  "prop_at props pid = (if unat pid < length props then props ! unat pid else None)"

text \<open>The loop carries \<^verbatim>\<open>found\<close>; a conflict returns \<^const>\<open>None\<close> at once.\<close>

fun resolve_loop :: "(tz_name_ptr \<Rightarrow> tz_name_ptr \<Rightarrow> bool) \<Rightarrow> label_defs \<Rightarrow> string \<Rightarrow> label_props \<Rightarrow> property_value option \<Rightarrow>
    property_value option" where
  "resolve_loop same_tz defs prop_name [] found = found"
| "resolve_loop same_tz defs prop_name ((lid, props) # rest) found =
     (let pid = findPropId defs lid prop_name in
      case (if pid = UINT16_MAX then None else prop_at props pid) of
        None \<Rightarrow> resolve_loop same_tz defs prop_name rest found
      | Some candidate \<Rightarrow> (case found of
          Some v \<Rightarrow> if \<not> property_eq same_tz v candidate then None else resolve_loop same_tz defs prop_name rest found
        | None \<Rightarrow> resolve_loop same_tz defs prop_name rest (Some candidate)))"

definition resolveWeakAccessor :: "(tz_name_ptr \<Rightarrow> tz_name_ptr \<Rightarrow> bool) \<Rightarrow> label_defs \<Rightarrow> label_props \<Rightarrow> string \<Rightarrow>
    property_value option" where
  "resolveWeakAccessor same_tz defs lps prop_name = resolve_loop same_tz defs prop_name lps None"

definition indexIsLive :: "index_def \<Rightarrow> bool" where
  "indexIsLive idx \<longleftrightarrow> idx_state idx = WRITE_ONLY \<or> idx_state idx = PUBLIC"

definition strong_value :: "label_defs \<Rightarrow> label_props \<Rightarrow> index_accessor_def \<Rightarrow> property_value option" where
  "strong_value defs lps acc =
     (let pid = findPropId defs (acc_source_label_id acc) (acc_property_name acc) in
      case find (\<lambda>lp. fst lp = acc_source_label_id acc) lps of
        None \<Rightarrow> None
      | Some lp \<Rightarrow> if pid = UINT16_MAX then None else prop_at (snd lp) pid)"

text \<open>The values of the accessors, \<^const>\<open>None\<close> as soon as one is missing (\<^verbatim>\<open>all_present = false; break\<close>).\<close>

fun accessor_values :: "(tz_name_ptr \<Rightarrow> tz_name_ptr \<Rightarrow> bool) \<Rightarrow> label_defs \<Rightarrow> label_props \<Rightarrow> index_accessor_def list \<Rightarrow>
    property_value list option" where
  "accessor_values same_tz defs lps [] = Some []"
| "accessor_values same_tz defs lps (acc # accs) =
     (case (if acc_is_strong acc then strong_value defs lps acc
            else resolveWeakAccessor same_tz defs lps (acc_property_name acc)) of
        None \<Rightarrow> None
      | Some v \<Rightarrow> map_option ((#) v) (accessor_values same_tz defs lps accs))"

definition collectVertexIndexEntriesFromLabelProps :: "(tz_name_ptr \<Rightarrow> tz_name_ptr \<Rightarrow> bool) \<Rightarrow> label_defs \<Rightarrow> label_props \<Rightarrow>
    vertex_id \<Rightarrow> index_entry list" where
  "collectVertexIndexEntriesFromLabelProps same_tz defs lps vid =
     concat (map (\<lambda>(filter_label, _).
       case defs filter_label of
         None \<Rightarrow> []
       | Some ld \<Rightarrow> concat (map (\<lambda>idx.
           if \<not> indexIsLive idx \<or> idx_index_id idx = 0 then []
           else case accessor_values same_tz defs lps (idx_accessors idx) of
             None \<Rightarrow> []
           | Some values \<Rightarrow> [\<lparr>en_table = vidxTableById (idx_index_id idx), en_values = values, en_id = vid,
               en_unique = idx_unique idx\<rparr>]) (ld_indexes ld))) lps)"

fun prop_values :: "properties \<Rightarrow> prop_id list \<Rightarrow> property_value list option" where
  "prop_values props [] = Some []"
| "prop_values props (pid # pids) =
     (case prop_at props pid of None \<Rightarrow> None | Some v \<Rightarrow> map_option ((#) v) (prop_values props pids))"

definition collectEdgeIndexEntries :: "edge_label_defs \<Rightarrow> edge_label_id \<Rightarrow> edge_id \<Rightarrow> properties \<Rightarrow> index_entry list" where
  "collectEdgeIndexEntries defs elid eid props =
     (case defs elid of
        None \<Rightarrow> []
      | Some eld \<Rightarrow> concat (map (\<lambda>idx.
          if \<not> indexIsLive idx then []
          else case prop_values props (idx_prop_ids idx) of
            None \<Rightarrow> []
          | Some values \<Rightarrow>
              [\<lparr>en_table = (if length (idx_prop_ids idx) = 1 then eidxTable elid (idx_prop_ids idx ! 0)
                            else eidxCompositeTable elid (idx_prop_ids idx)),
                en_values = values, en_id = eid, en_unique = idx_unique idx\<rparr>]) (eld_indexes eld)))"

section \<open>Insertion\<close>

text \<open>The result of each \<^verbatim>\<open>insertIndexEntry\<close> is ignored; the count of conflicts is returned.\<close>

fun insert_entries :: "'s wt_engine \<Rightarrow> index_entry list \<Rightarrow> nat \<Rightarrow> ('s, nat) sprog" where
  "insert_entries w [] conflicts = ret conflicts"
| "insert_entries w (en # ens) conflicts =
     bindp (if en_unique en then checkUniqueConstraint w (en_table en) (en_values en) else ret True) (\<lambda>ok.
     if \<not> ok then insert_entries w ens (conflicts + 1)
     else seqp (insertIndexEntry w (en_table en) (en_values en) (en_id en)) (insert_entries w ens conflicts))"

definition insertVertexIndexEntries :: "'s wt_engine \<Rightarrow> index_entry list \<Rightarrow> ('s, nat) sprog" where
  "insertVertexIndexEntries w entries = insert_entries w entries 0"

definition insertEdgeIndexEntries :: "'s wt_engine \<Rightarrow> index_entry list \<Rightarrow> ('s, nat) sprog" where
  "insertEdgeIndexEntries w entries = insert_entries w entries 0"

section \<open>The unique check\<close>

text \<open>An index table on columns of fixed width.\<close>

definition index_table :: "nat \<Rightarrow> (bytes \<Rightarrow> bytes option) \<Rightarrow> bool" where
  "index_table n m \<longleftrightarrow> (\<forall>k \<in> dom m. \<exists>vs e. length vs = n \<and> list_all fixed_width vs \<and> k = encodeIndexKey vs e)"

definition index_content :: "nat \<Rightarrow> (bytes \<Rightarrow> bytes option) \<Rightarrow> (property_value list \<times> 64 word) set" where
  "index_content n m = {(vs, e). length vs = n \<and> list_all fixed_width vs \<and> m (encodeIndexKey vs e) \<noteq> None}"

lemma fold_unique_rows:
  assumes "\<And>k v. (k, v) \<in> set rows \<Longrightarrow> prefix p k"
  shows "fold_rows (on_unique_row p) rows found = Inr (found \<or> rows \<noteq> [])"
proof (cases rows)
  case (Cons r rows')
  then obtain k v where r: "r = (k, v)" by fastforce
  with Cons assms have "prefix p k" by auto
  then have "length p \<le> length k" by (rule prefix_length_le)
  with Cons r show ?thesis by (simp add: on_unique_row_def)
qed simp

lemma equality_prefix_key:
  assumes "length vs = length ws" "list_all fixed_width vs" "list_all fixed_width ws"
  shows "prefix (encodeEqualityPrefix vs) (encodeIndexKey ws e) \<longleftrightarrow> vs = ws"
  using sortable_prefix_iff [OF assms, of "be_bytes 8 e"] by (simp add: encodeEqualityPrefix_def encodeIndexKey_def)

lemma encodeIndexKey_inject:
  assumes "length vs = length ws" "list_all fixed_width vs" "list_all fixed_width ws"
  shows "encodeIndexKey vs e = encodeIndexKey ws f \<longleftrightarrow> vs = ws \<and> e = f"
proof
  assume eq: "encodeIndexKey vs e = encodeIndexKey ws f"
  have "prefix (encodeEqualityPrefix vs) (encodeIndexKey vs e)" using equality_prefix_key assms(2) by blast
  then have "vs = ws" using equality_prefix_key [OF assms] unfolding eq by simp
  moreover have "e = f" using eq decodeEntityId_encode(1) by metis
  ultimately show "vs = ws \<and> e = f" ..
qed simp

lemma index_table_prefix:
  assumes "index_table n m" "length vs = n" "list_all fixed_width vs"
  shows "(\<exists>k \<in> dom m. prefix (encodeEqualityPrefix vs) k) \<longleftrightarrow> (\<exists>e. (vs, e) \<in> index_content n m)"
proof
  assume "\<exists>k \<in> dom m. prefix (encodeEqualityPrefix vs) k"
  then obtain k where k: "k \<in> dom m" "prefix (encodeEqualityPrefix vs) k" ..
  then obtain ws e where ws: "length ws = n" "list_all fixed_width ws" "k = encodeIndexKey ws e"
    using assms(1) [unfolded index_table_def] by metis
  with k(2) assms have "vs = ws" using equality_prefix_key [of vs ws e] by simp
  with k(1) ws have "(vs, e) \<in> index_content n m" by (simp add: index_content_def dom_def)
  then show "\<exists>e. (vs, e) \<in> index_content n m" ..
next
  assume "\<exists>e. (vs, e) \<in> index_content n m"
  then obtain e where "encodeIndexKey vs e \<in> dom m" by (auto simp: index_content_def)
  moreover have "prefix (encodeEqualityPrefix vs) (encodeIndexKey vs e)" using equality_prefix_key assms(3) by blast
  ultimately show "\<exists>k \<in> dom m. prefix (encodeEqualityPrefix vs) k" ..
qed

lemma index_content_put:
  assumes "length vs = n" "list_all fixed_width vs"
  shows "index_content n (m(encodeIndexKey vs e \<mapsto> b)) = insert (vs, e) (index_content n m)"
  using assms encodeIndexKey_inject [of _ vs _ e] by (auto simp: index_content_def)

lemma index_table_put:
  "index_table n m \<Longrightarrow> length vs = n \<Longrightarrow> list_all fixed_width vs \<Longrightarrow> index_table n (m(encodeIndexKey vs e \<mapsto> b))"
  unfolding index_table_def by (metis dom_fun_upd insertE option.distinct(1))

section \<open>Refinement\<close>

text \<open>The abstract index: per table the set of its entries.\<close>

type_synonym index_rel = "string \<Rightarrow> (property_value list \<times> 64 word) set"

fun spec_insert :: "index_entry list \<Rightarrow> index_rel \<times> nat \<Rightarrow> index_rel \<times> nat" where
  "spec_insert [] (c, n) = (c, n)"
| "spec_insert (en # ens) (c, n) =
     (if en_unique en \<and> (\<exists>e. (en_values en, e) \<in> c (en_table en)) then spec_insert ens (c, n + 1)
      else spec_insert ens (c(en_table en := insert (en_values en, en_id en) (c (en_table en))), n))"

definition index_abs :: "(string \<Rightarrow> nat) \<Rightarrow> db \<Rightarrow> index_rel" where
  "index_abs arity d = (\<lambda>t. index_content (arity t) (d t))"

definition entry_ok :: "(string \<Rightarrow> nat) \<Rightarrow> db \<Rightarrow> index_entry \<Rightarrow> bool" where
  "entry_ok arity d en \<longleftrightarrow> length (en_values en) = arity (en_table en) \<and> list_all fixed_width (en_values en) \<and>
     index_table (arity (en_table en)) (d (en_table en))"

definition one_id_per_value :: "(property_value list \<times> 64 word) set \<Rightarrow> bool" where
  "one_id_per_value r \<longleftrightarrow> (\<forall>vs e f. (vs, e) \<in> r \<and> (vs, f) \<in> r \<longrightarrow> e = f)"

lemma spec_insert_unique:
  "spec_insert ens (c, n) = (c', n') \<Longrightarrow> one_id_per_value (c t) \<Longrightarrow>
   list_all (\<lambda>en. en_table en = t \<longrightarrow> en_unique en) ens \<Longrightarrow> one_id_per_value (c' t)"
proof (induction ens arbitrary: c n)
  case (Cons en ens)
  let ?skip = "en_unique en \<and> (\<exists>e. (en_values en, e) \<in> c (en_table en))"
  show ?case
  proof (cases ?skip)
    case True
    with Cons.prems show ?thesis using Cons.IH [of c "n + 1"] by simp
  next
    case False
    let ?c = "c(en_table en := insert (en_values en, en_id en) (c (en_table en)))"
    have "one_id_per_value (?c t)"
      using Cons.prems(2,3) False by (cases "en_table en = t") (auto simp: one_id_per_value_def)
    with Cons.prems(1,3) False show ?thesis using Cons.IH [of ?c n] by (simp del: fun_upd_apply split: if_splits)
  qed
qed simp

context reliable_wiredtiger
begin

lemma does_with_store: "does view m d y d' \<Longrightarrow> does view (with_session x m) d y d'"
  unfolding with_session_def by (rule does_present) simp

lemma does_unique:
  assumes "index_table n (d tab)" "length vs = n" "list_all fixed_width vs" "finite (dom (d tab))"
  shows "does view (checkUniqueConstraint w tab vs) d (Inr (\<forall>e. (vs, e) \<notin> index_content n (d tab))) d"
proof -
  let ?p = "encodeEqualityPrefix vs"
  have rows: "fold_rows (on_unique_row ?p) (scan_rows (d tab) ?p) False = Inr (scan_keys (d tab) ?p \<noteq> [])"
    using assms(4) by (subst fold_unique_rows) (auto simp: scan_rows_def scan_keys_def)
  have "scan_keys (d tab) ?p \<noteq> [] \<longleftrightarrow> (\<exists>k \<in> dom (d tab). prefix ?p k)"
    using set_scan_keys [OF assms(4), of ?p] set_empty [of "scan_keys (d tab) ?p"] by auto
  then have "scan_keys (d tab) ?p \<noteq> [] \<longleftrightarrow> (\<exists>e. (vs, e) \<in> index_content n (d tab))"
    by (simp only: index_table_prefix [OF assms(1-3)])
  with rows have "does view (table_scan w tab ?p (\<lambda>k v a. liftr (on_unique_row ?p k v a)) False) d
      (Inr (\<exists>e. (vs, e) \<in> index_content n (d tab))) d"
    by (intro does_scan_pure) simp
  then show ?thesis
    unfolding checkUniqueConstraint_def Let_def by (intro does_with_store does_bindp) auto
qed

lemma does_insertIndexEntry:
  "does view (insertIndexEntry w tab vs e) d (Inr True) (db_put tab (encodeIndexKey vs e) [] d)"
  unfolding insertIndexEntry_def Let_def by (intro does_with_store does_table_put)

end

lemma entry_ok_put:
  assumes "entry_ok arity d en" "entry_ok arity d x"
  shows "entry_ok arity (db_put (en_table en) (encodeIndexKey (en_values en) (en_id en)) [] d) x"
  using assms index_table_put [of "arity (en_table en)"] by (auto simp: entry_ok_def db_put_def)

lemma index_abs_put:
  assumes "entry_ok arity d en"
  shows "index_abs arity (db_put (en_table en) (encodeIndexKey (en_values en) (en_id en)) [] d) =
    (index_abs arity d)(en_table en := insert (en_values en, en_id en) (index_abs arity d (en_table en)))"
  using assms by (intro ext) (simp add: index_abs_def entry_ok_def db_put_def index_content_put)

context reliable_wiredtiger
begin

lemma does_insert_entries:
  assumes "list_all (entry_ok arity d) ens" "\<And>t. finite (dom (d t))"
  shows "\<exists>d'. does view (insert_entries w ens n) d (Inr (snd (spec_insert ens (index_abs arity d, n)))) d' \<and>
    index_abs arity d' = fst (spec_insert ens (index_abs arity d, n)) \<and>
    (\<forall>t. t \<notin> en_table ` set ens \<longrightarrow> d' t = d t) \<and>
    (\<forall>t. index_table (arity t) (d t) \<longrightarrow> index_table (arity t) (d' t))"
  using assms
proof (induction ens arbitrary: d n)
  case (Cons en ens)
  let ?vs = "en_values en" and ?t = "en_table en"
  let ?ok = "\<not> (en_unique en \<and> (\<exists>e. (?vs, e) \<in> index_abs arity d ?t))"
  let ?d = "db_put ?t (encodeIndexKey ?vs (en_id en)) [] d"
  have ok: "entry_ok arity d en" using Cons.prems by simp
  have check: "does view (if en_unique en then checkUniqueConstraint w ?t ?vs else ret True) d (Inr ?ok) d"
    using does_unique [of "arity ?t" d ?t ?vs] ok Cons.prems(2) by (simp add: entry_ok_def index_abs_def)
  show ?case
  proof (cases ?ok)
    case False
    from Cons.IH [of d "n + 1"] Cons.prems obtain d' where d':
      "does view (insert_entries w ens (n + 1)) d (Inr (snd (spec_insert ens (index_abs arity d, n + 1)))) d'"
      "index_abs arity d' = fst (spec_insert ens (index_abs arity d, n + 1))"
      "\<forall>t. t \<notin> en_table ` set ens \<longrightarrow> d' t = d t"
      "\<forall>t. index_table (arity t) (d t) \<longrightarrow> index_table (arity t) (d' t)" by auto
    have "does view (insert_entries w (en # ens) n) d (Inr (snd (spec_insert ens (index_abs arity d, n + 1)))) d'"
      unfolding insert_entries.simps using False by (intro does_bindp [OF check]) (simp add: d'(1) [simplified])
    moreover have "spec_insert (en # ens) (index_abs arity d, n) = spec_insert ens (index_abs arity d, n + 1)"
      using False by auto
    ultimately show ?thesis using d'(2-4) by (intro exI [of _ d']) simp
  next
    case True
    have "list_all (entry_ok arity ?d) ens" "\<And>t. finite (dom (?d t))"
      using Cons.prems entry_ok_put [OF ok] by (auto simp: list_all_iff db_put_def)
    from Cons.IH [OF this, of n] obtain d' where d':
      "does view (insert_entries w ens n) ?d (Inr (snd (spec_insert ens (index_abs arity ?d, n)))) d'"
      "index_abs arity d' = fst (spec_insert ens (index_abs arity ?d, n))"
      "\<forall>t. t \<notin> en_table ` set ens \<longrightarrow> d' t = ?d t"
      "\<forall>t. index_table (arity t) (?d t) \<longrightarrow> index_table (arity t) (d' t)" by blast
    have "does view (insert_entries w (en # ens) n) d (Inr (snd (spec_insert ens (index_abs arity ?d, n)))) d'"
      unfolding insert_entries.simps using True
      by (intro does_bindp [OF check]) (simp add: does_seqp [OF does_insertIndexEntry d'(1)])
    moreover have "spec_insert (en # ens) (index_abs arity d, n) = spec_insert ens (index_abs arity ?d, n)"
      using True index_abs_put [OF ok] by auto
    moreover have "index_table (arity t) (?d t)" if "index_table (arity t) (d t)" for t
      using that ok index_table_put [of "arity ?t"] by (simp add: entry_ok_def db_put_def)
    moreover have "\<forall>t. t \<notin> en_table ` set (en # ens) \<longrightarrow> d' t = d t"
      using d'(3) by (simp add: db_put_def)
    ultimately show ?thesis using d'(2,4) by (intro exI [of _ d']) simp
  qed
qed (auto intro!: exI)

end


lemma encodeIndexKey_single: "encodeIndexKey1 v e = encodeIndexKey [v] e"
  by (simp add: encodeIndexKey_def encodeIndexKey1_def encodeSortableValues_def)

lemma index_empty [simp]: "index_content n Map.empty = {}" "index_table n Map.empty"
  by (simp_all add: index_content_def index_table_def)


end
