(* ===== verification/Temporal_Proofs.thy ===== *)
theory Temporal_Proofs
  imports Temporal_Value
begin

text \<open>Lemmas on the temporal arithmetic: casts, carries and borrows, shifted months and normalized dates.\<close>

section \<open>Casts\<close>

lemma sint_word_of_int:
  assumes "- (2 ^ (LENGTH('a) - 1)) \<le> x" "x < 2 ^ (LENGTH('a) - 1)"
  shows "sint (word_of_int x :: 'a::len word) = x"
  using assms by (simp add: signed_of_int signed_take_bit_int_eq_self)

lemma to_i64_id: "- 9223372036854775808 \<le> x \<Longrightarrow> x < 9223372036854775808 \<Longrightarrow> to_i64 x = x"
  unfolding to_i64_def by (rule sint_word_of_int) simp_all

lemma sint8_of_int: "- 128 \<le> x \<Longrightarrow> x < 128 \<Longrightarrow> sint (word_of_int x :: 8 word) = x"
  by (rule sint_word_of_int) simp_all

lemma sint32_of_int: "- 2147483648 \<le> x \<Longrightarrow> x < 2147483648 \<Longrightarrow> sint (word_of_int x :: 32 word) = x"
  by (rule sint_word_of_int) simp_all

lemma sint64_of_int: "- 9223372036854775808 \<le> x \<Longrightarrow> x < 9223372036854775808 \<Longrightarrow> sint (word_of_int x :: 64 word) = x"
  by (rule sint_word_of_int) simp_all

lemma sint64_range: "- 9223372036854775808 \<le> sint (w :: 64 word)" "sint (w :: 64 word) < 9223372036854775808"
  using sint_greater_eq [of w] sint_less [of w] by simp_all

section \<open>Truncating division\<close>

lemma smod_abs: "0 < b \<Longrightarrow> - b < a smod b \<and> a smod b < (b :: int)"
proof -
  assume b: "0 < b"
  then have "0 \<le> \<bar>a\<bar> mod b" "\<bar>a\<bar> mod b < b" by simp_all
  with b show ?thesis by (auto simp: signed_modulo_int_def sgn_if)
qed

lemma smod_nonneg: "0 < b \<Longrightarrow> 0 \<le> a \<Longrightarrow> 0 \<le> a smod (b :: int)"
  by (simp add: smod_pos)

lemma floor24: "(if h < 0 then (h - 23) sdiv 24 else h sdiv 24) = h div (24 :: int)"
proof (cases "h < 0")
  case True
  have "- (h - 23) div 24 = - (h div 24)"
    using mult_div_mod_eq [of 24 h] pos_mod_bound [of 24 h] pos_mod_sign [of 24 h] by (intro div_between) linarith+
  with True show ?thesis by (simp add: sdiv_neg)
qed (simp add: sdiv_pos)

text \<open>Truncating division with a fix-up is flooring division.\<close>

lemma floor_fixup:
  "0 < b \<Longrightarrow> (if a smod b < 0 then (a sdiv b - 1, a smod b + b) else (a sdiv b, a smod b)) = (a div b, a mod (b :: int))"
proof -
  assume b: "0 < b"
  have e: "b * (a sdiv b) + a smod b = a" by (rule mult_sdiv_smod_eq)
  show ?thesis
  proof (cases "a smod b < 0")
    case True
    have "b * (a sdiv b - 1) + (a smod b + b) = a" using e by (simp add: right_diff_distrib)
    then have "a div b = a sdiv b - 1 \<and> a mod b = a smod b + b"
      using divmod_unique [of "a smod b + b" b "a sdiv b - 1"] smod_abs [OF b, of a] True by simp
    with True show ?thesis by simp
  next
    case False
    then have "a div b = a sdiv b \<and> a mod b = a smod b"
      using divmod_unique [of "a smod b" b "a sdiv b"] smod_abs [OF b, of a] e by simp
    with False show ?thesis by simp
  qed
qed

section \<open>Time of day\<close>

definition time_in_day :: "int \<Rightarrow> int \<Rightarrow> int \<Rightarrow> int \<Rightarrow> bool" where
  "time_in_day hour minute second nanos \<longleftrightarrow>
     0 \<le> hour \<and> hour < 24 \<and> 0 \<le> minute \<and> minute < 60 \<and> 0 \<le> second \<and> second < 60 \<and> 0 \<le> nanos \<and> nanos < NANOS"

lemma day_nanos_bounds: "time_in_day h m s n \<Longrightarrow> 0 \<le> day_nanos h m s n \<and> day_nanos h m s n < DAY_NANOS"
  by (simp add: time_in_day_def day_nanos_def)

lemma day_nanos_inject:
  assumes "time_in_day h m s n" "time_in_day h' m' s' n'" "day_nanos h m s n = day_nanos h' m' s' n'"
  shows "h = h' \<and> m = m' \<and> s = s' \<and> n = n'"
proof -
  have "NANOS * (h * 3600 + m * 60 + s) + n = NANOS * (h' * 3600 + m' * 60 + s') + n'"
    using assms(3) by (simp add: day_nanos_def mult.commute)
  then have 1: "h * 3600 + m * 60 + s = h' * 3600 + m' * 60 + s'" "n = n'"
    using divmod_unique [of n NANOS] divmod_unique [of n' NANOS] assms(1,2) unfolding time_in_day_def by metis+
  then have "60 * (h * 60 + m) + s = 60 * (h' * 60 + m') + s'" by simp
  then have 2: "h * 60 + m = h' * 60 + m'" "s = s'"
    using divmod_unique [of s 60] divmod_unique [of s' 60] assms(1,2) unfolding time_in_day_def by metis+
  then have "60 * h + m = 60 * h' + m'" by simp
  then have "h = h'" "m = m'"
    using divmod_unique [of m 60] divmod_unique [of m' 60] assms(1,2) unfolding time_in_day_def by metis+
  with 1 2 show ?thesis by simp
qed

lemma split_nanos_eq:
  assumes "- 9000000000000000000 \<le> s" "s \<le> 9000000000000000000" "- 9223372036854775808 \<le> n" "n < 9223372036854775808"
  shows "split_nanos s n = ((s * NANOS + n) div NANOS, (s * NANOS + n) mod NANOS)"
proof -
  let ?t = "s * NANOS + n"
  have e: "NANOS * (?t sdiv NANOS) + ?t smod NANOS = ?t" by (rule mult_sdiv_smod_eq)
  have m: "- NANOS < ?t smod NANOS" "?t smod NANOS < NANOS" using smod_abs [of NANOS ?t] by simp_all
  have "- 9223372036854775808 \<le> ?t sdiv NANOS" "?t sdiv NANOS < 9223372036854775808"
    using e m assms by linarith+
  then have i: "to_i64 (?t sdiv NANOS) = ?t sdiv NANOS" "to_i64 (?t smod NANOS) = ?t smod NANOS"
    using m by (auto intro!: to_i64_id)
  show ?thesis
    unfolding split_nanos_def Let_def i by (rule floor_fixup) simp
qed

lemma carry_time_total:
  assumes "carry_time (as, an) (h, m, s, n) = (h', m', s', n')" and "0 \<le> n" "0 \<le> an"
  shows "day_nanos h' m' s' n' = day_nanos h m s n + as * NANOS + an \<and>
    - 60 < m' \<and> m' < 60 \<and> - 60 < s' \<and> s' < 60 \<and> 0 \<le> n' \<and> n' < NANOS"
proof -
  define n1 where "n1 = n + an"
  define s1 where "s1 = s + as + n1 sdiv NANOS"
  define m1 where "m1 = m + s1 sdiv 60"
  have f: "h' = h + m1 sdiv 60" "m' = m1 smod 60" "s' = s1 smod 60" "n' = n1 smod NANOS"
    using assms(1) by (simp_all add: carry_time_def Let_def n1_def s1_def m1_def)
  define q1 q2 q3 where "q1 = n1 sdiv NANOS" and "q2 = s1 sdiv 60" and "q3 = m1 sdiv 60"
  have "n' = n + an - NANOS * q1" "s' = s + as + q1 - 60 * q2" "m' = m + q2 - 60 * q3" "h' = h + q3"
    unfolding f q1_def q2_def q3_def minus_mult_sdiv_eq_smod [symmetric] by (simp_all add: n1_def s1_def m1_def)
  then have "day_nanos h' m' s' n' = day_nanos h m s n + as * NANOS + an"
    unfolding day_nanos_def by (simp add: algebra_simps)
  moreover have "0 \<le> n'" unfolding f using assms by (intro smod_nonneg) (simp_all add: n1_def)
  ultimately show ?thesis using smod_abs [of 60 m1] smod_abs [of 60 s1] smod_abs [of NANOS n1] f by simp
qed

lemma borrow_time_total:
  assumes "borrow_time (h, m, s, n) = (h', m', s', n')"
    and "- 60 < m" "m < 60" "- 60 < s" "s < 60" "0 \<le> n" "n < NANOS"
  shows "day_nanos h' m' s' n' = day_nanos h m s n \<and> (h' = h \<or> h' = h - 1) \<and>
    0 \<le> m' \<and> m' < 60 \<and> 0 \<le> s' \<and> s' < 60 \<and> n' = n"
proof -
  have bm: "(- s + 59) sdiv 60 = 1" if "s < 0"
    using that assms by (simp add: sdiv_pos div_between)
  define m1 where "m1 = (if s < 0 then m - 1 else m)"
  have bh: "(- m1 + 59) sdiv 60 = 1" if "m1 < 0"
    using that assms by (simp add: sdiv_pos div_between m1_def split: if_splits)
  have "h' = (if m1 < 0 then h - 1 else h)" "m' = (if m1 < 0 then m1 + 60 else m1)"
    "s' = (if s < 0 then s + 60 else s)" "n' = n"
    using assms bm bh by (auto simp: borrow_time_def Let_def m1_def split: if_splits)
  then show ?thesis using assms by (auto simp: day_nanos_def m1_def algebra_simps)
qed

section \<open>Dates\<close>

lemma normalizeDate_days:
  assumes "normalizeDate y m d = (y', m', d')"
  shows "valid_date y' m' d'" and "1 \<le> m \<Longrightarrow> m \<le> 12 \<Longrightarrow> daysFromCivil y' m' d' = daysFromCivil y m d"
  using day_number_inverse [of "month_first (absoluteMonths y m) + d - 1" y' m' d'] assms
  by (simp_all add: normalizeDate_months daysFromCivil_month)

lemma daysFromCivil_add: "1 \<le> m \<Longrightarrow> daysFromCivil y m (d + k) = daysFromCivil y m d + k"
  by (simp add: daysFromCivil_march civil_day_def)

lemma shift_months_date:
  assumes "valid_date y m d" and "shift_months y m d k = (y', m', d')"
  shows "valid_date y' m' d' \<and> absoluteMonths y' m' = absoluteMonths y m + k \<and> d' \<le> d \<and> (k = 0 \<longrightarrow> (y', m', d') = (y, m, d))"
proof -
  define t where "t = absoluteMonths y m + k"
  have f: "y' = t div 12" "m' = t - t div 12 * 12 + 1"
    "d' = (if daysInMonth y' m' > 0 \<and> d > daysInMonth y' m' then daysInMonth y' m' else d)"
    using assms(2) unfolding shift_months_def t_def [symmetric] floor12 Let_def by auto
  have m: "1 \<le> m'" "m' \<le> 12"
    using mult_div_mod_eq [of 12 t] pos_mod_bound [of 12 t] pos_mod_sign [of 12 t] unfolding f by linarith+
  have "28 \<le> daysInMonth y' m'" using month_len_bounds daysFromCivil_month(2) [OF m] by metis
  moreover have "absoluteMonths y' m' = t" by (simp add: f absoluteMonths_def)
  moreover have "y' = y \<and> m' = m" if "k = 0"
    using absoluteMonths_divmod [of m y] assms(1) that by (simp add: f t_def valid_date_def absoluteMonths_def)
  ultimately show ?thesis using m f(3) assms(1) by (auto simp: valid_date_def t_def)
qed

end
