(* ===== verification/Temporal_Theorems.thy ===== *)
theory Temporal_Theorems
  imports Temporal_Proofs
begin

text \<open>The properties of temporal values.\<close>

section \<open>Well-formed values\<close>

definition wf_datetime :: "date_time_value \<Rightarrow> bool" where
  "wf_datetime t \<longleftrightarrow> valid_date (sint (dt_year t)) (sint (dt_month t)) (sint (dt_day t)) \<and>
     - 999999999 \<le> sint (dt_year t) \<and> sint (dt_year t) \<le> 999999999 \<and>
     time_in_day (sint (dt_hour t)) (sint (dt_minute t)) (sint (dt_second t)) (sint (dt_nanos t)) \<and>
     (dt_kind t = DT_DATE \<longrightarrow> dt_day_nanos t = 0)"

definition wf_time :: "time_value \<Rightarrow> bool" where
  "wf_time t \<longleftrightarrow> time_in_day (sint (tm_hour t)) (sint (tm_minute t)) (sint (tm_second t)) (sint (tm_nanos t))"

text \<open>The coarse range check at the start of \<^verbatim>\<open>addDuration\<close>.\<close>

definition coarse_ok :: "duration_value \<Rightarrow> bool" where
  "coarse_ok du \<longleftrightarrow> - MAX_EPOCH_DAY \<le> sint (du_days du) \<and> sint (du_days du) \<le> MAX_EPOCH_DAY \<and>
     - 13044349302 \<le> sint (du_months du) \<and> sint (du_months du) \<le> 13044349302 \<and>
     - MAX_EPOCH_DAY * 86400 \<le> sint (du_seconds du) \<and> sint (du_seconds du) \<le> MAX_EPOCH_DAY * 86400"

text \<open>The instant a sum stands for, in nanoseconds from the epoch on the local clock.\<close>

definition shifted_day :: "date_time_value \<Rightarrow> int \<Rightarrow> int" where
  "shifted_day t months =
     (case shift_months (sint (dt_year t)) (sint (dt_month t)) (sint (dt_day t)) months of (y, m, d) \<Rightarrow> daysFromCivil y m d)"

definition sum_instant :: "date_time_value \<Rightarrow> duration_value \<Rightarrow> int" where
  "sum_instant t du =
     (shifted_day t (sint (du_months du)) + sint (du_days du)) * DAY_NANOS + dt_day_nanos t + total_nanos du"

text \<open>\<open>addDuration\<close> past its coarse check.\<close>

lemma coarse_run:
  assumes "coarse_ok du"
  shows "addDuration_dt t du =
    (let days = sint (du_days du); months = sint (du_months du); seconds = sint (du_seconds du); nanos = sint (du_nanos du);
         date = (sint (dt_year t), sint (dt_month t), sint (dt_day t));
         time = (sint (dt_hour t), sint (dt_minute t), sint (dt_second t), sint (dt_nanos t));
         (year, month, day) = (if months \<noteq> 0 then (case date of (y, m, d) \<Rightarrow> shift_months y m d months) else date);
         (year, month, day) = normalizeDate year month (day + days)
     in if dt_kind t = DT_DATE then
          let extra_days = to_i64 ((seconds * NANOS + nanos) sdiv DAY_NANOS)
          in narrow_datetime t (normalizeDate year month (day + extra_days)) time
        else
          let (hour, minute, second, nanos) = carry_time (split_nanos seconds nanos) time;
              extra_days = (if hour < 0 then (hour - 23) sdiv 24 else hour sdiv 24);
              (year, month, day) = normalizeDate year month (day + extra_days);
              (hour, minute, second, nanos) = borrow_time (hour - extra_days * 24, minute, second, nanos)
          in if hour < 0 then
               let bd = (- hour + 23) sdiv 24
               in narrow_datetime t (normalizeDate year month (day - bd)) (hour + bd * 24, minute, second, nanos)
             else narrow_datetime t (year, month, day) (hour, minute, second, nanos))"
proof -
  have k: "(- MAX_EPOCH_DAY) sdiv 28 = - 13044349302" "MAX_EPOCH_DAY sdiv 28 = (13044349302 :: int)"
    by (simp_all add: signed_divide_int_def)
  have "\<not> (sint (du_days du) < - MAX_EPOCH_DAY \<or> sint (du_days du) > MAX_EPOCH_DAY \<or> sint (du_months du) < (- MAX_EPOCH_DAY) sdiv 28 \<or>
      sint (du_months du) > MAX_EPOCH_DAY sdiv 28 \<or> sint (du_seconds du) < - (MAX_EPOCH_DAY * 86400) \<or>
      sint (du_seconds du) > MAX_EPOCH_DAY * 86400)"
    unfolding k using assms by (simp add: coarse_ok_def)
  then show ?thesis unfolding addDuration_dt_def Let_def by (simp only: if_False)
qed

lemma add_reaches:
  assumes t: "wf_datetime t" "dt_kind t \<noteq> DT_DATE" and du: "coarse_ok du"
  obtains y m d h mi s n where "valid_date y m d" "time_in_day h mi s n"
    "daysFromCivil y m d * DAY_NANOS + day_nanos h mi s n = sum_instant t du"
    "addDuration_dt t du = narrow_datetime t (y, m, d) (h, mi, s, n)"
proof -
  let ?Y = "sint (dt_year t)" let ?M = "sint (dt_month t)" let ?D = "sint (dt_day t)"
  let ?H = "sint (dt_hour t)" let ?I = "sint (dt_minute t)" let ?S = "sint (dt_second t)" let ?N = "sint (dt_nanos t)"
  have vd: "valid_date ?Y ?M ?D" and tf: "time_in_day ?H ?I ?S ?N" using t by (simp_all add: wf_datetime_def)
  obtain y1 m1 d1 where e1: "shift_months ?Y ?M ?D (sint (du_months du)) = (y1, m1, d1)" by (metis prod_cases3)
  note s1 = shift_months_date [OF vd e1]
  obtain y2 m2 d2 where e2: "normalizeDate y1 m1 (d1 + sint (du_days du)) = (y2, m2, d2)" by (metis prod_cases3)
  have v2: "valid_date y2 m2 d2" "daysFromCivil y2 m2 d2 = daysFromCivil y1 m1 d1 + sint (du_days du)"
    using normalizeDate_days [OF e2] s1 by (simp_all add: valid_date_def daysFromCivil_add)
  have sp: "split_nanos (sint (du_seconds du)) (sint (du_nanos du)) = (total_nanos du div NANOS, total_nanos du mod NANOS)"
    unfolding total_nanos_def using du sint64_range [of "du_nanos du"] by (intro split_nanos_eq) (simp_all add: coarse_ok_def)
  obtain h3 m3 s3 n3 where e3: "carry_time (total_nanos du div NANOS, total_nanos du mod NANOS) (?H, ?I, ?S, ?N) = (h3, m3, s3, n3)"
    by (metis prod_cases4)
  have c3: "day_nanos h3 m3 s3 n3 = dt_day_nanos t + total_nanos du"
    "- 60 < m3" "m3 < 60" "- 60 < s3" "s3 < 60" "0 \<le> n3" "n3 < NANOS"
    using carry_time_total [OF e3] tf by (simp_all add: time_in_day_def dt_day_nanos_def)
  define x where "x = h3 div 24"
  have hx: "0 \<le> h3 - x * 24" "h3 - x * 24 < 24"
    using mult_div_mod_eq [of 24 h3] pos_mod_bound [of 24 h3] pos_mod_sign [of 24 h3] unfolding x_def by linarith+
  obtain y4 m4 d4 where e4: "normalizeDate y2 m2 (d2 + x) = (y4, m4, d4)" by (metis prod_cases3)
  have v4: "valid_date y4 m4 d4" "daysFromCivil y4 m4 d4 = daysFromCivil y2 m2 d2 + x"
    using normalizeDate_days [OF e4] v2(1) by (simp_all add: valid_date_def daysFromCivil_add)
  obtain h5 m5 s5 n5 where e5: "borrow_time (h3 - x * 24, m3, s3, n3) = (h5, m5, s5, n5)" by (metis prod_cases4)
  note b5 = borrow_time_total [OF e5 c3(2-7)]
  have total: "daysFromCivil y4 m4 d4 * DAY_NANOS + day_nanos h5 m5 s5 n5 = sum_instant t du"
  proof -
    have "day_nanos h5 m5 s5 n5 = day_nanos h3 m3 s3 n3 - x * DAY_NANOS"
      using b5 by (simp add: day_nanos_def algebra_simps)
    then show ?thesis using c3(1) v4(2) v2(2) e1 by (simp add: sum_instant_def shifted_day_def algebra_simps)
  qed
  have run: "addDuration_dt t du = (if h5 < 0
      then narrow_datetime t (normalizeDate y4 m4 (d4 - (- h5 + 23) sdiv 24)) (h5 + (- h5 + 23) sdiv 24 * 24, m5, s5, n5)
      else narrow_datetime t (y4, m4, d4) (h5, m5, s5, n5))"
  proof -
    have date: "(if sint (du_months du) \<noteq> 0 then shift_months ?Y ?M ?D (sint (du_months du)) else (?Y, ?M, ?D)) = (y1, m1, d1)"
      using s1 e1 by simp
    show ?thesis
      unfolding coarse_run [OF du] Let_def sp
      by (simp only: if_False prod.case date e2 t(2) e3 floor24 x_def [symmetric] e4 e5)
  qed
  show thesis
  proof (cases "h5 < 0")
    case False
    show ?thesis
      by (rule that [OF v4(1) _ total]) (use False b5 hx c3 run in \<open>auto simp: time_in_day_def\<close>)
  next
    case True
    then have h5: "h5 = - 1" using b5 hx by auto
    obtain y6 m6 d6 where e6: "normalizeDate y4 m4 (d4 - 1) = (y6, m6, d6)" by (metis prod_cases3)
    have v6: "valid_date y6 m6 d6" "daysFromCivil y6 m6 d6 = daysFromCivil y4 m4 d4 - 1"
      using normalizeDate_days [OF e6] v4(1) daysFromCivil_add [of m4 y4 d4 "- 1"] by (simp_all add: valid_date_def)
    show ?thesis
    proof (rule that [OF v6(1)])
      show "time_in_day 23 m5 s5 n5" using b5 c3 by (simp add: time_in_day_def)
      show "daysFromCivil y6 m6 d6 * DAY_NANOS + day_nanos 23 m5 s5 n5 = sum_instant t du"
        using total v6(2) h5 by (simp add: day_nanos_def algebra_simps)
      show "addDuration_dt t du = narrow_datetime t (y6, m6, d6) (23, m5, s5, n5)"
        unfolding run h5 using e6 by (simp add: sdiv_pos)
    qed
  qed
qed

section \<open>Narrowing\<close>

lemma valid_small: "valid_date y m d \<Longrightarrow> 1 \<le> m \<and> m \<le> 12 \<and> 1 \<le> d \<and> d \<le> 31"
  using month_len_bounds [of "absoluteMonths y m"] by (auto simp: valid_date_def daysFromCivil_month)

definition with_fields :: "date_time_value \<Rightarrow> int \<times> int \<times> int \<Rightarrow> int \<times> int \<times> int \<times> int \<Rightarrow> date_time_value" where
  "with_fields t = (\<lambda>(year, month, day) (hour, minute, second, nanos).
     t\<lparr>dt_year := word_of_int year, dt_month := word_of_int month, dt_day := word_of_int day,
       dt_hour := word_of_int hour, dt_minute := word_of_int minute, dt_second := word_of_int second,
       dt_nanos := word_of_int nanos\<rparr>)"

lemma with_fields_read:
  fixes t :: date_time_value
  assumes "valid_date y m d" "time_in_day h mi s n" "- 999999999 \<le> y" "y \<le> 999999999"
  defines "r \<equiv> with_fields t (y, m, d) (h, mi, s, n)"
  shows "sint (dt_year r) = y" "sint (dt_month r) = m" "sint (dt_day r) = d" "sint (dt_hour r) = h" "sint (dt_minute r) = mi"
    "sint (dt_second r) = s" "sint (dt_nanos r) = n" "dt_kind r = dt_kind t" "dt_tz_offset_sec r = dt_tz_offset_sec t"
    "dt_tz_name r = dt_tz_name t"
  using assms valid_small [OF assms(1)]
  by (simp_all add: with_fields_def time_in_day_def sint8_of_int sint32_of_int)

lemma narrow_result:
  assumes "valid_date y m d"
  shows "narrow_datetime t (y, m, d) time =
    (if - 999999999 \<le> y \<and> y \<le> 999999999 then Inr (with_fields t (y, m, d) time) else Inl QE_Arithmetic)"
  using epoch_day_years [OF assms] by (auto simp: narrow_datetime_def with_fields_def Let_def split: prod.splits)

lemma instant_day:
  assumes "time_in_day h mi s n"
  shows "(e * DAY_NANOS + day_nanos h mi s n) div DAY_NANOS = e \<and> (e * DAY_NANOS + day_nanos h mi s n) mod DAY_NANOS = day_nanos h mi s n"
  using divmod_unique [of "day_nanos h mi s n" DAY_NANOS e] day_nanos_bounds [OF assms] by (simp add: mult.commute)

section \<open>Sums\<close>

lemma add_duration_result:
  assumes "wf_datetime t" and "dt_kind t \<noteq> DT_DATE"
  shows "case addDuration_dt t du of
      Inr r \<Rightarrow> wf_datetime r \<and> dt_kind r = dt_kind t \<and> dt_tz_offset_sec r = dt_tz_offset_sec t \<and>
        dt_tz_name r = dt_tz_name t \<and> localFieldsNanos r = sum_instant t du
    | Inl e \<Rightarrow> e = QE_Arithmetic \<and>
        (\<not> coarse_ok du \<or> sum_instant t du div DAY_NANOS \<notin> {- 365243219162..365241780471})"
proof (cases "coarse_ok du")
  case False
  then have "addDuration_dt t du = Inl QE_Arithmetic"
    by (auto simp: addDuration_dt_def coarse_ok_def signed_divide_int_def)
  with False show ?thesis by simp
next
  case True
  from add_reaches [OF assms True] obtain y m d h mi s n where r: "valid_date y m d" "time_in_day h mi s n"
    "daysFromCivil y m d * DAY_NANOS + day_nanos h mi s n = sum_instant t du"
    "addDuration_dt t du = narrow_datetime t (y, m, d) (h, mi, s, n)" by blast
  have day: "sum_instant t du div DAY_NANOS = daysFromCivil y m d" using instant_day [OF r(2)] r(3) by metis
  show ?thesis
  proof (cases "- 999999999 \<le> y \<and> y \<le> 999999999")
    case range: True
    note f = with_fields_read [OF r(1,2) conjunct1 [OF range] conjunct2 [OF range], of t]
    show ?thesis using r range assms(2) f
      by (simp add: narrow_result wf_datetime_def localFieldsNanos_def dt_epoch_day_def dt_day_nanos_def)
  next
    case False
    then show ?thesis using r(1,4) day epoch_day_years [OF r(1)] by (auto simp: narrow_result)
  qed
qed

text \<open>
  C4. Adding a duration to a well-formed date and time is exact: the months shift the date with the day
  clamped to the month, and from there the result lies exactly the days, seconds and nanoseconds of
  the duration away, whatever their signs; it is again well formed and keeps kind and zone.  The only
  failure is the arithmetic error, raised when a component of the duration exceeds its coarse bound or
  the day of the result leaves the supported range.
\<close>

theorem add_duration_exact:
  assumes "wf_datetime t" and "dt_kind t \<noteq> DT_DATE"
  shows "case addDuration_dt t du of
      Inr r \<Rightarrow> wf_datetime r \<and> dt_kind r = dt_kind t \<and> dt_tz_offset_sec r = dt_tz_offset_sec t \<and>
        dt_tz_name r = dt_tz_name t \<and> localFieldsNanos r = sum_instant t du
    | Inl e \<Rightarrow> e = QE_Arithmetic \<and>
        (\<not> coarse_ok du \<or> sum_instant t du div DAY_NANOS \<notin> {- 365243219162..365241780471})"
  by (rule add_duration_result [OF assms])

definition new_year_eve :: date_time_value where
  "new_year_eve = new_datetime\<lparr>dt_kind := DT_LOCAL_DATETIME, dt_year := 2023, dt_month := 12, dt_day := 31, dt_hour := 23,
     dt_minute := 59, dt_second := 59\<rparr>"

theorem add_duration_exact_witness:
  "case addDuration_dt new_year_eve \<lparr>du_months = 2, du_days = 0, du_seconds = 1, du_nanos = 0\<rparr> of
     Inr r \<Rightarrow> localFieldsNanos r = daysFromCivil 2024 3 1 * DAY_NANOS | Inl e \<Rightarrow> False"
proof -
  let ?du = "\<lparr>du_months = 2, du_days = 0, du_seconds = 1, du_nanos = 0\<rparr>"
  have wf: "wf_datetime new_year_eve" "dt_kind new_year_eve \<noteq> DT_DATE"
    by (simp_all add: wf_datetime_def new_year_eve_def new_datetime_def valid_date_def daysInMonth_def time_in_day_def eval_nat_numeral)
  have "shift_months 2023 12 31 2 = (2024, 2, 29)"
    by (simp add: shift_months_def absoluteMonths_def daysInMonth_def isLeapYear_mod sdiv_pos Let_def)
  then have i: "sum_instant new_year_eve ?du = daysFromCivil 2024 3 1 * DAY_NANOS"
    by (simp add: sum_instant_def shifted_day_def total_nanos_def dt_day_nanos_def day_nanos_def new_year_eve_def new_datetime_def
        daysFromCivil_march march_year_def march_month_def month_start_def civil_day_def)
  have "sum_instant new_year_eve ?du div DAY_NANOS \<in> {- 365243219162..365241780471}" "coarse_ok ?du"
    unfolding i by (simp_all add: coarse_ok_def daysFromCivil_march march_year_def march_month_def month_start_def civil_day_def)
  with add_duration_exact [OF wf, of ?du] i show ?thesis by (auto split: sum.splits)
qed

section \<open>Dates\<close>

lemma add_date_reaches:
  assumes t: "wf_datetime t" "dt_kind t = DT_DATE" and du: "coarse_ok du"
  obtains y m d where "valid_date y m d"
    "daysFromCivil y m d = shifted_day t (sint (du_months du)) + sint (du_days du) + total_nanos du sdiv DAY_NANOS"
    "addDuration_dt t du = narrow_datetime t (y, m, d) (sint (dt_hour t), sint (dt_minute t), sint (dt_second t), sint (dt_nanos t))"
proof -
  let ?Y = "sint (dt_year t)" let ?M = "sint (dt_month t)" let ?D = "sint (dt_day t)"
  have vd: "valid_date ?Y ?M ?D" using t by (simp add: wf_datetime_def)
  obtain y1 m1 d1 where e1: "shift_months ?Y ?M ?D (sint (du_months du)) = (y1, m1, d1)" by (metis prod_cases3)
  note s1 = shift_months_date [OF vd e1]
  obtain y2 m2 d2 where e2: "normalizeDate y1 m1 (d1 + sint (du_days du)) = (y2, m2, d2)" by (metis prod_cases3)
  have v2: "valid_date y2 m2 d2" "daysFromCivil y2 m2 d2 = daysFromCivil y1 m1 d1 + sint (du_days du)"
    using normalizeDate_days [OF e2] s1 by (simp_all add: valid_date_def daysFromCivil_add)
  define x where "x = total_nanos du sdiv DAY_NANOS"
  have "DAY_NANOS * x + total_nanos du smod DAY_NANOS = total_nanos du" unfolding x_def by (rule mult_sdiv_smod_eq)
  then have x: "to_i64 x = x"
    using smod_abs [of DAY_NANOS "total_nanos du"] du sint64_range [of "du_nanos du"]
    by (intro to_i64_id) (simp_all add: total_nanos_def coarse_ok_def)
  obtain y4 m4 d4 where e4: "normalizeDate y2 m2 (d2 + x) = (y4, m4, d4)" by (metis prod_cases3)
  have v4: "valid_date y4 m4 d4" "daysFromCivil y4 m4 d4 = daysFromCivil y2 m2 d2 + x"
    using normalizeDate_days [OF e4] v2(1) by (simp_all add: valid_date_def daysFromCivil_add)
  have date: "(if sint (du_months du) \<noteq> 0 then shift_months ?Y ?M ?D (sint (du_months du)) else (?Y, ?M, ?D)) = (y1, m1, d1)"
    using s1 e1 by simp
  show thesis
  proof (rule that [OF v4(1)])
    show "daysFromCivil y4 m4 d4 = shifted_day t (sint (du_months du)) + sint (du_days du) + total_nanos du sdiv DAY_NANOS"
      using v4(2) v2(2) e1 by (simp add: shifted_day_def x_def)
    show "addDuration_dt t du = narrow_datetime t (y4, m4, d4) (sint (dt_hour t), sint (dt_minute t), sint (dt_second t), sint (dt_nanos t))"
      unfolding coarse_run [OF du] Let_def using t(2)
      by (simp only: prod.case date e2 total_nanos_def [symmetric] x_def [symmetric] x e4 simp_thms if_True)
  qed
qed

end
