(* ===== verification/Temporal_Durations.thy ===== *)
theory Temporal_Durations
  imports Temporal_Theorems
begin

text \<open>Durations: normalization, sums, times of day, epoch seconds and the order of values.\<close>

section \<open>Normalized durations\<close>

definition i64 :: "int \<Rightarrow> bool" where
  "i64 x \<longleftrightarrow> - 9223372036854775808 \<le> x \<and> x \<le> 9223372036854775807"

lemma sint_i64 [simp]: "i64 (sint (w :: 64 word))"
  using sint64_range [of w] by (simp add: i64_def)

lemma sint_of_i64 [simp]: "i64 x \<Longrightarrow> sint (word_of_int x :: 64 word) = x"
  by (simp add: i64_def sint64_of_int)

lemma checkedNarrow_eq: "checkedNarrow x = (if i64 x then Inr (word_of_int x) else Inl QE_Argument)"
  by (auto simp: checkedNarrow_def i64_def)

lemma normalizeDurationNanos_eq:
  "normalizeDurationNanos du =
     (let t = total_nanos du in
      if i64 (t div NANOS) then Inr (du\<lparr>du_seconds := word_of_int (t div NANOS), du_nanos := word_of_int (t mod NANOS)\<rparr>)
      else Inl QE_Argument)"
proof -
  define n s where "n = sint (du_nanos du)" and "s = sint (du_seconds du)"
  have t: "total_nanos du div NANOS = s + n div NANOS" "total_nanos du mod NANOS = n mod NANOS"
    by (simp_all add: total_nanos_def n_def s_def)
  show ?thesis
  proof (cases "n \<ge> 0 \<and> n < NANOS")
    case True
    then have "n div NANOS = 0" "n mod NANOS = n" by simp_all
    with True t show ?thesis by (simp add: normalizeDurationNanos_def n_def s_def)
  next
    case False
    have "normalizeDurationNanos du =
      (case (n mod NANOS, n div NANOS) of (rem, carry) \<Rightarrow>
         if carry > 0 \<and> s > 9223372036854775807 - carry then Inl QE_Argument
         else if carry < 0 \<and> s < - 9223372036854775808 - carry then Inl QE_Argument
         else Inr (du\<lparr>du_seconds := word_of_int (s + carry), du_nanos := word_of_int rem\<rparr>))"
    proof -
      have sw: "(if n smod NANOS < 0 then (n smod NANOS + NANOS, n sdiv NANOS - 1) else (n smod NANOS, n sdiv NANOS)) =
          (n mod NANOS, n div NANOS)"
        using floor_fixup [of NANOS n] by (auto split: if_splits)
      show ?thesis
        unfolding normalizeDurationNanos_def Let_def n_def [symmetric] s_def [symmetric] sw if_not_P [OF False] ..
    qed
    moreover have "i64 s" by (simp add: s_def)
    ultimately show ?thesis by (auto simp: t Let_def i64_def)
  qed
qed

lemma finish_duration_eq:
  "finish_duration m d t =
     (if i64 m \<and> i64 d \<and> i64 (t div NANOS)
      then Inr \<lparr>du_months = word_of_int m, du_days = word_of_int d, du_seconds = word_of_int (t div NANOS),
                du_nanos = word_of_int (t mod NANOS)\<rparr>
      else Inl QE_Argument)"
proof -
  have e: "NANOS * (t sdiv NANOS) + t smod NANOS = t" by (rule mult_sdiv_smod_eq)
  have m: "- NANOS < t smod NANOS" "t smod NANOS < NANOS" using smod_abs [of NANOS t] by simp_all
  have sg: "t < 0" if "t smod NANOS < 0"
    using that smod_nonneg [of NANOS t] by (auto simp: not_less [symmetric])
  have f: "t div NANOS = t sdiv NANOS \<or> t div NANOS = t sdiv NANOS - 1" "t sdiv NANOS > 9223372036854775807 \<longrightarrow> t div NANOS = t sdiv NANOS"
    using floor_fixup [of NANOS t] e m sg by (auto split: if_splits)
  show ?thesis
  proof (cases "i64 (t sdiv NANOS)")
    case True
    have "i64 (t smod NANOS)" using m by (simp add: i64_def)
    with True e have "total_nanos \<lparr>du_months = a, du_days = b, du_seconds = word_of_int (t sdiv NANOS), du_nanos = word_of_int (t smod NANOS)\<rparr> = t" for a b
      by (simp add: total_nanos_def mult.commute)
    with True show ?thesis by (simp add: finish_duration_def checkedNarrow_eq normalizeDurationNanos_eq)
  next
    case False
    with f have "\<not> i64 (t div NANOS)" by (auto simp: i64_def)
    with False show ?thesis by (simp add: finish_duration_def checkedNarrow_eq)
  qed
qed

lemma finish_duration_exact:
  "case finish_duration m d t of
      Inr r \<Rightarrow> sint (du_months r) = m \<and> sint (du_days r) = d \<and> total_nanos r = t \<and> 0 \<le> sint (du_nanos r) \<and> sint (du_nanos r) < NANOS
    | Inl e \<Rightarrow> e = QE_Argument \<and> \<not> (i64 m \<and> i64 d \<and> i64 (t div NANOS))"
proof -
  have "i64 (t mod NANOS)" "0 \<le> t mod NANOS" "t mod NANOS < NANOS"
    using pos_mod_bound [of NANOS t] pos_mod_sign [of NANOS t] by (auto simp: i64_def)
  then show ?thesis by (auto simp: finish_duration_eq total_nanos_def)
qed


section \<open>Times of day\<close>

lemma carry_time_forward:
  assumes "carry_time (as, an) (h, m, s, n) = (h', m', s', n')" and "time_in_day h m s n" "0 \<le> as" "0 \<le> an"
  shows "0 \<le> h' \<and> 0 \<le> m' \<and> 0 \<le> s'"
proof -
  define s1 where "s1 = s + as + (n + an) sdiv NANOS"
  define m1 where "m1 = m + s1 sdiv 60"
  have f: "h' = h + m1 sdiv 60" "m' = m1 smod 60" "s' = s1 smod 60"
    using assms(1) by (simp_all add: carry_time_def Let_def s1_def m1_def)
  have "0 \<le> (n + an) sdiv NANOS" using assms by (simp add: time_in_day_def sdiv_pos pos_imp_zdiv_nonneg_iff)
  then have "0 \<le> s1" using assms by (simp add: s1_def time_in_day_def)
  moreover then have "0 \<le> s1 sdiv 60" by (simp add: sdiv_pos pos_imp_zdiv_nonneg_iff)
  then have "0 \<le> m1" using assms by (simp add: m1_def time_in_day_def)
  moreover then have "0 \<le> m1 sdiv 60" by (simp add: sdiv_pos pos_imp_zdiv_nonneg_iff)
  ultimately show ?thesis using f assms smod_nonneg [of 60 s1] smod_nonneg [of 60 m1] by (simp add: time_in_day_def)
qed

lemma borrow_time_none: "0 \<le> m \<Longrightarrow> 0 \<le> s \<Longrightarrow> 0 \<le> n \<Longrightarrow> borrow_time (h, m, s, n) = (h, m, s, n)"
  by (simp add: borrow_time_def)

lemma day_nanos_days: "h = 24 * q + r \<Longrightarrow> day_nanos h m s n = DAY_NANOS * q + day_nanos r m s n"
  by (simp add: day_nanos_def algebra_simps)

definition with_time :: "time_value \<Rightarrow> int \<times> int \<times> int \<times> int \<Rightarrow> time_value" where
  "with_time t = (\<lambda>(hour, minute, second, nanos). t\<lparr>tm_hour := word_of_int hour, tm_minute := word_of_int minute,
     tm_second := word_of_int second, tm_nanos := word_of_int nanos\<rparr>)"

lemma with_time_read:
  fixes t :: time_value
  assumes "time_in_day h m s n"
  shows "sint (tm_hour (with_time t (h, m, s, n))) = h" "sint (tm_minute (with_time t (h, m, s, n))) = m"
    "sint (tm_second (with_time t (h, m, s, n))) = s" "sint (tm_nanos (with_time t (h, m, s, n))) = n"
  using assms by (simp_all add: with_time_def time_in_day_def sint8_of_int sint32_of_int)

text \<open>
  Adding a non-negative duration to a time of day is exact modulo a day, and gives a time of day
  (hour below 24, minute and second below 60).
\<close>

theorem time_add_forward:
  assumes "wf_time t" and "0 \<le> sint (du_seconds du)" and "sint (du_seconds du) \<le> 9000000000000000000"
    and "0 \<le> sint (du_nanos du)"
  shows "wf_time (addDuration_tm t du) \<and>
    tm_day_nanos (addDuration_tm t du) = (tm_day_nanos t + total_nanos du) mod DAY_NANOS"
proof -
  let ?T = "total_nanos du"
  have sp: "split_nanos (sint (du_seconds du)) (sint (du_nanos du)) = (?T div NANOS, ?T mod NANOS)"
    unfolding total_nanos_def using assms(2,3) sint64_range [of "du_nanos du"] by (intro split_nanos_eq) simp_all
  have pos: "0 \<le> ?T div NANOS" "0 \<le> ?T mod NANOS" using assms(2,4) by (simp_all add: total_nanos_def)
  have tf: "time_in_day (sint (tm_hour t)) (sint (tm_minute t)) (sint (tm_second t)) (sint (tm_nanos t))"
    using assms(1) by (simp add: wf_time_def)
  obtain h m s n where e: "carry_time (?T div NANOS, ?T mod NANOS)
      (sint (tm_hour t), sint (tm_minute t), sint (tm_second t), sint (tm_nanos t)) = (h, m, s, n)" by (metis prod_cases4)
  have c: "day_nanos h m s n = tm_day_nanos t + ?T" "m < 60" "s < 60" "0 \<le> n" "n < NANOS"
    using carry_time_total [OF e] tf by (simp_all add: time_in_day_def tm_day_nanos_def)
  note f = carry_time_forward [OF e tf pos]
  have r: "addDuration_tm t du = with_time t (h mod 24, m, s, n)"
    unfolding addDuration_tm_def sp e using f c(4)
    by (simp add: smod_pos with_time_def Let_def borrow_time_none)
  have ok: "time_in_day (h mod 24) m s n" using f c by (simp add: time_in_day_def)
  have "day_nanos h m s n = DAY_NANOS * (h div 24) + day_nanos (h mod 24) m s n"
    by (rule day_nanos_days) simp
  then have "day_nanos h m s n mod DAY_NANOS = day_nanos (h mod 24) m s n"
    using divmod_unique [of "day_nanos (h mod 24) m s n" DAY_NANOS "h div 24"] day_nanos_bounds [OF ok] by simp
  then show ?thesis
    using ok c(1) by (simp add: r wf_time_def tm_day_nanos_def with_time_read [OF ok])
qed

definition noon_time :: time_value where
  "noon_time = \<lparr>tm_nanos = 0, tm_tz_offset_sec = 0, tm_hour = 12, tm_minute = 0, tm_second = 0, tm_kind = TM_LOCAL_TIME, tm_tz_name = None\<rparr>"

theorem time_add_forward_witness:
  "tm_day_nanos (addDuration_tm noon_time \<lparr>du_months = 0, du_days = 0, du_seconds = 46800, du_nanos = 5\<rparr>) = 3600 * NANOS + 5"
proof -
  have "wf_time noon_time" by (simp add: wf_time_def noon_time_def time_in_day_def)
  from time_add_forward [OF this, of "\<lparr>du_months = 0, du_days = 0, du_seconds = 46800, du_nanos = 5\<rparr>"]
  show ?thesis by (simp add: noon_time_def tm_day_nanos_def day_nanos_def total_nanos_def)
qed

text \<open>
  Going back across midnight is not exact: the hour is brought into the day before the minutes
  borrow from it.  In the first minute of the day, subtracting more seconds than have passed (and fewer
  than 60) gives the hour \<open>-1\<close>.
\<close>

theorem midnight_borrow_negative_hour:
  assumes "wf_time t" and "tm_hour t = 0" and "tm_minute t = 0" and "du_nanos du = 0"
    and "sint (tm_second t) + sint (du_seconds du) < 0" and "- 60 < sint (du_seconds du)"
  shows "sint (tm_hour (addDuration_tm t du)) = - 1"
proof -
  let ?s = "sint (tm_second t)" and ?n = "sint (tm_nanos t)" and ?d = "sint (du_seconds du)"
  have f: "0 \<le> ?s" "?s < 60" "0 \<le> ?n" "?n < NANOS" using assms(1) by (simp_all add: wf_time_def time_in_day_def)
  then have "?d < 0" using assms(5) by simp
  then have sp: "split_nanos ?d 0 = (?d, 0)" using assms(6) by (subst split_nanos_eq) simp_all
  have "- (?s + ?d) div 60 = 0" using assms(5,6) f by (intro div_between) simp_all
  then have q: "(?s + ?d) sdiv 60 = 0" using assms(5) by (simp add: sdiv_neg)
  moreover have r: "(?s + ?d) smod 60 = ?s + ?d" using minus_mult_sdiv_eq_smod [of "?s + ?d" 60] q by simp
  have "?n div NANOS = 0" "?n mod NANOS = ?n" using f by simp_all
  then have ca: "carry_time (?d, 0) (0, 0, ?s, ?n) = (0, 0, ?s + ?d, ?n)"
    using f q r by (simp add: carry_time_def Let_def sdiv_pos smod_pos)
  have b: "(- (?s + ?d) + 59) sdiv 60 = 1" using assms(5,6) f by (subst sdiv_pos) (auto intro!: div_between)
  have "borrow_time (0, 0, ?s + ?d, ?n) = (- 1, 59, ?s + ?d + 60, ?n)"
    using assms(5) f b by (simp add: borrow_time_def Let_def sdiv_pos)
  then show ?thesis
    using assms(2-4) sp ca by (simp add: addDuration_tm_def sint8_of_int Let_def smod_pos)
qed

theorem midnight_borrow_negative_hour_witness:
  "sint (tm_hour (addDuration_tm (noon_time\<lparr>tm_hour := 0\<rparr>) \<lparr>du_months = 0, du_days = 0, du_seconds = - 1, du_nanos = 0\<rparr>)) = - 1"
  by (rule midnight_borrow_negative_hour) (simp_all add: wf_time_def noon_time_def time_in_day_def)

end
