(* ===== verification/Temporal_Between.thy ===== *)
theory Temporal_Between
  imports Temporal_Durations
begin

text \<open>The duration between two values, epoch conversion and the order of values.\<close>

section \<open>Instants determine values\<close>

lemma sint_eq_iff: "sint v = sint w \<longleftrightarrow> v = (w :: 'a::len word)"
  by (auto intro: signed_word_eqI)

lemma local_fields_inject:
  assumes "wf_datetime a" "wf_datetime b" "localFieldsNanos a = localFieldsNanos b"
  shows "dt_year a = dt_year b \<and> dt_month a = dt_month b \<and> dt_day a = dt_day b \<and> dt_hour a = dt_hour b \<and>
    dt_minute a = dt_minute b \<and> dt_second a = dt_second b \<and> dt_nanos a = dt_nanos b"
proof -
  have t: "time_in_day (sint (dt_hour x)) (sint (dt_minute x)) (sint (dt_second x)) (sint (dt_nanos x))"
    and v: "valid_date (sint (dt_year x)) (sint (dt_month x)) (sint (dt_day x))" if "wf_datetime x" for x
    using that by (simp_all add: wf_datetime_def)
  have eq: "dt_epoch_day a * DAY_NANOS + dt_day_nanos a = dt_epoch_day b * DAY_NANOS + dt_day_nanos b"
    using assms(3) by (simp add: localFieldsNanos_def)
  have day: "dt_epoch_day a = dt_epoch_day b" and tod: "dt_day_nanos a = dt_day_nanos b"
    using instant_day [OF t [OF assms(1)], of "dt_epoch_day a"] instant_day [OF t [OF assms(2)], of "dt_epoch_day b"] eq
    unfolding dt_day_nanos_def by metis+
  from day_number_inject [OF v [OF assms(1)] v [OF assms(2)]] day
  have "sint (dt_year a) = sint (dt_year b) \<and> sint (dt_month a) = sint (dt_month b) \<and> sint (dt_day a) = sint (dt_day b)"
    by (simp add: dt_epoch_day_def)
  with day_nanos_inject [OF t [OF assms(1)] t [OF assms(2)]] tod show ?thesis
    by (simp add: dt_day_nanos_def sint_eq_iff)
qed

section \<open>The middle date\<close>

lemma addMonthsClamped_fields:
  assumes "wf_datetime a" and "shift_months (sint (dt_year a)) (sint (dt_month a)) (sint (dt_day a)) k = (y, m, d)"
    and "- 2147483648 \<le> y" "y < 2147483648"
  shows "dt_epoch_day (addMonthsClamped a k) = daysFromCivil y m d" and "dt_day_nanos (addMonthsClamped a k) = dt_day_nanos a"
proof -
  have vd: "valid_date (sint (dt_year a)) (sint (dt_month a)) (sint (dt_day a))" using assms(1) by (simp add: wf_datetime_def)
  note s = shift_months_date [OF vd assms(2)]
  have md: "1 \<le> m" "m \<le> 12" "1 \<le> d" "d \<le> 31" using valid_small s by blast+
  define total' where "total' = absoluteMonths (sint (dt_year a)) (sint (dt_month a)) + k"
  have f: "y = total' div 12" "m = total' - total' div 12 * 12 + 1"
    "d = (if daysInMonth y m > 0 \<and> sint (dt_day a) > daysInMonth y m then daysInMonth y m else sint (dt_day a))"
    using assms(2) unfolding shift_months_def total'_def [symmetric] floor12 Let_def by auto
  have r: "sint (word_of_int y :: 32 word) = y" "sint (word_of_int m :: 8 word) = m"
    using assms(3,4) md by (simp_all add: sint8_of_int sint32_of_int)
  have "dt_epoch_day (addMonthsClamped a k) = daysFromCivil y m d \<and> dt_day_nanos (addMonthsClamped a k) = dt_day_nanos a"
  proof (cases "k = 0")
    case True
    then show ?thesis using s by (simp add: addMonthsClamped_def dt_epoch_day_def)
  next
    case False
    have "addMonthsClamped a k = (let r = a\<lparr>dt_year := word_of_int y, dt_month := word_of_int m\<rparr>;
        last_day = daysInMonth y m in if last_day > 0 \<and> sint (dt_day r) > last_day then r\<lparr>dt_day := word_of_int last_day\<rparr> else r)"
      using False r unfolding addMonthsClamped_def Let_def total'_def [symmetric] floor12 f(1) [symmetric] f(2) [folded f(1), symmetric]
      by simp
    moreover have "sint (word_of_int (daysInMonth y m) :: 8 word) = daysInMonth y m" if "0 < daysInMonth y m" "sint (dt_day a) > daysInMonth y m"
      using f(3) md that by (auto simp: sint8_of_int)
    ultimately show ?thesis using r f(3) by (auto simp: dt_epoch_day_def dt_day_nanos_def Let_def)
  qed
  then show "dt_epoch_day (addMonthsClamped a k) = daysFromCivil y m d" "dt_day_nanos (addMonthsClamped a k) = dt_day_nanos a"
    by simp_all
qed

lemma minus_day_month:
  assumes "valid_date y m d" "minus_day (y, m, d) = (y', m', d')"
  shows "1 \<le> d' \<and> d' \<le> 31 \<and> (absoluteMonths y' m' = absoluteMonths y m \<or> absoluteMonths y' m' = absoluteMonths y m - 1)"
proof (cases "d = 1")
  case True
  define y1 m1 where "y1 = (if m = 1 then y - 1 else y)" and "m1 = (if m = 1 then 12 else m - 1)"
  have m: "1 \<le> m" "m \<le> 12" using valid_small [OF assms(1)] by simp_all
  then have m1: "1 \<le> m1" "m1 \<le> 12" by (simp_all add: m1_def)
  have "(y', m', d') = (y1, m1, daysInMonth y1 m1)"
    using assms(2) True m by (auto simp: minus_day_def y1_def m1_def split: if_splits)
  moreover have "28 \<le> daysInMonth y1 m1 \<and> daysInMonth y1 m1 \<le> 31"
    unfolding daysFromCivil_month(2) [OF m1] by (rule month_len_bounds)
  ultimately show ?thesis by (auto simp: absoluteMonths_def y1_def m1_def)
next
  case False
  then show ?thesis using assms valid_small [OF assms(1)] by (auto simp: minus_day_def)
qed

text \<open>The month count lands within two months of the end.\<close>

lemma months_close:
  assumes "1 \<le> da" "da \<le> 31" "1 \<le> de" "de \<le> (31 :: int)" "ke = kb \<or> ke = kb - 1"
  shows "\<bar>kb - ka - ((32 * ke + de) - (32 * ka + da)) sdiv 32\<bar> \<le> 2"
proof -
  let ?x = "(32 * ke + de) - (32 * ka + da)"
  have "32 * (?x sdiv 32) + ?x smod 32 = ?x" by (rule mult_sdiv_smod_eq)
  moreover have "- 32 < ?x smod 32" "?x smod 32 < 32" using smod_abs [of 32 ?x] by simp_all
  ultimately show ?thesis using assms by auto
qed

lemma days_close:
  assumes "\<bar>k - j\<bar> \<le> 2" "1 \<le> d" "d \<le> 31" "1 \<le> e" "e \<le> (31 :: int)"
  shows "\<bar>(month_first k + d - 1) - (month_first j + e - 1)\<bar> \<le> 100"
proof (cases "j \<le> k")
  case True
  then show ?thesis using months_ascend [of j k] months_ascend_upper [of j k] assms by auto
next
  case False
  then show ?thesis using months_ascend [of k j] months_ascend_upper [of k j] assms by auto
qed

section \<open>The duration between two values\<close>

text \<open>
  What \<open>durationBetween\<close> returns for two values without zone: some months, and days and nanoseconds
  that lead from the shifted start to the end.
\<close>

lemma between_parts:
  assumes a: "wf_datetime a" and b: "wf_datetime b" and kinds: "dt_kind b = dt_kind a" "dt_kind a \<noteq> DT_DATETIME"
  obtains months days' x' where "durationBetween_dt a b = normalizeDurationNanos
      \<lparr>du_months = word_of_int months, du_days = word_of_int days', du_seconds = word_of_int (x' sdiv NANOS),
        du_nanos = word_of_int (x' smod NANOS)\<rparr>"
    "\<bar>absoluteMonths (sint (dt_year b)) (sint (dt_month b)) - (absoluteMonths (sint (dt_year a)) (sint (dt_month a)) + months)\<bar> \<le> 2"
    "\<bar>days'\<bar> \<le> 101" "- DAY_NANOS < x'" "x' < DAY_NANOS"
    "(shifted_day a months + days') * DAY_NANOS + dt_day_nanos a + x' = localFieldsNanos b" "dt_kind a = DT_DATE \<longrightarrow> x' = 0"
proof -
  let ?ka = "absoluteMonths (sint (dt_year a)) (sint (dt_month a))"
  let ?kb = "absoluteMonths (sint (dt_year b)) (sint (dt_month b))"
  let ?da = "sint (dt_day a)" and ?db = "sint (dt_day b)"
  have va: "valid_date (sint (dt_year a)) (sint (dt_month a)) ?da" and vb: "valid_date (sint (dt_year b)) (sint (dt_month b)) ?db"
    using a b by (simp_all add: wf_datetime_def)
  obtain ey em ed where e: "(if dt_kind a \<noteq> DT_DATE \<and> timeOfDayNanos b False < timeOfDayNanos a False
      then minus_day (sint (dt_year b), sint (dt_month b), ?db) else (sint (dt_year b), sint (dt_month b), ?db)) = (ey, em, ed)"
    by (metis prod_cases3)
  have ed: "1 \<le> ed" "ed \<le> 31" "absoluteMonths ey em = ?kb \<or> absoluteMonths ey em = ?kb - 1"
    using e minus_day_month [OF vb, of ey em ed] valid_small [OF vb] by (auto split: if_splits)
  define months where "months = (packedMonthDay ey em ed - packedMonthDay (sint (dt_year a)) (sint (dt_month a)) ?da) sdiv 32"
  have close: "\<bar>?kb - (?ka + months)\<bar> \<le> 2"
    using months_close [OF _ _ ed, of ?da ?ka] valid_small [OF va] by (simp add: months_def packedMonthDay_def mult.commute)
  obtain y m d where sh: "shift_months (sint (dt_year a)) (sint (dt_month a)) ?da months = (y, m, d)" by (metis prod_cases3)
  note s = shift_months_date [OF va sh]
  have ym: "y = (?ka + months) div 12" "1 \<le> m" "m \<le> 12" "1 \<le> d" "d \<le> 31"
    using s absoluteMonths_divmod [of m y] valid_small [of y m d] by auto
  have yr: "- 2147483648 \<le> y" "y < 2147483648"
    using close valid_small [OF vb] b s ym by (auto simp: wf_datetime_def absoluteMonths_def)
  define days where "days = dt_epoch_day b - daysFromCivil y m d"
  have mid: "dt_epoch_day (addMonthsClamped a months) = daysFromCivil y m d" "dt_day_nanos (addMonthsClamped a months) = dt_day_nanos a"
    using addMonthsClamped_fields [OF a sh yr] by simp_all
  have days: "\<bar>days\<bar> \<le> 100"
    using days_close [of ?kb "?ka + months" ?db d] close valid_small [OF vb] ym s vb
    by (simp add: days_def dt_epoch_day_def daysFromCivil_month(1) valid_date_def)
  define x where "x = dt_day_nanos b - dt_day_nanos a"
  have tod: "0 \<le> dt_day_nanos v \<and> dt_day_nanos v < DAY_NANOS" if "wf_datetime v" for v
    using that day_nanos_bounds by (simp add: wf_datetime_def dt_day_nanos_def)
  have x: "- DAY_NANOS < x" "x < DAY_NANOS" using tod [OF a] tod [OF b] by (simp_all add: x_def)
  obtain days' x' where adj: "(if days > 0 \<and> x < 0 then (days - 1, x + DAY_NANOS)
      else if days < 0 \<and> x > 0 then (days + 1, x - DAY_NANOS) else (days, x)) = (days', x')" by fastforce
  have dx: "days' * DAY_NANOS + x' = days * DAY_NANOS + x" "\<bar>days'\<bar> \<le> 101" "- DAY_NANOS < x'" "x' < DAY_NANOS"
    using adj days x by (auto split: if_splits)
  let ?raw = "\<lparr>du_months = word_of_int months, du_days = word_of_int days', du_seconds = word_of_int (x' sdiv NANOS),
    du_nanos = word_of_int (x' smod NANOS)\<rparr>"
  have rem: "localFieldsNanos b - localFieldsNanos (addMonthsClamped a months) - days * DAY_NANOS = x"
    by (simp add: localFieldsNanos_def mid days_def x_def algebra_simps)
  have xi: "to_i64 x = x" using x by (intro to_i64_id) simp_all
  have nz: "(dt_kind a = DT_DATETIME \<and> dt_kind b = DT_DATETIME) = False" using kinds(2) by simp
  have run: "durationBetween_dt a b = normalizeDurationNanos ?raw"
    unfolding durationBetween_dt_def Let_def
    by (simp only: nz if_False e prod.case months_def [symmetric] mid(1) days_def [symmetric] rem xi adj)
  have date: "x' = 0" if "dt_kind a = DT_DATE"
    using that a b kinds(1) adj by (auto simp: wf_datetime_def x_def split: if_splits)
  have inst: "(shifted_day a months + days') * DAY_NANOS + dt_day_nanos a + x' = localFieldsNanos b"
    using dx(1) sh by (simp add: shifted_day_def localFieldsNanos_def days_def x_def algebra_simps)
  show thesis
    using that [OF run close dx(2-4) inst] date by blast
qed

lemma small_rest:
  assumes "- DAY_NANOS < x" "x < DAY_NANOS"
  obtains du where "normalizeDurationNanos \<lparr>du_months = m, du_days = d, du_seconds = word_of_int (x sdiv NANOS),
      du_nanos = word_of_int (x smod NANOS)\<rparr> = Inr du"
    "du_months du = m" "du_days du = d" "total_nanos du = x" "\<bar>sint (du_seconds du)\<bar> \<le> 86400"
proof -
  let ?raw = "\<lparr>du_months = m, du_days = d, du_seconds = word_of_int (x sdiv NANOS), du_nanos = word_of_int (x smod NANOS)\<rparr>"
  have e: "NANOS * (x sdiv NANOS) + x smod NANOS = x" by (rule mult_sdiv_smod_eq)
  have m: "- NANOS < x smod NANOS" "x smod NANOS < NANOS" using smod_abs [of NANOS x] by simp_all
  have "i64 (x sdiv NANOS)" "i64 (x smod NANOS)" using e m assms unfolding i64_def by linarith+
  then have t: "total_nanos ?raw = x" using e by (simp add: total_nanos_def mult.commute)
  have q: "- 86400 \<le> x div NANOS" "x div NANOS < 86400" "0 \<le> x mod NANOS" "x mod NANOS < NANOS"
    using mult_div_mod_eq [of NANOS x] pos_mod_bound [of NANOS x] pos_mod_sign [of NANOS x] assms by linarith+
  then have i: "i64 (x div NANOS)" "i64 (x mod NANOS)" unfolding i64_def by linarith+
  let ?du = "?raw\<lparr>du_seconds := word_of_int (x div NANOS), du_nanos := word_of_int (x mod NANOS)\<rparr>"
  have "total_nanos ?du = x" using i by (simp add: total_nanos_def)
  then show thesis
    using that [of ?du] i q by (simp add: normalizeDurationNanos_eq t)
qed

lemma wf_day_range: "wf_datetime b \<Longrightarrow> - 365243219162 \<le> dt_epoch_day b \<and> dt_epoch_day b \<le> 365241780471"
  unfolding dt_epoch_day_def using epoch_day_years by (auto simp: wf_datetime_def)

lemma wf_instant_day: "wf_datetime b \<Longrightarrow> localFieldsNanos b div DAY_NANOS = dt_epoch_day b"
  using instant_day unfolding wf_datetime_def localFieldsNanos_def dt_day_nanos_def by blast

text \<open>A sum that comes out at the instant of \<open>b\<close> is \<open>b\<close>.\<close>

lemma sum_reaches:
  assumes a: "wf_datetime a" and b: "wf_datetime b" and k: "dt_kind b = dt_kind a" "dt_kind a = DT_DATE \<or> dt_kind a = DT_LOCAL_DATETIME"
    and du: "coarse_ok du" "sum_instant a du = localFieldsNanos b" "dt_kind a = DT_DATE \<longrightarrow> total_nanos du = 0"
  shows "\<exists>r. addDuration_dt a du = Inr r \<and> datetime_eq same_tz r b"
proof (cases "dt_kind a = DT_DATE")
  case False
  note res = add_duration_result [OF a False, of du]
  obtain r where r: "addDuration_dt a du = Inr r"
    using res wf_instant_day [OF b] wf_day_range [OF b] du(1,2) by (cases "addDuration_dt a du") auto
  with res have "wf_datetime r" "dt_kind r = dt_kind a" "localFieldsNanos r = localFieldsNanos b" using du(2) by simp_all
  with local_fields_inject [OF _ b] r False k show ?thesis by (auto simp: datetime_eq_def)
next
  case True
  have vb: "valid_date (sint (dt_year b)) (sint (dt_month b)) (sint (dt_day b))"
    and ta: "time_in_day (sint (dt_hour a)) (sint (dt_minute a)) (sint (dt_second a)) (sint (dt_nanos a))"
    and yb: "- 999999999 \<le> sint (dt_year b)" "sint (dt_year b) \<le> 999999999"
    using a b by (simp_all add: wf_datetime_def)
  from add_date_reaches [OF a True du(1)] obtain y m d where p: "valid_date y m d"
    "daysFromCivil y m d = shifted_day a (sint (du_months du)) + sint (du_days du) + total_nanos du sdiv DAY_NANOS"
    "addDuration_dt a du = narrow_datetime a (y, m, d) (sint (dt_hour a), sint (dt_minute a), sint (dt_second a), sint (dt_nanos a))"
    by blast
  have "dt_day_nanos a = 0" "dt_day_nanos b = 0" using a b k True by (simp_all add: wf_datetime_def)
  then have "daysFromCivil y m d = daysFromCivil (sint (dt_year b)) (sint (dt_month b)) (sint (dt_day b))"
    using p(2) du(2,3) True by (simp add: sum_instant_def localFieldsNanos_def dt_epoch_day_def signed_divide_int_def)
  from day_number_inject [OF p(1) vb this] have e: "y = sint (dt_year b)" "m = sint (dt_month b)" "d = sint (dt_day b)" by simp_all
  then have "addDuration_dt a du = Inr (with_fields a (y, m, d) (sint (dt_hour a), sint (dt_minute a), sint (dt_second a), sint (dt_nanos a)))"
    using p(1,3) yb by (simp add: narrow_result)
  with with_fields_read [OF p(1) ta, of a] e yb True k show ?thesis by (auto simp: datetime_eq_def sint_eq_iff)
qed

text \<open>
  C21. For two dates, or two local date-times, at most \<open>10\<^sup>9\<close> years apart, \<open>durationBetween\<close> gives a
  duration that leads back: adding it to the start succeeds and yields the end, through month ends,
  leap days and borrowed days, in both directions of time.
\<close>

theorem between_add_roundtrip:
  assumes "wf_datetime a" and "wf_datetime b" and "dt_kind b = dt_kind a" and "dt_kind a = DT_DATE \<or> dt_kind a = DT_LOCAL_DATETIME"
    and "\<bar>sint (dt_year b) - sint (dt_year a)\<bar> \<le> 1000000000"
  shows "\<exists>du r. durationBetween_dt a b = Inr du \<and> addDuration_dt a du = Inr r \<and> datetime_eq same_tz r b"
proof -
  have k: "dt_kind a \<noteq> DT_DATETIME" using assms(4) by auto
  obtain months days x where p: "durationBetween_dt a b = normalizeDurationNanos
      \<lparr>du_months = word_of_int months, du_days = word_of_int days, du_seconds = word_of_int (x sdiv NANOS),
        du_nanos = word_of_int (x smod NANOS)\<rparr>"
    "\<bar>absoluteMonths (sint (dt_year b)) (sint (dt_month b)) - (absoluteMonths (sint (dt_year a)) (sint (dt_month a)) + months)\<bar> \<le> 2"
    "\<bar>days\<bar> \<le> 101" "- DAY_NANOS < x" "x < DAY_NANOS"
    "(shifted_day a months + days) * DAY_NANOS + dt_day_nanos a + x = localFieldsNanos b" "dt_kind a = DT_DATE \<longrightarrow> x = 0"
    by (rule between_parts [OF assms(1-3) k])
  have mo: "\<bar>months\<bar> \<le> 13044349302"
    using p(2) assms(1,2,5) valid_small by (auto simp: wf_datetime_def absoluteMonths_def dest!: valid_small)
  obtain du where du: "durationBetween_dt a b = Inr du" "du_months du = word_of_int months" "du_days du = word_of_int days"
    "total_nanos du = x" "\<bar>sint (du_seconds du)\<bar> \<le> 86400"
    using small_rest [OF p(4,5), of "word_of_int months" "word_of_int days"] p(1) by metis
  have "i64 months" "i64 days" using mo p(3) by (auto simp: i64_def)
  then have w: "sint (du_months du) = months" "sint (du_days du) = days" 
    using du(2,3) \<open>i64 months\<close> \<open>i64 days\<close> by simp_all
  then have "coarse_ok du" using mo p(3) du(5) by (auto simp: coarse_ok_def)
  moreover have "sum_instant a du = localFieldsNanos b" using p(6) du(4) w by (simp add: sum_instant_def)
  ultimately show ?thesis using sum_reaches [OF assms(1-4)] p(7) du(1,4) by blast
qed

definition leap_day :: date_time_value where
  "leap_day = new_datetime\<lparr>dt_year := 2024, dt_month := 2, dt_day := 29\<rparr>"

theorem between_add_roundtrip_witness:
  "\<exists>du r. durationBetween_dt leap_day new_datetime = Inr du \<and> addDuration_dt leap_day du = Inr r \<and> datetime_eq (=) r new_datetime"
  by (rule between_add_roundtrip)
    (simp_all add: leap_day_def new_datetime_def wf_datetime_def valid_date_def daysInMonth_def isLeapYear_mod time_in_day_def
      dt_day_nanos_def day_nanos_def)

section \<open>Epoch conversion\<close>

lemma day_nanos_parts:
  "NANOS * sec + n = x \<Longrightarrow> 60 * mi + s = sec \<Longrightarrow> 60 * h + m = mi \<Longrightarrow> day_nanos h m s n = x"
  by (auto simp: day_nanos_def algebra_simps)

lemma clock_fields:
  assumes "0 \<le> x" "x < DAY_NANOS"
  defines "sec \<equiv> x div NANOS"
  shows "time_in_day (sec div 60 div 60) (sec div 60 mod 60) (sec mod 60) (x mod NANOS) \<and>
    day_nanos (sec div 60 div 60) (sec div 60 mod 60) (sec mod 60) (x mod NANOS) = x"
proof -
  define mi where "mi = sec div 60"
  have 1: "NANOS * sec + x mod NANOS = x" "60 * mi + sec mod 60 = sec" "60 * (mi div 60) + mi mod 60 = mi"
    by (simp_all add: sec_def mi_def)
  have 2: "0 \<le> x mod NANOS" "x mod NANOS < NANOS" "0 \<le> sec mod 60" "sec mod 60 < 60" "0 \<le> mi mod 60" "mi mod 60 < 60"
    by simp_all
  have 3: "0 \<le> mi div 60" using assms by (simp add: mi_def sec_def pos_imp_zdiv_nonneg_iff)
  have "mi div 60 < 24" using 1 2 assms(2) by linarith
  moreover have "day_nanos (mi div 60) (mi mod 60) (sec mod 60) (x mod NANOS) = x"
    by (rule day_nanos_parts [OF 1])
  ultimately show ?thesis using 2 3 by (simp add: time_in_day_def mi_def)
qed

text \<open>
  An instant given in seconds and nanoseconds from the epoch becomes the UTC date-time of exactly
  that instant, well formed, for every pair of 64-bit numbers; when its year would leave the supported
  range the conversion raises the argument error instead of wrapping.
\<close>

theorem epoch_conversion_exact:
  "case datetimeFromEpoch sec ns of
     Inr r \<Rightarrow> wf_datetime r \<and> dt_kind r = DT_DATETIME \<and> dt_comparable r = sint sec * NANOS + sint ns
   | Inl e \<Rightarrow> e = QE_Argument \<and> (sint sec * NANOS + sint ns) div DAY_NANOS \<notin> {- 365243219162..365241780471}"
proof -
  define T where "T = sint sec * NANOS + sint ns"
  have b: "- 9300000000000000000000000000 \<le> T" "T \<le> 9300000000000000000000000000"
    using sint64_range [of sec] sint64_range [of ns] by (simp_all add: T_def)
  have e: "DAY_NANOS * (T sdiv DAY_NANOS) + T smod DAY_NANOS = T" by (rule mult_sdiv_smod_eq)
  have m: "- DAY_NANOS < T smod DAY_NANOS" "T smod DAY_NANOS < DAY_NANOS" using smod_abs [of DAY_NANOS T] by simp_all
  have i: "to_i64 (T sdiv DAY_NANOS) = T sdiv DAY_NANOS" "to_i64 (T smod DAY_NANOS) = T smod DAY_NANOS"
    using e m b by (auto intro!: to_i64_id)
  have fl: "(if T smod DAY_NANOS < 0 then (T smod DAY_NANOS + DAY_NANOS, T sdiv DAY_NANOS - 1)
      else (T smod DAY_NANOS, T sdiv DAY_NANOS)) = (T mod DAY_NANOS, T div DAY_NANOS)"
    using floor_fixup [of DAY_NANOS T] by (auto split: if_splits)
  define x where "x = T mod DAY_NANOS"
  have x: "0 \<le> x" "x < DAY_NANOS" by (simp_all add: x_def)
  obtain y mo d where c: "civilFromDays (T div DAY_NANOS) = (y, mo, d)" by (metis prod_cases3)
  note v = day_number_inverse [OF c]
  let ?sec = "x div NANOS"
  let ?time = "(?sec div 60 div 60, ?sec div 60 mod 60, ?sec mod 60, x mod NANOS)"
  have pos: "0 \<le> ?sec" "0 \<le> ?sec div 60" using x by (simp_all add: pos_imp_zdiv_nonneg_iff)
  obtain h mi se n where tm: "?time = (h, mi, se, n)" "time_in_day h mi se n" "day_nanos h mi se n = x"
    using clock_fields [OF x] by blast
  define r where "r = with_fields (new_datetime\<lparr>dt_kind := DT_DATETIME\<rparr>) (y, mo, d) (h, mi, se, n)"
  have run: "datetimeFromEpoch sec ns = (if y < - 999999999 \<or> y > 999999999 then Inl QE_Argument else Inr r)"
    unfolding datetimeFromEpoch_def Let_def T_def [symmetric] i fl prod.case c x_def [symmetric]
    using x pos tm(1) by (simp add: sdiv_pos smod_pos with_fields_def new_datetime_def r_def)
  show ?thesis
    unfolding T_def [symmetric]
  proof (cases "y < - 999999999 \<or> y > 999999999")
    case True
    then show "case datetimeFromEpoch sec ns of
        Inr r \<Rightarrow> wf_datetime r \<and> dt_kind r = DT_DATETIME \<and> dt_comparable r = T
      | Inl e \<Rightarrow> e = QE_Argument \<and> T div DAY_NANOS \<notin> {- 365243219162..365241780471}"
      using run epoch_day_years [of y mo d] v by auto
  next
    case False
    then have y: "- 999999999 \<le> y" "y \<le> 999999999" by simp_all
    note f = with_fields_read [OF conjunct1 [OF v] tm(2) y, of "new_datetime\<lparr>dt_kind := DT_DATETIME\<rparr>", folded r_def]
    have k: "dt_kind r = DT_DATETIME" "dt_tz_offset_sec r = 0" using f(8,9) by (simp_all add: new_datetime_def)
    have "dt_comparable r = T div DAY_NANOS * DAY_NANOS + x"
      unfolding dt_comparable_def dt_epoch_day_def dt_day_nanos_def f(1-7) using k v tm(3) by simp
    also have "\<dots> = T" by (simp add: x_def)
    finally have "dt_comparable r = T" .
    moreover have "wf_datetime r"
      unfolding wf_datetime_def f(1-7) using v y tm(2) k by simp
    ultimately show "case datetimeFromEpoch sec ns of
        Inr r \<Rightarrow> wf_datetime r \<and> dt_kind r = DT_DATETIME \<and> dt_comparable r = T
      | Inl e \<Rightarrow> e = QE_Argument \<and> T div DAY_NANOS \<notin> {- 365243219162..365241780471}"
      using run False k by simp
  qed
qed

section \<open>Order\<close>

lemma day_nanos_less:
  assumes "time_in_day h m s n" "time_in_day h' m' s' n'"
  shows "day_nanos h m s n < day_nanos h' m' s' n' \<longleftrightarrow>
    h < h' \<or> h = h' \<and> (m < m' \<or> m = m' \<and> (s < s' \<or> s = s' \<and> n < n'))"
proof -
  have less: "day_nanos h m s n < day_nanos h' m' s' n'"
    if "h < h' \<or> h = h' \<and> (m < m' \<or> m = m' \<and> (s < s' \<or> s = s' \<and> n < n'))"
      "time_in_day h m s n" "time_in_day h' m' s' n'" for h m s n h' m' s' n'
    using that by (auto simp: day_nanos_def time_in_day_def)
  from less [OF _ assms] less [OF _ assms(2,1)] show ?thesis by (metis linorder_neqE_linordered_idom order_less_asym)
qed

lemma instant_less:
  assumes "0 \<le> u" "u < DAY_NANOS" "0 \<le> v" "v < DAY_NANOS"
  shows "e * DAY_NANOS + u < f * DAY_NANOS + v \<longleftrightarrow> e < f \<or> e = f \<and> u < v"
  using assms by auto

lemma local_less_instant:
  assumes "wf_datetime a" "wf_datetime b"
  shows "dt_localFieldsLess a b \<longleftrightarrow> localFieldsNanos a < localFieldsNanos b"
proof -
  have t: "time_in_day (sint (dt_hour x)) (sint (dt_minute x)) (sint (dt_second x)) (sint (dt_nanos x))"
    and v: "valid_date (sint (dt_year x)) (sint (dt_month x)) (sint (dt_day x))" if "wf_datetime x" for x
    using that by (simp_all add: wf_datetime_def)
  have d: "0 \<le> dt_day_nanos x" "dt_day_nanos x < DAY_NANOS" if "wf_datetime x" for x
    using day_nanos_bounds [OF t [OF that]] by (simp_all add: dt_day_nanos_def)
  have "localFieldsNanos a < localFieldsNanos b \<longleftrightarrow>
      dt_epoch_day a < dt_epoch_day b \<or> dt_epoch_day a = dt_epoch_day b \<and> dt_day_nanos a < dt_day_nanos b"
    unfolding localFieldsNanos_def by (rule instant_less) (simp_all add: d assms)
  moreover have "dt_epoch_day a < dt_epoch_day b \<longleftrightarrow> date_less (sint (dt_year a), sint (dt_month a), sint (dt_day a))
      (sint (dt_year b), sint (dt_month b), sint (dt_day b))"
    unfolding dt_epoch_day_def by (rule date_less_iff [OF v v]) (rule assms)+
  moreover have "dt_epoch_day a = dt_epoch_day b \<longleftrightarrow> dt_year a = dt_year b \<and> dt_month a = dt_month b \<and> dt_day a = dt_day b"
    using day_number_inject [OF v [OF assms(1)] v [OF assms(2)]] by (auto simp: dt_epoch_day_def sint_eq_iff)
  ultimately show ?thesis
    using day_nanos_less [OF t [OF assms(1)] t [OF assms(2)]]
    by (auto simp: dt_localFieldsLess_def date_less_def dt_day_nanos_def sint_eq_iff)
qed

text \<open>
  The order of date-times is the order of time.  For dates and local date-times it is exactly the
  order of the instants on the local clock, although it compares the fields one by one; for zoned
  date-times an earlier instant is always less, whatever the zones, and only values of the same instant
  are told apart by their local clock.
\<close>

theorem datetime_order_instant:
  assumes "wf_datetime a" and "wf_datetime b" and "dt_kind a = dt_kind b"
  shows "(dt_kind a = DT_DATE \<or> dt_kind a = DT_LOCAL_DATETIME \<longrightarrow> (dt_less a b \<longleftrightarrow> dt_comparable a < dt_comparable b)) \<and>
    (dt_kind a = DT_DATETIME \<longrightarrow> (dt_less a b \<longleftrightarrow> dt_comparable a < dt_comparable b \<or>
       dt_comparable a = dt_comparable b \<and> localFieldsNanos a < localFieldsNanos b))"
proof -
  have "dt_comparable x = localFieldsNanos x" if "dt_kind x \<noteq> DT_DATETIME" for x
    using that by (simp add: dt_comparable_def localFieldsNanos_def)
  then show ?thesis
    using local_less_instant [OF assms(1,2)] assms(3) by (auto simp: dt_less_def)
qed

theorem datetime_order_instant_witness: "dt_less new_datetime leap_day"
  using datetime_order_instant [of new_datetime leap_day]
  by (simp add: leap_day_def new_datetime_def wf_datetime_def valid_date_def daysInMonth_def isLeapYear_mod time_in_day_def
      dt_day_nanos_def day_nanos_def dt_comparable_def dt_epoch_day_def daysFromCivil_march march_year_def march_month_def
      month_start_def civil_day_def)

end
