(* ===== verification/Pack_Stream_Proofs.thy ===== *)
theory Pack_Stream_Proofs
  imports Pack_Stream
begin

text \<open>
  Round trip of PackStream values, termination of the decoder on every input and rejection of
  truncated input.
\<close>

section \<open>The encoder appends\<close>

definition appends :: "(encoder \<Rightarrow> encoder) \<Rightarrow> bool" where
  "appends f \<longleftrightarrow> (\<exists>t. \<forall>buf. f buf = buf @ t)"

lemma appendsI: "(\<And>buf. f buf = buf @ t) \<Longrightarrow> appends f"
  by (auto simp: appends_def)

lemma appendsE: "appends f \<Longrightarrow> (\<And>t. (\<And>buf. f buf = buf @ t) \<Longrightarrow> P) \<Longrightarrow> P"
  by (auto simp: appends_def)

lemma appendsD: "appends f \<Longrightarrow> f buf = buf @ f []"
  by (elim appendsE) (metis append_Nil)

lemma appends_comp:
  assumes "appends f" "appends g"
  shows "appends (\<lambda>buf. g (f buf)) \<and> g (f []) = f [] @ g []"
proof -
  obtain t u where "\<And>buf. f buf = buf @ t" "\<And>buf. g buf = buf @ u" using assms by (elim appendsE) blast
  then show ?thesis by (auto intro!: appendsI [of _ "t @ u"])
qed

lemma appends_if: "appends f \<Longrightarrow> appends g \<Longrightarrow> appends (\<lambda>buf. if c then f buf else g buf)"
  by (cases c) simp_all

lemma appends_tail: "appends f \<Longrightarrow> appends (\<lambda>buf. f buf @ bs)"
  by (elim appendsE) (rule appendsI [of _ "_ @ bs"], simp)

lemma appends_byte [simp]: "appends (writeByte b)"
  by (rule appendsI [of _ "[b]"]) (simp add: writeByte_def)

lemma appends_two [simp]: "appends f \<Longrightarrow> appends (\<lambda>buf. writeByte b (f buf))"
  using appends_comp [of f "writeByte b"] by simp

lemma appends_write [simp]:
  "appends (writeInt i)" "appends (write_size m8 m16 m32 n)" "appends (writeString s)"
  "appends (writeBytes bs)" "appends (writeFloat d)" "appends (writeListHeader n)" "appends (writeDictHeader n)"
  "appends (writeStructHeader t n)" "appends writeNull" "appends (writeBoolean c)"
proof -
  show size: "appends (write_size m8 m16 m32 n)" for m8 m16 m32 n
    unfolding write_size_def by (intro appends_if appends_tail appends_two appends_byte)
  show "appends (writeInt i)" unfolding writeInt_def by (intro appends_if appends_tail appends_two appends_byte)
  show "appends (writeString s)" "appends (writeBytes bs)" "appends (writeFloat d)" "appends (writeListHeader n)"
    "appends (writeDictHeader n)" "appends (writeStructHeader t n)" "appends writeNull" "appends (writeBoolean c)"
    unfolding writeString_def writeBytes_def writeFloat_def writeListHeader_def writeDictHeader_def writeStructHeader_def
      writeNull_def writeBoolean_def
    by (intro appends_tail appends_two appends_if size appends_byte)+
qed

lemma appends_fold:
  "(\<And>x. x \<in> set xs \<Longrightarrow> appends (f x)) \<Longrightarrow>
   appends (fold f xs) \<and> fold f xs [] = concat (map (\<lambda>x. f x []) xs)"
proof (induction xs)
  case (Cons x xs)
  then have IH: "appends (fold f xs)" "fold f xs [] = concat (map (\<lambda>x. f x []) xs)" and x: "appends (f x)" by auto
  from appends_comp [OF x IH(1)] IH(2) show ?case by (simp add: comp_def)
qed (auto intro: appendsI [of _ "[]"])

lemma appends_value: "appends (writeValue v)"
proof (induction v)
  case (PsList vs)
  then have "appends (fold writeValue vs)" by (intro conjunct1 [OF appends_fold])
  from appends_comp [OF appends_write(6) this] show ?case by simp
next
  case (PsDict kvs)
  let ?f = "\<lambda>(key, val) buf. writeValue val (writeString key buf)"
  have "appends (?f kv)" if "kv \<in> set kvs" for kv
    using appends_comp [OF appends_write(3) PsDict [OF that]] by (cases kv) (auto simp: snds.simps)
  then have "appends (fold ?f kvs)" by (intro conjunct1 [OF appends_fold])
  from appends_comp [OF appends_write(7) this] show ?case by simp
next
  case (PsStruct t vs)
  then have "appends (fold writeValue vs)" by (intro conjunct1 [OF appends_fold])
  from appends_comp [OF appends_write(8) this] show ?case by simp
qed simp_all

definition encode_entry :: "string \<times> ps_value \<Rightarrow> bytes" where
  "encode_entry kv = writeString (fst kv) [] @ writeValue (snd kv) []"

lemma fold_writeValue:
  "fold writeValue vs buf = buf @ concat (map (\<lambda>v. writeValue v []) vs)"
  using appends_fold [of vs writeValue] appends_value appendsD [of "fold writeValue vs" buf] by auto

lemma fold_write_entry:
  "fold (\<lambda>(key, val) buf. writeValue val (writeString key buf)) kvs buf = buf @ concat (map encode_entry kvs)"
proof -
  let ?f = "\<lambda>(key, val) buf. writeValue val (writeString key buf)"
  have f: "appends (?f kv) \<and> ?f kv [] = encode_entry kv" for kv
    using appends_comp [OF appends_write(3) appends_value [of "snd kv"], of "fst kv"] by (cases kv) (simp add: encode_entry_def)
  then show ?thesis using appends_fold [of kvs ?f] appendsD [of "fold ?f kvs" buf] by simp
qed

lemma writeValue_parts:
  "writeValue (PsList vs) [] = writeListHeader (length vs) [] @ concat (map (\<lambda>v. writeValue v []) vs)"
  "writeValue (PsDict kvs) [] = writeDictHeader (length kvs) [] @ concat (map encode_entry kvs)"
  "writeValue (PsStruct t vs) [] = writeStructHeader t (length vs) [] @ concat (map (\<lambda>v. writeValue v []) vs)"
  by (simp_all add: fold_writeValue fold_write_entry)

section \<open>Readers\<close>

text \<open>\<open>reads d bs x\<close>: wherever the input starts with \<open>bs\<close>, the step \<open>d\<close> returns \<open>x\<close> and consumes exactly \<open>bs\<close>.\<close>

definition reads :: "'a dec \<Rightarrow> bytes \<Rightarrow> 'a \<Rightarrow> bool" where
  "reads d bs x \<longleftrightarrow> (\<forall>rest. d (bs @ rest) = Some (Inr (x, rest)))"

lemma reads_dret [simp]: "reads (dret x) [] x"
  by (simp add: reads_def dret_def)

lemma reads_dbind: "reads m xs x \<Longrightarrow> reads (k x) ys y \<Longrightarrow> reads (dbind m k) (xs @ ys) y"
  by (simp add: reads_def dbind_def)

lemma reads_byte [simp]: "reads readByte [b] b"
  by (simp add: reads_def readByte_def)

lemma reads_byte_then: "reads (k b) ys y \<Longrightarrow> reads (dbind readByte k) (b # ys) y"
  using reads_dbind [OF reads_byte] by fastforce

lemma reads_then_ret: "reads m xs x \<Longrightarrow> f x = y \<Longrightarrow> reads (dbind m (\<lambda>x. dret (f x))) xs y"
  using reads_dbind [of m xs x "\<lambda>x. dret (f x)" "[]" y] by auto

lemma reads_times: "(\<And>x. x \<in> set xs \<Longrightarrow> reads d (f x) x) \<Longrightarrow> reads (times_d (length xs) d) (concat (map f xs)) xs"
proof (induction xs)
  case (Cons x xs)
  then have "reads (dbind (times_d (length xs) d) (\<lambda>ys. dret (x # ys))) (concat (map f xs)) (x # xs)"
    by (intro reads_then_ret) auto
  then show ?case using Cons.prems by (auto intro!: reads_dbind)
qed simp

lemma reads_bytes: "reads (times_d (length bs) readByte) bs bs"
  using reads_times [of bs readByte "\<lambda>b. [b]"] by simp

lemma reads_uint: "length bs = n \<Longrightarrow> reads (read_uint n) bs (be_word bs)"
  unfolding read_uint_def readUintBigEndian_def using reads_bytes [of bs] by (intro reads_then_ret) auto

lemma reads_take:
  "reads (take_string (length s)) (bytes_of_string s) (PsString s)"
  "reads (take_bytes (length bs)) bs (PsBytes bs)"
  by (simp_all add: reads_def take_string_def take_bytes_def)

section \<open>Lengths and integers\<close>

lemma be_word_ucast:
  assumes "LENGTH('b) = 8 * n"
  shows "be_word (be_bytes n (v :: 'b::len word)) = (ucast v :: 'a::len word)"
proof (rule bit_word_eqI)
  fix i assume i: "i < LENGTH('a)"
  have "rev (be_bytes n v) ! (i div 8) = ucast (drop_bit (8 * (i div 8)) v)" if "i div 8 < n"
    using that by (simp add: be_bytes_def rev_map)
  moreover have "i div 8 < n \<longleftrightarrow> i < LENGTH('b)" using assms by (simp add: div_less_iff_less_mult mult.commute)
  ultimately show "bit (be_word (be_bytes n v) :: 'a word) i \<longleftrightarrow> bit (ucast v :: 'a word) i"
    using i by (auto simp: bit_be_word bit_ucast_iff bit_drop_bit_eq dest: bit_imp_le_length)
qed

lemma reads_be:
  assumes "LENGTH('b) = 8 * n"
  shows "reads (read_uint n) (be_bytes n (v :: 'b::len word)) (ucast v)"
  using reads_uint [of "be_bytes n v" n] be_word_ucast [where ?'a = 64, OF assms, of v] by simp

lemma scast_ucast_id:
  assumes "LENGTH('a) \<le> 64" "- (2 ^ (LENGTH('a) - 1)) \<le> sint v" "sint v < 2 ^ (LENGTH('a) - 1)"
  shows "scast (ucast v :: 'a::len word) = (v :: 64 word)"
proof -
  have "sint (ucast v :: 'a word) = signed_take_bit (LENGTH('a) - 1) (sint v)"
    using assms(1) by (simp add: sint_uint unsigned_ucast_eq signed_take_bit_take_bit) 
  then have "sint (ucast v :: 'a word) = sint v" using assms(2,3) by (simp add: signed_take_bit_int_eq_self)
  then show ?thesis by (simp add: scast_eq)
qed

text \<open>A header with a length of one, two or four bytes.\<close>

lemma reads_size:
  assumes "n < 2 ^ 32" "distinct [m8, m16, m32]"
  shows "\<exists>marker body. write_size m8 m16 m32 n [] = marker # body \<and> marker \<in> {m8, m16, m32} \<and> reads (read_len marker m8 m16) body n"
proof (cases "n \<le> 255")
  case True
  then have "reads (read_len m8 m8 m16) [of_nat n] n"
    unfolding read_len_def by (auto intro!: reads_byte_then simp: unat_of_nat)
  with True show ?thesis by (simp add: write_size_def writeByte_def)
next
  case large: False
  show ?thesis
  proof (cases "n \<le> 65535")
    case True
    then have "reads (read_len m16 m8 m16) (be_bytes 2 (of_nat n :: 16 word)) n"
      using assms(2) unfolding read_len_def by (auto intro!: reads_then_ret reads_be simp: unsigned_ucast_eq take_bit_nat_eq_self unsigned_of_nat)
    with True large show ?thesis by (simp add: write_size_def writeByte_def)
  next
    case False
    have "reads (read_len m32 m8 m16) (be_bytes 4 (of_nat n :: 32 word)) n"
      using assms unfolding read_len_def by (auto intro!: reads_then_ret reads_be simp: unsigned_ucast_eq take_bit_nat_eq_self unsigned_of_nat)
    with False large show ?thesis by (simp add: write_size_def writeByte_def)
  qed
qed

lemma tiny_marker:
  assumes "n \<le> 15" "base \<in> {0x80, 0x90, 0xA0, 0xB0 :: byte}"
  shows "(base OR of_nat n) AND 0xF0 = base" "unat ((base OR of_nat n) AND 0x0F) = n"
    "\<not> base OR of_nat n \<le> 0x7F" "\<not> 0xF0 \<le> base OR of_nat n"
proof -
  have n: "n \<in> {0, 1, 2, 3, 4, 5, 6, 7, 8, 9, 10, 11, 12, 13, 14, 15}"
    using assms(1) by (simp only: insert_iff empty_iff) arith
  show "(base OR of_nat n) AND 0xF0 = base" using n assms(2) by auto
  show "unat ((base OR of_nat n) AND 0x0F) = n" using n assms(2) by auto
  show "\<not> base OR of_nat n \<le> 0x7F" using n assms(2) by auto
  show "\<not> 0xF0 \<le> base OR of_nat n" using n assms(2) by auto
qed

section \<open>Round trip\<close>

definition decode_marker :: "byte \<Rightarrow> ps_value dec" where
  "decode_marker marker = (
     if marker = 0xC0 then dret PsNull
     else if marker = 0xC2 then dret (PsBool False)
     else if marker = 0xC3 then dret (PsBool True)
     else if marker \<le> 0x7F then dret (PsInt (ucast marker))
     else if marker \<ge> 0xF0 then dret (PsInt (scast marker))
     else if marker = 0xC8 then dbind readByte (\<lambda>b. dret (PsInt (scast b)))
     else if marker = 0xC9 then dbind (read_uint 2) (\<lambda>u. dret (PsInt (scast (ucast u :: 16 word))))
     else if marker = 0xCA then dbind (read_uint 4) (\<lambda>u. dret (PsInt (scast (ucast u :: 32 word))))
     else if marker = 0xCB then dbind (read_uint 8) (\<lambda>u. dret (PsInt u))
     else if marker = 0xC1 then dbind (read_uint 8) (\<lambda>u. dret (PsFloat u))
     else if marker AND 0xF0 = 0x80 then take_string (unat (marker AND 0x0F))
     else if marker = 0xD0 \<or> marker = 0xD1 \<or> marker = 0xD2 then dbind (read_len marker 0xD0 0xD1) take_string
     else if marker = 0xCC \<or> marker = 0xCD \<or> marker = 0xCE then dbind (read_len marker 0xCC 0xCD) take_bytes
     else if marker AND 0xF0 = 0x90 then dbind (times_d (unat (marker AND 0x0F)) decode) (\<lambda>vs. dret (PsList vs))
     else if marker = 0xD4 \<or> marker = 0xD5 \<or> marker = 0xD6 then
       dbind (read_len marker 0xD4 0xD5) (\<lambda>n. dbind (times_d n decode) (\<lambda>vs. dret (PsList vs)))
     else if marker AND 0xF0 = 0xA0 then dict_loop (unat (marker AND 0x0F)) decode []
     else if marker = 0xD8 \<or> marker = 0xD9 \<or> marker = 0xDA then
       dbind (read_len marker 0xD8 0xD9) (\<lambda>n. dict_loop n decode [])
     else dbind (struct_count Unknown_Marker marker) (\<lambda>field_count. dbind readByte (\<lambda>tag.
       dbind (times_d field_count decode) (\<lambda>fields. dret (PsStruct tag fields)))))"

lemma decode_step: "decode = dbind readByte decode_marker"
  by (rule ext, subst decode.simps) (simp only: decode_marker_def [abs_def])

lemma reads_decode: "reads (decode_marker m) ys y \<Longrightarrow> reads decode (m # ys) y"
  unfolding decode_step by (rule reads_byte_then)

lemma marker_differs: "m AND (0xF0 :: byte) = a \<Longrightarrow> b AND 0xF0 \<noteq> a \<Longrightarrow> m \<noteq> b"
  by auto

lemma decode_tiny:
  assumes "n \<le> 15"
  shows "decode_marker (0x80 OR of_nat n) = take_string n"
    "decode_marker (0x90 OR of_nat n) = dbind (times_d n decode) (\<lambda>vs. dret (PsList vs))"
    "decode_marker (0xA0 OR of_nat n) = dict_loop n decode []"
    "decode_marker (0xB0 OR of_nat n) = dbind readByte (\<lambda>tag. dbind (times_d n decode) (\<lambda>fields. dret (PsStruct tag fields)))"
proof -
  have D: "(base OR of_nat n) \<noteq> b" if "base \<in> {0x80, 0x90, 0xA0, 0xB0 :: byte}" "b AND 0xF0 \<noteq> base" for base b
    using tiny_marker(1) [OF assms that(1)] that(2) by auto
  note T = tiny_marker [OF assms]
  show "decode_marker (0x80 OR of_nat n) = take_string n"
    unfolding decode_marker_def using T [of "0x80"] D [of "0x80"] by simp
  show "decode_marker (0x90 OR of_nat n) = dbind (times_d n decode) (\<lambda>vs. dret (PsList vs))"
    unfolding decode_marker_def using T [of "0x90"] D [of "0x90"] by simp
  show "decode_marker (0xA0 OR of_nat n) = dict_loop n decode []"
    unfolding decode_marker_def using T [of "0xA0"] D [of "0xA0"] by simp
  have "dbind (dret x) k = k x" for x :: nat and k :: "nat \<Rightarrow> ps_value dec"
    by (simp add: fun_eq_iff dbind_def dret_def)
  then show "decode_marker (0xB0 OR of_nat n) =
      dbind readByte (\<lambda>tag. dbind (times_d n decode) (\<lambda>fields. dret (PsStruct tag fields)))"
    unfolding decode_marker_def struct_count_def using T [of "0xB0"] D [of "0xB0"] by simp
qed

lemma decode_sized:
  "m \<in> {0xD0, 0xD1, 0xD2} \<Longrightarrow> decode_marker m = dbind (read_len m 0xD0 0xD1) take_string"
  "m \<in> {0xCC, 0xCD, 0xCE} \<Longrightarrow> decode_marker m = dbind (read_len m 0xCC 0xCD) take_bytes"
  "m \<in> {0xD4, 0xD5, 0xD6} \<Longrightarrow>
     decode_marker m = dbind (read_len m 0xD4 0xD5) (\<lambda>n. dbind (times_d n decode) (\<lambda>vs. dret (PsList vs)))"
  "m \<in> {0xD8, 0xD9, 0xDA} \<Longrightarrow> decode_marker m = dbind (read_len m 0xD8 0xD9) (\<lambda>n. dict_loop n decode [])"
  "m \<in> {0xDC, 0xDD, 0xDF} \<Longrightarrow> decode_marker m = dbind (read_len m 0xDC 0xDD) (\<lambda>n. dbind readByte (\<lambda>tag.
     dbind (times_d n decode) (\<lambda>fields. dret (PsStruct tag fields))))"
  by (elim insertE emptyE; simp add: decode_marker_def struct_count_def)+

lemma reads_sized:
  assumes "n < 2 ^ 32" "distinct [m8, m16, m32]"
    and "\<And>m. m \<in> {m8, m16, m32} \<Longrightarrow> decode_marker m = dbind (read_len m m8 m16) k" and "reads (k n) body y"
  shows "reads decode (write_size m8 m16 m32 n [] @ body) y"
proof -
  obtain m h where m: "write_size m8 m16 m32 n [] = m # h" "m \<in> {m8, m16, m32}" "reads (read_len m m8 m16) h n"
    using reads_size [OF assms(1,2)] by blast
  have "reads (decode_marker m) (h @ body) y" unfolding assms(3) [OF m(2)] using m(3) assms(4) by (rule reads_dbind)
  from reads_decode [OF this] m(1) show ?thesis by simp
qed

lemma reads_tiny: "decode_marker m = k \<Longrightarrow> reads k body y \<Longrightarrow> reads decode (writeByte m [] @ body) y"
  using reads_decode by (simp add: writeByte_def)

lemma reads_string: "length s < 2 ^ 32 \<Longrightarrow> reads decode (writeString s []) (PsString s)"
  unfolding writeString_def
  by (cases "length s \<le> 15")
    (auto intro!: reads_tiny [OF decode_tiny(1)] reads_sized [OF _ _ decode_sized(1)] reads_take)

lemma tiny_int:
  "0 \<le> sint i \<Longrightarrow> sint i \<le> 127 \<Longrightarrow> (ucast i :: byte) \<le> 0x7F \<and> ucast (ucast i :: byte) = (i :: 64 word)"
  "- 16 \<le> sint i \<Longrightarrow> sint i \<le> - 1 \<Longrightarrow> 0xF0 \<le> (ucast i :: byte) \<and> scast (ucast i :: byte) = (i :: 64 word)"
proof -
  have "take_bit 8 (sint i) = take_bit 8 (uint i)" by (simp add: sint_uint take_bit_signed_take_bit)
  then have u: "uint (ucast i :: byte) = sint i mod 256" by (simp add: unsigned_ucast_eq take_bit_eq_mod)
  { assume r: "0 \<le> sint i" "sint i \<le> 127"
    then have "uint (ucast i :: byte) = sint i" using u by simp
    then have "(ucast (ucast i :: byte) :: 64 word) = word_of_int (sint i)" by (metis ucast_eq)
    with \<open>uint (ucast i :: byte) = sint i\<close> show "(ucast i :: byte) \<le> 0x7F \<and> ucast (ucast i :: byte) = i"
      using r(2) by (simp add: word_le_def) }
  { assume r: "- 16 \<le> sint i" "sint i \<le> - 1"
    have "sint i mod 256 = sint i + 256" using r by (intro int_mod_pos_eq [of _ _ "- 1"]) auto
    then have "0xF0 \<le> (ucast i :: byte)" using u r(1) by (simp add: word_le_def)
    with r show "0xF0 \<le> (ucast i :: byte) \<and> scast (ucast i :: byte) = i" by (simp add: scast_ucast_id) }
qed

lemma decode_int_markers:
  "m \<le> 0x7F \<Longrightarrow> decode_marker m = dret (PsInt (ucast m))"
  "0xF0 \<le> m \<Longrightarrow> decode_marker m = dret (PsInt (scast m))"
  "decode_marker 0xC8 = dbind readByte (\<lambda>b. dret (PsInt (scast b)))"
  "decode_marker 0xC9 = dbind (read_uint 2) (\<lambda>u. dret (PsInt (scast (ucast u :: 16 word))))"
  "decode_marker 0xCA = dbind (read_uint 4) (\<lambda>u. dret (PsInt (scast (ucast u :: 32 word))))"
  "decode_marker 0xCB = dbind (read_uint 8) (\<lambda>u. dret (PsInt u))"
  "decode_marker 0xC1 = dbind (read_uint 8) (\<lambda>u. dret (PsFloat u))"
  by (simp_all add: decode_marker_def) (auto simp: word_le_nat_alt)

lemma reads_int: "reads decode (writeInt i []) (PsInt i)"
proof -
  consider (pos) "0 \<le> sint i" "sint i \<le> 127" | (neg) "- 16 \<le> sint i" "sint i \<le> - 1"
    | (i8) "\<not> (0 \<le> sint i \<and> sint i \<le> 127)" "\<not> (- 16 \<le> sint i \<and> sint i \<le> - 1)" "- 128 \<le> sint i" "sint i \<le> 127"
    | (i16) "\<not> (- 128 \<le> sint i \<and> sint i \<le> 127)" "- 32768 \<le> sint i" "sint i \<le> 32767"
    | (i32) "\<not> (- 32768 \<le> sint i \<and> sint i \<le> 32767)" "- 2147483648 \<le> sint i" "sint i \<le> 2147483647"
    | (i64) "\<not> (- 2147483648 \<le> sint i \<and> sint i \<le> 2147483647)" by linarith
  then show ?thesis
  proof cases
    case pos
    have "writeInt i [] = [ucast i]" unfolding writeInt_def writeByte_def using pos by auto
    with tiny_int(1) [OF pos] show ?thesis by (simp add: reads_decode decode_int_markers(1))
  next
    case neg
    have "writeInt i [] = [ucast i]" unfolding writeInt_def writeByte_def using neg by auto
    with tiny_int(2) [OF neg] show ?thesis by (simp add: reads_decode decode_int_markers(2))
  next
    case i8
    have "writeInt i [] = [0xC8, ucast i]" unfolding writeInt_def writeByte_def using i8 by auto
    with i8 show ?thesis
      by (auto intro!: reads_decode reads_then_ret [OF reads_byte] simp: decode_int_markers scast_ucast_id)
  next
    case i16
    have "writeInt i [] = 0xC9 # be_bytes 2 (ucast i :: 16 word)" unfolding writeInt_def writeByte_def using i16 by auto
    with i16 show ?thesis
      by (auto intro!: reads_decode reads_then_ret [OF reads_be] simp: decode_int_markers scast_ucast_id ucast_up_ucast_id is_up)
  next
    case i32
    have "writeInt i [] = 0xCA # be_bytes 4 (ucast i :: 32 word)" unfolding writeInt_def writeByte_def using i32 by auto
    with i32 show ?thesis
      by (auto intro!: reads_decode reads_then_ret [OF reads_be] simp: decode_int_markers scast_ucast_id ucast_up_ucast_id is_up)
  next
    case i64
    have "writeInt i [] = 0xCB # be_bytes 8 i" unfolding writeInt_def writeByte_def using i64 by auto
    then show ?thesis
      by (auto intro!: reads_decode reads_then_ret [OF reads_be] simp: decode_int_markers)
  qed
qed

text \<open>Values the format can represent: 32-bit lengths and the distinct keys of a map.\<close>

fun ps_wf :: "ps_value \<Rightarrow> bool" where
  "ps_wf (PsString s) \<longleftrightarrow> length s < 2 ^ 32"
| "ps_wf (PsBytes bs) \<longleftrightarrow> length bs < 2 ^ 32"
| "ps_wf (PsList vs) \<longleftrightarrow> length vs < 2 ^ 32 \<and> (\<forall>v \<in> set vs. ps_wf v)"
| "ps_wf (PsDict kvs) \<longleftrightarrow> length kvs < 2 ^ 32 \<and> distinct (map fst kvs) \<and>
     (\<forall>kv \<in> set kvs. length (fst kv) < 2 ^ 32 \<and> ps_wf (snd kv))"
| "ps_wf (PsStruct tag vs) \<longleftrightarrow> length vs < 2 ^ 32 \<and> (\<forall>v \<in> set vs. ps_wf v)"
| "ps_wf _ \<longleftrightarrow> True"

lemma reads_dict:
  assumes "\<And>kv. kv \<in> set kvs \<Longrightarrow> length (fst kv) < 2 ^ 32 \<and> reads decode (writeValue (snd kv) []) (snd kv)"
    and "distinct (map fst kvs)" "fst ` set dict \<inter> fst ` set kvs = {}"
  shows "reads (dict_loop (length kvs) decode dict) (concat (map encode_entry kvs)) (PsDict (dict @ kvs))"
  using assms
proof (induction kvs arbitrary: dict)
  case (Cons kv kvs)
  obtain k v where kv: "kv = (k, v)" by (cases kv)
  have "reads (dict_loop (length kvs) decode (dict @ [(k, v)])) (concat (map encode_entry kvs)) (PsDict ((dict @ [(k, v)]) @ kvs))"
    using Cons.prems kv by (intro Cons.IH) auto
  moreover have "emplace k v dict = dict @ [(k, v)]" using Cons.prems(3) kv by (auto simp: emplace_def)
  moreover have "reads decode (writeString k []) (PsString k)" "reads decode (writeValue v []) v"
    using Cons.prems(1) [of kv] kv reads_string by auto
  ultimately have "reads (dict_loop (length (kv # kvs)) decode dict)
      (writeString k [] @ writeValue v [] @ concat (map encode_entry kvs)) (PsDict (dict @ kv # kvs))"
    unfolding kv by (auto intro!: reads_dbind)
  moreover have "encode_entry kv = writeString k [] @ writeValue v []" by (simp add: kv encode_entry_def)
  ultimately show ?case by simp
qed simp

lemma reads_value: "ps_wf v \<Longrightarrow> reads decode (writeValue v []) v"
proof (induction v)
  case (PsBytes bs)
  then show ?case by (auto simp: writeBytes_def intro!: reads_sized [OF _ _ decode_sized(2)] reads_take)
next
  case (PsList vs)
  let ?body = "concat (map (\<lambda>v. writeValue v []) vs)"
  have "reads (dbind (times_d (length vs) decode) (\<lambda>vs. dret (PsList vs))) ?body (PsList vs)"
    using PsList reads_times [of vs decode "\<lambda>v. writeValue v []"] by (intro reads_then_ret) auto
  with PsList.prems show ?case unfolding writeValue_parts writeListHeader_def
    by (cases "length vs \<le> 15") (auto intro!: reads_tiny [OF decode_tiny(2)] reads_sized [OF _ _ decode_sized(3)])
next
  case (PsDict kvs)
  have "reads (dict_loop (length kvs) decode []) (concat (map encode_entry kvs)) (PsDict ([] @ kvs))"
    using PsDict by (intro reads_dict) (auto simp: snds.simps)
  with PsDict.prems show ?case unfolding writeValue_parts writeDictHeader_def
    by (cases "length kvs \<le> 15") (auto intro!: reads_tiny [OF decode_tiny(3)] reads_sized [OF _ _ decode_sized(4)])
next
  case (PsStruct tag vs)
  let ?body = "concat (map (\<lambda>v. writeValue v []) vs)"
  have "reads (dbind (times_d (length vs) decode) (\<lambda>fs. dret (PsStruct tag fs))) ?body (PsStruct tag vs)"
    using PsStruct reads_times [of vs decode "\<lambda>v. writeValue v []"] by (intro reads_then_ret) auto
  then have "reads (dbind readByte (\<lambda>tag. dbind (times_d (length vs) decode) (\<lambda>fs. dret (PsStruct tag fs)))) (tag # ?body)
      (PsStruct tag vs)" by (rule reads_byte_then)
  with PsStruct.prems show ?case unfolding writeValue_parts writeStructHeader_def writeByte_def [of tag]
    by (cases "length vs \<le> 15") (auto intro!: reads_tiny [OF decode_tiny(4)] reads_sized [OF _ _ decode_sized(5)])
qed (auto simp: reads_string reads_int writeNull_def writeBoolean_def writeFloat_def writeByte_def decode_int_markers
    intro!: reads_decode reads_then_ret [OF reads_be], simp_all add: decode_marker_def)

section \<open>Every input is decoded or rejected\<close>

text \<open>
  \<open>local_read d bs r\<close>: when the result \<open>r\<close> of \<open>d\<close> on \<open>bs\<close> is a value, it was read from the front of \<open>bs\<close>
  and does not depend on what follows.  \<open>total_below n d\<close>: on inputs shorter than \<open>n\<close>, \<open>d\<close> returns such a result.
\<close>

definition local_read :: "'a dec \<Rightarrow> bytes \<Rightarrow> decode_error + 'a \<times> bytes \<Rightarrow> bool" where
  "local_read d bs r \<longleftrightarrow> (\<forall>x rest. r = Inr (x, rest) \<longrightarrow> (\<exists>used. bs = used @ rest \<and> reads d used x))"

definition total_below :: "nat \<Rightarrow> 'a dec \<Rightarrow> bool" where
  "total_below n d \<longleftrightarrow> (\<forall>bs. length bs < n \<longrightarrow> (\<exists>r. d bs = Some r \<and> local_read d bs r))"

lemma local_read_Inl [simp]: "local_read d bs (Inl e)"
  by (simp add: local_read_def)

lemma local_readI: "bs = used @ rest \<Longrightarrow> reads d used x \<Longrightarrow> local_read d bs (Inr (x, rest))"
  by (auto simp: local_read_def)

lemma total_belowE:
  assumes "total_below n d" "length bs < n"
  obtains (error) e where "d bs = Some (Inl e)" | (val) used rest x where "d bs = Some (Inr (x, rest))" "bs = used @ rest" "reads d used x"
proof -
  from assms obtain r where "d bs = Some r" "local_read d bs r" unfolding total_below_def by blast
  with that show ?thesis by (cases r) (auto simp: local_read_def)
qed

lemma total_dret [simp]: "total_below n (dret x)"
  by (auto simp: total_below_def dret_def reads_def intro!: local_readI [of _ "[]"])

lemma total_dfail [simp]: "total_below n (dfail e)"
  by (simp add: total_below_def dfail_def)

lemma total_dbind:
  assumes "total_below n m" "\<And>x. total_below n (k x)"
  shows "total_below n (dbind m k)"
  unfolding total_below_def
proof (intro allI impI)
  fix bs :: bytes assume n: "length bs < n"
  from assms(1) n show "\<exists>r. dbind m k bs = Some r \<and> local_read (dbind m k) bs r"
  proof (cases rule: total_belowE)
    case (val used bs1 x)
    then have "length bs1 < n" using n by simp
    with assms(2) [of x] show ?thesis
    proof (cases rule: total_belowE)
      case inner: (val used2 rest y)
      have "reads (dbind m k) (used @ used2) y" using val(3) inner(3) by (rule reads_dbind)
      with val(1,2) inner(1,2) show ?thesis by (auto simp: dbind_def intro!: local_readI)
    qed (use val in \<open>simp add: dbind_def\<close>)
  qed (simp add: dbind_def)
qed

lemma total_readByte: "total_below n readByte"
  by (auto simp: total_below_def readByte_def intro!: local_readI reads_byte split: list.splits)

lemma total_times: "total_below n d \<Longrightarrow> total_below n (times_d k d)"
  by (induction k) (auto intro!: total_dbind)

lemma total_dict: "total_below n d \<Longrightarrow> total_below n (dict_loop k d dict)"
proof (induction k arbitrary: dict)
  case (Suc k)
  then show ?case by (auto intro!: total_dbind split: ps_value.split)
qed simp

lemma total_readers [simp]: "total_below n (read_uint k)" "total_below n (read_len m m8 m16)" "total_below n (struct_count e m)"
  "total_below n (take_string k)" "total_below n (take_bytes k)"
proof -
  show U: "total_below n (read_uint k)" for k unfolding read_uint_def by (intro total_dbind total_times total_readByte) simp
  show L: "total_below n (read_len m m8 m16)" for m m8 m16
    unfolding read_len_def by (auto intro!: total_dbind U total_readByte)
  show "total_below n (struct_count e m)" unfolding struct_count_def by (auto intro!: L)
  show "total_below n (take_string k)" "total_below n (take_bytes k)"
    unfolding total_below_def take_string_def take_bytes_def
    by (auto simp: reads_def take_string_def take_bytes_def intro: local_readI [OF append_take_drop_id [symmetric]])
qed

lemma total_marker: "total_below n decode \<Longrightarrow> total_below n (decode_marker m)"
  unfolding decode_marker_def
  by (auto intro!: total_dbind total_times total_dict total_readByte)

lemma total_decode: "total_below n decode"
proof (induction n)
  case (Suc n)
  show ?case unfolding total_below_def
  proof (intro allI impI)
    fix bs :: bytes assume n: "length bs < Suc n"
    show "\<exists>r. decode bs = Some r \<and> local_read decode bs r"
    proof (cases bs)
      case (Cons b bs1)
      then have "length bs1 < n" using n by simp
      with total_marker [OF Suc, of b] show ?thesis
      proof (cases rule: total_belowE)
        case (val used rest x)
        then show ?thesis using reads_decode [OF val(3)] Cons
          by (auto simp: decode_step dbind_def readByte_def intro!: local_readI [of _ "b # used"])
      qed (use Cons in \<open>simp add: decode_step dbind_def readByte_def\<close>)
    qed (simp add: decode_step dbind_def readByte_def)
  qed
qed (simp add: total_below_def)

lemma decode_not_empty: "\<not> reads decode [] x"
proof
  assume "reads decode [] x"
  then have "decode [] = Some (Inr (x, []))" unfolding reads_def by (metis append_Nil)
  then show False by (simp add: decode_step dbind_def readByte_def)
qed

section \<open>Properties\<close>

text \<open>
  C17. Every value the format can represent is written by appending to the buffer, and the decoder reads
  exactly the appended bytes back to the same value, whatever follows them in the input.
\<close>

theorem packstream_roundtrip:
  assumes "ps_wf v"
  shows "\<exists>bytes. (\<forall>buf. writeValue v buf = buf @ bytes) \<and> (\<forall>rest. decode (bytes @ rest) = Some (Inr (v, rest)))"
  using appends_value [of v] reads_value [OF assms] unfolding appends_def reads_def by (metis append_Nil)

theorem packstream_roundtrip_witness:
  "\<exists>bytes. writeValue (PsStruct 0x4E [PsInt (- 17), PsDict [(''name'', PsString ''Ada''), (''tags'', PsList [PsNull, PsBool True])]]) []
      = bytes \<and>
    decode bytes = Some (Inr (PsStruct 0x4E [PsInt (- 17), PsDict [(''name'', PsString ''Ada''), (''tags'', PsList [PsNull, PsBool True])]], []))"
proof -
  let ?v = "PsStruct 0x4E [PsInt (- 17), PsDict [(''name'', PsString ''Ada''), (''tags'', PsList [PsNull, PsBool True])]]"
  have "ps_wf ?v" by simp
  from packstream_roundtrip [OF this] show ?thesis by (metis append_Nil append_Nil2)
qed


text \<open>
  A message cut short is rejected: the decoder reports an error on every proper prefix of an encoded
  value.
\<close>

theorem packstream_truncated:
  assumes "ps_wf v" and "strict_prefix bs (writeValue v [])"
  shows "\<exists>e. decode bs = Some (Inl e)"
proof -
  obtain more where more: "writeValue v [] = bs @ more" "more \<noteq> []" using assms(2) by (auto elim: strict_prefixE')
  have full: "decode (bs @ more) = Some (Inr (v, []))"
    using reads_value [OF assms(1)] unfolding reads_def more(1) by (metis append_Nil2)
  from total_decode lessI [of "length bs"] show ?thesis
  proof (cases rule: total_belowE)
    case (val used rest x)
    then have "decode (bs @ more) = Some (Inr (x, rest @ more))" by (simp add: reads_def)
    with full more(2) show ?thesis by simp
  qed blast
qed

theorem packstream_truncated_witness: "\<exists>e. decode [0x92, 0x01] = Some (Inl e)"
  by (rule packstream_truncated [of "PsList [PsInt 1, PsInt 2]"])
    (simp_all add: writeListHeader_def writeInt_def writeByte_def strict_prefix_def)

end
