(* ===== verification/Web_Socket.thy ===== *)
theory Web_Socket
  imports Prelude
begin

text \<open>
  \<^verbatim>\<open>service/bolt/websocket.cpp\<close>: WebSocket frames, the opening handshake with its SHA-1 and Base64, and
  \<^verbatim>\<open>ws_origin.cpp\<close>, the check of the browser's origin.  A pointer and a length are a list of bytes;
  a \<^verbatim>\<open>std::string_view\<close> is a string.
\<close>

section \<open>SHA-1\<close>

definition rotl32 :: "32 word \<Rightarrow> nat \<Rightarrow> 32 word" where
  "rotl32 x n = push_bit n x OR drop_bit (32 - n) x"

record sha1_ctx =
  sha_h :: "32 word list"
  sha_total_bytes :: "64 word"
  sha_buf :: bytes
  sha_buf_len :: nat

definition new_sha1 :: sha1_ctx where
  "new_sha1 = \<lparr>sha_h = [0x67452301, 0xEFCDAB89, 0x98BADCFE, 0x10325476, 0xC3D2E1F0], sha_total_bytes = 0,
     sha_buf = replicate 64 0, sha_buf_len = 0\<rparr>"

definition block_word :: "bytes \<Rightarrow> nat \<Rightarrow> 32 word" where
  "block_word block i = push_bit 24 (ucast (block ! (i * 4))) OR push_bit 16 (ucast (block ! (i * 4 + 1))) OR
     push_bit 8 (ucast (block ! (i * 4 + 2))) OR ucast (block ! (i * 4 + 3))"

definition extend_word :: "32 word list \<Rightarrow> nat \<Rightarrow> 32 word list" where
  "extend_word w i = w @ [rotl32 (w ! (i - 3) XOR w ! (i - 8) XOR w ! (i - 14) XOR w ! (i - 16)) 1]"

definition sha1_round :: "32 word list \<Rightarrow> nat \<Rightarrow> 32 word \<times> 32 word \<times> 32 word \<times> 32 word \<times> 32 word \<Rightarrow>
    32 word \<times> 32 word \<times> 32 word \<times> 32 word \<times> 32 word" where
  "sha1_round w i = (\<lambda>(a, b, c, d, e).
     let (f, k) =
       (if i < 20 then ((b AND c) OR (NOT b AND d), 0x5A827999)
        else if i < 40 then (b XOR c XOR d, 0x6ED9EBA1)
        else if i < 60 then ((b AND c) OR (b AND d) OR (c AND d), 0x8F1BBCDC)
        else (b XOR c XOR d, 0xCA62C1D6));
       t = rotl32 a 5 + f + e + k + w ! i
     in (t, a, rotl32 b 30, c, d))"

definition processBlock :: "32 word list \<Rightarrow> bytes \<Rightarrow> 32 word list" where
  "processBlock h block =
     (let w0 = map (block_word block) [0..<16];
          w = fold (\<lambda>i w. extend_word w i) [16..<80] w0;
          (a, b, c, d, e) = fold (sha1_round w) [0..<80] (h ! 0, h ! 1, h ! 2, h ! 3, h ! 4)
      in [h ! 0 + a, h ! 1 + b, h ! 2 + c, h ! 3 + d, h ! 4 + e])"

text \<open>\<^verbatim>\<open>memcpy\<close> and \<^verbatim>\<open>memset\<close> into the buffer.\<close>

definition copy_at :: "bytes \<Rightarrow> nat \<Rightarrow> bytes \<Rightarrow> bytes" where
  "copy_at buf pos bs = take pos buf @ bs @ drop (pos + length bs) buf"

partial_function (option) update_loop :: "sha1_ctx \<Rightarrow> bytes \<Rightarrow> sha1_ctx option" where
  "update_loop ctx data =
     (if data = [] then Some ctx
      else let n = min (64 - sha_buf_len ctx) (length data);
               buf = copy_at (sha_buf ctx) (sha_buf_len ctx) (take n data);
               ctx1 = ctx\<lparr>sha_buf := buf, sha_buf_len := sha_buf_len ctx + n\<rparr>;
               ctx2 = (if sha_buf_len ctx1 = 64
                       then ctx1\<lparr>sha_h := processBlock (sha_h ctx1) (sha_buf ctx1), sha_buf_len := 0\<rparr> else ctx1)
        in update_loop ctx2 (drop n data))"

declare update_loop.simps [code]

definition sha1_update :: "sha1_ctx \<Rightarrow> bytes \<Rightarrow> sha1_ctx option" where
  "sha1_update ctx data = update_loop (ctx\<lparr>sha_total_bytes := sha_total_bytes ctx + of_nat (length data)\<rparr>) data"

definition sha1_finalize :: "sha1_ctx \<Rightarrow> bytes" where
  "sha1_finalize ctx =
     (let bits = sha_total_bytes ctx * 8;
          buf = copy_at (sha_buf ctx) (sha_buf_len ctx) [0x80];
          len = sha_buf_len ctx + 1;
          (h, buf, len) =
            (if len > 56 then
               let full = copy_at buf len (replicate (64 - len) 0) in (processBlock (sha_h ctx) full, full, 0)
             else (sha_h ctx, buf, len));
          buf = copy_at buf len (replicate (56 - len) 0);
          buf = copy_at buf 56 (be_bytes 8 bits);
          h = processBlock h buf
      in concat (map (be_bytes 4) h))"

definition sha1 :: "bytes \<Rightarrow> bytes option" where
  "sha1 data = map_option sha1_finalize (sha1_update new_sha1 data)"

section \<open>Base64\<close>

definition kBase64Table :: string where
  "kBase64Table = ''ABCDEFGHIJKLMNOPQRSTUVWXYZabcdefghijklmnopqrstuvwxyz0123456789+/''"

definition base64_char :: "32 word \<Rightarrow> nat \<Rightarrow> char" where
  "base64_char v shift = kBase64Table ! unat (drop_bit shift v AND 0x3F)"

fun base64Encode :: "bytes \<Rightarrow> string" where
  "base64Encode data =
     (if data = [] then []
      else let v = push_bit 16 (ucast (data ! 0));
               v = (if 1 < length data then v OR push_bit 8 (ucast (data ! 1)) else v);
               v = (if 2 < length data then v OR ucast (data ! 2) else v)
        in [base64_char v 18, base64_char v 12,
            if 1 < length data then base64_char v 6 else CHR ''='', if 2 < length data then base64_char v 0 else CHR ''='']
           @ base64Encode (drop 3 data))"

section \<open>Frames\<close>

type_synonym opcode = "8 word"

abbreviation (input) OP_BINARY :: opcode where "OP_BINARY \<equiv> 2"
abbreviation (input) OP_CLOSE :: opcode where "OP_CLOSE \<equiv> 8"
abbreviation (input) OP_PONG :: opcode where "OP_PONG \<equiv> 10"

record frame_header =
  fh_fin :: bool
  fh_mask :: bool
  fh_opcode :: opcode
  fh_payload_len :: "64 word"
  fh_mask_key :: bytes
  fh_header_size :: nat

text \<open>\<^const>\<open>None\<close> when more data is needed.\<close>

definition parse_length :: "bytes \<Rightarrow> (64 word \<times> nat) option" where
  "parse_length data =
     (let len7 = data ! 1 AND 0x7F in
      if len7 \<le> 125 then Some (ucast len7, 2)
      else if len7 = 126 then
        (if length data < 4 then None else Some (push_bit 8 (ucast (data ! 2)) OR ucast (data ! 3), 4))
      else (if length data < 10 then None else Some (foldl (\<lambda>len i. push_bit 8 len OR ucast (data ! (2 + i))) 0 [0..<8], 10)))"

definition tryParseFrameHeader :: "bytes \<Rightarrow> frame_header option" where
  "tryParseFrameHeader data =
     (if length data < 2 then None
      else case parse_length data of
        None \<Rightarrow> None
      | Some (payload_len, pos) \<Rightarrow>
          let hdr = \<lparr>fh_fin = (data ! 0 AND 0x80 \<noteq> 0), fh_mask = (data ! 1 AND 0x80 \<noteq> 0), fh_opcode = data ! 0 AND 0x0F,
                fh_payload_len = payload_len, fh_mask_key = [0, 0, 0, 0], fh_header_size = pos\<rparr>
          in if fh_mask hdr then
               (if length data < pos + 4 then None
                else Some (hdr\<lparr>fh_mask_key := take 4 (drop pos data), fh_header_size := pos + 4\<rparr>))
             else Some hdr)"

definition unmaskPayload :: "bytes \<Rightarrow> bytes \<Rightarrow> bytes" where
  "unmaskPayload data mask_key = map (\<lambda>i. data ! i XOR mask_key ! (i mod 4)) [0..<length data]"

definition appendLength :: "nat \<Rightarrow> bytes \<Rightarrow> bytes" where
  "appendLength len out =
     (if len \<le> 125 then out @ [of_nat len]
      else if len \<le> 65535 then out @ [126] @ be_bytes 2 (of_nat len :: 64 word)
      else out @ [127] @ be_bytes 8 (of_nat len :: 64 word))"

definition buildFrame :: "bytes \<Rightarrow> opcode \<Rightarrow> bytes" where
  "buildFrame payload opcode = appendLength (length payload) [0x80 OR opcode] @ payload"

definition buildCloseFrame :: "16 word \<Rightarrow> bytes" where
  "buildCloseFrame code = buildFrame [ucast (drop_bit 8 code), ucast (code AND 0xFF)] OP_CLOSE"

definition buildPongFrame :: "bytes \<Rightarrow> bytes" where
  "buildPongFrame data = buildFrame data OP_PONG"

section \<open>Handshake\<close>

text \<open>\<^verbatim>\<open>find(needle, pos)\<close> of a string view; \<^const>\<open>None\<close> is \<^verbatim>\<open>npos\<close>.\<close>

definition find_from :: "string \<Rightarrow> string \<Rightarrow> nat \<Rightarrow> nat option" where
  "find_from raw needle pos = find (\<lambda>i. prefix needle (drop i raw)) [pos..<length raw + 1]"

definition substr :: "string \<Rightarrow> nat \<Rightarrow> nat \<Rightarrow> string" where
  "substr s pos n = take n (drop pos s)"

abbreviation (input) CRLF :: string where "CRLF \<equiv> [CHR 0x0D, CHR 0x0A]"

definition findHeaderEnd :: "bytes \<Rightarrow> nat" where
  "findHeaderEnd data =
     (if length data < 4 then 0
      else case find (\<lambda>i. data ! i = 0x0D \<and> data ! (i + 1) = 0x0A \<and> data ! (i + 2) = 0x0D \<and> data ! (i + 3) = 0x0A)
          [0..<length data - 4 + 1] of
        Some i \<Rightarrow> i + 4
      | None \<Rightarrow> 0)"

definition asciiLower :: "char \<Rightarrow> char" where
  "asciiLower c = (if 65 \<le> (of_char c :: nat) \<and> (of_char c :: nat) \<le> 90 then char_of ((of_char c :: nat) - 65 + 97) else c)"

definition equalsIgnoreCase :: "string \<Rightarrow> string \<Rightarrow> bool" where
  "equalsIgnoreCase lhs rhs \<longleftrightarrow> length lhs = length rhs \<and> list_all (\<lambda>i. asciiLower (lhs ! i) = asciiLower (rhs ! i)) [0..<length lhs]"

definition containsIgnoreCase :: "string \<Rightarrow> string \<Rightarrow> bool" where
  "containsIgnoreCase haystack needle =
     (if needle = [] then True
      else if length needle > length haystack then False
      else list_ex (\<lambda>i. list_all (\<lambda>j. asciiLower (haystack ! (i + j)) = asciiLower (needle ! j)) [0..<length needle])
        [0..<length haystack - length needle + 1])"

definition is_blank :: "char \<Rightarrow> bool" where
  "is_blank c \<longleftrightarrow> c = CHR '' '' \<or> c = CHR 0x09"

definition trimWhitespace :: "string \<Rightarrow> string" where
  "trimWhitespace v = rev (dropWhile is_blank (rev (dropWhile is_blank v)))"

record handshake_request =
  hs_path :: string
  hs_key :: string
  hs_origin :: string
  hs_has_origin :: bool

definition new_handshake :: handshake_request where
  "new_handshake = \<lparr>hs_path = [], hs_key = [], hs_origin = [], hs_has_origin = False\<rparr>"

text \<open>The effect of one header line.\<close>

definition on_header :: "string \<Rightarrow> bool \<times> handshake_request \<Rightarrow> bool \<times> handshake_request" where
  "on_header line = (\<lambda>(has_upgrade, request).
     case find_from line '':'' 0 of
       None \<Rightarrow> (has_upgrade, request)
     | Some colon \<Rightarrow>
         let name = trimWhitespace (take colon line); v = trimWhitespace (drop (colon + 1) line) in
         if equalsIgnoreCase name ''upgrade'' then (has_upgrade \<or> containsIgnoreCase v ''websocket'', request)
         else if equalsIgnoreCase name ''sec-websocket-key'' then (has_upgrade, request\<lparr>hs_key := v\<rparr>)
         else if equalsIgnoreCase name ''origin'' then (has_upgrade, request\<lparr>hs_origin := v, hs_has_origin := True\<rparr>)
         else (has_upgrade, request))"

lemma find_from_ge: "find_from raw needle pos = Some i \<Longrightarrow> pos \<le> i"
  unfolding find_from_def by (auto simp: find_Some_iff nth_append)

function header_loop :: "string \<Rightarrow> nat \<Rightarrow> bool \<times> handshake_request \<Rightarrow> bool \<times> handshake_request" where
  "header_loop raw position st =
     (if position < length raw then
        let line_end = (case find_from raw CRLF position of Some i \<Rightarrow> i | None \<Rightarrow> length raw);
            line = substr raw position (line_end - position)
        in if line = [] then st else header_loop raw (line_end + 2) (on_header line st)
      else st)"
  by pat_completeness auto
termination
  by (relation "measure (\<lambda>(raw, position, st). length raw - position)") (auto split: option.splits dest: find_from_ge)

declare header_loop.simps [simp del]

definition parseHandshakeRequest :: "bytes \<Rightarrow> handshake_request option" where
  "parseHandshakeRequest data =
     (let raw = string_of_bytes data in
      case find_from raw CRLF 0 of
        None \<Rightarrow> None
      | Some request_line_end \<Rightarrow>
          let request_line = take request_line_end raw in
          if \<not> prefix ''GET '' request_line then None
          else case find_from request_line '' '' 4 of
            None \<Rightarrow> None
          | Some target_end \<Rightarrow>
              let request = new_handshake\<lparr>hs_path := substr request_line 4 (target_end - 4)\<rparr>;
                  (has_upgrade, request) = header_loop raw (request_line_end + 2) (False, request)
              in if has_upgrade \<and> hs_key request \<noteq> [] then Some request else None)"

definition parseHandshakeKey :: "bytes \<Rightarrow> string" where
  "parseHandshakeKey data = (case parseHandshakeRequest data of None \<Rightarrow> [] | Some request \<Rightarrow> hs_key request)"

definition kWebSocketGuid :: string where
  "kWebSocketGuid = ''258EAFA5-E914-47DA-95CA-C5AB0DC85B11''"

definition accept_key :: "string \<Rightarrow> string option" where
  "accept_key ws_key = map_option base64Encode (sha1 (bytes_of_string (ws_key @ kWebSocketGuid)))"

definition buildHandshakeResponse :: "string \<Rightarrow> string option" where
  "buildHandshakeResponse ws_key = map_option (\<lambda>accept.
     ''HTTP/1.1 101 Switching Protocols'' @ CRLF @ ''Upgrade: websocket'' @ CRLF @ ''Connection: Upgrade'' @ CRLF @
     ''Sec-WebSocket-Accept: '' @ accept @ CRLF @ CRLF) (accept_key ws_key)"

definition buildForbiddenResponse :: string where
  "buildForbiddenResponse = ''HTTP/1.1 403 Forbidden'' @ CRLF @ ''Content-Length: 0'' @ CRLF @ ''Connection: close'' @ CRLF @ CRLF"

section \<open>Origin policy\<close>

definition trimTrailingSlash :: "string \<Rightarrow> string" where
  "trimTrailingSlash v = rev (dropWhile (\<lambda>c. c = CHR ''/'') (rev v))"

text \<open>\<^verbatim>\<open>rfind(c)\<close>\<close>

definition rfind_char :: "string \<Rightarrow> char \<Rightarrow> nat option" where
  "rfind_char s c = find (\<lambda>i. s ! i = c) (rev [0..<length s])"

definition strip_scheme :: "string \<Rightarrow> string option" where
  "strip_scheme origin =
     (if prefix ''http://'' origin then Some (drop 7 origin)
      else if prefix ''https://'' origin then Some (drop 8 origin) else None)"

text \<open>The host of an authority; \<^const>\<open>None\<close> for an unclosed bracket.\<close>

definition authority_host :: "string \<Rightarrow> string option" where
  "authority_host authority0 =
     (let authority = (case rfind_char authority0 (CHR ''@'') of Some at_pos \<Rightarrow> drop (at_pos + 1) authority0 | None \<Rightarrow> authority0)
      in if authority \<noteq> [] \<and> authority ! 0 = CHR ''['' then
        (case find_from authority '']'' 0 of None \<Rightarrow> None | Some closing \<Rightarrow> Some (take (closing + 1) authority))
      else Some (case rfind_char authority (CHR '':'') of None \<Rightarrow> authority | Some colon \<Rightarrow> take colon authority))"

definition isLoopbackOrigin :: "string \<Rightarrow> bool" where
  "isLoopbackOrigin origin =
     (case strip_scheme origin of
        None \<Rightarrow> False
      | Some rest \<Rightarrow>
          let authority = takeWhile (\<lambda>c. c \<noteq> CHR ''/'' \<and> c \<noteq> CHR ''?'' \<and> c \<noteq> CHR ''#'') rest in
          if authority = [] then False
          else (case authority_host authority of
              None \<Rightarrow> False
            | Some host \<Rightarrow> equalsIgnoreCase host ''localhost'' \<or> equalsIgnoreCase host ''127.0.0.1'' \<or>
                equalsIgnoreCase host ''[::1]''))"

definition new_origin_policy :: "string list \<Rightarrow> string list" where
  "new_origin_policy extra_allowed = map trimTrailingSlash extra_allowed"

definition allows :: "string list \<Rightarrow> string \<Rightarrow> bool" where
  "allows extra_allowed origin =
     (if origin = [] then False
      else if isLoopbackOrigin origin then True
      else trimTrailingSlash origin \<in> set extra_allowed)"

end
