(* ===== verification/Sha1_Standard.thy ===== *)
theory Sha1_Standard
  imports Web_Socket
begin

text \<open>
  The hash of FIPS 180-4 section 6.1, written from the standard and not from the code: message schedule by
  its recurrence, the functions Ch, Parity and Maj, the constants and the initial hash value.  The
  compression function of \<^verbatim>\<open>websocket.cpp\<close> is proved to be the one of the standard.
\<close>

section \<open>The standard\<close>

type_synonym sha1_regs = "32 word \<times> 32 word \<times> 32 word \<times> 32 word \<times> 32 word"

definition fips_f :: "nat \<Rightarrow> 32 word \<Rightarrow> 32 word \<Rightarrow> 32 word \<Rightarrow> 32 word" where
  "fips_f t x y z =
     (if t div 20 = 0 then (x AND y) XOR (NOT x AND z)
      else if t div 20 = 2 then (x AND y) XOR (x AND z) XOR (y AND z)
      else x XOR y XOR z)"

definition fips_K :: "nat \<Rightarrow> 32 word" where
  "fips_K t = [0x5a827999, 0x6ed9eba1, 0x8f1bbcdc, 0xca62c1d6] ! (t div 20)"

definition fips_H0 :: sha1_regs where
  "fips_H0 = (0x67452301, 0xefcdab89, 0x98badcfe, 0x10325476, 0xc3d2e1f0)"

fun fips_W :: "bytes \<Rightarrow> nat \<Rightarrow> 32 word" where
  "fips_W block t =
     (if t < 16 then be_word (take 4 (drop (4 * t) block))
      else word_rotl 1 (fips_W block (t - 3) XOR fips_W block (t - 8) XOR fips_W block (t - 14) XOR fips_W block (t - 16)))"

declare fips_W.simps [simp del]

primrec fips_rounds :: "bytes \<Rightarrow> sha1_regs \<Rightarrow> nat \<Rightarrow> sha1_regs" where
  "fips_rounds block r 0 = r"
| "fips_rounds block r (Suc t) =
     (case fips_rounds block r t of (a, b, c, d, e) \<Rightarrow>
       (word_rotl 5 a + fips_f t b c d + e + fips_K t + fips_W block t, a, word_rotl 30 b, c, d))"

definition fips_block :: "sha1_regs \<Rightarrow> bytes \<Rightarrow> sha1_regs" where
  "fips_block = (\<lambda>(h0, h1, h2, h3, h4) block.
     case fips_rounds block (h0, h1, h2, h3, h4) 80 of (a, b, c, d, e) \<Rightarrow> (h0 + a, h1 + b, h2 + c, h3 + d, h4 + e))"

text \<open>The message padded to whole blocks of 64 bytes: a one bit, zeros, and the length in bits.\<close>

fun blocks :: "bytes \<Rightarrow> bytes list" where
  "blocks bs = (if length bs < 64 then [] else take 64 bs # blocks (drop 64 bs))"

declare blocks.simps [simp del]

definition sha1_pad :: "bytes \<Rightarrow> bytes" where
  "sha1_pad msg = msg @ [0x80] @ replicate ((119 - length msg mod 64) mod 64) 0 @ be_bytes 8 (of_nat (8 * length msg) :: 64 word)"

definition regs_bytes :: "sha1_regs \<Rightarrow> bytes" where
  "regs_bytes = (\<lambda>(a, b, c, d, e). be_bytes 4 a @ be_bytes 4 b @ be_bytes 4 c @ be_bytes 4 d @ be_bytes 4 e)"

definition fips_sha1 :: "bytes \<Rightarrow> bytes" where
  "fips_sha1 msg = regs_bytes (foldl fips_block fips_H0 (blocks (sha1_pad msg)))"

section \<open>The compression function\<close>

lemma rotl32_word_rotl:
  assumes "0 < n" "n < 32"
  shows "rotl32 x n = word_rotl n x"
proof (rule bit_word_eqI)
  fix i assume i: "i < LENGTH(32)"
  have "bit (rotl32 x n) i \<longleftrightarrow> (n \<le> i \<and> bit x (i - n)) \<or> bit x (32 - n + i)"
    using i by (auto simp: rotl32_def bit_or_iff bit_push_bit_iff bit_drop_bit_eq)
  moreover have "n \<le> i \<Longrightarrow> \<not> bit x (32 - n + i)" using assms(2) by (auto dest!: bit_imp_le_length)
  moreover have "(i + (32 - n mod 32)) mod 32 = (if i < n then 32 - n + i else i - n)"
  proof (cases "i < n")
    case False
    then have "i + (32 - n mod 32) = 32 + (i - n)" using assms by simp
    then have "(i + (32 - n mod 32)) mod 32 = (i - n) mod 32" by (simp only: mod_add_self1)
    with False i show ?thesis by simp
  qed (use assms in simp)
  then have "bit (word_rotl n x) i \<longleftrightarrow> bit x (if i < n then 32 - n + i else i - n)"
    using i by (simp add: bit_word_rotl_iff)
  ultimately show "bit (rotl32 x n) i = bit (word_rotl n x) i" by auto
qed

lemma block_word_standard:
  assumes "length block = 64" "t < 16"
  shows "block_word block t = fips_W block t"
proof -
  have "take 4 (drop (4 * t) block) = [block ! (t * 4), block ! (t * 4 + 1), block ! (t * 4 + 2), block ! (t * 4 + 3)]"
    by (rule nth_equalityI) (use assms in \<open>auto simp: less_Suc_eq numeral_eq_Suc ac_simps\<close>)
  moreover have "be_word [a, b, c, d] = (push_bit 24 (ucast a) OR push_bit 16 (ucast b) OR push_bit 8 (ucast c) OR ucast d :: 32 word)"
    for a b c d :: byte
    by (simp add: be_word_def push_bit_or or.assoc)
  ultimately show ?thesis using assms(2) by (subst fips_W.simps) (simp add: block_word_def)
qed

lemma schedule_standard:
  assumes "length block = 64" "n \<le> 80" "16 \<le> n"
  shows "fold (\<lambda>i w. extend_word w i) [16..<n] (map (block_word block) [0..<16]) = map (fips_W block) [0..<n]"
  using assms(3,2)
proof (induction n rule: dec_induct)
  case base
  then show ?case using assms(1) block_word_standard by simp
next
  case (step n)
  then have "extend_word (map (fips_W block) [0..<n]) n = map (fips_W block) [0..<n] @ [fips_W block n]"
    using fips_W.simps [of block n] by (simp add: extend_word_def rotl32_word_rotl)
  with step show ?case by simp
qed

lemma f_standard:
  "(b AND c) OR (NOT b AND d) = (b AND c) XOR (NOT b AND d :: 32 word)"
  "(b AND c) OR (b AND d) OR (c AND d) = (b AND c) XOR (b AND d) XOR (c AND d :: 32 word)"
  by (rule bit_word_eqI; auto simp: bit_simps)+

lemma round_standard:
  assumes "t < 80" "80 \<le> length w"
  shows "sha1_round w t (a, b, c, d, e) = (word_rotl 5 a + fips_f t b c d + e + fips_K t + w ! t, a, word_rotl 30 b, c, d)"
proof -
  consider "t < 20" | "20 \<le> t" "t < 40" | "40 \<le> t" "t < 60" | "60 \<le> t" by linarith
  then show ?thesis
  proof cases
    case 1
    then have "t div 20 = 0" by simp
    with 1 show ?thesis by (simp add: sha1_round_def fips_f_def fips_K_def rotl32_word_rotl f_standard)
  next
    case 2
    then have "t div 20 = 1" by simp
    with 2 show ?thesis by (simp add: sha1_round_def fips_f_def fips_K_def rotl32_word_rotl)
  next
    case 3
    then have "t div 20 = 2" by simp
    with 3 show ?thesis by (simp add: sha1_round_def fips_f_def fips_K_def rotl32_word_rotl f_standard)
  next
    case 4
    then have "t div 20 = 3" using assms(1) by simp
    with 4 show ?thesis by (simp add: sha1_round_def fips_f_def fips_K_def rotl32_word_rotl)
  qed
qed

lemma rounds_standard:
  assumes "n \<le> 80"
  shows "fold (sha1_round (map (fips_W block) [0..<80])) [0..<n] r = fips_rounds block r n"
  using assms
proof (induction n)
  case (Suc n)
  obtain a b c d e where "fips_rounds block r n = (a, b, c, d, e)" by (cases "fips_rounds block r n") auto
  with Suc show ?case by (simp add: round_standard)
qed simp

definition regs_list :: "sha1_regs \<Rightarrow> 32 word list" where
  "regs_list = (\<lambda>(a, b, c, d, e). [a, b, c, d, e])"

lemma processBlock_standard:
  assumes "length block = 64"
  shows "processBlock (regs_list r) block = regs_list (fips_block r block)"
proof -
  obtain a b c d e where r: "r = (a, b, c, d, e)" by (cases r) auto
  have "fold (\<lambda>i w. extend_word w i) [16..<80] (map (block_word block) [0..<16]) = map (fips_W block) [0..<80]"
    by (rule schedule_standard [OF assms]) simp_all
  moreover have "fold (sha1_round (map (fips_W block) [0..<80])) [0..<80] r = fips_rounds block r 80"
    by (rule rounds_standard) simp
  ultimately show ?thesis
    unfolding processBlock_def Let_def r regs_list_def fips_block_def by (simp del: fips_rounds.simps upt_rec_numeral split: prod.split)
qed

lemma blocks_length: "b \<in> set (blocks bs) \<Longrightarrow> length b = 64"
proof (induction bs rule: blocks.induct)
  case (1 bs)
  then show ?case by (subst (asm) (2) blocks.simps) (auto split: if_splits)
qed

lemma foldl_standard:
  "list_all (\<lambda>b. length b = 64) bs \<Longrightarrow> foldl processBlock (regs_list r) bs = regs_list (foldl fips_block r bs)"
  by (induction bs arbitrary: r) (simp_all add: processBlock_standard)

lemma regs_bytes_list: "concat (map (be_bytes 4) (regs_list r)) = regs_bytes r"
  by (cases r) (simp add: regs_list_def regs_bytes_def)

lemma initial_standard: "sha_h new_sha1 = regs_list fips_H0"
  by (simp add: new_sha1_def regs_list_def fips_H0_def)

lemma hash_standard:
  "concat (map (be_bytes 4) (foldl processBlock (sha_h new_sha1) (blocks (sha1_pad msg)))) = fips_sha1 msg"
  unfolding initial_standard fips_sha1_def
  by (subst foldl_standard) (auto simp: list_all_iff blocks_length regs_bytes_list)

end
