(* ===== verification/Web_Socket_Proofs.thy ===== *)
theory Web_Socket_Proofs
  imports Sha1_Standard
begin

text \<open>
  The incremental SHA-1 is the hash of FIPS 180-4, Base64 text is decoded by RFC 4648 and frames are those of
  RFC 6455; the specifications of the standards share no definition with the code.
\<close>

section \<open>SHA-1 against its specification\<close>

lemma blocks_short [simp]: "length bs < 64 \<Longrightarrow> blocks bs = []"
  by (simp add: blocks.simps)

lemma blocks_one: "length b = 64 \<Longrightarrow> blocks (b @ bs) = b # blocks bs"
  by (subst blocks.simps) simp

lemma blocks_append: "64 dvd length xs \<Longrightarrow> blocks (xs @ ys) = blocks xs @ blocks ys"
proof (induction xs rule: blocks.induct)
  case (1 xs)
  show ?case
  proof (cases "length xs < 64")
    case True
    with 1(2) have "xs = []" using dvd_imp_le [of 64 "length xs"] by fastforce
    then show ?thesis by simp
  next
    case False
    let ?b = "take 64 xs" and ?r = "drop 64 xs"
    from False 1(2) have "64 dvd length ?r" by (simp add: dvd_diff_nat)
    from 1(1) [OF False this] have "blocks (?r @ ys) = blocks ?r @ blocks ys" .
    moreover have "blocks ((?b @ ?r) @ ys) = ?b # blocks (?r @ ys)" using False by (simp add: blocks_one del: append_take_drop_id)
    moreover have "blocks (?b @ ?r) = ?b # blocks ?r" using False by (intro blocks_one) simp
    ultimately show ?thesis by simp
  qed
qed

lemma copy_at_append: "copy_at (xs @ ys) (length xs) zs = xs @ zs @ drop (length zs) ys"
  by (simp add: copy_at_def)

text \<open>The state after hashing \<open>msg\<close>: the whole blocks are processed, the rest is in the buffer.\<close>

definition sha1_holds :: "sha1_ctx \<Rightarrow> bytes \<Rightarrow> bool" where
  "sha1_holds ctx msg \<longleftrightarrow> length (sha_buf ctx) = 64 \<and> sha_buf_len ctx = length msg mod 64 \<and>
     sha_h ctx = foldl processBlock (sha_h new_sha1) (blocks (take (64 * (length msg div 64)) msg)) \<and>
     take (sha_buf_len ctx) (sha_buf ctx) = drop (64 * (length msg div 64)) msg"

lemma update_loop_holds:
  "sha1_holds ctx msg \<Longrightarrow> \<exists>ctx'. update_loop ctx data = Some ctx' \<and> sha1_holds ctx' (msg @ data) \<and>
     sha_total_bytes ctx' = sha_total_bytes ctx"
proof (induction data arbitrary: ctx msg rule: length_induct)
  case (1 data)
  show ?case
  proof (cases "data = []")
    case True
    with 1(2) show ?thesis by (subst update_loop.simps) simp
  next
    case False
    let ?q = "length msg div 64" and ?l = "length msg mod 64"
    let ?n = "min (64 - ?l) (length data)"
    let ?t = "drop (64 * ?q) msg @ take ?n data"
    have l: "?l < 64" "sha_buf_len ctx = ?l" "length (sha_buf ctx) = 64" using 1(2) by (simp_all add: sha1_holds_def)
    have n: "0 < ?n" using False l(1) by simp
    have t: "length (drop (64 * ?q) msg) = ?l" by (simp add: minus_mult_div_eq_mod)
    define ctx1 where "ctx1 = ctx\<lparr>sha_buf := copy_at (sha_buf ctx) ?l (take ?n data), sha_buf_len := ?l + ?n\<rparr>"
    define ctx2 where "ctx2 = (if ?l + ?n = 64 then ctx1\<lparr>sha_h := processBlock (sha_h ctx1) (sha_buf ctx1), sha_buf_len := 0\<rparr> else ctx1)"
    have buf: "take (?l + ?n) (sha_buf ctx1) = ?t" "length (sha_buf ctx1) = 64"
      using 1(2) l by (auto simp: ctx1_def copy_at_def sha1_holds_def minus_mult_div_eq_mod)
    have step: "update_loop ctx data = update_loop ctx2 (drop ?n data)"
      using False l(2) by (subst update_loop.simps) (simp add: ctx1_def ctx2_def Let_def)
    have H: "sha_h ctx = foldl processBlock (sha_h new_sha1) (blocks (take (64 * ?q) msg))"
      using 1(2) by (simp add: sha1_holds_def)
    have len: "length (msg @ take ?n data) = length msg + ?n" by simp
    have mt: "msg @ take ?n data = take (64 * ?q) msg @ ?t" by simp
    have "64 * ?q \<le> length msg" by simp
    then have lq: "length (take (64 * ?q) msg) = 64 * ?q" by simp
    have "sha1_holds ctx2 (msg @ take ?n data)"
    proof (cases "?l + ?n = 64")
      case True
      have "a + n = 64 * (q + 1)" if "l + n = 64" "64 * q + l = a" for a n l q :: nat using that by simp
      from this [OF True mult_div_mod_eq] have a: "length msg + ?n = 64 * (?q + 1)" .
      then have d: "(length msg + ?n) div 64 = ?q + 1" "(length msg + ?n) mod 64 = 0" by (simp_all only:) simp_all
      have "64 dvd length (take (64 * ?q) msg)" by (simp only: lq) simp
      then have "blocks (msg @ take ?n data) = blocks (take (64 * ?q) msg) @ blocks ?t" unfolding mt by (rule blocks_append)
      moreover have "length ?t = 64" using t True by simp
      then have "blocks ?t = [?t]" using blocks_one [of ?t "[]"] by simp
      moreover have "sha_buf ctx1 = ?t" using buf True by simp
      ultimately have "sha_h ctx2 = foldl processBlock (sha_h new_sha1) (blocks (msg @ take ?n data))"
        using True H by (simp only: ctx2_def if_True) (simp add: ctx1_def)
      moreover have e: "take (64 * (?q + 1)) (msg @ take ?n data) = msg @ take ?n data"
        "drop (64 * (?q + 1)) (msg @ take ?n data) = []" using a len by (simp_all only: take_all drop_all order_refl)
      moreover have "length (sha_buf ctx2) = 64" "sha_buf_len ctx2 = 0" using buf(2) True by (simp_all add: ctx2_def)
      ultimately show ?thesis unfolding sha1_holds_def len d e by simp
    next
      case False
      then have small: "?l + ?n < 64" using l(1) by (simp add: min_def split: if_splits)
      have "(a + n) div 64 = q \<and> (a + n) mod 64 = l + n" if "l + n < 64" "64 * q + l = a" for a n l q :: nat
        using that by (auto simp: add.assoc)
      from this [OF small mult_div_mod_eq] have d: "(length msg + ?n) div 64 = ?q" "(length msg + ?n) mod 64 = ?l + ?n" by blast+
      have e: "take (64 * ?q) (msg @ take ?n data) = take (64 * ?q) msg" "drop (64 * ?q) (msg @ take ?n data) = ?t"
        using \<open>64 * ?q \<le> length msg\<close> by simp_all
      have "ctx2 = ctx1" using False by (simp only: ctx2_def if_False)
      moreover have "sha_h ctx1 = sha_h ctx" "sha_buf_len ctx1 = ?l + ?n" by (simp_all add: ctx1_def)
      ultimately show ?thesis unfolding sha1_holds_def len d e using buf H by simp
    qed
    moreover have "length (drop ?n data) < length data" using n False by simp
    ultimately obtain ctx' where "update_loop ctx2 (drop ?n data) = Some ctx'" "sha1_holds ctx' ((msg @ take ?n data) @ drop ?n data)"
      "sha_total_bytes ctx' = sha_total_bytes ctx2" using 1(1) by blast
    moreover have "sha_total_bytes ctx2 = sha_total_bytes ctx" by (simp add: ctx2_def ctx1_def)
    ultimately show ?thesis unfolding step by simp
  qed
qed

lemma sha1_finalize_holds:
  assumes "sha1_holds ctx msg" "sha_total_bytes ctx = of_nat (length msg)"
  shows "sha1_finalize ctx = fips_sha1 msg"
proof -
  let ?q = "length msg div 64" and ?l = "length msg mod 64"
  define t where "t = drop (64 * ?q) msg"
  define lb where "lb = be_bytes 8 (of_nat (8 * length msg) :: 64 word)"
  have t: "length t = ?l" by (simp add: t_def minus_mult_div_eq_mod)
  have lb: "length lb = 8" "be_bytes 8 (sha_total_bytes ctx * 8) = lb" by (simp_all add: lb_def assms(2) mult.commute)
  have l: "?l < 64" by simp
  obtain rest where buf: "sha_buf ctx = t @ rest" "length rest = 64 - ?l"
    using assms(1) t unfolding sha1_holds_def t_def by (metis append_take_drop_id length_drop)
  have h: "sha_h ctx = foldl processBlock (sha_h new_sha1) (blocks (take (64 * ?q) msg))" "sha_buf_len ctx = ?l"
    using assms(1) by (simp_all add: sha1_holds_def)
  have pad: "blocks (sha1_pad msg) = blocks (take (64 * ?q) msg) @ blocks (t @ [0x80] @ replicate ((119 - ?l) mod 64) 0 @ lb)"
  proof -
    have "64 dvd length (take (64 * ?q) msg)" by (simp add: min.absorb2)
    moreover have "msg = take (64 * ?q) msg @ t" by (simp add: t_def)
    ultimately show ?thesis unfolding sha1_pad_def lb_def by (metis append.assoc blocks_append)
  qed
  have b1: "copy_at (sha_buf ctx) ?l [0x80] = (t @ [0x80]) @ drop 1 rest" using copy_at_append [of t rest "[0x80]"] t buf by simp
  show ?thesis
  proof (cases "?l + 1 > 56")
    case False
    let ?b = "t @ [0x80] @ replicate (55 - ?l) 0 @ lb"
    have z: "(119 - k) mod 64 = 55 - k" if "k < 56" for k :: nat using that by (simp add: mod_if)
    have "length ?b = 64" using False t lb(1) by simp
    then have "blocks ?b = [?b]" using blocks_one [of ?b "[]"] by simp
    then have "blocks (t @ [0x80] @ replicate ((119 - ?l) mod 64) 0 @ lb) = [?b]" using z [of ?l] False by simp
    moreover have "copy_at ((t @ [0x80]) @ drop 1 rest) (?l + 1) (replicate (56 - (?l + 1)) 0) =
        (t @ [0x80] @ replicate (55 - ?l) 0) @ drop (55 - ?l) (drop 1 rest)"
      using copy_at_append [of "t @ [0x80]" "drop 1 rest" "replicate (55 - ?l) 0"] t by simp
    moreover have "copy_at ((t @ [0x80] @ replicate (55 - ?l) 0) @ drop (55 - ?l) (drop 1 rest)) 56 lb = ?b"
      using copy_at_append [of "t @ [0x80] @ replicate (55 - ?l) 0" "drop (55 - ?l) (drop 1 rest)" lb] t False lb(1) buf(2)
      by simp
    ultimately show ?thesis using False b1 lb h pad by (simp add: sha1_finalize_def hash_standard [symmetric] Let_def)
  next
    case True
    let ?full = "t @ [0x80] @ replicate (63 - ?l) 0" and ?last = "replicate 56 0 @ lb"
    have zl: "56 \<le> ?l" using True by linarith
    have z: "(119 - k) mod 64 = (63 - k) + 56" if "56 \<le> k" "k < 64" for k :: nat using that by (simp add: mod_if)
    have "length ?full = 64" "length ?last = 64" using t l lb(1) by simp_all
    then have "blocks (?full @ ?last) = [?full, ?last]" using blocks_one [of ?full ?last] blocks_one [of ?last "[]"] by simp
    moreover have "replicate ((119 - ?l) mod 64) 0 = replicate (63 - ?l) 0 @ replicate 56 (0 :: byte)"
      by (simp only: z [OF _ l] zl replicate_add)
    ultimately have "blocks (t @ [0x80] @ replicate ((119 - ?l) mod 64) 0 @ lb) = [?full, ?last]" by simp
    moreover have "copy_at ((t @ [0x80]) @ drop 1 rest) (?l + 1) (replicate (64 - (?l + 1)) 0) = ?full"
      using copy_at_append [of "t @ [0x80]" "drop 1 rest" "replicate (63 - ?l) 0"] t buf(2) l by simp
    moreover have "copy_at (copy_at ?full 0 (replicate 56 0)) 56 lb = ?last"
      using t lb(1) l by (simp add: copy_at_def)
    ultimately show ?thesis using True b1 lb h pad by (simp add: sha1_finalize_def hash_standard [symmetric] Let_def)
  qed
qed

lemma sha1_new_holds: "sha1_holds (new_sha1\<lparr>sha_total_bytes := n\<rparr>) []"
  by (simp add: sha1_holds_def new_sha1_def)

lemma sha1_eq_spec: "sha1 msg = Some (fips_sha1 msg)"
proof -
  have "\<exists>ctx. sha1_update new_sha1 msg = Some ctx \<and> sha1_holds ctx msg \<and> sha_total_bytes ctx = of_nat (length msg)"
    unfolding sha1_update_def using update_loop_holds [OF sha1_new_holds, of "of_nat (length msg)" msg]
    by (auto simp: new_sha1_def)
  then show ?thesis unfolding sha1_def using sha1_finalize_holds by auto
qed

section \<open>Base64\<close>

text \<open>The value of a character of the alphabet, by the ranges of RFC 4648.\<close>

definition base64_value :: "char \<Rightarrow> 6 word" where
  "base64_value c =
     (let n = of_char c :: nat in
      if 65 \<le> n \<and> n \<le> 90 then of_nat (n - 65)
      else if 97 \<le> n \<and> n \<le> 122 then of_nat (n - 97 + 26)
      else if 48 \<le> n \<and> n \<le> 57 then of_nat (n - 48 + 52)
      else if c = CHR ''+'' then 62 else 63)"

text \<open>Decoding: four characters to three bytes, padding dropped.\<close>

fun base64Decode :: "string \<Rightarrow> bytes" where
  "base64Decode (a # b # c # d # rest) =
     (let v = push_bit 18 (ucast (base64_value a)) OR push_bit 12 (ucast (base64_value b)) OR
            (if c = CHR ''='' then 0 else push_bit 6 (ucast (base64_value c))) OR
            (if d = CHR ''='' then 0 else ucast (base64_value d)) :: 24 word
      in [ucast (drop_bit 16 v)] @ (if c = CHR ''='' then [] else [ucast (drop_bit 8 v)]) @ (if d = CHR ''='' then [] else [ucast v]))
     @ base64Decode rest"
| "base64Decode _ = []"

lemma base64_table: "kBase64Table = map char_of ([65..<91] @ [97..<123] @ [48..<58] @ [43, 47 :: nat])"
  unfolding kBase64Table_def by code_simp

lemma char_code:
  assumes "n < 256"
  shows "(of_char (char_of n :: char) :: nat) = n"
    "(char_of n :: char) = CHR ''+'' \<longleftrightarrow> n = 43" "(char_of n :: char) = CHR ''='' \<longleftrightarrow> n = 61"
proof -
  show n: "(of_char (char_of n :: char) :: nat) = n" using assms by simp
  show "(char_of n :: char) = CHR ''+'' \<longleftrightarrow> n = 43" "(char_of n :: char) = CHR ''='' \<longleftrightarrow> n = 61"
    using n by (auto simp: char_of_eq_iff take_bit_eq_mod)
qed

lemma base64_value_code:
  assumes "n < 256"
  shows "base64_value (char_of n) =
    (if 65 \<le> n \<and> n \<le> 90 then of_nat (n - 65) else if 97 \<le> n \<and> n \<le> 122 then of_nat (n - 97 + 26)
     else if 48 \<le> n \<and> n \<le> 57 then of_nat (n - 48 + 52) else if n = 43 then 62 else 63)"
  unfolding base64_value_def Let_def char_code [OF assms] ..

lemma base64_value_nth:
  assumes "i < 64"
  shows "base64_value (kBase64Table ! i) = of_nat i \<and> kBase64Table ! i \<noteq> CHR ''=''"
proof -
  define n :: nat where "n = (if i < 26 then 65 + i else if i < 52 then 71 + i else if i < 62 then i - 4 else if i = 62 then 43 else 47)"
  have k: "kBase64Table ! i = char_of n"
    using assms unfolding base64_table n_def by (auto simp: nth_append nth_Cons' simp del: upt_rec_numeral upt.simps)
  have n: "n < 256" using assms by (auto simp: n_def)
  consider "i < 26" | "26 \<le> i" "i < 52" | "52 \<le> i" "i < 62" | "i = 62" | "i = 63" using assms by linarith
  then show ?thesis unfolding k base64_value_code [OF n] char_code [OF n] by cases (auto simp: n_def)
qed

lemma base64_char_value:
  "base64_value (base64_char v s) = ucast (drop_bit s v)" "base64_char v s \<noteq> CHR ''=''"
proof -
  have "drop_bit s v AND 0x3F = take_bit 6 (drop_bit s v)" by (simp add: take_bit_eq_mask mask_numeral)
  moreover have "unat (take_bit 6 (drop_bit s v)) < 64"
    using take_bit_nat_less_exp [of 6 "unat (drop_bit s v)"] by (simp add: unsigned_take_bit_eq)
  moreover have "of_nat (unat (take_bit 6 (drop_bit s v))) = (ucast (drop_bit s v) :: 6 word)"
    by (rule bit_word_eqI) (simp add: bit_ucast_iff bit_take_bit_iff)
  ultimately show "base64_value (base64_char v s) = ucast (drop_bit s v)" "base64_char v s \<noteq> CHR ''=''"
    unfolding base64_char_def using base64_value_nth by simp_all
qed

lemma sextets_join:
  "push_bit 18 (ucast (ucast (drop_bit 18 v) :: 6 word)) OR push_bit 12 (ucast (ucast (drop_bit 12 v) :: 6 word)) OR
   push_bit 6 (ucast (ucast (drop_bit 6 v) :: 6 word)) OR ucast (ucast v :: 6 word) = (ucast (v :: 32 word) :: 24 word)"
proof (rule bit_word_eqI)
  fix i assume "i < LENGTH(24)"
  then consider "i < 6" | "6 \<le> i" "i < 12" | "12 \<le> i" "i < 18" | "18 \<le> i" "i < 24" by fastforce
  then show "bit (push_bit 18 (ucast (ucast (drop_bit 18 v) :: 6 word)) OR push_bit 12 (ucast (ucast (drop_bit 12 v) :: 6 word)) OR
   push_bit 6 (ucast (ucast (drop_bit 6 v) :: 6 word)) OR ucast (ucast v :: 6 word) :: 24 word) i = bit (ucast v :: 24 word) i"
    by cases (auto simp: bit_or_iff bit_push_bit_iff bit_ucast_iff bit_drop_bit_eq)
qed

lemma octets_split:
  fixes a b c :: byte
  defines "v \<equiv> push_bit 16 (ucast a) OR push_bit 8 (ucast b) OR ucast c :: 32 word"
  shows "ucast (drop_bit 16 (ucast v :: 24 word)) = a" "ucast (drop_bit 8 (ucast v :: 24 word)) = b"
    "ucast (ucast v :: 24 word) = c"
  unfolding v_def
  by (rule bit_word_eqI; auto simp: bit_or_iff bit_push_bit_iff bit_ucast_iff bit_drop_bit_eq dest: bit_imp_le_length)+

lemma low_bits_zero:
  fixes a b :: byte
  shows "ucast (drop_bit 6 (push_bit 16 (ucast a) :: 32 word)) = (0 :: 6 word)"
    "ucast (push_bit 16 (ucast a) :: 32 word) = (0 :: 6 word)"
    "ucast (push_bit 16 (ucast a) OR push_bit 8 (ucast b) :: 32 word) = (0 :: 6 word)"
  by (rule bit_word_eqI; auto simp: bit_or_iff bit_push_bit_iff bit_ucast_iff bit_drop_bit_eq)+

lemma base64_decode_encode: "base64Decode (base64Encode data) = data"
proof (induction data rule: base64Encode.induct)
  case (1 data)
  consider "data = []" | a where "data = [a]" | a b where "data = [a, b]" | a b c rest where "data = a # b # c # rest"
    by (metis list.exhaust)
  then show ?case
  proof cases
    case 2
    have v: "push_bit 16 (ucast a) OR push_bit 8 (ucast (0 :: byte)) OR ucast (0 :: byte) = (push_bit 16 (ucast a) :: 32 word)" by simp
    show ?thesis unfolding 2
      using sextets_join [of "push_bit 16 (ucast a)"] octets_split(1) [of a 0 0] unfolding v
      by (subst base64Encode.simps) (simp add: base64_char_value low_bits_zero Let_def)
  next
    case 3
    have v: "push_bit 16 (ucast a) OR push_bit 8 (ucast b) OR ucast (0 :: byte) =
      (push_bit 16 (ucast a) OR push_bit 8 (ucast b) :: 32 word)" by simp
    show ?thesis unfolding 3
      using sextets_join [of "push_bit 16 (ucast a) OR push_bit 8 (ucast b)"] octets_split(1,2) [of a b 0] unfolding v
      by (subst base64Encode.simps) (simp add: base64_char_value low_bits_zero Let_def)
  next
    case 4
    then have "base64Decode (base64Encode rest) = rest" using 1 by simp
    then show ?thesis unfolding 4
      using sextets_join [of "push_bit 16 (ucast a) OR push_bit 8 (ucast b) OR ucast c"] octets_split [of a b c]
      by (subst base64Encode.simps) (simp add: base64_char_value Let_def or.assoc)
  qed simp
qed

lemma base64_length: "length (base64Encode data) = 4 * ((length data + 2) div 3)"
proof (induction data rule: base64Encode.induct)
  case (1 data)
  show ?case
  proof (cases "length data < 3")
    case True
    then consider "data = []" | a where "data = [a]" | a b where "data = [a, b]"
      by (cases data rule: list.exhaust; cases "tl data"; cases "tl (tl data)") auto
    then show ?thesis by cases (simp_all add: Let_def)
  next
    case False
    then have n: "data \<noteq> []" "length data + 2 = (length (drop 3 data) + 2) + 3" by auto
    from n(2) have "(length data + 2) div 3 = Suc ((length (drop 3 data) + 2) div 3)" by (simp only: div_add_self2)
    moreover have "length (base64Encode (drop 3 data)) = 4 * ((length (drop 3 data) + 2) div 3)"
      by (rule 1 [OF n(1) refl refl refl])
    ultimately show ?thesis using n(1) by (subst base64Encode.simps) (simp add: Let_def del: base64Encode.simps)
  qed
qed

section \<open>Frames\<close>

text \<open>A frame of RFC 6455: final flag, opcode, mask (of a client) and payload.\<close>

definition length_field :: "byte \<Rightarrow> nat \<Rightarrow> bytes" where
  "length_field mask_bit n =
     (if n \<le> 125 then [mask_bit OR of_nat n]
      else if n \<le> 65535 then (mask_bit OR 126) # be_bytes 2 (of_nat n :: 64 word)
      else (mask_bit OR 127) # be_bytes 8 (of_nat n :: 64 word))"

text \<open>Masking octet by octet, the four octets of the key in turn.\<close>

fun ws_mask :: "bytes \<Rightarrow> bytes \<Rightarrow> bytes" where
  "ws_mask (k # key) (octet # payload) = (octet XOR k) # ws_mask (key @ [k]) payload"
| "ws_mask key payload = payload"

definition ws_frame :: "bool \<Rightarrow> opcode \<Rightarrow> bytes option \<Rightarrow> bytes \<Rightarrow> bytes" where
  "ws_frame fin opcode mask_key payload =
     [(if fin then 0x80 else 0) OR opcode] @ length_field (if mask_key = None then 0 else 0x80) (length payload) @
     (case mask_key of None \<Rightarrow> payload | Some key \<Rightarrow> key @ ws_mask key payload)"

lemma buildFrame_frame: "buildFrame payload opcode = ws_frame True opcode None payload"
  by (simp add: buildFrame_def appendLength_def ws_frame_def length_field_def)

lemma ws_mask_length [simp]: "length (ws_mask key p) = length p"
  by (induction key p rule: ws_mask.induct) simp_all

lemma ws_mask_nth: "key \<noteq> [] \<Longrightarrow> i < length p \<Longrightarrow> ws_mask key p ! i = p ! i XOR key ! (i mod length key)"
proof (induction key p arbitrary: i rule: ws_mask.induct)
  case (1 k key octet payload)
  show ?case
  proof (cases i)
    case (Suc j)
    let ?n = "Suc (length key)"
    have "(key @ [k]) ! (j mod ?n) = (k # key) ! (Suc j mod ?n)"
    proof (cases "j mod ?n = length key")
      case True
      then have "Suc j mod ?n = 0" by (simp add: mod_Suc)
      with True show ?thesis by simp
    next
      case False
      then have "Suc j mod ?n = Suc (j mod ?n)" by (simp add: mod_Suc)
      moreover have "j mod ?n < length key" using False mod_less_divisor [of ?n j] by linarith
      ultimately show ?thesis by (simp add: nth_append)
    qed
    with 1 Suc show ?thesis by simp
  qed simp
qed simp_all

lemma unmask_mask: "length key = 4 \<Longrightarrow> unmaskPayload (ws_mask key p) key = p"
proof (rule nth_equalityI)
  fix i assume "length key = 4" "i < length (unmaskPayload (ws_mask key p) key)"
  moreover from this have "key \<noteq> []" "i < length p" by (auto simp: unmaskPayload_def)
  ultimately show "unmaskPayload (ws_mask key p) key ! i = p ! i"
    by (simp add: unmaskPayload_def ws_mask_nth xor.assoc)
qed (simp add: unmaskPayload_def)

lemma be_word_be_bytes_take: "be_word (be_bytes n v) = take_bit (8 * n) (v :: 'a::len word)"
proof (rule bit_word_eqI)
  fix i assume i: "i < LENGTH('a)"
  have "rev (be_bytes n v) ! (i div 8) = ucast (drop_bit (8 * (i div 8)) v)" if "i div 8 < n"
    using that by (simp add: be_bytes_def rev_map)
  moreover have "i div 8 < n \<longleftrightarrow> i < 8 * n" by (simp add: div_less_iff_less_mult mult.commute)
  ultimately show "bit (be_word (be_bytes n v) :: 'a word) i \<longleftrightarrow> bit (take_bit (8 * n) v) i"
    using i by (auto simp: bit_be_word bit_ucast_iff bit_drop_bit_eq bit_take_bit_iff)
qed

lemma fold_indexed: "length data \<ge> 10 \<Longrightarrow>
  foldl (\<lambda>len i. push_bit 8 len OR ucast (data ! (2 + i))) 0 [0..<8] = (be_word (take 8 (drop 2 data)) :: 64 word)"
proof -
  assume "length data \<ge> 10"
  then have "take 8 (drop 2 data) = map (\<lambda>i. data ! (2 + i)) [0..<8]" by (intro nth_equalityI) auto
  then show ?thesis by (simp add: be_word_def foldl_map)
qed

lemma and_high: "x AND 0x80 \<noteq> 0 \<longleftrightarrow> bit (x :: byte) 7"
  by (simp add: bit_iff_and_push_bit_not_eq_0)

lemma low_byte:
  assumes "m \<in> {0, 0x80 :: byte}" "unat b < 2 ^ k" "k \<le> 7"
  shows "take_bit k (m OR b) = b" "bit (m OR b) 7 \<longleftrightarrow> m = 0x80"
proof -
  have "unat (take_bit k b) = unat b" using assms(2) by (simp add: unsigned_take_bit_eq take_bit_nat_eq_self)
  then have b: "take_bit k b = b" by (simp only: word_unat_eq_iff)
  have "take_bit k (0x80 :: byte) = 0"
    using assms(3) take_bit_push_bit [of k 7 "1 :: byte"] by simp
  then show "take_bit k (m OR b) = b" using assms(1) b by auto
  have "\<not> bit b 7" using assms(3) b by (metis bit_take_bit_iff not_le)
  then show "bit (m OR b) 7 \<longleftrightarrow> m = 0x80" using assms(1) by (auto simp: bit_or_iff)
qed

lemma mask_bits:
  "m \<in> {0, 0x80 :: byte} \<Longrightarrow> b < 0x80 \<Longrightarrow> (m OR b) AND 0x7F = b" "m \<in> {0, 0x80 :: byte} \<Longrightarrow> b < 0x80 \<Longrightarrow> (m OR b) AND 0x80 \<noteq> 0 \<longleftrightarrow> m = 0x80"
  "m \<in> {0, 0x80 :: byte} \<Longrightarrow> b < 16 \<Longrightarrow> (m OR b) AND 0x0F = b" "m \<in> {0, 0x80 :: byte} \<Longrightarrow> b < 16 \<Longrightarrow> (m OR b) AND 0x80 \<noteq> 0 \<longleftrightarrow> m = 0x80"
  using low_byte [of m b 7] low_byte [of m b 4] by (simp_all add: and_high take_bit_eq_mask mask_numeral word_less_nat_alt)

text \<open>The header of a frame is parsed once it is complete, and not before.\<close>

lemma parse_length_field:
  assumes "m \<in> {0, 0x80}" "n < 2 ^ 64"
  shows "parse_length (x # length_field m n @ rest) = Some (of_nat n, 1 + length (length_field m n))"
    and "k < length (length_field m n) \<Longrightarrow> 0 < k \<Longrightarrow> parse_length (x # take k (length_field m n)) = None"
    and "((x # length_field m n @ rest) ! 1 AND 0x80 \<noteq> 0) \<longleftrightarrow> m = 0x80"
proof -
  consider "n \<le> 125" | "125 < n" "n \<le> 65535" | "65535 < n" by linarith
  then have "parse_length (x # length_field m n @ rest) = Some (of_nat n, 1 + length (length_field m n)) \<and>
    (k < length (length_field m n) \<longrightarrow> 0 < k \<longrightarrow> parse_length (x # take k (length_field m n)) = None) \<and>
    (((x # length_field m n @ rest) ! 1 AND 0x80 \<noteq> 0) \<longleftrightarrow> m = 0x80)"
  proof cases
    case 1
    then have b: "(of_nat n :: byte) < 0x80" "(of_nat n :: byte) \<le> 125"
      by (simp_all add: word_less_nat_alt word_le_nat_alt unsigned_of_nat take_bit_nat_eq_self)
    have "(ucast (of_nat n :: byte) :: 64 word) = of_nat n"
      using 1 by (simp add: word_unat_eq_iff unsigned_ucast_eq unsigned_of_nat take_bit_nat_eq_self)
    with 1 show ?thesis using mask_bits(1,2) [OF assms(1) b(1)] b(2)
      by (simp add: parse_length_def length_field_def)
  next
    case 2
    have w: "take_bit 16 (of_nat n :: 64 word) = of_nat n"
      using 2 by (simp add: word_unat_eq_iff unsigned_take_bit_eq unsigned_of_nat take_bit_nat_eq_self)
    obtain b0 b1 where b: "be_bytes 2 (of_nat n :: 64 word) = [b0, b1]" by (simp add: be_bytes_def upt_rec)
    have "be_word [b0, b1] = (of_nat n :: 64 word)" using be_word_be_bytes_take [of 2 "of_nat n :: 64 word"] b w by simp
    then have "push_bit 8 (ucast b0) OR ucast b1 = (of_nat n :: 64 word)" by (simp add: be_word_def)
    with 2 show ?thesis using mask_bits(1,2) [OF assms(1), of 126] b
      by (auto simp: parse_length_def length_field_def take_Cons' less_Suc_eq)
  next
    case 3
    have "be_word (be_bytes 8 (of_nat n :: 64 word)) = (of_nat n :: 64 word)" by simp
    with 3 show ?thesis
      using mask_bits(1,2) [OF assms(1), of 127] fold_indexed [of "x # (m OR 127) # be_bytes 8 (of_nat n :: 64 word) @ rest"]
      by (auto simp: parse_length_def length_field_def)
  qed
  then show "parse_length (x # length_field m n @ rest) = Some (of_nat n, 1 + length (length_field m n))"
    and "k < length (length_field m n) \<Longrightarrow> 0 < k \<Longrightarrow> parse_length (x # take k (length_field m n)) = None"
    and "((x # length_field m n @ rest) ! 1 AND 0x80 \<noteq> 0) \<longleftrightarrow> m = 0x80" by blast+
qed

lemma parse_frame:
  assumes "opcode < 16" "length payload < 2 ^ 64" "\<forall>key. mask_key = Some key \<longrightarrow> length key = 4"
  shows "\<exists>hdr. tryParseFrameHeader (ws_frame fin opcode mask_key payload @ rest) = Some hdr \<and>
    fh_fin hdr = fin \<and> fh_opcode hdr = opcode \<and> fh_mask hdr = (mask_key \<noteq> None) \<and>
    unat (fh_payload_len hdr) = length payload \<and> fh_header_size hdr + length payload = length (ws_frame fin opcode mask_key payload) \<and>
    (let body = drop (fh_header_size hdr) (ws_frame fin opcode mask_key payload)
     in (if fh_mask hdr then unmaskPayload body (fh_mask_key hdr) else body) = payload)"
proof -
  define m :: byte where "m = (if mask_key = None then 0 else 0x80)"
  define x where "x = (if fin then 0x80 else 0) OR opcode"
  define lf where "lf = length_field m (length payload)"
  define tl where "tl = (case mask_key of None \<Rightarrow> payload | Some key \<Rightarrow> key @ ws_mask key payload)"
  have m: "m \<in> {0, 0x80}" "m = 0x80 \<longleftrightarrow> mask_key \<noteq> None" by (auto simp: m_def)
  have fr: "ws_frame fin opcode mask_key payload = x # lf @ tl"
    by (simp add: ws_frame_def x_def m_def lf_def tl_def)
  have pl: "parse_length (x # lf @ tl @ rest) = Some (of_nat (length payload), 1 + length lf)"
    "((x # lf @ tl @ rest) ! 1 AND 0x80 \<noteq> 0) \<longleftrightarrow> m = 0x80"
    unfolding lf_def using parse_length_field(1,3) [OF m(1) assms(2)] by blast+
  have lf: "0 < length lf" by (simp add: lf_def length_field_def)
  have x: "x AND 0x0F = opcode" "x AND 0x80 \<noteq> 0 \<longleftrightarrow> fin"
    unfolding x_def using mask_bits(3,4) [OF _ assms(1), of "if fin then 0x80 else 0"] by auto
  have n: "unat (of_nat (length payload) :: 64 word) = length payload"
    using assms(2) by (simp add: unsigned_of_nat take_bit_nat_eq_self)
  show ?thesis
  proof (cases mask_key)
    case None
    with m(2) pl fr lf x n show ?thesis by (simp add: tryParseFrameHeader_def tl_def Let_def)
  next
    case (Some key)
    with assms(3) have key: "length key = 4" "tl = key @ ws_mask key payload" by (simp_all add: tl_def)
    have "drop (5 + length lf) (x # lf @ key @ ys) = ys" for ys using key(1) by (simp add: drop_Cons')
    with Some m(2) pl fr lf x n key show ?thesis
      by (simp add: tryParseFrameHeader_def Let_def unmask_mask)
  qed
qed

lemma parse_incomplete:
  assumes "length payload < 2 ^ 64" "\<forall>key. mask_key = Some key \<longrightarrow> length key = 4"
    and "k + length payload < length (ws_frame fin opcode mask_key payload)"
  shows "tryParseFrameHeader (take k (ws_frame fin opcode mask_key payload)) = None"
proof -
  define m :: byte where "m = (if mask_key = None then 0 else 0x80)"
  define x where "x = (if fin then 0x80 else 0) OR opcode"
  define lf where "lf = length_field m (length payload)"
  define tl where "tl = (case mask_key of None \<Rightarrow> payload | Some key \<Rightarrow> key @ ws_mask key payload)"
  have m: "m \<in> {0, 0x80}" "m = 0x80 \<longleftrightarrow> mask_key \<noteq> None" by (auto simp: m_def)
  have fr: "ws_frame fin opcode mask_key payload = x # lf @ tl"
    by (simp add: ws_frame_def x_def m_def lf_def tl_def)
  show ?thesis
  proof (cases "k < 2")
    case False
    then obtain j where j: "k = Suc j" "0 < j" by (cases k) auto
    show ?thesis
    proof (cases "j < length lf")
      case True
      with j have "take k (x # lf @ tl) = x # take j lf" by simp
      moreover have "parse_length (x # take j lf) = None"
        using parse_length_field(2) [OF m(1) assms(1), of j] True j(2) unfolding lf_def by blast
      ultimately show ?thesis unfolding fr by (simp add: tryParseFrameHeader_def)
    next
      case lf: False
      with assms(2,3) obtain key where key: "mask_key = Some key" "length key = 4" and k: "k < 1 + length lf + 4"
        unfolding fr tl_def j(1) by (cases mask_key) auto
      define t where "t = take (j - length lf) tl"
      have take: "take k (x # lf @ tl) = x # lf @ t" using lf j by (simp add: t_def)
      have "parse_length (x # lf @ t) = Some (of_nat (length payload), 1 + length lf)" "(x # lf @ t) ! 1 AND 0x80 \<noteq> 0"
        unfolding lf_def using parse_length_field(1,3) [OF m(1) assms(1)] m(2) key(1) by blast+
      moreover have "length (x # lf @ t) < 1 + length lf + 4" using k take by (metis length_take min.strict_coboundedI2)
      ultimately show ?thesis unfolding fr take by (simp add: tryParseFrameHeader_def Let_def)
    qed
  next
    case True
    then have "length (take k (ws_frame fin opcode mask_key payload)) < 2" by simp
    then show ?thesis unfolding tryParseFrameHeader_def by (simp only: if_True)
  qed
qed

section \<open>Properties\<close>

text \<open>
  C20. The SHA-1 of the handshake, which buffers its input and hashes whole blocks, returns on every input and is
  the hash of FIPS 180-4; the accept key of the response is the Base64 text of the hash of the key and the GUID
  of RFC 6455, 28 characters which decode to that hash by RFC 4648.
\<close>

theorem handshake_digest:
  "sha1 msg = Some (fips_sha1 msg) \<and>
   (\<exists>text. accept_key key = Some text \<and> length text = 28 \<and>
      base64Decode text = fips_sha1 (bytes_of_string (key @ ''258EAFA5-E914-47DA-95CA-C5AB0DC85B11'')))"
proof -
  have "length (fips_sha1 m) = 20" for m
    by (cases "foldl fips_block fips_H0 (blocks (sha1_pad m))") (simp add: fips_sha1_def regs_bytes_def)
  then show ?thesis
    by (simp add: accept_key_def kWebSocketGuid_def sha1_eq_spec base64_decode_encode base64_length
        del: base64Encode.simps base64Decode.simps)
qed

text \<open>
  C32. Every frame, masked by a client or not, is parsed to its fields: final flag, opcode, payload length and
  the size of the header; unmasking what follows the header gives the payload.  While the header is not
  complete the parser asks for more data.  The frames the server builds are such frames.
\<close>

theorem frame_roundtrip:
  assumes "opcode < 16" "length payload < 2 ^ 64" "\<forall>key. mask_key = Some key \<longrightarrow> length key = 4"
    and frame: "frame = ws_frame fin opcode mask_key payload"
  shows "(\<exists>hdr. tryParseFrameHeader (frame @ rest) = Some hdr \<and>
    fh_fin hdr = fin \<and> fh_opcode hdr = opcode \<and> fh_mask hdr = (mask_key \<noteq> None) \<and>
    unat (fh_payload_len hdr) = length payload \<and> fh_header_size hdr + length payload = length frame \<and>
    (let body = drop (fh_header_size hdr) frame
     in (if fh_mask hdr then unmaskPayload body (fh_mask_key hdr) else body) = payload)) \<and>
    (\<forall>k. k + length payload < length frame \<longrightarrow> tryParseFrameHeader (take k frame) = None) \<and>
    (fin \<and> mask_key = None \<longrightarrow> buildFrame payload opcode = frame)"
  unfolding frame
proof (intro conjI allI impI)
  show "buildFrame payload opcode = ws_frame fin opcode mask_key payload" if "fin \<and> mask_key = None"
    using that by (simp add: buildFrame_frame)
qed (rule parse_frame [OF assms(1-3)], rule parse_incomplete [OF assms(2,3)])

theorem frame_roundtrip_witness:
  "\<exists>hdr. tryParseFrameHeader (ws_frame False 2 (Some [1, 2, 3, 4]) [10, 20, 30, 40, 50]) = Some hdr \<and>
     fh_mask hdr \<and> unat (fh_payload_len hdr) = 5"
  using frame_roundtrip [OF _ _ _ refl, of 2 "[10, 20, 30, 40, 50]" "Some [1, 2, 3, 4]" False "[]"] by auto

end
