(* ===== verification/Handshake_Proofs.thy ===== *)
theory Handshake_Proofs
  imports Web_Socket
begin

text \<open>
  What the opening handshake and the origin check accept: the parser of upgrade requests against the
  headers of a request, and the hosts that count as loopback.
\<close>

section \<open>Searching\<close>

lemma find_first:
  "P j \<Longrightarrow> i \<le> j \<Longrightarrow> j < n \<Longrightarrow> (\<And>k. i \<le> k \<Longrightarrow> k < j \<Longrightarrow> \<not> P k) \<Longrightarrow> find P [i..<n] = Some j"
proof (induction "j - i" arbitrary: i)
  case 0
  then have "[i..<n] = j # [Suc j..<n]" by (simp add: upt_conv_Cons)
  with 0 show ?case by simp
next
  case (Suc d)
  then have "i < j" by simp
  then have "[i..<n] = i # [Suc i..<n]" using Suc.prems by (simp add: upt_conv_Cons)
  moreover have "\<not> P i" using Suc.prems(4) \<open>i < j\<close> by simp
  moreover have "find P [Suc i..<n] = Some j" using Suc \<open>i < j\<close> by (intro Suc.hyps(1)) auto
  ultimately show ?case by simp
qed

lemma find_from_hit:
  assumes "c \<notin> set line"
  shows "find_from (pre @ line @ (c # d) @ rest) (c # d) (length pre) = Some (length pre + length line)"
  unfolding find_from_def
proof (rule find_first)
  fix k assume k: "length pre \<le> k" "k < length pre + length line"
  then have "drop k (pre @ line @ (c # d) @ rest) = drop (k - length pre) line @ (c # d) @ rest" by simp
  moreover have "drop (k - length pre) line \<noteq> []" using k by simp
  then obtain x xs where x: "drop (k - length pre) line = x # xs" by (cases "drop (k - length pre) line") auto
  moreover have "x \<noteq> c" using assms x by (metis in_set_dropD list.set_intros(1))
  ultimately show "\<not> prefix (c # d) (drop k (pre @ line @ (c # d) @ rest))" by simp
qed auto

lemma find_from_hit0: "c \<notin> set line \<Longrightarrow> find_from (line @ (c # d) @ rest) (c # d) 0 = Some (length line)"
  using find_from_hit [of c line "[]" d rest] by simp

section \<open>Requests\<close>

definition header_line :: "string \<times> string \<Rightarrow> string" where
  "header_line h = fst h @ '':'' @ snd h"

definition request_text :: "string \<Rightarrow> string \<Rightarrow> (string \<times> string) list \<Rightarrow> string" where
  "request_text path version headers =
     (''GET '' @ path @ '' '' @ version) @ CRLF @ concat (map (\<lambda>h. header_line h @ CRLF) headers) @ CRLF"

definition request_ok :: "string \<Rightarrow> string \<Rightarrow> (string \<times> string) list \<Rightarrow> bool" where
  "request_ok path version headers \<longleftrightarrow> CHR '' '' \<notin> set path \<and> CHR 0x0D \<notin> set path \<and> CHR 0x0D \<notin> set version \<and>
     list_all (\<lambda>(name, v). CHR '':'' \<notin> set name \<and> CHR 0x0D \<notin> set name \<and> CHR 0x0D \<notin> set v) headers"

text \<open>The values of a header, by its name without regard to case and surrounding blanks.\<close>

definition header_values :: "string \<Rightarrow> (string \<times> string) list \<Rightarrow> string list" where
  "header_values name headers = map (\<lambda>h. trimWhitespace (snd h)) (filter (\<lambda>h. equalsIgnoreCase (trimWhitespace (fst h)) name) headers)"

definition last_value :: "string \<Rightarrow> (string \<times> string) list \<Rightarrow> string" where
  "last_value name headers = (let vs = header_values name headers in if vs = [] then [] else last vs)"

definition upgrade_request :: "string \<Rightarrow> (string \<times> string) list \<Rightarrow> handshake_request option" where
  "upgrade_request path headers =
     (if list_ex (\<lambda>v. containsIgnoreCase v ''websocket'') (header_values ''upgrade'' headers) \<and>
         last_value ''sec-websocket-key'' headers \<noteq> []
      then Some \<lparr>hs_path = path, hs_key = last_value ''sec-websocket-key'' headers, hs_origin = last_value ''origin'' headers,
             hs_has_origin = (header_values ''origin'' headers \<noteq> [])\<rparr>
      else None)"

lemma on_header_line:
  "CHR '':'' \<notin> set (fst h) \<Longrightarrow> on_header (header_line h) (up, req) =
     (let name = trimWhitespace (fst h); v = trimWhitespace (snd h) in
      if equalsIgnoreCase name ''upgrade'' then (up \<or> containsIgnoreCase v ''websocket'', req)
      else if equalsIgnoreCase name ''sec-websocket-key'' then (up, req\<lparr>hs_key := v\<rparr>)
      else if equalsIgnoreCase name ''origin'' then (up, req\<lparr>hs_origin := v, hs_has_origin := True\<rparr>)
      else (up, req))"
  using find_from_hit0 [of "CHR '':''" "fst h" "[]" "snd h"] by (simp add: on_header_def header_line_def)

lemma header_loop_lines:
  assumes "list_all (\<lambda>h. header_line h \<noteq> [] \<and> CHR 0x0D \<notin> set (header_line h)) headers"
  shows "header_loop (pre @ concat (map (\<lambda>h. header_line h @ CRLF) headers) @ CRLF) (length pre) st =
    fold (\<lambda>h. on_header (header_line h)) headers st"
  using assms
proof (induction headers arbitrary: pre st)
  case Nil
  have "find_from (pre @ CRLF) CRLF (length pre) = Some (length pre)"
    using find_from_hit [of "CHR 0x0D" "[]" pre "[CHR 0x0A]" "[]"] by simp
  then show ?case by (subst header_loop.simps) (simp add: substr_def)
next
  case (Cons h hs)
  let ?l = "header_line h" and ?r = "concat (map (\<lambda>h. header_line h @ CRLF) hs) @ CRLF"
  have f: "find_from (pre @ ?l @ CRLF @ ?r) CRLF (length pre) = Some (length pre + length ?l)"
    using Cons.prems find_from_hit [of "CHR 0x0D" ?l pre "[CHR 0x0A]" ?r] by simp
  have "header_loop (pre @ ?l @ CRLF @ ?r) (length pre) st =
      header_loop (pre @ ?l @ CRLF @ ?r) (length pre + length ?l + 2) (on_header ?l st)"
    using Cons.prems f by (subst header_loop.simps) (simp add: substr_def)
  also have "\<dots> = fold (\<lambda>h. on_header (header_line h)) hs (on_header ?l st)"
    using Cons.IH [of "pre @ ?l @ CRLF" "on_header ?l st"] Cons.prems by simp
  finally show ?case by simp
qed

lemma ignore_case_length: "equalsIgnoreCase a b \<Longrightarrow> length a = length b"
  by (simp add: equalsIgnoreCase_def)

lemma headers_fold:
  assumes "list_all (\<lambda>h. CHR '':'' \<notin> set (fst h)) headers"
  shows "fold (\<lambda>h. on_header (header_line h)) headers (False, new_handshake\<lparr>hs_path := path\<rparr>) =
    (list_ex (\<lambda>v. containsIgnoreCase v ''websocket'') (header_values ''upgrade'' headers),
     \<lparr>hs_path = path, hs_key = last_value ''sec-websocket-key'' headers, hs_origin = last_value ''origin'' headers,
      hs_has_origin = (header_values ''origin'' headers \<noteq> [])\<rparr>)"
  using assms
proof (induction headers rule: rev_induct)
  case (snoc h hs)
  let ?n = "trimWhitespace (fst h)"
  have names: "\<not> (equalsIgnoreCase ?n ''upgrade'' \<and> equalsIgnoreCase ?n ''sec-websocket-key'')"
    "\<not> (equalsIgnoreCase ?n ''upgrade'' \<and> equalsIgnoreCase ?n ''origin'')"
    "\<not> (equalsIgnoreCase ?n ''sec-websocket-key'' \<and> equalsIgnoreCase ?n ''origin'')"
    by (auto dest!: ignore_case_length)
  have IH: "fold (\<lambda>h. on_header (header_line h)) hs (False, new_handshake\<lparr>hs_path := path\<rparr>) =
    (list_ex (\<lambda>v. containsIgnoreCase v ''websocket'') (header_values ''upgrade'' hs),
     \<lparr>hs_path = path, hs_key = last_value ''sec-websocket-key'' hs, hs_origin = last_value ''origin'' hs,
      hs_has_origin = (header_values ''origin'' hs \<noteq> [])\<rparr>)" using snoc by simp
  have colon: "CHR '':'' \<notin> set (fst h)" using snoc.prems by simp
  have v: "header_values name (hs @ [h]) = header_values name hs @ (if equalsIgnoreCase ?n name then [trimWhitespace (snd h)] else [])" for name
    by (simp add: header_values_def)
  have l: "last_value name (hs @ [h]) = (if equalsIgnoreCase ?n name then trimWhitespace (snd h) else last_value name hs)" for name
    by (simp add: last_value_def v)
  show ?case unfolding fold_append comp_def fold_simps id_def IH on_header_line [OF colon] v l Let_def using names by auto
qed (simp add: header_values_def last_value_def new_handshake_def)

lemma parse_request:
  assumes "request_ok path version headers"
  shows "parseHandshakeRequest (bytes_of_string (request_text path version headers)) = upgrade_request path headers"
proof -
  let ?line = "''GET '' @ path @ '' '' @ version" and ?rest = "concat (map (\<lambda>h. header_line h @ CRLF) headers) @ CRLF"
  let ?raw = "?line @ CRLF @ ?rest"
  have ok: "CHR '' '' \<notin> set path" "CHR 0x0D \<notin> set ?line" "list_all (\<lambda>h. CHR '':'' \<notin> set (fst h)) headers"
    "list_all (\<lambda>h. header_line h \<noteq> [] \<and> CHR 0x0D \<notin> set (header_line h)) headers"
    using assms by (auto simp: request_ok_def list_all_iff header_line_def)
  have crlf: "find_from ?raw CRLF 0 = Some (length ?line)"
    using find_from_hit0 [of "CHR 0x0D" ?line "[CHR 0x0A]" ?rest] ok(2) by simp
  have sp: "find_from ?line '' '' 4 = Some (4 + length path)"
    using find_from_hit [of "CHR '' ''" path "''GET ''" "[]" version] ok(1) by (simp add: eval_nat_numeral)
  have loop: "header_loop ?raw (length ?line + 2) st = fold (\<lambda>h. on_header (header_line h)) headers st" for st
    using header_loop_lines [OF ok(4), of "?line @ CRLF" st] by simp
  have path: "substr ?line 4 (4 + length path - 4) = path" by (simp add: substr_def)
  have "parseHandshakeRequest (bytes_of_string ?raw) =
      (case fold (\<lambda>h. on_header (header_line h)) headers (False, new_handshake\<lparr>hs_path := path\<rparr>) of
         (up, req) \<Rightarrow> if up \<and> hs_key req \<noteq> [] then Some req else None)"
    unfolding parseHandshakeRequest_def string_of_bytes_of_string crlf Let_def option.case
    by (simp add: sp [simplified] loop [simplified] path [simplified])
  then show ?thesis unfolding request_text_def headers_fold [OF ok(3)] upgrade_request_def by simp
qed

text \<open>
  An upgrade request is parsed to what its headers say, names taken without regard to case: it is
  accepted when some \<open>Upgrade\<close> header mentions websocket and the last \<open>Sec-WebSocket-Key\<close> is not empty, with that key,
  the target of the request line and the last \<open>Origin\<close>.
\<close>

theorem handshake_parsed:
  assumes "request_ok path version headers"
  shows "parseHandshakeRequest (bytes_of_string (request_text path version headers)) = upgrade_request path headers"
  using assms by (rule parse_request)

theorem handshake_parsed_witness:
  "parseHandshakeRequest (bytes_of_string (request_text ''/bolt'' ''HTTP/1.1''
      [(''UPGRADE'', '' WebSocket''), (''sec-websocket-KEY'', '' abc'')])) =
   Some \<lparr>hs_path = ''/bolt'', hs_key = ''abc'', hs_origin = [], hs_has_origin = False\<rparr>"
proof -
  have "upgrade_request ''/bolt'' [(''UPGRADE'', '' WebSocket''), (''sec-websocket-KEY'', '' abc'')] =
      Some \<lparr>hs_path = ''/bolt'', hs_key = ''abc'', hs_origin = [], hs_has_origin = False\<rparr>"
    by code_simp
  then show ?thesis using handshake_parsed [of "''/bolt''" "''HTTP/1.1''" "[(''UPGRADE'', '' WebSocket''), (''sec-websocket-KEY'', '' abc'')]"]
    by (simp add: request_ok_def)
qed

section \<open>Origins\<close>

definition plain :: "string \<Rightarrow> bool" where
  "plain s \<longleftrightarrow> set s \<inter> {CHR ''/'', CHR ''?'', CHR ''#'', CHR ''@'', CHR '':'', CHR ''[''} = {}"

lemma rfind_none: "c \<notin> set s \<Longrightarrow> rfind_char s c = None"
  unfolding rfind_char_def find_None_iff by auto

lemma rfind_snoc: "x \<noteq> c \<Longrightarrow> rfind_char (u @ [x]) c = rfind_char u c"
proof -
  assume "x \<noteq> c"
  moreover have "find (\<lambda>i. (u @ [x]) ! i = c) (rev [0..<length u]) = find (\<lambda>i. u ! i = c) (rev [0..<length u])"
    by (rule find_cong) (auto simp: nth_append)
  ultimately show ?thesis by (simp add: rfind_char_def)
qed

lemma rfind_last: "c \<notin> set t \<Longrightarrow> rfind_char (s @ c # t) c = Some (length s)"
proof (induction t rule: rev_induct)
  case (snoc x t)
  then show ?case using rfind_snoc [of x c "s @ c # t"] by auto
qed (simp add: rfind_char_def nth_append)

lemma asciiLower_bracket: "asciiLower c = CHR ''['' \<Longrightarrow> c = CHR ''[''"
proof -
  assume "asciiLower c = CHR ''[''"
  then have n: "(of_char (asciiLower c) :: nat) = 91" by simp
  show ?thesis
  proof (cases "65 \<le> (of_char c :: nat) \<and> (of_char c :: nat) \<le> 90")
    case True
    then have "(of_char (asciiLower c) :: nat) = of_char c + 32" by (simp add: asciiLower_def)
    with n True show ?thesis by simp
  next
    case False
    then show ?thesis using \<open>asciiLower c = CHR ''[''\<close> unfolding asciiLower_def by argo
  qed
qed

lemma loopback_eq:
  assumes "strip_scheme origin = Some rest" "takeWhile (\<lambda>c. c \<noteq> CHR ''/'' \<and> c \<noteq> CHR ''?'' \<and> c \<noteq> CHR ''#'') rest = a" "a \<noteq> []"
    and "authority_host a = Some host"
  shows "isLoopbackOrigin origin \<longleftrightarrow>
    equalsIgnoreCase host ''localhost'' \<or> equalsIgnoreCase host ''127.0.0.1'' \<or> equalsIgnoreCase host ''[::1]''"
  unfolding isLoopbackOrigin_def assms(1) option.case assms(2) Let_def using assms(3,4) by simp

lemma loopback_host_port:
  assumes "plain host" "plain port" "host \<noteq> []"
  shows "isLoopbackOrigin (''http://'' @ host @ '':'' @ port) \<longleftrightarrow>
    equalsIgnoreCase host ''localhost'' \<or> equalsIgnoreCase host ''127.0.0.1''"
proof -
  let ?a = "host @ '':'' @ port"
  have t: "takeWhile (\<lambda>c. c \<noteq> CHR ''/'' \<and> c \<noteq> CHR ''?'' \<and> c \<noteq> CHR ''#'') ?a = ?a"
    using assms(1,2) by (subst takeWhile_eq_all_conv) (auto simp: plain_def)
  have "rfind_char ?a (CHR ''@'') = None" using assms(1,2) by (intro rfind_none) (auto simp: plain_def)
  moreover have "rfind_char ?a (CHR '':'') = Some (length host)"
    using assms(2) rfind_last [of "CHR '':''" port host] by (simp add: plain_def)
  moreover have h: "host ! 0 \<noteq> CHR ''[''" using assms(1,3) by (cases host) (auto simp: plain_def)
  ultimately have "authority_host ?a = Some host" using assms(3) by (simp add: authority_host_def nth_append)
  moreover have "\<not> equalsIgnoreCase host ''[::1]''"
  proof
    assume "equalsIgnoreCase host ''[::1]''"
    then have "0 \<in> set [0..<length host]" "list_all (\<lambda>i. asciiLower (host ! i) = asciiLower (''[::1]'' ! i)) [0..<length host]"
      using assms(3) unfolding equalsIgnoreCase_def by (simp, blast)
    then have "asciiLower (host ! 0) = asciiLower (''[::1]'' ! 0)" unfolding list_all_iff by blast
    then have "asciiLower (host ! 0) = CHR ''[''" by (simp add: asciiLower_def [of "CHR ''[''"])
    then show False using h asciiLower_bracket by blast
  qed
  moreover have "strip_scheme (''http://'' @ ?a) = Some ?a" by (simp add: strip_scheme_def)
  ultimately show ?thesis using loopback_eq [OF _ t, of "''http://'' @ ?a" host] by simp
qed

lemma loopback_bracket:
  assumes "set s \<inter> {CHR ''/'', CHR ''?'', CHR ''#'', CHR ''@''} = {}"
  shows "isLoopbackOrigin (''http://[::1]'' @ s)"
proof -
  let ?a = "''[::1]'' @ s"
  have t: "takeWhile (\<lambda>c. c \<noteq> CHR ''/'' \<and> c \<noteq> CHR ''?'' \<and> c \<noteq> CHR ''#'') ?a = ?a"
    using assms by (subst takeWhile_eq_all_conv) auto
  have "rfind_char ?a (CHR ''@'') = None" using assms by (intro rfind_none) auto
  moreover have "find_from ?a '']'' 0 = Some 4"
    using find_from_hit0 [of "CHR '']''" "''[::1''" "[]" s] by (simp add: eval_nat_numeral)
  ultimately have "authority_host ?a = Some ''[::1]''" by (simp add: authority_host_def)
  moreover have "strip_scheme (''http://[::1]'' @ s) = Some ?a" by (simp add: strip_scheme_def)
  moreover have "equalsIgnoreCase ''[::1]'' ''[::1]''" by (simp add: equalsIgnoreCase_def)
  ultimately show ?thesis using loopback_eq [OF _ t] by simp
qed

text \<open>
  C33. The origin check accepts \<open>http://host:port\<close> exactly for the hosts \<open>localhost\<close> and \<open>127.0.0.1\<close>, without
  regard to case and to the port.  Behind \<open>http://[::1]\<close> it accepts any text at all, not only a port.
\<close>

theorem loopback_origin:
  assumes "plain host" "plain port" "host \<noteq> []" "set s \<inter> {CHR ''/'', CHR ''?'', CHR ''#'', CHR ''@''} = {}"
  shows "(isLoopbackOrigin (''http://'' @ host @ '':'' @ port) \<longleftrightarrow>
      equalsIgnoreCase host ''localhost'' \<or> equalsIgnoreCase host ''127.0.0.1'') \<and>
    allows [] (''http://[::1]'' @ s)"
  using loopback_host_port [OF assms(1-3)] loopback_bracket [OF assms(4)] by (simp add: allows_def)

theorem loopback_origin_witness:
  "\<not> isLoopbackOrigin ''http://example.org:80'' \<and> allows [] ''http://[::1].example.org''"
  using loopback_origin [of "''example.org''" "''80''" "''.example.org''"] by (simp add: plain_def equalsIgnoreCase_def)

end
