(* ===== verification/Session_Pool.thy ===== *)
theory Session_Pool
  imports Graph_Session
begin

text \<open>
  \<^verbatim>\<open>storage/data/session_pool.hpp\<close>: the bounded pool that owns the sessions of a graph and lends them out.
  A session is named by its address.  Every method holds the mutex of the pool, except that \<^verbatim>\<open>put\<close> closes
  the session between two critical sections: the steps of the pool below interleave there.
\<close>

section \<open>Operations\<close>

record 's session_pool =
  sp_max_total :: nat
  sp_all :: "(nat \<times> 's graph_session) list"
  sp_idle :: "nat list"
  sp_leased :: "nat list"
  sp_closed :: bool

definition new_session_pool :: "nat \<Rightarrow> 's session_pool" where
  "new_session_pool max_total = \<lparr>sp_max_total = max_total, sp_all = [], sp_idle = [], sp_leased = [], sp_closed = False\<rparr>"

definition find_session :: "'s session_pool \<Rightarrow> nat \<Rightarrow> 's graph_session option" where
  "find_session pool p = map_of (sp_all pool) p"

definition erase_session :: "nat \<Rightarrow> (nat \<times> 's graph_session) list \<Rightarrow> (nat \<times> 's graph_session) list" where
  "erase_session p xs = filter (\<lambda>x. fst x \<noteq> p) xs"

text \<open>An update of the session object at an address.\<close>

definition on_session :: "nat \<Rightarrow> ('s graph_session \<Rightarrow> 's graph_session) \<Rightarrow> 's session_pool \<Rightarrow> 's session_pool" where
  "on_session p f pool = pool\<lparr>sp_all := map (\<lambda>x. if fst x = p then (p, f (snd x)) else x) (sp_all pool)\<rparr>"

text \<open>\<^verbatim>\<open>acquire\<close>: \<open>fresh\<close> is the address a new session would get, \<open>made\<close> what the factory returns.\<close>

definition acquire :: "nat \<Rightarrow> 's option \<Rightarrow> 's session_pool \<Rightarrow> nat option \<times> 's session_pool" where
  "acquire fresh made pool =
     (if sp_closed pool then (None, pool)
      else if sp_idle pool \<noteq> [] then
        let picked = last (sp_idle pool)
        in (Some picked, pool\<lparr>sp_idle := butlast (sp_idle pool), sp_leased := List.insert picked (sp_leased pool)\<rparr>)
      else if length (sp_all pool) < sp_max_total pool then
        (case made of
           None \<Rightarrow> (None, pool)
         | Some s \<Rightarrow> (Some fresh, pool\<lparr>sp_all := sp_all pool @ [(fresh, new_graph_session True s)],
             sp_leased := List.insert fresh (sp_leased pool)\<rparr>))
      else (None, pool))"

text \<open>\<^verbatim>\<open>put\<close> up to the close, the close, and the rest.\<close>

definition put_begin :: "nat \<Rightarrow> 's session_pool \<Rightarrow> bool \<times> 's session_pool" where
  "put_begin p pool =
     (if p \<notin> set (sp_leased pool) then (False, pool) else (True, pool\<lparr>sp_leased := removeAll p (sp_leased pool)\<rparr>))"

definition put_close :: "'s wt_engine \<Rightarrow> nat \<Rightarrow> 's session_pool \<Rightarrow> 's session_pool" where
  "put_close w p pool = on_session p (close w) pool"

definition put_end :: "'s wt_engine \<Rightarrow> nat \<Rightarrow> 's session_pool \<Rightarrow> 's session_pool" where
  "put_end w p pool =
     (case find_session pool p of
        None \<Rightarrow> pool
      | Some session \<Rightarrow>
          if sp_closed pool \<or> poisoned session then pool\<lparr>sp_all := erase_session p (sp_all pool)\<rparr>
          else (on_session p (reset_for_reuse w) pool)\<lparr>sp_idle := sp_idle pool @ [p]\<rparr>)"

definition put :: "'s wt_engine \<Rightarrow> nat \<Rightarrow> 's session_pool \<Rightarrow> 's session_pool" where
  "put w p pool =
     (let (known, pool1) = put_begin p pool in if \<not> known then pool1 else put_end w p (put_close w p pool1))"

text \<open>\<^verbatim>\<open>shutdown\<close> returns the idle sessions it has closed; their owner is gone with the call.\<close>

definition shutdown :: "'s wt_engine \<Rightarrow> 's session_pool \<Rightarrow> 's graph_session list \<times> 's session_pool" where
  "shutdown w pool =
     (if sp_closed pool then ([], pool)
      else (map (close w) (List.map_filter (find_session pool) (sp_idle pool)),
        pool\<lparr>sp_closed := True, sp_all := fold erase_session (sp_idle pool) (sp_all pool), sp_idle := []\<rparr>))"

definition live :: "'s session_pool \<Rightarrow> nat" where "live pool = length (sp_all pool)"
definition idle_count :: "'s session_pool \<Rightarrow> nat" where "idle_count pool = length (sp_idle pool)"
definition outstanding :: "'s session_pool \<Rightarrow> nat" where "outstanding pool = length (sp_leased pool)"

text \<open>\<^verbatim>\<open>SessionLease::release\<close>: a lease is the address it holds, if any.\<close>

definition lease_release :: "'s wt_engine \<Rightarrow> nat option \<times> 's session_pool \<Rightarrow> nat option \<times> 's session_pool" where
  "lease_release w = (\<lambda>(lease, pool). case lease of None \<Rightarrow> (None, pool) | Some p \<Rightarrow> (None, put w p pool))"

text \<open>Assignment of a lease from another one: \<open>(this, other)\<close> and the pool they share.\<close>

definition lease_assign :: "'s wt_engine \<Rightarrow> (nat option \<times> nat option) \<times> 's session_pool \<Rightarrow> (nat option \<times> nat option) \<times> 's session_pool" where
  "lease_assign w = (\<lambda>((this, other), pool). ((other, None), snd (lease_release w (this, pool))))"

text \<open>The destructor of the core: the sessions it closes, lent ones included.\<close>

definition pool_destroy :: "'s wt_engine \<Rightarrow> 's session_pool \<Rightarrow> 's graph_session list \<times> 's session_pool" where
  "pool_destroy w pool =
     (let (doomed, pool1) = shutdown w pool
      in (doomed @ map (close w \<circ> snd) (sp_all pool1), pool1\<lparr>sp_all := []\<rparr>))"

section \<open>Sessions in the pool\<close>

text \<open>What a holder keeps true of a session it uses, and the state of a session ready to be lent.\<close>

definition session_ok :: "'s graph_session \<Rightarrow> bool" where
  "session_ok gs \<longleftrightarrow> gs_inv gs \<and> ws_present gs \<and> (gs_closed gs \<longrightarrow> tc_open (gs_txn gs) \<longrightarrow> poisoned gs)"

definition ready :: "'s graph_session \<Rightarrow> bool" where
  "ready gs \<longleftrightarrow> gs_inv gs \<and> ws_present gs \<and> \<not> gs_closed gs \<and> \<not> poisoned gs \<and> \<not> tc_open (gs_txn gs) \<and>
     \<not> transaction_failed gs \<and> gs_cursors gs = Map.empty"

lemma ready_ok: "ready gs \<Longrightarrow> session_ok gs"
  by (simp add: ready_def session_ok_def)

lemma ready_new: "ready (new_graph_session True s)"
  using gs_inv_new [of True s]
  by (simp add: ready_def new_graph_session_def poisoned_def tc_poisoned_def tc_init_def transaction_failed_def)

lemma present_close [simp]: "ws_present (close w gs) = ws_present gs"
  by (auto simp: close_def clear_cursors_def rollback_failed_def Let_def split: prod.splits)

lemma close_ok:
  assumes "session_ok gs"
  shows "session_ok (close w gs)" "gs_closed (close w gs)" "poisoned (close w gs) \<or> \<not> tc_open (gs_txn (close w gs))"
  using assms gs_inv_close [of gs w]
  by (auto simp: session_ok_def close_def clear_cursors_def rollback_failed_def Let_def poisoned_def tc_poisoned_def tc_defs
      split: prod.splits if_splits)

lemma reset_ready: "session_ok gs \<Longrightarrow> \<not> poisoned gs \<Longrightarrow> \<not> tc_open (gs_txn gs) \<Longrightarrow> ready (reset_for_reuse w gs)"
  using gs_inv_reset [of gs w]
  by (auto simp: session_ok_def ready_def reset_for_reuse_def clear_cursors_def poisoned_def tc_poisoned_def tc_defs Let_def
      transaction_failed_def)

text \<open>The operations of a session keep it so.\<close>

lemma session_ok_operations:
  assumes "session_ok gs"
  shows "session_ok (snd (gs_begin w kind gs))" "session_ok (rollback w gs)" "session_ok (snd (commit w gs))"
    "session_ok (gs_fail cls r gs)" "session_ok (end_statement gs)" "session_ok (snd (acquire_cursor w t gs))"
proof -
  have inv: "gs_inv gs" "ws_present gs" "gs_closed gs \<longrightarrow> tc_open (gs_txn gs) \<longrightarrow> poisoned gs"
    using assms by (simp_all add: session_ok_def)
  show "session_ok (snd (gs_begin w kind gs))"
    using inv gs_inv_begin [OF inv(1), of w kind] unfolding session_ok_def
    by (auto simp: gs_begin_def Let_def poisoned_def split: prod.splits)
  show R: "session_ok (rollback w gs)"
    using inv gs_inv_rollback [OF inv(1), of w] unfolding session_ok_def
    by (auto simp: rollback_def rollback_failed_def Let_def poisoned_def tc_poisoned_def tc_defs split: prod.splits)
  show "session_ok (snd (commit w gs))"
    using inv R gs_inv_commit [OF inv(1), of w] unfolding session_ok_def
    by (auto simp: commit_def Let_def poisoned_def tc_poisoned_def tc_defs split: prod.splits option.splits)
  show "session_ok (gs_fail cls r gs)"
    using inv gs_inv_fail [OF inv(1), of cls r] unfolding session_ok_def
    by (auto simp: gs_fail_def Let_def poisoned_def tc_poisoned_def tc_defs)
  show "session_ok (end_statement gs)"
    using inv unfolding session_ok_def by (auto simp: end_statement_def clear_cursors_def gs_inv_def poisoned_def)
  show "session_ok (snd (acquire_cursor w t gs))"
    using inv unfolding session_ok_def
    by (auto simp: acquire_cursor_def open_cursor_def gs_inv_def poisoned_def Let_def split: option.splits prod.splits)
qed

section \<open>The pool as a state machine\<close>

text \<open>
  The state is the pool with the addresses that threads are closing and those they have closed and not yet
  handed back.  A holder may change its session in any way that keeps it well-formed.
\<close>

type_synonym 's pool_state = "'s session_pool \<times> nat list \<times> nat list"

inductive pool_step :: "'s wt_engine \<Rightarrow> 's pool_state \<Rightarrow> 's pool_state \<Rightarrow> bool" for w :: "'s wt_engine" where
  Acquire: "find_session pool fresh = None \<Longrightarrow> acquire fresh made pool = (r, pool') \<Longrightarrow>
    pool_step w (pool, closing, ending) (pool', closing, ending)"
| Use: "p \<in> set (sp_leased pool) \<Longrightarrow> session_ok gs \<Longrightarrow>
    pool_step w (pool, closing, ending) (on_session p (\<lambda>_. gs) pool, closing, ending)"
| Put_Begin: "put_begin p pool = (True, pool') \<Longrightarrow> pool_step w (pool, closing, ending) (pool', p # closing, ending)"
| Put_Ignored: "put_begin p pool = (False, pool') \<Longrightarrow> pool_step w (pool, closing, ending) (pool', closing, ending)"
| Put_Close: "p \<in> set closing \<Longrightarrow>
    pool_step w (pool, closing, ending) (put_close w p pool, removeAll p closing, p # ending)"
| Put_End: "p \<in> set ending \<Longrightarrow> pool_step w (pool, closing, ending) (put_end w p pool, closing, removeAll p ending)"
| Shutdown: "shutdown w pool = (doomed, pool') \<Longrightarrow> pool_step w (pool, closing, ending) (pool', closing, ending)"

inductive pool_reachable :: "'s wt_engine \<Rightarrow> nat \<Rightarrow> 's pool_state \<Rightarrow> bool" for w :: "'s wt_engine" and n :: nat where
  Start: "pool_reachable w n (new_session_pool n, [], [])"
| Step: "pool_reachable w n st \<Longrightarrow> pool_step w st st' \<Longrightarrow> pool_reachable w n st'"

text \<open>
  Every session is in exactly one place: idle, lent, being closed or closed.  Idle sessions are ready; the
  others are well-formed; those that wait to be handed back have no transaction left or are poisoned.
\<close>

definition places_ok :: "nat list \<Rightarrow> nat list \<Rightarrow> nat list \<Rightarrow> nat list \<Rightarrow> nat list \<Rightarrow> bool" where
  "places_ok owned idle leased closing ending \<longleftrightarrow> distinct owned \<and> distinct (idle @ leased @ closing @ ending) \<and>
     set (idle @ leased @ closing @ ending) = set owned"

definition sessions_ok :: "(nat \<times> 's graph_session) list \<Rightarrow> nat list \<Rightarrow> nat list \<Rightarrow> bool" where
  "sessions_ok owned idle ending \<longleftrightarrow> (\<forall>p gs. (p, gs) \<in> set owned \<longrightarrow> session_ok gs \<and> (p \<in> set idle \<longrightarrow> ready gs) \<and>
     (p \<in> set ending \<longrightarrow> poisoned gs \<or> \<not> tc_open (gs_txn gs)))"

definition pool_inv :: "nat \<Rightarrow> 's pool_state \<Rightarrow> bool" where
  "pool_inv n = (\<lambda>(pool, closing, ending).
     sp_max_total pool = n \<and> length (sp_all pool) \<le> n \<and> (sp_closed pool \<longrightarrow> sp_idle pool = []) \<and>
     places_ok (map fst (sp_all pool)) (sp_idle pool) (sp_leased pool) closing ending \<and>
     sessions_ok (sp_all pool) (sp_idle pool) ending)"

lemma fst_on_session [simp]: "map fst (sp_all (on_session p f pool)) = map fst (sp_all pool)"
  by (simp add: on_session_def)

lemma on_session_fields [simp]:
  "sp_max_total (on_session p f pool) = sp_max_total pool" "sp_idle (on_session p f pool) = sp_idle pool"
  "sp_leased (on_session p f pool) = sp_leased pool" "sp_closed (on_session p f pool) = sp_closed pool"
  "length (sp_all (on_session p f pool)) = length (sp_all pool)"
  by (simp_all add: on_session_def)

lemma fst_set_on_session [simp]: "fst ` set (sp_all (on_session p f pool)) = fst ` set (sp_all pool)"
  by (simp flip: set_map)

lemma in_on_session:
  "(q, gs) \<in> set (sp_all (on_session p f pool)) \<longleftrightarrow>
     (\<exists>gs0. (q, gs0) \<in> set (sp_all pool) \<and> gs = (if q = p then f gs0 else gs0))"
  by (force simp: on_session_def)

lemma erase_fields: "set (erase_session p xs) = {x \<in> set xs. fst x \<noteq> p}" "length (erase_session p xs) \<le> length xs"
  "distinct (map fst xs) \<Longrightarrow> distinct (map fst (erase_session p xs))"
  by (auto simp: erase_session_def distinct_map_filter)

lemma erase_all: "set (fold erase_session ps xs) = {x \<in> set xs. fst x \<notin> set ps}" "length (fold erase_session ps xs) \<le> length xs"
  "distinct (map fst xs) \<Longrightarrow> distinct (map fst (fold erase_session ps xs))"
proof (induction ps arbitrary: xs)
  case (Cons p ps)
  { case 1 show ?case using Cons(1) [of "erase_session p xs"] by (auto simp: erase_fields) }
  { case 2 show ?case using Cons(2) [of "erase_session p xs"] erase_fields(2) [of p xs] by simp }
  { case 3 then show ?case using Cons(3) [of "erase_session p xs"] erase_fields(3) [of xs p] by simp }
qed simp_all

text \<open>Moving an address from one place to another.\<close>

lemma places_move:
  assumes "places_ok ks idle leased closing ending"
  shows "idle = ps @ [p] \<Longrightarrow> places_ok ks ps (List.insert p leased) closing ending"
    "p \<notin> set ks \<Longrightarrow> places_ok (ks @ [p]) idle (List.insert p leased) closing ending"
    "p \<in> set leased \<Longrightarrow> places_ok ks idle (removeAll p leased) (p # closing) ending"
    "p \<in> set closing \<Longrightarrow> places_ok ks idle leased (removeAll p closing) (p # ending)"
    "p \<in> set ending \<Longrightarrow> places_ok ks (idle @ [p]) leased closing (removeAll p ending)"
    "p \<in> set ending \<Longrightarrow> places_ok (filter (\<lambda>k. k \<noteq> p) ks) idle leased closing (removeAll p ending)"
  using assms by (auto simp: places_ok_def List.insert_def distinct_removeAll)

lemma places_clear:
  "places_ok ks idle leased closing ending \<Longrightarrow> places_ok (filter (\<lambda>k. k \<notin> set idle) ks) [] leased closing ending"
  by (auto simp: places_ok_def)

lemma map_fst_erase: "map fst (erase_session p xs) = filter (\<lambda>k. k \<noteq> p) (map fst xs)"
  by (simp add: erase_session_def filter_map comp_def)

lemma map_fst_erase_all: "map fst (fold erase_session ps xs) = filter (\<lambda>k. k \<notin> set ps) (map fst xs)"
proof (induction ps arbitrary: xs)
  case (Cons p ps)
  show ?case using Cons.IH [of "erase_session p xs"] by (simp add: map_fst_erase conj_commute)
qed simp

lemma sessions_update:
  assumes "sessions_ok (sp_all pool) idle ending"
    and "\<And>gs. (p, gs) \<in> set (sp_all pool) \<Longrightarrow> session_ok (f gs) \<and> (p \<in> set idle' \<longrightarrow> ready (f gs)) \<and>
      (p \<in> set ending' \<longrightarrow> poisoned (f gs) \<or> \<not> tc_open (gs_txn (f gs)))"
    and "set idle' \<subseteq> insert p (set idle)" "set ending' \<subseteq> insert p (set ending)"
  shows "sessions_ok (sp_all (on_session p f pool)) idle' ending'"
  unfolding sessions_ok_def in_on_session
proof (intro allI impI, elim exE conjE)
  fix q gs gs0 assume q: "(q, gs0) \<in> set (sp_all pool)" "gs = (if q = p then f gs0 else gs0)"
  show "session_ok gs \<and> (q \<in> set idle' \<longrightarrow> ready gs) \<and> (q \<in> set ending' \<longrightarrow> poisoned gs \<or> \<not> tc_open (gs_txn gs))"
  proof (cases "q = p")
    case False
    with q assms(1,3,4) show ?thesis unfolding sessions_ok_def by auto
  qed (use q assms(2) in simp)
qed

lemma pool_inv_acquire:
  assumes inv: "pool_inv n (pool, closing, ending)"
    and "find_session pool fresh = None" "acquire fresh made pool = (r, pool')"
  shows "pool_inv n (pool', closing, ending)"
proof -
  have P: "places_ok (map fst (sp_all pool)) (sp_idle pool) (sp_leased pool) closing ending"
    and S: "sessions_ok (sp_all pool) (sp_idle pool) ending" using inv by (simp_all add: pool_inv_def)
  have fresh: "fresh \<notin> set (map fst (sp_all pool))" using assms(2) by (simp add: find_session_def map_of_eq_None_iff)
  show ?thesis
  proof (cases "\<not> sp_closed pool \<and> sp_idle pool \<noteq> []")
    case True
    then obtain ps p where ps: "sp_idle pool = ps @ [p]" by (metis append_butlast_last_id)
    with True assms(3) have pool': "pool' = pool\<lparr>sp_idle := ps, sp_leased := List.insert p (sp_leased pool)\<rparr>"
      by (auto simp: acquire_def)
    have "sessions_ok (sp_all pool) ps ending" using S ps by (auto simp: sessions_ok_def)
    with places_move(1) [OF P ps] inv True show ?thesis unfolding pool' by (simp add: pool_inv_def)
  next
    case False
    show ?thesis
    proof (cases "pool' = pool")
      case changed: False
      with assms(3) False obtain s where s: "\<not> sp_closed pool" "length (sp_all pool) < sp_max_total pool"
        "pool' = pool\<lparr>sp_all := sp_all pool @ [(fresh, new_graph_session True s)], sp_leased := List.insert fresh (sp_leased pool)\<rparr>"
        by (auto simp: acquire_def split: if_splits option.splits)
      have "fresh \<notin> set ending" using P fresh by (auto simp: places_ok_def)
      then have "sessions_ok (sp_all pool @ [(fresh, new_graph_session True s)]) (sp_idle pool) ending"
        using S ready_new [of s] ready_ok [OF ready_new, of s] by (auto simp: sessions_ok_def)
      with places_move(2) [OF P fresh] inv s show ?thesis by (simp add: pool_inv_def)
    qed (use inv in simp)
  qed
qed

lemma pool_inv_use:
  assumes inv: "pool_inv n (pool, closing, ending)" and "p \<in> set (sp_leased pool)" "session_ok gs"
  shows "pool_inv n (on_session p (\<lambda>_. gs) pool, closing, ending)"
proof -
  have "p \<notin> set (sp_idle pool)" "p \<notin> set ending" using inv assms(2) by (auto simp: pool_inv_def places_ok_def)
  then have "sessions_ok (sp_all (on_session p (\<lambda>_. gs) pool)) (sp_idle pool) ending"
    using inv assms(3) by (intro sessions_update) (auto simp: pool_inv_def)
  with inv show ?thesis by (simp add: pool_inv_def)
qed

lemma pool_inv_put_begin:
  assumes inv: "pool_inv n (pool, closing, ending)" and "put_begin p pool = (True, pool')"
  shows "pool_inv n (pool', p # closing, ending)"
  using assms places_move(3) [of "map fst (sp_all pool)" "sp_idle pool" "sp_leased pool" closing ending p]
  by (auto simp: pool_inv_def put_begin_def split: if_splits)

lemma pool_inv_put_close:
  assumes inv: "pool_inv n (pool, closing, ending)" and "p \<in> set closing"
  shows "pool_inv n (put_close w p pool, removeAll p closing, p # ending)"
proof -
  have "p \<notin> set (sp_idle pool)" using inv assms(2) by (auto simp: pool_inv_def places_ok_def)
  then have "sessions_ok (sp_all (put_close w p pool)) (sp_idle pool) (p # ending)"
    using inv close_ok(1,3) [where w = w] unfolding put_close_def pool_inv_def
    by (intro sessions_update) (auto simp: sessions_ok_def)
  with inv assms(2) places_move(4) show ?thesis by (simp add: pool_inv_def put_close_def)
qed

lemma pool_inv_put_end:
  assumes inv: "pool_inv n (pool, closing, ending)" and p: "p \<in> set ending"
  shows "pool_inv n (put_end w p pool, closing, removeAll p ending)"
proof -
  have P: "places_ok (map fst (sp_all pool)) (sp_idle pool) (sp_leased pool) closing ending"
    and S: "sessions_ok (sp_all pool) (sp_idle pool) ending" using inv by (simp_all add: pool_inv_def)
  have "p \<in> fst ` set (sp_all pool)" using P p by (auto simp: places_ok_def)
  then obtain gs where gs: "find_session pool p = Some gs" "(p, gs) \<in> set (sp_all pool)"
    by (metis find_session_def map_of_SomeD map_of_eq_None_iff not_None_eq)
  show ?thesis
  proof (cases "sp_closed pool \<or> poisoned gs")
    case True
    have "sessions_ok (erase_session p (sp_all pool)) (sp_idle pool) (removeAll p ending)"
      using S by (auto simp: sessions_ok_def erase_fields)
    with True places_move(6) [OF P p] inv gs(1) erase_fields(2) [of p "sp_all pool"] show ?thesis
      by (auto simp: pool_inv_def put_end_def map_fst_erase)
  next
    case False
    have "\<not> tc_open (gs_txn gs)" "session_ok gs" using S gs False p unfolding sessions_ok_def by blast+
    then have ready: "ready (reset_for_reuse w gs)" using False by (intro reset_ready) auto
    have uniq: "gs0 = gs" if "(p, gs0) \<in> set (sp_all pool)" for gs0
      using that gs(2) P by (auto simp: places_ok_def dest: eq_key_imp_eq_value)
    have "sessions_ok (sp_all (on_session p (reset_for_reuse w) pool)) (sp_idle pool @ [p]) (removeAll p ending)"
      using S ready ready_ok [OF ready] uniq by (intro sessions_update) auto
    with False places_move(5) [OF P p] inv gs(1) show ?thesis by (simp add: pool_inv_def put_end_def)
  qed
qed

lemma pool_inv_shutdown:
  assumes inv: "pool_inv n (pool, closing, ending)" and "shutdown w pool = (doomed, pool')"
  shows "pool_inv n (pool', closing, ending)"
proof (cases "sp_closed pool")
  case False
  have "sessions_ok (fold erase_session (sp_idle pool) (sp_all pool)) [] ending"
    using inv by (auto simp: pool_inv_def sessions_ok_def erase_all)
  moreover have "places_ok (map fst (fold erase_session (sp_idle pool) (sp_all pool))) [] (sp_leased pool) closing ending"
    using inv places_clear by (auto simp: pool_inv_def map_fst_erase_all)
  ultimately show ?thesis using inv assms(2) False erase_all(2) [of "sp_idle pool" "sp_all pool"]
    by (auto simp: pool_inv_def shutdown_def)
qed (use assms in \<open>simp add: shutdown_def\<close>)

lemma pool_inv_reachable: "pool_reachable w n st \<Longrightarrow> pool_inv n st"
proof (induction rule: pool_reachable.induct)
  case Start
  show ?case by (simp add: pool_inv_def new_session_pool_def places_ok_def sessions_ok_def)
next
  case (Step st st')
  from Step(2,3) show ?case
  proof (induction rule: pool_step.induct)
    case (Put_Ignored p pool pool' closing ending)
    then show ?case by (auto simp: put_begin_def split: if_splits)
  qed (auto intro: pool_inv_acquire pool_inv_use pool_inv_put_begin pool_inv_put_close pool_inv_put_end pool_inv_shutdown)
qed

section \<open>Properties\<close>

text \<open>
  C16. Whatever the threads do and however their returns interleave, the pool never holds more sessions than
  its bound, every session is in exactly one place (idle, lent, being closed, closed), and an idle session
  is ready for the next holder: open, not poisoned, without a transaction, an error or cached cursors.
\<close>

theorem session_pool_invariant:
  assumes "pool_reachable w n (pool, closing, ending)"
  shows "live pool \<le> n \<and> distinct (sp_idle pool @ sp_leased pool @ closing @ ending) \<and>
    set (sp_idle pool @ sp_leased pool @ closing @ ending) = fst ` set (sp_all pool) \<and>
    list_all (\<lambda>p. \<exists>gs. find_session pool p = Some gs \<and> ready gs) (sp_idle pool)"
proof -
  have inv: "pool_inv n (pool, closing, ending)" by (rule pool_inv_reachable [OF assms])
  have "\<exists>gs. find_session pool p = Some gs \<and> ready gs" if "p \<in> set (sp_idle pool)" for p
  proof -
    have "p \<in> fst ` set (sp_all pool)" using inv that by (auto simp: pool_inv_def places_ok_def)
    then obtain gs where "map_of (sp_all pool) p = Some gs" by (metis map_of_eq_None_iff not_None_eq)
    with inv that show ?thesis unfolding pool_inv_def sessions_ok_def find_session_def by (auto dest: map_of_SomeD)
  qed
  with inv show ?thesis by (auto simp: pool_inv_def places_ok_def live_def list_all_iff)
qed

lemma acquire_reachable:
  "pool_reachable w n (pool, closing, ending) \<Longrightarrow> find_session pool fresh = None \<Longrightarrow>
   pool_reachable w n (snd (acquire fresh made pool), closing, ending)"
  by (erule pool_reachable.Step) (rule pool_step.Acquire [where r = "fst (acquire fresh made pool)"], simp_all)

text \<open>A pool of one session, which is lent.\<close>

definition lent :: "mem_state session_pool" where
  "lent = snd (acquire 7 (Some \<lparr>mem_rows = [], mem_committed = [], mem_txn = False\<rparr>) (new_session_pool 1))"

lemma lent_reachable: "pool_reachable mem_engine 1 (lent, [], [])"
  unfolding lent_def by (rule acquire_reachable [OF pool_reachable.Start]) (simp add: find_session_def new_session_pool_def)

lemma lent_leased [simp]: "sp_leased lent = [7]"
  by (simp add: lent_def acquire_def new_session_pool_def)

theorem session_pool_invariant_witness: "live lent \<le> 1 \<and> fst ` set (sp_all lent) = set (sp_idle lent @ [7])"
  using session_pool_invariant [OF lent_reachable] by simp

text \<open>
  A session is lent to one holder at a time: what \<open>acquire\<close> returns was neither lent nor on its way
  back, and is ready to use.  A closed pool lends nothing.
\<close>

theorem session_pool_exclusive:
  assumes "pool_reachable w n (pool, closing, ending)" and "find_session pool fresh = None"
    and "acquire fresh made pool = (Some p, pool')"
  shows "\<not> sp_closed pool \<and> p \<notin> set (sp_leased pool @ closing @ ending) \<and> p \<in> set (sp_leased pool') \<and>
    (\<exists>gs. find_session pool' p = Some gs \<and> ready gs)"
proof -
  have inv: "pool_inv n (pool, closing, ending)" by (rule pool_inv_reachable [OF assms(1)])
  have fresh: "fresh \<notin> fst ` set (sp_all pool)" using assms(2) by (simp add: find_session_def map_of_eq_None_iff)
  show ?thesis
  proof (cases "sp_idle pool \<noteq> []")
    case True
    then have p: "\<not> sp_closed pool" "p = last (sp_idle pool)" "p \<in> set (sp_idle pool)" "sp_all pool' = sp_all pool" "p \<in> set (sp_leased pool')"
      using assms(3) by (auto simp: acquire_def Let_def split: if_splits)
    then have "p \<in> fst ` set (sp_all pool)" using inv by (auto simp: pool_inv_def places_ok_def)
    then obtain gs where gs: "map_of (sp_all pool) p = Some gs" by (metis map_of_eq_None_iff not_None_eq)
    then have "ready gs" using inv p(3) unfolding pool_inv_def sessions_ok_def by (auto dest: map_of_SomeD)
    with gs p inv show ?thesis by (auto simp: find_session_def pool_inv_def places_ok_def)
  next
    case False
    then obtain s where s: "\<not> sp_closed pool" "p = fresh" "sp_all pool' = sp_all pool @ [(fresh, new_graph_session True s)]"
      "p \<in> set (sp_leased pool')" using assms(3) by (auto simp: acquire_def split: if_splits option.splits)
    then have "find_session pool' p = Some (new_graph_session True s)"
      using assms(2) by (simp add: find_session_def map_add_def map_of_append)
    with s fresh inv ready_new [of s] show ?thesis by (auto simp: pool_inv_def places_ok_def)
  qed
qed

theorem session_pool_exclusive_witness: "\<exists>gs. find_session lent 7 = Some gs \<and> ready gs"
proof -
  let ?s = "\<lparr>mem_rows = [], mem_committed = [], mem_txn = False\<rparr>"
  have "acquire 7 (Some ?s) (new_session_pool 1) = (Some 7, lent)" "find_session (new_session_pool 1 :: mem_state session_pool) 7 = None"
    by (simp_all add: lent_def acquire_def new_session_pool_def find_session_def)
  from session_pool_exclusive [OF pool_reachable.Start this(2,1)] show ?thesis by blast
qed

lemma put_reachable:
  assumes "pool_reachable w n (pool, [], [])" "p \<in> set (sp_leased pool)"
  shows "pool_reachable w n (put w p pool, [], [])"
proof -
  let ?pool1 = "pool\<lparr>sp_leased := removeAll p (sp_leased pool)\<rparr>"
  have b: "put_begin p pool = (True, ?pool1)" using assms(2) by (simp add: put_begin_def)
  have "pool_reachable w n (?pool1, [p], [])" using assms(1) pool_step.Put_Begin [OF b] by (rule pool_reachable.Step)
  then have "pool_reachable w n (put_close w p ?pool1, [], [p])"
    using pool_step.Put_Close [of p "[p]" w ?pool1 "[]"] by (auto intro: pool_reachable.Step)
  then have "pool_reachable w n (put_end w p (put_close w p ?pool1), [], [])"
    using pool_step.Put_End [of p "[p]" w "put_close w p ?pool1" "[]"] by (auto intro: pool_reachable.Step)
  then show ?thesis by (simp add: put_def b)
qed

lemma put_fields:
  "sp_closed (put w p pool) = sp_closed pool" "sp_leased (put w p pool) = removeAll p (sp_leased pool)"
  by (auto simp: put_def put_begin_def put_end_def put_close_def removeAll_id split: option.splits)

lemma put_all_reachable:
  "pool_reachable w n (pool, [], []) \<Longrightarrow> distinct ps \<Longrightarrow> set ps \<subseteq> set (sp_leased pool) \<Longrightarrow>
   pool_reachable w n (fold (put w) ps pool, [], []) \<and> sp_closed (fold (put w) ps pool) = sp_closed pool \<and>
   set (sp_leased (fold (put w) ps pool)) = set (sp_leased pool) - set ps"
proof (induction ps arbitrary: pool)
  case (Cons p ps)
  then show ?case using Cons.IH [OF put_reachable [of w n pool p]] by (auto simp: put_fields)
qed simp

text \<open>
  C19. Shutting the pool down loses no session: once every lent session has been returned, all sessions have
  been closed and destroyed, the idle ones by the shutdown and the lent ones by their return.
\<close>

theorem session_pool_drains:
  assumes "pool_reachable w n (pool, [], [])"
  shows "live (fold (put w) (sp_leased pool) (snd (shutdown w pool))) = 0"
proof -
  let ?pool = "snd (shutdown w pool)" and ?last = "fold (put w) (sp_leased pool) (snd (shutdown w pool))"
  have r: "pool_reachable w n (?pool, [], [])"
    using assms by (rule pool_reachable.Step) (rule pool_step.Shutdown [where doomed = "fst (shutdown w pool)"], simp)
  have c: "sp_closed ?pool" "sp_leased ?pool = sp_leased pool" by (simp_all add: shutdown_def)
  have "distinct (sp_leased pool)" using pool_inv_reachable [OF assms] by (simp add: pool_inv_def places_ok_def)
  with put_all_reachable [OF r, of "sp_leased pool"] c
  have "pool_reachable w n (?last, [], [])" "sp_closed ?last" "set (sp_leased ?last) = {}" by auto
  then show ?thesis using pool_inv_reachable [of w n "(?last, [], [])"] by (auto simp: pool_inv_def places_ok_def live_def)
qed

theorem session_pool_drains_witness: "live (put mem_engine 7 (snd (shutdown mem_engine lent))) = 0"
  using session_pool_drains [OF lent_reachable] by simp

end
