(* ===== verification/Csv_Reader.thy ===== *)
theory Csv_Reader
  imports Web_Socket
begin

text \<open>
  \<^verbatim>\<open>program/loader/csv_reader.cpp\<close>: the CSV parser of the loader and the fast count of records.  The
  content of a file is a string, \<^const>\<open>None\<close> where it cannot be opened.  The vendored \<^verbatim>\<open>io::LineReader\<close> is the
  parameter \<open>reader\<close>: the physical lines of a file, and whether they stop at a line that is too long for it.
\<close>

section \<open>Parser\<close>

record csv_dialect =
  cd_delimiter :: string
  cd_quote :: char
  cd_strip_bom :: bool

datatype csv_error = Cannot_Open | Field_Count nat nat nat | Unterminated nat | Empty_File

type_synonym csv_row = "string list \<times> nat"

text \<open>The locals of \<^verbatim>\<open>parseCsv\<close>, with what the sinks have received.\<close>

record csv_state =
  cs_fields :: "string list"
  cs_field :: string
  cs_in_quotes :: bool
  cs_field_started :: bool
  cs_row_started :: bool
  cs_header :: "string list option"
  cs_line :: nat
  cs_row_line :: nat
  cs_rows :: "csv_row list"

definition new_csv_state :: csv_state where
  "new_csv_state = \<lparr>cs_fields = [], cs_field = [], cs_in_quotes = False, cs_field_started = False, cs_row_started = False,
     cs_header = None, cs_line = 1, cs_row_line = 1, cs_rows = []\<rparr>"

definition delim_of :: "csv_dialect \<Rightarrow> string" where
  "delim_of dialect = (if cd_delimiter dialect = [] then ''|'' else cd_delimiter dialect)"

definition quoting :: "csv_dialect \<Rightarrow> bool" where
  "quoting dialect \<longleftrightarrow> cd_quote dialect \<noteq> CHR 0x00"

definition end_field :: "csv_state \<Rightarrow> csv_state" where
  "end_field st = st\<lparr>cs_fields := cs_fields st @ [cs_field st], cs_field := [], cs_field_started := False\<rparr>"

definition end_row :: "csv_state \<Rightarrow> csv_error + csv_state" where
  "end_row st0 =
     (let st = end_field st0 in
      case cs_header st of
        None \<Rightarrow> Inr (st\<lparr>cs_header := Some (cs_fields st), cs_fields := [], cs_row_started := False\<rparr>)
      | Some header \<Rightarrow>
          if length (cs_fields st) \<noteq> length header
          then Inl (Field_Count (cs_row_line st) (length header) (length (cs_fields st)))
          else Inr (st\<lparr>cs_rows := cs_rows st @ [(cs_fields st, cs_row_line st)], cs_fields := [], cs_row_started := False\<rparr>))"

definition has_content :: "csv_state \<Rightarrow> bool" where
  "has_content st \<longleftrightarrow> cs_row_started st \<or> cs_field st \<noteq> [] \<or> cs_fields st \<noteq> []"

definition next_line :: "csv_state \<Rightarrow> csv_state" where
  "next_line st = st\<lparr>cs_line := cs_line st + 1, cs_row_line := cs_line st + 1\<rparr>"

definition push_char :: "char \<Rightarrow> csv_state \<Rightarrow> csv_state" where
  "push_char c st = st\<lparr>cs_field := cs_field st @ [c]\<rparr>"

function parse_loop :: "csv_dialect \<Rightarrow> string \<Rightarrow> csv_state \<Rightarrow> csv_error + csv_state" where
  "parse_loop dialect [] st = Inr st"
| "parse_loop dialect (c # rest) st =
     (let quote = cd_quote dialect; delim = delim_of dialect in
      if cs_in_quotes st then
        (if c = quote then
           (if quoting dialect \<and> rest \<noteq> [] \<and> hd rest = quote then parse_loop dialect (tl rest) (push_char quote st)
            else parse_loop dialect rest (st\<lparr>cs_in_quotes := False\<rparr>))
         else parse_loop dialect rest (push_char c (if c = CHR 0x0A then st\<lparr>cs_line := cs_line st + 1\<rparr> else st)))
      else if quoting dialect \<and> c = quote \<and> \<not> cs_field_started st then
        parse_loop dialect rest (st\<lparr>cs_in_quotes := True, cs_field_started := True, cs_row_started := True\<rparr>)
      else if c = delim ! 0 \<and> prefix delim (c # rest) then
        parse_loop dialect (drop (length delim - 1) rest) ((end_field st)\<lparr>cs_row_started := True\<rparr>)
      else if c = CHR 0x0A then
        (if has_content st then
           (case end_row st of Inl e \<Rightarrow> Inl e | Inr st1 \<Rightarrow> parse_loop dialect rest (next_line st1))
         else parse_loop dialect rest (next_line st))
      else if c = CHR 0x0D \<and> rest \<noteq> [] \<and> hd rest = CHR 0x0A then parse_loop dialect rest st
      else parse_loop dialect rest ((push_char c st)\<lparr>cs_field_started := True, cs_row_started := True\<rparr>))"
  by pat_completeness auto
termination
  by (relation "measure (\<lambda>(_, rest, _). length rest)") auto

definition kUtf8Bom :: string where
  "kUtf8Bom = [CHR 0xEF, CHR 0xBB, CHR 0xBF]"

definition parseCsv :: "string option \<Rightarrow> csv_dialect \<Rightarrow> csv_error + csv_state" where
  "parseCsv file dialect =
     (case file of
        None \<Rightarrow> Inl Cannot_Open
      | Some data0 \<Rightarrow>
          let data = (if cd_strip_bom dialect \<and> prefix kUtf8Bom data0 then drop 3 data0 else data0)
          in case parse_loop dialect data new_csv_state of
               Inl e \<Rightarrow> Inl e
             | Inr st \<Rightarrow>
                 if cs_in_quotes st then Inl (Unterminated (cs_row_line st))
                 else case (if has_content st then end_row st else Inr st) of
                     Inl e \<Rightarrow> Inl e
                   | Inr st1 \<Rightarrow> if cs_header st1 = None then Inl Empty_File else Inr st1)"

text \<open>\<^verbatim>\<open>readCsvFile\<close>: header and rows.\<close>

definition readCsvFile :: "string option \<Rightarrow> csv_dialect \<Rightarrow> csv_error + string list \<times> csv_row list" where
  "readCsvFile file dialect = (case parseCsv file dialect of Inl e \<Rightarrow> Inl e | Inr st \<Rightarrow> Inr (the (cs_header st), cs_rows st))"

definition resolveDelimiter :: "string \<Rightarrow> string option" where
  "resolveDelimiter raw =
     (if raw = [CHR 0x5C, CHR ''t''] \<or> raw = ''tab'' then Some [CHR 0x09]
      else if raw = [] then None
      else if raw = [CHR 0x09] then Some [CHR 0x09]
      else if list_all (\<lambda>c. c \<in> {CHR '' '', CHR 0x0D, CHR 0x0A, CHR 0x09}) raw then None
      else if CHR 0x22 \<in> set raw \<or> CHR 0x0A \<in> set raw \<or> CHR 0x0D \<in> set raw then None
      else Some raw)"

section \<open>Fast count\<close>

lemma find_from_bounds: "find_from line delim pos = Some i \<Longrightarrow> delim \<noteq> [] \<Longrightarrow> pos \<le> i \<and> i < length line"
proof -
  assume f: "find_from line delim pos = Some i" and "delim \<noteq> []"
  then have "prefix delim (drop i line)" by (auto simp: find_from_def find_Some_iff)
  with \<open>delim \<noteq> []\<close> have "drop i line \<noteq> []" by auto
  with find_from_ge [OF f] show ?thesis by simp
qed

function count_from :: "string \<Rightarrow> string \<Rightarrow> nat \<Rightarrow> nat \<Rightarrow> nat" where
  "count_from delim line pos n_fields =
     (if delim = [] then n_fields
      else case find_from line delim pos of
        None \<Rightarrow> n_fields
      | Some i \<Rightarrow> count_from delim line (i + length delim) (n_fields + 1))"
  by pat_completeness auto

termination
  by (relation "measure (\<lambda>(delim, line, pos, _). length line - pos)")
    (auto dest!: find_from_bounds simp: length_greater_0_conv [symmetric] simp del: length_greater_0_conv)

declare count_from.simps [simp del]

definition field_count :: "string \<Rightarrow> string \<Rightarrow> nat" where
  "field_count delim line = count_from delim line 0 1"

text \<open>
  The loop over the physical lines; \<open>header\<close> is the field count of the header once it is seen.  The lines
  may end at one that is too long for the reader, which makes the fast count give up.
\<close>

fun count_lines :: "csv_dialect \<Rightarrow> bool \<Rightarrow> string list \<Rightarrow> nat \<Rightarrow> nat option \<Rightarrow> nat \<Rightarrow> csv_error + nat option" where
  "count_lines dialect too_long [] line_number header records =
     (if too_long then Inr None else if header = None then Inl Empty_File else Inr (Some records))"
| "count_lines dialect too_long (line # rest) line_number header records =
     (let n = line_number + 1 in
      if quoting dialect \<and> cd_quote dialect \<in> set line then Inr None
      else case header of
        None \<Rightarrow> count_lines dialect too_long rest n (Some (field_count (delim_of dialect) line)) records
      | Some header_fields \<Rightarrow>
          if line = [] then count_lines dialect too_long rest n header records
          else let n_fields = field_count (delim_of dialect) line in
            if n_fields \<noteq> header_fields then Inl (Field_Count n header_fields n_fields)
            else count_lines dialect too_long rest n header (records + 1))"

definition tryCountByPhysicalLines :: "(string \<Rightarrow> string list \<times> bool) \<Rightarrow> string option \<Rightarrow> csv_dialect \<Rightarrow> csv_error + nat option" where
  "tryCountByPhysicalLines reader file dialect =
     (case file of
        None \<Rightarrow> Inl Cannot_Open
      | Some data \<Rightarrow> let (physical, too_long) = reader data in count_lines dialect too_long physical 0 None 0)"

definition countCsvRecords :: "(string \<Rightarrow> string list \<times> bool) \<Rightarrow> string option \<Rightarrow> csv_dialect \<Rightarrow> csv_error + nat" where
  "countCsvRecords reader file dialect =
     (case tryCountByPhysicalLines reader file dialect of
        Inl e \<Rightarrow> Inl e
      | Inr (Some fast) \<Rightarrow> Inr fast
      | Inr None \<Rightarrow> (case parseCsv file dialect of Inl e \<Rightarrow> Inl e | Inr st \<Rightarrow> Inr (length (cs_rows st))))"

end
