(* ===== verification/Csv_Proofs.thy ===== *)
theory Csv_Proofs
  imports Csv_Reader
begin

text \<open>
  Properties of the CSV reader: quoted text is read back, the fast count agrees with the parser on files
  without quotes, and a blank first line on which they disagree.
\<close>

section \<open>Printing with every field quoted\<close>

definition newline :: char where "newline = CHR 0x0A"

definition newlines :: "string \<Rightarrow> nat" where "newlines s = length (filter (\<lambda>c. c = newline) s)"

lemma newlines_simps [simp]:
  "newlines [] = 0" "newlines (c # s) = (if c = newline then Suc (newlines s) else newlines s)"
  "newlines (s @ t) = newlines s + newlines t"
  by (simp_all add: newlines_def)

definition escape :: "char \<Rightarrow> string \<Rightarrow> string" where
  "escape q f = concat (map (\<lambda>c. if c = q then [q, q] else [c]) f)"

definition print_field :: "char \<Rightarrow> string \<Rightarrow> string" where
  "print_field q f = q # escape q f @ [q]"

fun print_fields :: "csv_dialect \<Rightarrow> string list \<Rightarrow> string" where
  "print_fields d [] = []"
| "print_fields d [f] = print_field (cd_quote d) f"
| "print_fields d (f # fs) = print_field (cd_quote d) f @ delim_of d @ print_fields d fs"

definition print_row :: "csv_dialect \<Rightarrow> string list \<Rightarrow> string" where
  "print_row d fs = print_fields d fs @ [newline]"

definition print_rows :: "csv_dialect \<Rightarrow> string list list \<Rightarrow> string" where
  "print_rows d rows = concat (map (print_row d) rows)"

text \<open>The rows with the physical line on which each begins.\<close>

fun numbered :: "csv_dialect \<Rightarrow> nat \<Rightarrow> string list list \<Rightarrow> csv_row list" where
  "numbered d n [] = []"
| "numbered d n (r # rs) = (r, n) # numbered d (n + newlines (print_row d r)) rs"

definition printable :: "csv_dialect \<Rightarrow> bool" where
  "printable d \<longleftrightarrow> quoting d \<and> cd_quote d \<noteq> newline \<and> newline \<notin> set (delim_of d) \<and> hd (delim_of d) \<noteq> cd_quote d"

lemma delim_not_Nil [simp]: "delim_of d \<noteq> []"
  by (simp add: delim_of_def)

lemma escape_simps [simp]:
  "escape q [] = []" "escape q (c # f) = (if c = q then [q, q] else [c]) @ escape q f"
  by (simp_all add: escape_def)

lemma parse_escaped:
  assumes "quoting d" "rest = [] \<or> hd rest \<noteq> cd_quote d" "cd_quote d \<noteq> newline"
  shows "cs_in_quotes st \<Longrightarrow> parse_loop d (escape (cd_quote d) f @ cd_quote d # rest) st =
    parse_loop d rest (st\<lparr>cs_field := cs_field st @ f, cs_in_quotes := False, cs_line := cs_line st + newlines f\<rparr>)"
proof (induction f arbitrary: st)
  case Nil
  with assms show ?case by auto
next
  case (Cons c f)
  show ?case
  proof (cases "c = cd_quote d")
    case True
    with Cons assms show ?thesis by (simp add: push_char_def)
  next
    case False
    with Cons assms show ?thesis by (auto simp: push_char_def newline_def)
  qed
qed

lemma parse_field:
  assumes "quoting d" "rest = [] \<or> hd rest \<noteq> cd_quote d" "cd_quote d \<noteq> newline" "\<not> cs_in_quotes st" "\<not> cs_field_started st"
  shows "parse_loop d (print_field (cd_quote d) f @ rest) st =
    parse_loop d rest (st\<lparr>cs_field := cs_field st @ f, cs_field_started := True, cs_row_started := True,
      cs_line := cs_line st + newlines f\<rparr>)"
  using assms parse_escaped [OF assms(1-3), of "st\<lparr>cs_in_quotes := True, cs_field_started := True, cs_row_started := True\<rparr>" f]
  by (cases st) (simp add: print_field_def)

lemma parse_delim:
  assumes "\<not> cs_in_quotes st" "cs_field_started st"
  shows "parse_loop d (delim_of d @ rest) st = parse_loop d rest ((end_field st)\<lparr>cs_row_started := True\<rparr>)"
  using assms by (cases "delim_of d") auto

lemma newlines_escape: "q \<noteq> newline \<Longrightarrow> newlines (escape q f) = newlines f"
  by (induction f) auto

lemma first_not_in: "delim_of d ! 0 = c \<Longrightarrow> c \<in> set (delim_of d)"
  by (cases "delim_of d") auto

lemma newlines_delim: "newline \<notin> set delim \<Longrightarrow> newlines delim = 0"
  by (auto simp: newlines_def filter_empty_conv)

text \<open>The state at the beginning of a row.\<close>

definition at_row :: "string list option \<Rightarrow> csv_row list \<Rightarrow> nat \<Rightarrow> csv_state" where
  "at_row h rows n = \<lparr>cs_fields = [], cs_field = [], cs_in_quotes = False, cs_field_started = False, cs_row_started = False,
     cs_header = h, cs_line = n, cs_row_line = n, cs_rows = rows\<rparr>"

lemma parse_fields:
  assumes p: "printable d" and r: "rest = [] \<or> hd rest \<noteq> cd_quote d"
  shows "fs \<noteq> [] \<Longrightarrow> \<not> cs_in_quotes st \<Longrightarrow> \<not> cs_field_started st \<Longrightarrow> cs_field st = [] \<Longrightarrow>
    parse_loop d (print_fields d fs @ rest) st =
    parse_loop d rest (st\<lparr>cs_fields := cs_fields st @ butlast fs, cs_field := last fs, cs_field_started := True,
      cs_row_started := True, cs_line := cs_line st + newlines (print_fields d fs)\<rparr>)"
proof (induction fs arbitrary: st rule: induct_list012)
  case (2 f)
  with p r show ?case
    by (simp add: parse_field printable_def) (simp add: print_field_def newlines_escape)
next
  case (3 f g fs)
  have q: "quoting d" "cd_quote d \<noteq> newline" "newline \<notin> set (delim_of d)" using p by (auto simp: printable_def)
  let ?tail = "delim_of d @ print_fields d (g # fs) @ rest"
  have h: "?tail = [] \<or> hd ?tail \<noteq> cd_quote d" using p by (simp add: printable_def)
  have n: "newlines (print_field (cd_quote d) f) = newlines f" using q by (simp add: print_field_def newlines_escape)
  show ?case using 3 n q(3) parse_field [OF q(1) h q(2), of st f]
    by (cases st) (simp add: parse_delim end_field_def newlines_delim add.assoc)
qed simp

lemma row_newlines: "printable d \<Longrightarrow> newlines (print_row d fs) = Suc (newlines (print_fields d fs))"
  by (simp add: print_row_def)

lemma parse_row:
  assumes p: "printable d" and fs: "fs \<noteq> []"
  shows "parse_loop d (print_row d fs @ rest) (at_row h rows n) =
    (case h of
       None \<Rightarrow> parse_loop d rest (at_row (Some fs) rows (n + newlines (print_row d fs)))
     | Some header \<Rightarrow> if length fs = length header
         then parse_loop d rest (at_row h (rows @ [(fs, n)]) (n + newlines (print_row d fs)))
         else Inl (Field_Count n (length header) (length fs)))"
proof -
  have d: "newline \<noteq> cd_quote d" "delim_of d ! 0 \<noteq> newline"
    using p by (auto simp: printable_def dest: first_not_in)
  have hd: "newline # rest = [] \<or> hd (newline # rest) \<noteq> cd_quote d" using d by simp
  let ?st = "\<lparr>cs_fields = butlast fs, cs_field = last fs, cs_in_quotes = False, cs_field_started = True, cs_row_started = True,
     cs_header = h, cs_line = n + newlines (print_fields d fs), cs_row_line = n, cs_rows = rows\<rparr>"
  have "parse_loop d (print_row d fs @ rest) (at_row h rows n) = parse_loop d (newline # rest) ?st"
    using parse_fields [OF p hd fs, of "at_row h rows n"] by (simp add: print_row_def at_row_def)
  also have "\<dots> = (case end_row ?st of Inl e \<Rightarrow> Inl e | Inr st1 \<Rightarrow> parse_loop d rest (next_line st1))"
    using d by (simp add: has_content_def newline_def)
  finally show ?thesis using fs p
    by (auto simp: end_row_def end_field_def next_line_def at_row_def row_newlines append_butlast_last_id
        length_append_singleton split: option.split)
qed

lemma parse_rows:
  assumes "printable d"
  shows "header \<noteq> [] \<Longrightarrow> list_all (\<lambda>r. length r = length header) rows \<Longrightarrow>
    parse_loop d (print_rows d rows) (at_row (Some header) done n) =
    Inr (at_row (Some header) (done @ numbered d n rows) (n + newlines (print_rows d rows)))"
proof (induction rows arbitrary: "done" n)
  case (Cons r rows)
  then have "r \<noteq> []" by auto
  with Cons assms show ?case by (simp add: print_rows_def parse_row add.assoc)
qed (simp add: print_rows_def)

text \<open>
  C34. A header and rows of as many fields, printed with every field quoted and its quotes doubled, are read
  back as they were, whatever characters the fields contain (delimiters, quotes and line breaks included), and
  each row is reported with the physical line on which it begins.
\<close>

theorem csv_print_read:
  assumes "printable d" "\<not> prefix kUtf8Bom (print_rows d (header # rows))" "header \<noteq> []"
    "list_all (\<lambda>r. length r = length header) rows"
  shows "readCsvFile (Some (print_rows d (header # rows))) d =
    Inr (header, numbered d (1 + newlines (print_row d header)) rows)"
proof -
  have "parse_loop d (print_rows d (header # rows)) new_csv_state =
      Inr (at_row (Some header) (numbered d (1 + newlines (print_row d header)) rows)
        (1 + newlines (print_row d header) + newlines (print_rows d rows)))"
    using parse_row [OF assms(1,3), of "print_rows d rows" None "[]" 1] parse_rows [OF assms(1,3,4), of "[]"]
    by (simp add: new_csv_state_def at_row_def [symmetric] print_rows_def)
  then show ?thesis using assms(2) by (simp add: readCsvFile_def parseCsv_def has_content_def at_row_def)
qed

theorem csv_print_read_witness:
  "readCsvFile (Some (print_rows \<lparr>cd_delimiter = ''|'', cd_quote = CHR 0x22, cd_strip_bom = True\<rparr>
      [[''id'', ''name''], [''1'', [CHR 0x22, CHR ''|'', CHR 0x0A]], [''2'', []]]))
     \<lparr>cd_delimiter = ''|'', cd_quote = CHR 0x22, cd_strip_bom = True\<rparr> =
   Inr ([''id'', ''name''], [([''1'', [CHR 0x22, CHR ''|'', CHR 0x0A]], 2), ([''2'', []], 4)])"
  using csv_print_read [of "\<lparr>cd_delimiter = ''|'', cd_quote = CHR 0x22, cd_strip_bom = True\<rparr>" "[''id'', ''name'']"
      "[[''1'', [CHR 0x22, CHR ''|'', CHR 0x0A]], [''2'', []]]"]
  by (simp add: printable_def quoting_def newline_def delim_of_def kUtf8Bom_def print_rows_def print_row_def print_field_def)

section \<open>Fast count\<close>

lemmas parse_step = parse_loop.simps(2) [unfolded Let_def]

declare parse_loop.simps(2) [simp del]

text \<open>Occurrences of the delimiter, left to right and without overlap.\<close>

function delims :: "string \<Rightarrow> string \<Rightarrow> nat" where
  "delims delim [] = 0"
| "delims delim (c # s) = (if prefix delim (c # s) then Suc (delims delim (drop (length delim - 1) s)) else delims delim s)"
  by pat_completeness auto
termination
  by (relation "measure (\<lambda>(_, s). length s)") auto

lemma delims_skip:
  "(\<And>j. pos \<le> j \<Longrightarrow> j < i \<Longrightarrow> \<not> prefix delim (drop j s)) \<Longrightarrow> pos \<le> i \<Longrightarrow> i \<le> length s \<Longrightarrow>
    delims delim (drop pos s) = delims delim (drop i s)"
proof (induction "i - pos" arbitrary: pos)
  case (Suc n)
  then have "pos < length s" "pos < i" by linarith+
  then have "drop pos s = s ! pos # drop (Suc pos) s" by (simp add: Cons_nth_drop_Suc)
  moreover have "\<not> prefix delim (drop pos s)" using Suc.prems(1) [of pos] \<open>pos < i\<close> by simp
  moreover have "\<not> prefix delim (drop j s)" if "Suc pos \<le> j" "j < i" for j using Suc.prems(1) [of j] that by simp
  then have "delims delim (drop (Suc pos) s) = delims delim (drop i s)"
    using Suc.hyps(2) \<open>pos < i\<close> Suc.prems(3) by (intro Suc.hyps(1)) auto
  ultimately show ?case by simp
qed simp

lemma find_from_none: "find_from s delim pos = None \<Longrightarrow> pos \<le> j \<Longrightarrow> j < length s \<Longrightarrow> \<not> prefix delim (drop j s)"
  by (auto simp: find_from_def find_None_iff)

lemma find_from_first:
  assumes "find_from s delim pos = Some i"
  shows "prefix delim (drop i s)" "\<And>j. pos \<le> j \<Longrightarrow> j < i \<Longrightarrow> \<not> prefix delim (drop j s)"
proof -
  show "prefix delim (drop i s)" using assms by (auto simp: find_from_def find_Some_iff)
  obtain k where k: "k < length [pos..<Suc (length s)]" "i = [pos..<Suc (length s)] ! k"
      "\<And>j. j < k \<Longrightarrow> \<not> prefix delim (drop ([pos..<Suc (length s)] ! j) s)"
    using assms by (auto simp: find_from_def find_Some_iff)
  fix j assume "pos \<le> j" "j < i"
  with k(1,2) have "j - pos < k" "[pos..<Suc (length s)] ! (j - pos) = j" by (auto simp del: upt_Suc)
  with k(3) show "\<not> prefix delim (drop j s)" by fastforce
qed

lemma count_from_delims:
  assumes "delim \<noteq> []"
  shows "count_from delim s pos n = n + delims delim (drop pos s)"
  using assms
proof (induction delim s pos n rule: count_from.induct)
  case (1 delim s pos n)
  show ?case
  proof (cases "find_from s delim pos")
    case None
    have "delims delim (drop pos s) = 0"
    proof (cases "pos \<le> length s")
      case True
      then have "delims delim (drop pos s) = delims delim (drop (length s) s)"
        by (intro delims_skip) (auto dest: find_from_none [OF None])
      then show ?thesis by simp
    qed simp
    with None 1 show ?thesis by (subst count_from.simps) simp
  next
    case (Some i)
    note b = find_from_bounds [OF Some \<open>delim \<noteq> []\<close>] and f = find_from_first [OF Some]
    have "delims delim (drop pos s) = delims delim (drop i s)" using b by (intro delims_skip f(2)) auto
    moreover have "drop i s = s ! i # drop (Suc i) s" using b by (simp add: Cons_nth_drop_Suc)
    moreover have "drop (length delim - 1) (drop (Suc i) s) = drop (i + length delim) s"
      using 1(2) by (cases delim) (auto simp: add.commute)
    ultimately have "delims delim (drop pos s) = Suc (delims delim (drop (i + length delim) s))"
      using f(1) by (simp del: drop_drop)
    with Some 1 show ?thesis by (subst count_from.simps) simp
  qed
qed

lemma field_count_delims: "field_count (delim_of d) line = Suc (delims (delim_of d) line)"
  by (simp add: field_count_def count_from_delims)

text \<open>What a line must avoid for the fast count: quotes, and the characters that end a line.\<close>

definition plain_line :: "csv_dialect \<Rightarrow> string \<Rightarrow> bool" where
  "plain_line d line \<longleftrightarrow> newline \<notin> set line \<and> CHR 0x0D \<notin> set line \<and> (quoting d \<longrightarrow> cd_quote d \<notin> set line)"

lemma prefix_before_newline: "newline \<notin> set p \<Longrightarrow> prefix p (s @ newline # rest) \<longleftrightarrow> prefix p s"
  by (auto simp: prefix_append prefix_Cons)

lemma parse_plain_line:
  assumes "newline \<notin> set (delim_of d)"
  shows "plain_line d s \<Longrightarrow> \<not> cs_in_quotes st \<Longrightarrow>
    \<exists>st'. parse_loop d (s @ newline # rest) st = parse_loop d (newline # rest) st' \<and> \<not> cs_in_quotes st' \<and>
      length (cs_fields st') = length (cs_fields st) + delims (delim_of d) s \<and> (s \<noteq> [] \<longrightarrow> cs_row_started st') \<and>
      (cs_row_started st \<longrightarrow> cs_row_started st') \<and> cs_header st' = cs_header st \<and> cs_line st' = cs_line st \<and>
      cs_row_line st' = cs_row_line st \<and> cs_rows st' = cs_rows st"
proof (induction "delim_of d" s arbitrary: st rule: delims.induct)
  case 1
  then show ?case by (intro exI [of _ st]) simp
next
  case (2 c s)
  have plain: "plain_line d s" "plain_line d (drop (length (delim_of d) - 1) s)"
    using 2(3) set_drop_subset [of "length (delim_of d) - 1" s] by (auto simp: plain_line_def)
  have c: "c \<noteq> newline" "c \<noteq> CHR 0x0D" "quoting d \<longrightarrow> c \<noteq> cd_quote d" using 2(3) by (auto simp: plain_line_def)
  have p: "prefix (delim_of d) (c # s @ newline # rest) \<longleftrightarrow> prefix (delim_of d) (c # s)"
    using prefix_before_newline [OF assms, of "c # s" rest] by simp
  show ?case
  proof (cases "prefix (delim_of d) (c # s)")
    case True
    then have h: "c = delim_of d ! 0" "length (delim_of d) - 1 \<le> length s"
      by (cases "delim_of d"; auto simp: prefix_length_le)+
    let ?st = "(end_field st)\<lparr>cs_row_started := True\<rparr>"
    have "parse_loop d ((c # s) @ newline # rest) st = parse_loop d (drop (length (delim_of d) - 1) s @ newline # rest) ?st"
      using True h c p 2(4) by (auto simp: parse_step)
    then show ?thesis using 2(1) [OF True plain(2), of ?st] 2(4) True by (auto simp: end_field_def)
  next
    case False
    let ?st = "(push_char c st)\<lparr>cs_field_started := True, cs_row_started := True\<rparr>"
    have "parse_loop d ((c # s) @ newline # rest) st = parse_loop d (s @ newline # rest) ?st"
      using False c p 2(4) by (auto simp: parse_step newline_def)
    then show ?thesis using 2(2) [OF False plain(1), of ?st] 2(4) False by (auto simp: push_char_def)
  qed
qed

definition countable_dialect :: "csv_dialect \<Rightarrow> bool" where
  "countable_dialect d \<longleftrightarrow> newline \<notin> set (delim_of d) \<and> (quoting d \<longrightarrow> cd_quote d \<noteq> newline)"

lemma countable_dialectD:
  assumes "countable_dialect d"
  shows "newline \<notin> set (delim_of d)" "delim_of d ! 0 \<noteq> newline" "quoting d \<longrightarrow> newline \<noteq> cd_quote d"
  using assms by (auto simp: countable_dialect_def dest: first_not_in)

lemma parse_plain_row:
  assumes d: "countable_dialect d" and s: "plain_line d s" "s \<noteq> []"
  shows "\<exists>fs. length fs = field_count (delim_of d) s \<and>
    parse_loop d (s @ newline # rest) (at_row h rows n) =
    (case h of
       None \<Rightarrow> parse_loop d rest (at_row (Some fs) rows (Suc n))
     | Some header \<Rightarrow> if length fs = length header then parse_loop d rest (at_row h (rows @ [(fs, n)]) (Suc n))
         else Inl (Field_Count n (length header) (length fs)))"
proof -
  note c = countable_dialectD [OF d]
  obtain st where st: "parse_loop d (s @ newline # rest) (at_row h rows n) = parse_loop d (newline # rest) st"
      "\<not> cs_in_quotes st" "length (cs_fields st) = delims (delim_of d) s" "cs_row_started st" "cs_header st = h"
      "cs_line st = n" "cs_row_line st = n" "cs_rows st = rows"
    using parse_plain_line [OF c(1) s(1), of "at_row h rows n" rest] s(2) by (auto simp: at_row_def)
  let ?fs = "cs_fields st @ [cs_field st]"
  have "parse_loop d (newline # rest) st = (case end_row st of Inl e \<Rightarrow> Inl e | Inr st1 \<Rightarrow> parse_loop d rest (next_line st1))"
    using st c by (auto simp: parse_step has_content_def newline_def)
  then show ?thesis using st
    by (intro exI [of _ ?fs])
      (cases st; auto simp: end_row_def end_field_def next_line_def at_row_def field_count_delims split: option.split)
qed

lemma parse_blank_line:
  assumes "countable_dialect d"
  shows "parse_loop d (newline # rest) (at_row h rows n) = parse_loop d rest (at_row h rows (Suc n))"
  using countable_dialectD [OF assms] by (auto simp: parse_step has_content_def at_row_def next_line_def newline_def)

definition unlines :: "string list \<Rightarrow> string" where
  "unlines physical = concat (map (\<lambda>line. line @ [newline]) physical)"

text \<open>A fast count and the result of the parser that say the same.\<close>

definition agrees :: "string list \<Rightarrow> csv_error + nat option \<Rightarrow> csv_error + csv_state \<Rightarrow> bool" where
  "agrees header r p \<longleftrightarrow>
     (case r of
        Inl e \<Rightarrow> p = Inl e
      | Inr None \<Rightarrow> False
      | Inr (Some k) \<Rightarrow> (\<exists>rows m. p = Inr (at_row (Some header) rows m) \<and> length rows = k))"

lemma count_lines_parse:
  assumes d: "countable_dialect d"
  shows "list_all (plain_line d) physical \<Longrightarrow>
    agrees header (count_lines d False physical n (Some (length header)) (length rows))
      (parse_loop d (unlines physical) (at_row (Some header) rows (Suc n)))"
proof (induction physical arbitrary: n rows)
  case Nil
  then show ?case by (auto simp: unlines_def agrees_def)
next
  case (Cons s physical)
  have u: "unlines (s # physical) = s @ newline # unlines physical" by (simp add: unlines_def)
  have q: "\<not> (quoting d \<and> cd_quote d \<in> set s)" using Cons.prems by (auto simp: plain_line_def)
  show ?case
  proof (cases "s = []")
    case True
    have "unlines (s # physical) = newline # unlines physical" using u True by simp
    with True Cons d show ?thesis by (simp add: parse_blank_line)
  next
    case False
    then obtain fs where fs: "length fs = field_count (delim_of d) s"
        "parse_loop d (s @ newline # unlines physical) (at_row (Some header) rows (Suc n)) =
         (if length fs = length header then parse_loop d (unlines physical) (at_row (Some header) (rows @ [(fs, Suc n)]) (Suc (Suc n)))
          else Inl (Field_Count (Suc n) (length header) (length fs)))"
      using parse_plain_row [OF d, of s "unlines physical" "Some header" rows "Suc n"] Cons.prems by auto
    show ?thesis using False fs q Cons.IH [where n = "Suc n" and rows = "rows @ [(fs, Suc n)]"] Cons.prems by (auto simp: u agrees_def)
  qed
qed


text \<open>A line reader without a length limit.\<close>

fun split_lines :: "string \<Rightarrow> string \<Rightarrow> string list" where
  "split_lines line [] = (if line = [] then [] else [line])"
| "split_lines line (c # s) = (if c = newline then line # split_lines [] s else split_lines (line @ [c]) s)"


text \<open>
  A blank first line makes the fast count and the parser disagree: the parser skips it and takes the next
  line as the header, the fast count takes the blank line for a header of one field.  A file of a blank line,
  a header of one field and one record counts as two records.
\<close>

theorem csv_blank_first_line:
  assumes "countable_dialect d" "list_all (plain_line d) [header, row]" "header \<noteq> []" "row \<noteq> []"
    "field_count (delim_of d) header = 1" "field_count (delim_of d) row = 1"
    "reader (unlines [[], header, row]) = ([[], header, row], False)"
  shows "countCsvRecords reader (Some (unlines [[], header, row])) d = Inr 2 \<and>
    (\<exists>names record. readCsvFile (Some (unlines [[], header, row])) d = Inr (names, [record]))"
proof
  have "field_count (delim_of d) [] = 1" by (simp add: field_count_delims)
  with assms show "countCsvRecords reader (Some (unlines [[], header, row])) d = Inr 2"
    by (auto simp: countCsvRecords_def tryCountByPhysicalLines_def plain_line_def Let_def)
  have start: "new_csv_state = at_row None [] 1" by (simp add: new_csv_state_def at_row_def)
  have u: "unlines [[], header, row] = newline # header @ newline # row @ newline # []" by (simp add: unlines_def)
  obtain names where n: "length names = 1"
      "parse_loop d (header @ newline # row @ newline # []) (at_row None [] 2) =
       parse_loop d (row @ newline # []) (at_row (Some names) [] 3)"
    using parse_plain_row [OF assms(1) _ assms(3), of "row @ newline # []" None "[]" 2] assms(2,5) by auto
  obtain fs where f: "parse_loop d (row @ newline # []) (at_row (Some names) [] 3) = Inr (at_row (Some names) [(fs, 3)] 4)"
    using parse_plain_row [OF assms(1) _ assms(4), of "[]" "Some names" "[]" 3] assms(2,6) n(1) by auto
  have "parse_loop d (unlines [[], header, row]) new_csv_state = Inr (at_row (Some names) [(fs, 3)] 4)"
    unfolding u start parse_blank_line [OF assms(1)] using n f by (simp add: numeral_2_eq_2)
  moreover have "\<not> prefix kUtf8Bom (unlines [[], header, row])" by (simp add: u kUtf8Bom_def newline_def)
  ultimately show "\<exists>names record. readCsvFile (Some (unlines [[], header, row])) d = Inr (names, [record])"
    by (auto simp: readCsvFile_def parseCsv_def has_content_def at_row_def)
qed

theorem csv_blank_first_line_witness:
  "countCsvRecords (\<lambda>data. (split_lines [] data, False)) (Some (unlines [[], ''id'', ''1'']))
     \<lparr>cd_delimiter = ''|'', cd_quote = CHR 0x22, cd_strip_bom = True\<rparr> = Inr 2"
  using csv_blank_first_line [of "\<lparr>cd_delimiter = ''|'', cd_quote = CHR 0x22, cd_strip_bom = True\<rparr>" "''id''" "''1''"
      "\<lambda>data. (split_lines [] data, False)"]
  by (simp add: countable_dialect_def delim_of_def newline_def plain_line_def unlines_def field_count_def count_from_delims)

end
