(* ===== verification/Query_Value.thy ===== *)
theory Query_Value
  imports Doubles Temporal_Value
begin

text \<open>
  The runtime values of the query engine (\<^verbatim>\<open>query/dataset/row.hpp\<close>) with their three-valued equality, the
  total equality and the hash of the containers keyed on them, the order of \<^verbatim>\<open>ORDER BY\<close> and the checked integer
  arithmetic (\<^verbatim>\<open>query/evaluator/columnar_kernels.hpp\<close>).  Values behind a shared pointer are their payloads; an empty
  pointer is \<open>VEmpty\<close> with the alternative it stands in.  \<^verbatim>\<open>std::hash\<close> is unspecified and a parameter.
\<close>

section \<open>Values\<close>

record query_edge_key =
  qe_id :: edge_id
  qe_src_id :: vertex_id
  qe_dst_id :: vertex_id
  qe_label_id :: edge_label_id
  qe_seq :: "32 word"

record path_topology =
  pt_vertex_ids :: "vertex_id list"
  pt_edge_ids :: "edge_id list"
  pt_edge_label_ids :: "edge_label_id list"
  pt_seqs :: "32 word list"
  pt_edge_src_ids :: "vertex_id list"
  pt_edge_dst_ids :: "vertex_id list"

record vertex_value =
  vv_id :: vertex_id
  vv_properties :: "label_id \<rightharpoonup> properties"
  vv_labels :: "label_id set option"
  vv_deleted :: bool

record edge_value =
  ev_id :: edge_id
  ev_src_id :: vertex_id
  ev_dst_id :: vertex_id
  ev_label_id :: edge_label_id
  ev_seq :: "64 word"
  ev_properties :: "properties option"
  ev_deleted :: bool

datatype handle = H_PathTopology | H_Vertex | H_Edge | H_Path | H_List | H_Map | H_Bytes

datatype qvalue =
    VNull
  | VBool bool
  | VInt "64 word"
  | VDouble "64 word"
  | VString string
  | VVertexRef vertex_id
  | VEdgeKey query_edge_key
  | VPathTopology path_topology
  | VVertex vertex_value
  | VEdge edge_value
  | VPath "qvalue list"
  | VDateTime date_time_value
  | VTime time_value
  | VDuration duration_value
  | VList "qvalue list"
  | VMap "(string \<times> qvalue) list"
  | VBytes bytes
  | VEmpty handle

type_synonym row = "qvalue list"

fun isNull :: "qvalue \<Rightarrow> bool" where
  "isNull VNull = True"
| "isNull (VEmpty _) = True"
| "isNull _ = False"

section \<open>Equality\<close>

text \<open>The kind (1 vertex, 2 edge, 0 other) and the id of a graph entity.\<close>

fun entity :: "qvalue \<Rightarrow> nat \<times> 64 word" where
  "entity (VVertexRef i) = (1, i)"
| "entity (VVertex v) = (1, vv_id v)"
| "entity (VEdgeKey k) = (2, qe_id k)"
| "entity (VEdge e) = (2, ev_id e)"
| "entity _ = (0, 0)"

text \<open>What \<^verbatim>\<open>valueEquals\<close> does behind the container cases; \<open>tz\<close> compares the pointers to zone names.\<close>

definition scalarEquals :: "(tz_name_ptr \<Rightarrow> tz_name_ptr \<Rightarrow> bool) \<Rightarrow> qvalue \<Rightarrow> qvalue \<Rightarrow> bool" where
  "scalarEquals tz a b =
     (let (ka, ia) = entity a; (kb, ib) = entity b in
      if ka \<noteq> 0 \<and> ka = kb then ia = ib
      else case a of
        VPathTopology p \<Rightarrow> (case b of VPathTopology q \<Rightarrow>
          pt_vertex_ids p = pt_vertex_ids q \<and> pt_edge_ids p = pt_edge_ids q \<and>
          pt_edge_label_ids p = pt_edge_label_ids q \<and> pt_seqs p = pt_seqs q \<and>
          pt_edge_src_ids p = pt_edge_src_ids q \<and> pt_edge_dst_ids p = pt_edge_dst_ids q | _ \<Rightarrow> False)
      | VVertex v \<Rightarrow> (case b of VVertex w \<Rightarrow> vv_id v = vv_id w | _ \<Rightarrow> False)
      | VEdge v \<Rightarrow> (case b of VEdge w \<Rightarrow> ev_id v = ev_id w | _ \<Rightarrow> False)
      | VBytes x \<Rightarrow> (case b of VBytes y \<Rightarrow> x = y | _ \<Rightarrow> False)
      | VInt i \<Rightarrow> (case b of VDouble d \<Rightarrow> double_eq (double_of_int64 i) d | VInt j \<Rightarrow> i = j | _ \<Rightarrow> False)
      | VDouble d \<Rightarrow> (case b of VInt i \<Rightarrow> double_eq d (double_of_int64 i) | VDouble e \<Rightarrow> double_eq d e | _ \<Rightarrow> False)
      | VBool x \<Rightarrow> (case b of VBool y \<Rightarrow> x = y | _ \<Rightarrow> False)
      | VString x \<Rightarrow> (case b of VString y \<Rightarrow> x = y | _ \<Rightarrow> False)
      | VDateTime x \<Rightarrow> (case b of VDateTime y \<Rightarrow> datetime_eq tz x y | _ \<Rightarrow> False)
      | VTime x \<Rightarrow> (case b of VTime y \<Rightarrow> time_eq tz x y | _ \<Rightarrow> False)
      | VDuration x \<Rightarrow> (case b of VDuration y \<Rightarrow> duration_eq x y | _ \<Rightarrow> False)
      | _ \<Rightarrow> False)"

definition unknown_or_true :: "bool \<Rightarrow> bool option" where
  "unknown_or_true hasNull = (if hasNull then None else Some True)"

text \<open>\<^const>\<open>None\<close> is unknown.  The loops over elements and entries carry \<^verbatim>\<open>hasNull\<close>.\<close>

fun valueEquals :: "(tz_name_ptr \<Rightarrow> tz_name_ptr \<Rightarrow> bool) \<Rightarrow> qvalue \<Rightarrow> qvalue \<Rightarrow> bool option"
  and elements_equal :: "(tz_name_ptr \<Rightarrow> tz_name_ptr \<Rightarrow> bool) \<Rightarrow> qvalue list \<Rightarrow> qvalue list \<Rightarrow> bool \<Rightarrow> bool option"
  and entries_equal :: "(tz_name_ptr \<Rightarrow> tz_name_ptr \<Rightarrow> bool) \<Rightarrow> (string \<times> qvalue) list \<Rightarrow> (string \<times> qvalue) list \<Rightarrow> bool \<Rightarrow> bool option"
where
  "valueEquals tz (VList la) b =
     (if isNull b then None
      else case b of
        VList lb \<Rightarrow> if length la \<noteq> length lb then Some False else elements_equal tz la lb False
      | _ \<Rightarrow> Some (scalarEquals tz (VList la) b))"
| "valueEquals tz (VMap ma) b =
     (if isNull b then None
      else case b of
        VMap mb \<Rightarrow> if length ma \<noteq> length mb then Some False else entries_equal tz ma mb False
      | _ \<Rightarrow> Some (scalarEquals tz (VMap ma) b))"
| "valueEquals tz (VPath pa) b =
     (if isNull b then None
      else case b of
        VPath pb \<Rightarrow> if length pa \<noteq> length pb then Some False else elements_equal tz pa pb False
      | _ \<Rightarrow> Some (scalarEquals tz (VPath pa) b))"
| "valueEquals tz a b = (if isNull a \<or> isNull b then None else Some (scalarEquals tz a b))"
| "elements_equal tz (x # xs) (y # ys) hasNull =
     (case valueEquals tz x y of
        None \<Rightarrow> elements_equal tz xs ys True
      | Some eq \<Rightarrow> if \<not> eq then Some False else elements_equal tz xs ys hasNull)"
| "elements_equal tz _ _ hasNull = unknown_or_true hasNull"
| "entries_equal tz [] mb hasNull = unknown_or_true hasNull"
| "entries_equal tz ((key, v) # ma) mb hasNull =
     (case map_of mb key of
        None \<Rightarrow> Some False
      | Some w \<Rightarrow> (case valueEquals tz v w of
            None \<Rightarrow> entries_equal tz ma mb True
          | Some eq \<Rightarrow> if \<not> eq then Some False else entries_equal tz ma mb hasNull))"

text \<open>\<^verbatim>\<open>operator==\<close> of the container payloads.\<close>

definition same_or_null :: "(tz_name_ptr \<Rightarrow> tz_name_ptr \<Rightarrow> bool) \<Rightarrow> qvalue \<Rightarrow> qvalue \<Rightarrow> bool" where
  "same_or_null tz x y \<longleftrightarrow> isNull x \<and> isNull y \<or> valueEquals tz x y = Some True"

definition list_value_eq :: "(tz_name_ptr \<Rightarrow> tz_name_ptr \<Rightarrow> bool) \<Rightarrow> qvalue list \<Rightarrow> qvalue list \<Rightarrow> bool" where
  "list_value_eq tz xs ys \<longleftrightarrow> list_all2 (same_or_null tz) xs ys"

definition map_value_eq :: "(tz_name_ptr \<Rightarrow> tz_name_ptr \<Rightarrow> bool) \<Rightarrow> (string \<times> qvalue) list \<Rightarrow> (string \<times> qvalue) list \<Rightarrow> bool" where
  "map_value_eq tz ma mb \<longleftrightarrow> length ma = length mb \<and>
     list_all (\<lambda>(key, v). list_ex (\<lambda>(key2, w). key = key2 \<and> same_or_null tz v w) mb) ma"

fun valueContentEquals :: "(tz_name_ptr \<Rightarrow> tz_name_ptr \<Rightarrow> bool) \<Rightarrow> qvalue \<Rightarrow> qvalue \<Rightarrow> bool"
  and content_elements :: "(tz_name_ptr \<Rightarrow> tz_name_ptr \<Rightarrow> bool) \<Rightarrow> qvalue list \<Rightarrow> qvalue list \<Rightarrow> bool"
  and content_entries :: "(tz_name_ptr \<Rightarrow> tz_name_ptr \<Rightarrow> bool) \<Rightarrow> (string \<times> qvalue) list \<Rightarrow> (string \<times> qvalue) list \<Rightarrow> bool"
where
  "valueContentEquals tz (VList la) b =
     (if isNull b then False
      else case b of
        VList lb \<Rightarrow> length la = length lb \<and> content_elements tz la lb
      | _ \<Rightarrow> valueEquals tz (VList la) b = Some True)"
| "valueContentEquals tz (VMap ma) b =
     (if isNull b then False
      else case b of
        VMap mb \<Rightarrow> length ma = length mb \<and> content_entries tz ma mb
      | _ \<Rightarrow> valueEquals tz (VMap ma) b = Some True)"
| "valueContentEquals tz (VPath pa) b =
     (if isNull b then False
      else case b of
        VPath pb \<Rightarrow> length pa = length pb \<and> content_elements tz pa pb
      | _ \<Rightarrow> valueEquals tz (VPath pa) b = Some True)"
| "valueContentEquals tz a b =
     (if isNull a \<or> isNull b then isNull a \<and> isNull b else valueEquals tz a b = Some True)"
| "content_elements tz (x # xs) (y # ys) \<longleftrightarrow> valueContentEquals tz x y \<and> content_elements tz xs ys"
| "content_elements tz _ _ \<longleftrightarrow> True"
| "content_entries tz [] mb \<longleftrightarrow> True"
| "content_entries tz ((key, v) # ma) mb \<longleftrightarrow>
     list_ex (\<lambda>(key2, w). key = key2 \<and> valueContentEquals tz v w) mb \<and> content_entries tz ma mb"

definition RowEqual :: "(tz_name_ptr \<Rightarrow> tz_name_ptr \<Rightarrow> bool) \<Rightarrow> row \<Rightarrow> row \<Rightarrow> bool" where
  "RowEqual tz a b \<longleftrightarrow> list_all2 (valueContentEquals tz) a b"

section \<open>Hash\<close>

record std_hash =
  h_bool :: "bool \<Rightarrow> 64 word"
  h_int64 :: "64 word \<Rightarrow> 64 word"
  h_double :: "64 word \<Rightarrow> 64 word"
  h_string :: "string \<Rightarrow> 64 word"
  h_uint64 :: "64 word \<Rightarrow> 64 word"
  h_uint8 :: "byte \<Rightarrow> 64 word"

definition mix :: "64 word \<Rightarrow> 64 word \<Rightarrow> 64 word" where
  "mix h x = h XOR (x + 0x9e3779b9 + push_bit 6 h + drop_bit 2 h)"

fun ValueHash :: "std_hash \<Rightarrow> qvalue \<Rightarrow> 64 word" where
  "ValueHash H VNull = 0"
| "ValueHash H (VBool b) = h_bool H b"
| "ValueHash H (VInt i) = h_int64 H i"
| "ValueHash H (VDouble d) = h_double H d"
| "ValueHash H (VString s) = h_string H s"
| "ValueHash H (VVertexRef i) = h_uint64 H i"
| "ValueHash H (VEdgeKey k) = mix (mix (h_uint64 H (qe_id k)) (h_uint64 H (qe_src_id k))) (h_uint64 H (qe_dst_id k))"
| "ValueHash H (VPathTopology p) =
     fold (\<lambda>e h. mix h (h_uint64 H e)) (pt_edge_ids p) (fold (\<lambda>v h. mix h (h_uint64 H v)) (pt_vertex_ids p) 0)"
| "ValueHash H (VVertex v) = h_uint64 H (vv_id v)"
| "ValueHash H (VEdge e) = h_uint64 H (ev_id e)"
| "ValueHash H (VBytes bs) = fold (\<lambda>b h. mix h (h_uint8 H b)) bs 0"
| "ValueHash H (VPath xs) = fold (\<lambda>x h. mix h (ValueHash H x)) xs 0"
| "ValueHash H (VList xs) = fold (\<lambda>x h. mix h (ValueHash H x)) xs 0"
| "ValueHash H (VMap kvs) = fold (\<lambda>(k, v) h. mix (mix h (h_string H k)) (ValueHash H v)) kvs 0"
| "ValueHash H _ = 0"

definition RowHash :: "std_hash \<Rightarrow> row \<Rightarrow> 64 word" where
  "RowHash H row = fold (\<lambda>v h. mix h (ValueHash H v)) row 0"

end
