(* ===== verification/Query_Value_Proofs.thy ===== *)
theory Query_Value_Proofs
  imports Query_Value
begin

text \<open>
  The contract of containers keyed on values: on which values the total equality is an equivalence that the
  hash respects, and on which it is not.
\<close>

section \<open>Equality of scalars\<close>

lemma path_topology_eq:
  "pt_vertex_ids p = pt_vertex_ids q \<Longrightarrow> pt_edge_ids p = pt_edge_ids q \<Longrightarrow> pt_edge_label_ids p = pt_edge_label_ids q \<Longrightarrow>
    pt_seqs p = pt_seqs q \<Longrightarrow> pt_edge_src_ids p = pt_edge_src_ids q \<Longrightarrow> pt_edge_dst_ids p = pt_edge_dst_ids q \<Longrightarrow>
    p = (q :: path_topology)"
  by (cases p; cases q) simp

lemma duration_eq_iff: "duration_eq x y \<longleftrightarrow> x = y"
  by (cases x; cases y) (auto simp: duration_eq_def)

lemma scalarEquals_iff:
  "scalarEquals tz a b \<longleftrightarrow>
     (if fst (entity a) \<noteq> 0 \<and> fst (entity a) = fst (entity b) then snd (entity a) = snd (entity b)
      else (\<exists>p. a = VPathTopology p \<and> b = VPathTopology p) \<or> (\<exists>x. a = VBytes x \<and> b = VBytes x) \<or>
        (\<exists>i. a = VInt i \<and> b = VInt i) \<or> (\<exists>x. a = VBool x \<and> b = VBool x) \<or> (\<exists>s. a = VString s \<and> b = VString s) \<or>
        (\<exists>d e. a = VDouble d \<and> b = VDouble e \<and> double_eq d e) \<or>
        (\<exists>i d. a = VInt i \<and> b = VDouble d \<and> double_eq (double_of_int64 i) d) \<or>
        (\<exists>i d. a = VDouble d \<and> b = VInt i \<and> double_eq d (double_of_int64 i)) \<or>
        (\<exists>x y. a = VDateTime x \<and> b = VDateTime y \<and> datetime_eq tz x y) \<or>
        (\<exists>x y. a = VTime x \<and> b = VTime y \<and> time_eq tz x y) \<or> (\<exists>x. a = VDuration x \<and> b = VDuration x))"
  by (cases a; cases b) (auto simp: scalarEquals_def duration_eq_iff intro: path_topology_eq)

lemma scalarEquals_container [simp]:
  "\<not> scalarEquals tz (VList xs) b" "\<not> scalarEquals tz (VMap m) b" "\<not> scalarEquals tz (VPath xs) b"
  by (simp_all add: scalarEquals_iff)

section \<open>Equality of values\<close>

lemma content_elements_iff: "length xs = length ys \<Longrightarrow> content_elements tz xs ys \<longleftrightarrow> list_all2 (valueContentEquals tz) xs ys"
  by (induction xs ys rule: list_induct2) auto

lemma content_entries_iff:
  "content_entries tz ma mb \<longleftrightarrow> (\<forall>(key, v) \<in> set ma. \<exists>w. (key, w) \<in> set mb \<and> valueContentEquals tz v w)"
  by (induction ma) (fastforce simp: list_ex_iff)+

lemma content_list: "valueContentEquals tz (VList xs) b \<longleftrightarrow> (\<exists>ys. b = VList ys \<and> list_all2 (valueContentEquals tz) xs ys)"
  by (cases b) (auto simp: content_elements_iff list_all2_lengthD)

lemma content_path: "valueContentEquals tz (VPath xs) b \<longleftrightarrow> (\<exists>ys. b = VPath ys \<and> list_all2 (valueContentEquals tz) xs ys)"
  by (cases b) (auto simp: content_elements_iff list_all2_lengthD)

fun container :: "qvalue \<Rightarrow> bool" where
  "container (VList _) = True"
| "container (VMap _) = True"
| "container (VPath _) = True"
| "container _ = False"

lemma content_scalar:
  "\<not> container a \<Longrightarrow> valueContentEquals tz a b \<longleftrightarrow> (if isNull a \<or> isNull b then isNull a \<and> isNull b else scalarEquals tz a b)"
  by (cases a) auto

declare valueContentEquals.simps [simp del]

lemma content_null: "isNull a \<Longrightarrow> valueContentEquals tz a b \<longleftrightarrow> isNull b"
  by (cases a) (simp_all add: content_scalar)

text \<open>The fields of a temporal value that its kind gives meaning to, apart from the zone name.\<close>

definition dt_fields :: "date_time_value \<Rightarrow> byte \<times> (32 word \<times> byte \<times> byte) \<times> (byte \<times> byte \<times> byte \<times> 32 word) option \<times> 32 word option" where
  "dt_fields x = (dt_kind x, (dt_year x, dt_month x, dt_day x),
     if dt_kind x = DT_DATE then None else Some (dt_hour x, dt_minute x, dt_second x, dt_nanos x),
     if dt_kind x = DT_DATETIME then Some (dt_tz_offset_sec x) else None)"

definition tm_fields :: "time_value \<Rightarrow> byte \<times> (byte \<times> byte \<times> byte \<times> 32 word) \<times> 32 word option" where
  "tm_fields x = (tm_kind x, (tm_hour x, tm_minute x, tm_second x, tm_nanos x),
     if tm_kind x = TM_TIME then Some (tm_tz_offset_sec x) else None)"

lemma datetime_eq_fields:
  "datetime_eq tz x y \<longleftrightarrow> dt_fields x = dt_fields y \<and> dt_kind x \<in> {DT_DATE, DT_LOCAL_DATETIME, DT_DATETIME} \<and>
     (dt_kind x = DT_DATETIME \<longrightarrow> tz (dt_tz_name x) (dt_tz_name y))"
  by (auto simp: datetime_eq_def dt_fields_def split: if_splits)

lemma time_eq_fields:
  "time_eq tz x y \<longleftrightarrow> tm_fields x = tm_fields y \<and> tm_kind x \<in> {TM_LOCAL_TIME, TM_TIME} \<and>
     (tm_kind x = TM_TIME \<longrightarrow> tz (tm_tz_name x) (tm_tz_name y))"
  by (auto simp: time_eq_def tm_fields_def split: if_splits)

lemma fields_kind: "dt_fields x = dt_fields y \<Longrightarrow> dt_kind x = dt_kind y" "tm_fields u = tm_fields v \<Longrightarrow> tm_kind u = tm_kind v"
  by (simp_all add: dt_fields_def tm_fields_def)

lemma temporal_eq_sym:
  assumes "equivp tz"
  shows "datetime_eq tz x y \<Longrightarrow> datetime_eq tz y x" "time_eq tz u v \<Longrightarrow> time_eq tz v u"
  using equivp_symp [OF assms, of "dt_tz_name x" "dt_tz_name y"] fields_kind(1) [of x y]
    equivp_symp [OF assms, of "tm_tz_name u" "tm_tz_name v"] fields_kind(2) [of u v]
  by (auto simp: datetime_eq_fields time_eq_fields)

lemma temporal_eq_trans:
  assumes "equivp tz"
  shows "datetime_eq tz x y \<Longrightarrow> datetime_eq tz y z \<Longrightarrow> datetime_eq tz x z" "time_eq tz u v \<Longrightarrow> time_eq tz v w \<Longrightarrow> time_eq tz u w"
proof -
  show "datetime_eq tz x z" if e: "datetime_eq tz x y" "datetime_eq tz y z"
  proof -
    have f: "dt_fields x = dt_fields z" "dt_kind x = dt_kind y" using e fields_kind(1) [of x y] by (auto simp: datetime_eq_fields)
    have "tz (dt_tz_name x) (dt_tz_name z)" if "dt_kind x = DT_DATETIME"
      by (rule equivp_transp [OF assms, of _ "dt_tz_name y"]) (use e f(2) that in \<open>simp_all add: datetime_eq_fields\<close>)
    with e f show ?thesis by (simp add: datetime_eq_fields)
  qed
  show "time_eq tz u w" if e: "time_eq tz u v" "time_eq tz v w"
  proof -
    have f: "tm_fields u = tm_fields w" "tm_kind u = tm_kind v" using e fields_kind(2) [of u v] by (auto simp: time_eq_fields)
    have "tz (tm_tz_name u) (tm_tz_name w)" if "tm_kind u = TM_TIME"
      by (rule equivp_transp [OF assms, of _ "tm_tz_name v"]) (use e f(2) that in \<open>simp_all add: time_eq_fields\<close>)
    with e f show ?thesis by (simp add: time_eq_fields)
  qed
qed

lemma double_eq_equiv:
  "double_eq x y \<Longrightarrow> double_eq y x" "double_eq x y \<Longrightarrow> double_eq y z \<Longrightarrow> double_eq x z" "\<not> double_nan x \<Longrightarrow> double_eq x x"
  by (auto simp: double_eq_key)

text \<open>
  Values whose numbers are all integers (\<open>n\<close>) or all doubles, none of them NaN, without maps and without edges
  that are still keys, with temporal values of the declared kinds.
\<close>

fun groupable :: "bool \<Rightarrow> qvalue \<Rightarrow> bool" where
  "groupable n (VInt _) = n"
| "groupable n (VDouble d) = (\<not> n \<and> \<not> double_nan d)"
| "groupable n (VEdgeKey _) = False"
| "groupable n (VMap _) = False"
| "groupable n (VDateTime x) = (dt_kind x \<in> {DT_DATE, DT_LOCAL_DATETIME, DT_DATETIME})"
| "groupable n (VTime x) = (tm_kind x \<in> {TM_LOCAL_TIME, TM_TIME})"
| "groupable n (VPath xs) = list_all (groupable n) xs"
| "groupable n (VList xs) = list_all (groupable n) xs"
| "groupable n _ = True"

lemma content_refl: "equivp tz \<Longrightarrow> groupable n a \<Longrightarrow> valueContentEquals tz a a"
proof (induction a)
  case (VList xs)
  then show ?case by (auto simp: content_list list_all_iff intro: list.rel_refl_strong)
next
  case (VPath xs)
  then show ?case by (auto simp: content_path list_all_iff intro: list.rel_refl_strong)
qed (auto simp: content_scalar scalarEquals_iff datetime_eq_fields time_eq_fields equivp_reflp double_eq_equiv(3))

lemma scalar_sym:
  assumes "equivp tz" "scalarEquals tz a b"
  shows "scalarEquals tz b a"
  using assms temporal_eq_sym [OF assms(1)] double_eq_equiv(1) by (auto simp: scalarEquals_iff split: if_splits)

lemma content_container: "valueContentEquals tz a b \<Longrightarrow> container a \<longleftrightarrow> container b"
  by (cases a; cases b) (auto simp: content_list content_path content_scalar scalarEquals_iff valueContentEquals.simps)

lemma content_scalar_sym: "equivp tz \<Longrightarrow> \<not> container a \<Longrightarrow> valueContentEquals tz a b \<Longrightarrow> valueContentEquals tz b a"
  using content_container [of tz a b] scalar_sym [of tz a b] by (auto simp: content_scalar split: if_splits)

lemma content_sym: "equivp tz \<Longrightarrow> groupable n a \<Longrightarrow> valueContentEquals tz a b \<Longrightarrow> valueContentEquals tz b a"
proof (induction a arbitrary: b)
  case (VList xs)
  then obtain ys where "b = VList ys" "list_all2 (valueContentEquals tz) xs ys" by (auto simp: content_list)
  with VList show ?case by (auto simp: content_list list_all_iff list_all2_conv_all_nth)
next
  case (VPath xs)
  then obtain ys where "b = VPath ys" "list_all2 (valueContentEquals tz) xs ys" by (auto simp: content_path)
  with VPath show ?case by (auto simp: content_path list_all_iff list_all2_conv_all_nth)
qed (rule content_scalar_sym, assumption, simp, assumption | simp)+

lemma scalar_entity: "scalarEquals tz a b \<Longrightarrow> entity a = entity b"
  by (auto simp: scalarEquals_iff prod_eq_iff split: if_splits)

lemma entity_scalar: "fst (entity a) \<noteq> 0 \<Longrightarrow> scalarEquals tz a b \<longleftrightarrow> entity a = entity b"
proof
  assume "fst (entity a) \<noteq> 0" "entity a = entity b"
  then show "scalarEquals tz a b" by (simp add: scalarEquals_def split_beta Let_def)
qed (rule scalar_entity)

lemma scalar_trans:
  assumes "equivp tz" "groupable n a" "groupable n b" "groupable n c" "scalarEquals tz a b" "scalarEquals tz b c"
  shows "scalarEquals tz a c"
proof (cases "fst (entity a) = 0")
  case False
  then show ?thesis using assms(5,6) scalar_entity [OF assms(5)] by (simp add: entity_scalar)
next
  case True
  then show ?thesis using assms
  proof (cases a)
    case (VDouble d)
    with assms show ?thesis by (auto simp: scalarEquals_iff double_eq_key)
  next
    case (VDateTime x)
    then obtain y z where "b = VDateTime y" "c = VDateTime z" "datetime_eq tz x y" "datetime_eq tz y z"
      using assms(5,6) by (auto simp: scalarEquals_iff)
    then show ?thesis using VDateTime temporal_eq_trans(1) [OF assms(1), of x y z] by (simp add: scalarEquals_iff)
  next
    case (VTime x)
    then obtain y z where "b = VTime y" "c = VTime z" "time_eq tz x y" "time_eq tz y z"
      using assms(5,6) by (auto simp: scalarEquals_iff)
    then show ?thesis using VTime temporal_eq_trans(2) [OF assms(1), of x y z] by (simp add: scalarEquals_iff)
  qed (auto simp: scalarEquals_iff)
qed

lemma content_scalar_trans:
  assumes "equivp tz" "valueContentEquals tz a b" "valueContentEquals tz b c" "\<not> container a"
    "groupable n a" "groupable n b" "groupable n c"
  shows "valueContentEquals tz a c"
  using assms content_container [of tz a b] scalar_trans [OF assms(1,5,6,7)] by (auto simp: content_scalar split: if_splits)

lemma content_trans:
  "equivp tz \<Longrightarrow> groupable n a \<Longrightarrow> groupable n b \<Longrightarrow> groupable n c \<Longrightarrow>
    valueContentEquals tz a b \<Longrightarrow> valueContentEquals tz b c \<Longrightarrow> valueContentEquals tz a c"
proof (induction a arbitrary: b c)
  case (VList xs)
  then obtain ys zs where "b = VList ys" "c = VList zs" "list_all2 (valueContentEquals tz) xs ys"
      "list_all2 (valueContentEquals tz) ys zs" by (auto simp: content_list)
  with VList show ?case by (auto simp: content_list list_all_length list_all2_conv_all_nth)
next
  case (VPath xs)
  then obtain ys zs where "b = VPath ys" "c = VPath zs" "list_all2 (valueContentEquals tz) xs ys"
      "list_all2 (valueContentEquals tz) ys zs" by (auto simp: content_path)
  with VPath show ?case by (auto simp: content_path list_all_length list_all2_conv_all_nth)
qed (rule content_scalar_trans, assumption, assumption, assumption, simp, assumption, assumption, assumption | simp)+

text \<open>\<^verbatim>\<open>std::hash<double>\<close> gives equal doubles the same hash, the two zeros included.\<close>

definition hash_ok :: "std_hash \<Rightarrow> bool" where
  "hash_ok H \<longleftrightarrow> (\<forall>x y. double_eq x y \<longrightarrow> h_double H x = h_double H y)"

lemma entity_hash: "fst (entity a) \<noteq> 0 \<Longrightarrow> groupable n a \<Longrightarrow> ValueHash H a = h_uint64 H (snd (entity a))"
  by (cases a) auto

lemma scalar_hash:
  assumes "hash_ok H" "groupable n a" "groupable n b" "scalarEquals tz a b"
  shows "ValueHash H a = ValueHash H b"
proof (cases "fst (entity a) = 0")
  case False
  then show ?thesis using scalar_entity [OF assms(4)] entity_hash assms(2,3) by metis
next
  case True
  with assms show ?thesis by (cases a) (auto simp: scalarEquals_iff hash_ok_def)
qed

lemma fold_hash:
  "list_all2 (\<lambda>x y. ValueHash H x = ValueHash H y) xs ys \<Longrightarrow>
    fold (\<lambda>x h. mix h (ValueHash H x)) xs s = fold (\<lambda>x h. mix h (ValueHash H x)) ys s"
  by (induction xs ys arbitrary: s rule: list_all2_induct) auto

lemma null_hash: "isNull a \<Longrightarrow> ValueHash H a = 0"
  by (cases a) auto

lemma content_scalar_hash:
  assumes "hash_ok H" "valueContentEquals tz a b" "\<not> container a" "groupable n a" "groupable n b"
  shows "ValueHash H a = ValueHash H b"
  using assms(2,3) scalar_hash [OF assms(1,4,5)] by (auto simp: content_scalar null_hash split: if_splits)

lemma content_hash:
  "hash_ok H \<Longrightarrow> groupable n a \<Longrightarrow> groupable n b \<Longrightarrow> valueContentEquals tz a b \<Longrightarrow> ValueHash H a = ValueHash H b"
proof (induction a arbitrary: b)
  case (VList xs)
  then obtain ys where "b = VList ys" "list_all2 (valueContentEquals tz) xs ys" by (auto simp: content_list)
  with VList show ?case by (auto simp: list_all_length list_all2_conv_all_nth intro!: fold_hash)
next
  case (VPath xs)
  then obtain ys where "b = VPath ys" "list_all2 (valueContentEquals tz) xs ys" by (auto simp: content_path)
  with VPath show ?case by (auto simp: list_all_length list_all2_conv_all_nth intro!: fold_hash)
qed (rule content_scalar_hash, assumption, assumption, simp, assumption, assumption | simp)+

section \<open>Keys of groups\<close>

text \<open>
  C9. On rows of values whose numbers are of one type, without NaN, maps and edge keys, the equality of group
  keys is an equivalence relation that the hash respects, which is what the hash containers of the aggregation rely
  on: nulls are equal to nulls at any depth and a vertex is equal to its reference.
\<close>

theorem group_keys_contract:
  assumes "equivp tz" "hash_ok H" "list_all (groupable n) a" "list_all (groupable n) b" "list_all (groupable n) c"
    "RowEqual tz a b" "RowEqual tz b c"
  shows "RowEqual tz a a \<and> RowEqual tz b a \<and> RowEqual tz a c \<and> RowHash H a = RowHash H b"
proof -
  have eq: "list_all2 (\<lambda>x y. ValueHash H x = ValueHash H y) a b"
    using assms(3,4,6) content_hash [OF assms(2), of n] unfolding RowEqual_def list_all_length list_all2_conv_all_nth by metis
  have "RowEqual tz a a"
    using assms(3) content_refl [OF assms(1)] by (auto simp: RowEqual_def list_all_iff intro: list.rel_refl_strong)
  moreover have "RowEqual tz b a"
    using assms(3,6) content_sym [OF assms(1)] by (auto simp: RowEqual_def list_all_length list_all2_conv_all_nth)
  moreover have "RowEqual tz a c"
    using assms(3-7) content_trans [OF assms(1)] unfolding RowEqual_def list_all_length list_all2_conv_all_nth by metis
  ultimately show ?thesis using fold_hash [OF eq] by (simp add: RowHash_def)
qed

definition sample_hash :: std_hash where
  "sample_hash = \<lparr>h_bool = (\<lambda>b. if b then 1 else 0), h_int64 = (\<lambda>i. i), h_double = (\<lambda>d. if take_bit 63 d = 0 then 0 else d),
     h_string = (\<lambda>s. fold (\<lambda>c h. 31 * h + of_char c) s 0), h_uint64 = (\<lambda>i. i), h_uint8 = ucast\<rparr>"

lemma sample_hash_ok: "hash_ok sample_hash"
  by (auto simp: hash_ok_def sample_hash_def double_eq_def)

abbreviation sample_vertex :: vertex_value where
  "sample_vertex \<equiv> \<lparr>vv_id = 7, vv_properties = (\<lambda>_. None), vv_labels = None, vv_deleted = False\<rparr>"

theorem group_keys_contract_witness:
  "RowEqual (=) [VVertex sample_vertex, VList [VNull]] [VVertexRef 7, VList [VNull]] \<and>
   RowHash sample_hash [VVertexRef 7, VList [VNull]] = RowHash sample_hash [VVertex sample_vertex, VList [VNull]]"
  using group_keys_contract [OF identity_equivp sample_hash_ok, of True "[VVertexRef 7, VList [VNull]]"
      "[VVertex sample_vertex, VList [VNull]]" "[VVertexRef 7, VList [VNull]]"]
  by (simp add: RowEqual_def content_list content_scalar scalarEquals_iff)

text \<open>
  Outside those values the containers lose their contract.  Integers that round to the same double are each equal to it
  and not to each other, so the equality is not transitive; a NaN is not equal to itself; two maps with the same
  entries in another order are equal with different hashes.
\<close>

theorem group_keys_contract_broken:
  "valueContentEquals tz (VInt 9007199254740993) (VDouble 0x4340000000000000) \<and>
   valueContentEquals tz (VDouble 0x4340000000000000) (VInt 9007199254740992) \<and>
   \<not> valueContentEquals tz (VInt 9007199254740993) (VInt 9007199254740992) \<and>
   \<not> valueContentEquals tz (VDouble 0x7FF8000000000000) (VDouble 0x7FF8000000000000) \<and>
   valueContentEquals tz (VMap [(''a'', VInt 1), (''b'', VInt 2)]) (VMap [(''b'', VInt 2), (''a'', VInt 1)]) \<and>
   ValueHash sample_hash (VMap [(''a'', VInt 1), (''b'', VInt 2)]) \<noteq> ValueHash sample_hash (VMap [(''b'', VInt 2), (''a'', VInt 1)])"
proof (intro conjI)
  show "valueContentEquals tz (VMap [(''a'', VInt 1), (''b'', VInt 2)]) (VMap [(''b'', VInt 2), (''a'', VInt 1)])"
    by (simp add: valueContentEquals.simps scalarEquals_iff)
  show "ValueHash sample_hash (VMap [(''a'', VInt 1), (''b'', VInt 2)]) \<noteq> ValueHash sample_hash (VMap [(''b'', VInt 2), (''a'', VInt 1)])"
    by (simp add: sample_hash_def mix_def push_bit_eq_mult drop_bit_eq_div)
qed (simp_all add: content_scalar scalarEquals_iff double_eq_def double_nan_def double_of_int64_def double_of_nat_def
    bit_length.simps round_even_def)

end
