(* ===== verification/Query_Operators.thy ===== *)
theory Query_Operators
  imports Query_Value_Proofs
begin

text \<open>
  Operators of the query engine (\<^verbatim>\<open>query/physical_plan/operator\<close>) on batches.  A batch is the list of its rows, whatever
  the layout of its columns; an operator takes the batches its children yield to the batches it yields.
\<close>

type_synonym chunk = "row list"

abbreviation (input) DEFAULT_CAPACITY :: nat where "DEFAULT_CAPACITY \<equiv> 1024"

section \<open>Filling batches\<close>

text \<open>The batch under construction and the batches yielded.\<close>

type_synonym out = "chunk \<times> chunk list"

definition push_row :: "row \<Rightarrow> out \<Rightarrow> out" where
  "push_row r = (\<lambda>(filled, yielded).
     if length filled + 1 \<ge> DEFAULT_CAPACITY then ([], yielded @ [filled @ [r]]) else (filled @ [r], yielded))"

definition flush :: "out \<Rightarrow> chunk list" where
  "flush = (\<lambda>(filled, yielded). if filled \<noteq> [] then yielded @ [filled] else yielded)"

definition fill :: "row list \<Rightarrow> chunk list" where
  "fill rows = flush (fold push_row rows ([], []))"

lemma fold_push_row:
  "concat (flush (fold push_row rows (filled, yielded))) = concat yielded @ filled @ rows"
  by (induction rows arbitrary: filled yielded) (auto simp: push_row_def flush_def)

lemma concat_fill [simp]: "concat (fill rows) = rows"
  by (simp add: fill_def fold_push_row)

section \<open>LIMIT and SKIP\<close>

datatype limit_error = Must_Be_Integer | Must_Be_Non_Negative

definition evaluateLimit :: "qvalue \<Rightarrow> limit_error + int" where
  "evaluateLimit value =
     (case value of
        VInt i \<Rightarrow> if sint i < 0 then Inl Must_Be_Non_Negative else Inr (sint i)
      | _ \<Rightarrow> Inl Must_Be_Integer)"

definition evaluateSkip :: "qvalue \<Rightarrow> limit_error + int" where
  "evaluateSkip value =
     (case value of
        VInt i \<Rightarrow> if sint i < 0 then Inl Must_Be_Non_Negative else Inr (sint i)
      | _ \<Rightarrow> Inl Must_Be_Integer)"

text \<open>The loop behind \<^verbatim>\<open>remaining > 0\<close>; draining the child afterwards only runs its side effects.\<close>

fun limit_chunks :: "int \<Rightarrow> chunk list \<Rightarrow> chunk list" where
  "limit_chunks remaining [] = []"
| "limit_chunks remaining (c # cs) =
     (if remaining > 0 then
        (if int (length c) \<le> remaining then c # limit_chunks (remaining - int (length c)) cs
         else [take (nat remaining) c])
      else [])"

fun skip_chunks :: "int \<Rightarrow> chunk list \<Rightarrow> chunk list" where
  "skip_chunks remaining [] = []"
| "skip_chunks remaining (c # cs) =
     (if remaining \<ge> int (length c) then skip_chunks (remaining - int (length c)) cs
      else if remaining > 0 then drop (nat remaining) c # cs
      else c # skip_chunks remaining cs)"

definition limit_op :: "int option \<Rightarrow> qvalue option \<Rightarrow> chunk list \<Rightarrow> limit_error + chunk list" where
  "limit_op literal expr child =
     (case literal of
        Some n \<Rightarrow> Inr (limit_chunks n child)
      | None \<Rightarrow> (case expr of
            None \<Rightarrow> Inr (limit_chunks 0 child)
          | Some v \<Rightarrow> (case evaluateLimit v of Inl e \<Rightarrow> Inl e | Inr n \<Rightarrow> Inr (limit_chunks n child))))"

definition skip_op :: "int option \<Rightarrow> qvalue option \<Rightarrow> chunk list \<Rightarrow> limit_error + chunk list" where
  "skip_op literal expr child =
     (case literal of
        Some n \<Rightarrow> Inr (skip_chunks n child)
      | None \<Rightarrow> (case expr of
            None \<Rightarrow> Inr (skip_chunks 0 child)
          | Some v \<Rightarrow> (case evaluateSkip v of Inl e \<Rightarrow> Inl e | Inr n \<Rightarrow> Inr (skip_chunks n child))))"

lemma concat_limit: "concat (limit_chunks n cs) = take (nat n) (concat cs)"
  by (induction n cs rule: limit_chunks.induct) (auto simp: nat_diff_distrib')

lemma skip_nothing: "n \<le> 0 \<Longrightarrow> concat (skip_chunks n cs) = concat cs"
proof (induction n cs rule: skip_chunks.induct)
  case (2 n c cs)
  then show ?case by (cases c) auto
qed simp

lemma concat_skip: "concat (skip_chunks n cs) = drop (nat n) (concat cs)"
proof (induction n cs rule: skip_chunks.induct)
  case (2 n c cs)
  then show ?case by (auto simp: nat_diff_distrib' skip_nothing)
qed simp

section \<open>UNION and cross product\<close>

definition union_op :: "chunk list \<Rightarrow> chunk list \<Rightarrow> chunk list" where
  "union_op left right = left @ right"

text \<open>The right child is run again for every left batch.\<close>

definition cross_chunks :: "chunk \<Rightarrow> chunk \<Rightarrow> chunk list" where
  "cross_chunks left_chunk right_chunk = fill (concat (map (\<lambda>l. map (\<lambda>r. l @ r) right_chunk) left_chunk))"

definition cross_product_op :: "chunk list \<Rightarrow> chunk list \<Rightarrow> chunk list" where
  "cross_product_op left right =
     concat (map (\<lambda>left_chunk. concat (map (cross_chunks left_chunk) (filter (\<lambda>c. c \<noteq> []) right)))
       (filter (\<lambda>c. c \<noteq> []) left))"

section \<open>DISTINCT\<close>

definition cellDigest :: "std_hash \<Rightarrow> qvalue \<Rightarrow> 64 word" where
  "cellDigest H v =
     (case v of
        VVertexRef i \<Rightarrow> i
      | VVertex x \<Rightarrow> vv_id x
      | VEdgeKey k \<Rightarrow> qe_id k
      | VEdge e \<Rightarrow> ev_id e
      | _ \<Rightarrow> ValueHash H v)"

text \<open>The key of a row: \<^verbatim>\<open>operator==\<close> compares the digests only, not the flags beside them.\<close>

definition digestChunkRow :: "std_hash \<Rightarrow> row \<Rightarrow> 64 word list" where
  "digestChunkRow H row = map (cellDigest H) row"

fun distinct_rows :: "std_hash \<Rightarrow> 64 word list set \<Rightarrow> chunk \<Rightarrow> chunk \<times> 64 word list set" where
  "distinct_rows H seen [] = ([], seen)"
| "distinct_rows H seen (r # rows) =
     (let key = digestChunkRow H r in
      if key \<in> seen then distinct_rows H seen rows
      else let (rest, seen') = distinct_rows H (insert key seen) rows in (r # rest, seen'))"

fun distinct_chunks :: "std_hash \<Rightarrow> 64 word list set \<Rightarrow> chunk list \<Rightarrow> chunk list" where
  "distinct_chunks H seen [] = []"
| "distinct_chunks H seen (c # cs) =
     (let (new, seen') = distinct_rows H seen c
      in if new = [] then distinct_chunks H seen' cs else new # distinct_chunks H seen' cs)"

definition distinct_op :: "std_hash \<Rightarrow> chunk list \<Rightarrow> chunk list" where
  "distinct_op H child = distinct_chunks H {} child"

section \<open>Hash join\<close>

fun graphEntityKind :: "qvalue \<Rightarrow> nat" where
  "graphEntityKind (VVertexRef _) = 1"
| "graphEntityKind (VVertex _) = 1"
| "graphEntityKind (VEmpty H_Vertex) = 1"
| "graphEntityKind (VEdgeKey _) = 2"
| "graphEntityKind (VEdge _) = 2"
| "graphEntityKind (VEmpty H_Edge) = 2"
| "graphEntityKind _ = 0"

text \<open>An empty pointer is dereferenced here; what that gives is not specified.\<close>

fun entityId :: "qvalue \<Rightarrow> 64 word" where
  "entityId (VVertexRef i) = i"
| "entityId (VVertex v) = vv_id v"
| "entityId (VEdgeKey k) = qe_id k"
| "entityId (VEdge e) = ev_id e"

definition joinValueEquals :: "(tz_name_ptr \<Rightarrow> tz_name_ptr \<Rightarrow> bool) \<Rightarrow> qvalue \<Rightarrow> qvalue \<Rightarrow> bool" where
  "joinValueEquals tz a b =
     (let kind_a = graphEntityKind a; kind_b = graphEntityKind b in
      if kind_a \<noteq> 0 \<and> kind_a = kind_b then entityId a = entityId b
      else valueEquals tz a b = Some True)"

definition KeyHash :: "std_hash \<Rightarrow> row \<Rightarrow> 64 word" where
  "KeyHash H key = fold (\<lambda>v h. mix h (ValueHash H v)) key 0x9e3779b9"

definition KeyEq :: "(tz_name_ptr \<Rightarrow> tz_name_ptr \<Rightarrow> bool) \<Rightarrow> row \<Rightarrow> row \<Rightarrow> bool" where
  "KeyEq tz a b \<longleftrightarrow> list_all2 (joinValueEquals tz) a b"

text \<open>The hash table: entries in the order of insertion; a key is found by its hash and its equality.\<close>

type_synonym hash_table = "(row \<times> row list) list"

definition same_key :: "std_hash \<Rightarrow> (tz_name_ptr \<Rightarrow> tz_name_ptr \<Rightarrow> bool) \<Rightarrow> row \<Rightarrow> row \<Rightarrow> bool" where
  "same_key H tz a b \<longleftrightarrow> KeyHash H a = KeyHash H b \<and> KeyEq tz a b"

fun table_add :: "(row \<Rightarrow> row \<Rightarrow> bool) \<Rightarrow> row \<Rightarrow> row \<Rightarrow> hash_table \<Rightarrow> hash_table" where
  "table_add same key vals [] = [(key, [vals])]"
| "table_add same key vals ((k, vs) # t) = (if same k key then (k, vs @ [vals]) # t else (k, vs) # table_add same key vals t)"

fun table_find :: "(row \<Rightarrow> row \<Rightarrow> bool) \<Rightarrow> row \<Rightarrow> hash_table \<Rightarrow> row list option" where
  "table_find same key [] = None"
| "table_find same key ((k, vs) # t) = (if same k key then Some vs else table_find same key t)"

definition key_of :: "nat list \<Rightarrow> row \<Rightarrow> row" where
  "key_of cols row = map (\<lambda>col. row ! col) cols"

definition build_table :: "(row \<Rightarrow> row \<Rightarrow> bool) \<Rightarrow> nat list \<Rightarrow> chunk list \<Rightarrow> hash_table" where
  "build_table same right_key_cols right = fold (\<lambda>row. table_add same (key_of right_key_cols row) row) (concat right) []"

definition probe_chunk :: "(row \<Rightarrow> row \<Rightarrow> bool) \<Rightarrow> nat list \<Rightarrow> hash_table \<Rightarrow> chunk \<Rightarrow> chunk list" where
  "probe_chunk same left_key_cols table left_chunk =
     fill (concat (map (\<lambda>row. case table_find same (key_of left_key_cols row) table of
         None \<Rightarrow> [] | Some vs \<Rightarrow> map (\<lambda>right_vals. row @ right_vals) vs) left_chunk))"

definition hash_join_op :: "std_hash \<Rightarrow> (tz_name_ptr \<Rightarrow> tz_name_ptr \<Rightarrow> bool) \<Rightarrow> nat list \<Rightarrow> nat list \<Rightarrow> chunk list \<Rightarrow> chunk list \<Rightarrow> chunk list" where
  "hash_join_op H tz left_key_cols right_key_cols left right =
     (let table = build_table (same_key H tz) right_key_cols right
      in concat (map (probe_chunk (same_key H tz) left_key_cols table) left))"

end
