(* ===== verification/Query_Operator_Proofs.thy ===== *)
theory Query_Operator_Proofs
  imports Query_Operators
begin

text \<open>
  The operators against reference definitions on the rows: slices, first representatives, the nested loop join.
\<close>

section \<open>LIMIT and SKIP\<close>

text \<open>
  C37. \<open>SKIP m LIMIT n\<close> over any batching of the input is the slice of its rows; a value that is not a non-negative
  integer is rejected.
\<close>

theorem limit_skip_slice:
  "(case skip_op None (Some v) child of
      Inl e \<Rightarrow> Inl e
    | Inr cs \<Rightarrow> (case limit_op None (Some w) cs of Inl e \<Rightarrow> Inl e | Inr cs' \<Rightarrow> Inr (concat cs'))) =
   (case v of
      VInt m \<Rightarrow> if sint m < 0 then Inl Must_Be_Non_Negative
        else (case w of
            VInt n \<Rightarrow> if sint n < 0 then Inl Must_Be_Non_Negative
              else Inr (take (nat (sint n)) (drop (nat (sint m)) (concat child)))
          | _ \<Rightarrow> Inl Must_Be_Integer)
    | _ \<Rightarrow> Inl Must_Be_Integer)"
  by (simp add: skip_op_def limit_op_def evaluateSkip_def evaluateLimit_def concat_limit concat_skip split: qvalue.split)

section \<open>DISTINCT\<close>

text \<open>The first row of every digest, in order.\<close>

fun first_rows :: "(row \<Rightarrow> 'k) \<Rightarrow> 'k set \<Rightarrow> row list \<Rightarrow> row list" where
  "first_rows key seen [] = []"
| "first_rows key seen (r # rows) =
     (if key r \<in> seen then first_rows key seen rows else r # first_rows key (insert (key r) seen) rows)"

lemma distinct_rows_first:
  "distinct_rows H seen rows = (first_rows (digestChunkRow H) seen rows, seen \<union> digestChunkRow H ` set rows)"
  by (induction rows arbitrary: seen) (auto simp: Let_def insert_absorb)

lemma first_rows_append:
  "first_rows key seen (xs @ ys) = first_rows key seen xs @ first_rows key (seen \<union> key ` set xs) ys"
  by (induction xs arbitrary: seen) (auto simp: insert_absorb)

lemma distinct_chunks_first: "concat (distinct_chunks H seen cs) = first_rows (digestChunkRow H) seen (concat cs)"
  by (induction cs arbitrary: seen) (auto simp: distinct_rows_first first_rows_append)

lemma first_rows_keys: "key ` set (first_rows key seen rows) = key ` set rows - seen" "distinct (map key (first_rows key seen rows))"
proof (induction rows arbitrary: seen)
  case (Cons r rows)
  { case 1 show ?case using Cons(1) [of "insert (key r) seen"] Cons(1) [of seen] by auto }
  { case 2 show ?case using Cons(1,2) [of "insert (key r) seen"] Cons(2) [of seen] by auto }
qed simp_all

lemma first_rows_subset: "set (first_rows key seen rows) \<subseteq> set rows"
  by (induction rows arbitrary: seen) auto

lemma digest_no_entity: "fst (entity v) = 0 \<Longrightarrow> cellDigest H v = ValueHash H v"
  by (cases v) (simp_all add: cellDigest_def)

lemma cell_digest_content:
  assumes "hash_ok H" "groupable n a" "groupable n b" "valueContentEquals tz a b"
  shows "cellDigest H a = cellDigest H b"
proof (cases "container a \<or> isNull a \<or> isNull b \<or> fst (entity a) = 0")
  case True
  then have "fst (entity a) = 0 \<and> fst (entity b) = 0"
    using assms(4) content_container [OF assms(4)] scalar_entity [of tz a b]
    by (cases a; cases b) (auto simp: content_scalar content_null)
  then have "cellDigest H a = ValueHash H a" "cellDigest H b = ValueHash H b"
    by (simp_all add: digest_no_entity)
  then show ?thesis using content_hash [OF assms] by simp
next
  case False
  then have "entity a = entity b" using assms(4) scalar_entity [of tz a b] by (simp add: content_scalar)
  with False show ?thesis by (cases a; cases b) (auto simp: cellDigest_def)
qed

lemma row_digest_content:
  assumes "hash_ok H" "list_all (groupable n) a" "list_all (groupable n) b" "RowEqual tz a b"
  shows "digestChunkRow H a = digestChunkRow H b"
proof -
  have "list_all2 (\<lambda>x y. cellDigest H x = cellDigest H y) a b"
    using assms(2-4) cell_digest_content [OF assms(1)] unfolding RowEqual_def list_all_length list_all2_conv_all_nth by metis
  then show ?thesis unfolding digestChunkRow_def by (induction rule: list_all2_induct) simp_all
qed

lemma first_rows_subseq: "subseq (first_rows key seen rows) rows"
  by (induction rows arbitrary: seen) auto



text \<open>
  C38. The hash has no case for temporal values and gives them all, and null, the digest zero: \<open>DISTINCT\<close> over temporal
  values keeps the first row only, whatever the values are.
\<close>

theorem distinct_temporal_collapses:
  "concat (distinct_op H [map (\<lambda>t. [VDateTime t]) ts]) = take 1 (map (\<lambda>t. [VDateTime t]) ts) \<and>
   concat (distinct_op H [[[VNull], [VDateTime t], [VTime u], [VDuration d]]]) = [[VNull]] \<and>
   concat (distinct_op sample_hash [[[VNull], [VInt 0], [VVertexRef 7], [VInt 7]]]) = [[VNull], [VVertexRef 7]]"
proof (intro conjI)
  have "first_rows (digestChunkRow H) {[0]} (map (\<lambda>t. [VDateTime t]) us) = []" for us
    by (induction us) (simp_all add: digestChunkRow_def cellDigest_def)
  then show "concat (distinct_op H [map (\<lambda>t. [VDateTime t]) ts]) = take 1 (map (\<lambda>t. [VDateTime t]) ts)"
    unfolding distinct_op_def distinct_chunks_first by (cases ts) (simp_all add: digestChunkRow_def cellDigest_def)
  show "concat (distinct_op H [[[VNull], [VDateTime t], [VTime u], [VDuration d]]]) = [[VNull]]"
    unfolding distinct_op_def distinct_chunks_first by (simp add: digestChunkRow_def cellDigest_def)
  show "concat (distinct_op sample_hash [[[VNull], [VInt 0], [VVertexRef 7], [VInt 7]]]) = [[VNull], [VVertexRef 7]]"
    unfolding distinct_op_def distinct_chunks_first by (simp add: digestChunkRow_def cellDigest_def sample_hash_def)
qed

section \<open>Hash tables\<close>

text \<open>
  What a table of rows needs of the relation on its keys: symmetry and transitivity on the keys in use.  A key need not be
  related to itself.
\<close>

locale row_table =
  fixes same :: "row \<Rightarrow> row \<Rightarrow> bool" and usable :: "row \<Rightarrow> bool"
  assumes same_sym: "usable a \<Longrightarrow> usable b \<Longrightarrow> same a b \<Longrightarrow> same b a"
    and same_trans: "usable a \<Longrightarrow> usable b \<Longrightarrow> usable c \<Longrightarrow> same a b \<Longrightarrow> same b c \<Longrightarrow> same a c"
begin

definition rows_of :: "row \<Rightarrow> hash_table \<Rightarrow> row list" where
  "rows_of key t = (case table_find same key t of None \<Rightarrow> [] | Some vs \<Rightarrow> vs)"

definition table_ok :: "hash_table \<Rightarrow> bool" where
  "table_ok t \<longleftrightarrow> (\<forall>(k, _) \<in> set t. usable k)"

lemma table_ok_add: "table_ok t \<Longrightarrow> usable k \<Longrightarrow> table_ok (table_add same k v t)"
  by (induction t) (auto simp: table_ok_def split: if_splits)

lemma rows_of_add:
  "table_ok t \<Longrightarrow> usable k \<Longrightarrow> usable key \<Longrightarrow> rows_of key (table_add same k v t) = rows_of key t @ (if same k key then [v] else [])"
proof (induction t)
  case Nil
  then show ?case by (simp add: rows_of_def)
next
  case (Cons e t)
  obtain k' vs where e: "e = (k', vs)" by (cases e)
  then have u: "usable k'" "table_ok t" using Cons.prems(1) by (simp_all add: table_ok_def)
  have "same k' key \<longleftrightarrow> same k key" if "same k' k"
    using same_trans [OF u(1) Cons.prems(2,3) that] same_trans [OF Cons.prems(2) u(1) Cons.prems(3)]
      same_sym [OF u(1) Cons.prems(2) that] by blast
  moreover have "same k' k" if "same k' key" "same k key"
    using that same_trans [OF u(1) Cons.prems(3,2)] same_sym [OF Cons.prems(2,3)] by blast
  ultimately show ?case using Cons.IH [OF u(2) Cons.prems(2,3)] by (auto simp: e rows_of_def)
qed

lemma rows_of_fold:
  "table_ok t \<Longrightarrow> list_all (\<lambda>r. usable (f r)) rows \<Longrightarrow> usable key \<Longrightarrow>
    rows_of key (fold (\<lambda>r. table_add same (f r) r) rows t) = rows_of key t @ filter (\<lambda>r. same (f r) key) rows"
  by (induction rows arbitrary: t) (simp_all add: rows_of_add table_ok_add)

lemma rows_of_build:
  assumes "list_all (\<lambda>r. usable (key_of cols r)) (concat right)" "usable key"
  shows "(case table_find same key (build_table same cols right) of None \<Rightarrow> [] | Some vs \<Rightarrow> vs) =
    filter (\<lambda>r. same (key_of cols r) key) (concat right)"
  using rows_of_fold [of "[]" "key_of cols" "concat right" key] assms
  by (simp add: rows_of_def table_ok_def build_table_def)

end

section \<open>Join keys\<close>

text \<open>The values a join key may hold: those of group keys, without an empty pointer.\<close>

definition joinable :: "bool \<Rightarrow> qvalue \<Rightarrow> bool" where
  "joinable n v = (case v of VEmpty _ \<Rightarrow> False | _ \<Rightarrow> groupable n v)"

fun null_free :: "qvalue \<Rightarrow> bool" where
  "null_free VNull = False"
| "null_free (VEmpty _) = False"
| "null_free (VList xs) = list_all null_free xs"
| "null_free (VPath xs) = list_all null_free xs"
| "null_free _ = True"

lemma joinable_groupable: "joinable n v \<Longrightarrow> groupable n v"
  by (cases v) (simp_all add: joinable_def)

lemma elements_equal_true:
  "length xs = length ys \<Longrightarrow> elements_equal tz xs ys hasNull = Some True \<longleftrightarrow> \<not> hasNull \<and> list_all2 (\<lambda>x y. valueEquals tz x y = Some True) xs ys"
  by (induction xs ys arbitrary: hasNull rule: list_induct2) (auto simp: unknown_or_true_def split: option.split)

lemma equals_list:
  "valueEquals tz (VList xs) b = Some True \<longleftrightarrow> (\<exists>ys. b = VList ys \<and> list_all2 (\<lambda>x y. valueEquals tz x y = Some True) xs ys)"
  by (cases b) (auto simp: elements_equal_true list_all2_lengthD)

lemma equals_path:
  "valueEquals tz (VPath xs) b = Some True \<longleftrightarrow> (\<exists>ys. b = VPath ys \<and> list_all2 (\<lambda>x y. valueEquals tz x y = Some True) xs ys)"
  by (cases b) (auto simp: elements_equal_true list_all2_lengthD)

lemma equals_scalar:
  "\<not> container a \<Longrightarrow> valueEquals tz a b = Some True \<longleftrightarrow> \<not> isNull a \<and> \<not> isNull b \<and> scalarEquals tz a b"
  by (cases a) auto

declare valueEquals.simps [simp del]

lemma null_free_scalar: "\<not> container a \<Longrightarrow> null_free a \<longleftrightarrow> \<not> isNull a"
  by (cases a) auto

lemma list_all2_strict:
  assumes "\<And>x y. x \<in> set xs \<Longrightarrow> P x y \<longleftrightarrow> Q x y \<and> R x \<and> R y"
  shows "list_all2 P xs ys \<longleftrightarrow> list_all2 Q xs ys \<and> list_all R xs \<and> list_all R ys"
  using assms by (auto simp: list_all2_conv_all_nth list_all_length)

lemma null_free_not_null: "null_free b \<Longrightarrow> \<not> isNull b"
  by (cases b) auto

lemma scalar_null_free: "scalarEquals tz a b \<Longrightarrow> \<not> isNull b \<Longrightarrow> null_free b"
  by (cases b) (auto simp: scalarEquals_iff split: if_splits)

text \<open>Known equality is the total equality on values without nulls.\<close>

lemma equals_content:
  "groupable n a \<Longrightarrow> valueEquals tz a b = Some True \<longleftrightarrow> valueContentEquals tz a b \<and> null_free a \<and> null_free b"
proof (induction a arbitrary: b)
  case (VList xs)
  then have "list_all2 (\<lambda>x y. valueEquals tz x y = Some True) xs ys \<longleftrightarrow>
      list_all2 (valueContentEquals tz) xs ys \<and> list_all null_free xs \<and> list_all null_free ys" for ys
    by (intro list_all2_strict) (simp add: list_all_iff)
  then show ?case by (auto simp: equals_list content_list)
next
  case (VPath xs)
  then have "list_all2 (\<lambda>x y. valueEquals tz x y = Some True) xs ys \<longleftrightarrow>
      list_all2 (valueContentEquals tz) xs ys \<and> list_all null_free xs \<and> list_all null_free ys" for ys
    by (intro list_all2_strict) (simp add: list_all_iff)
  then show ?case by (auto simp: equals_path content_path)
qed (auto simp: equals_scalar content_scalar null_free_scalar intro: scalar_null_free dest: null_free_not_null)

lemma content_null_free: "valueContentEquals tz a b \<Longrightarrow> null_free b \<Longrightarrow> groupable n a \<Longrightarrow> null_free a"
proof (induction a arbitrary: b)
  case (VList xs)
  then obtain ys where "b = VList ys" "list_all2 (valueContentEquals tz) xs ys" by (auto simp: content_list)
  with VList show ?case by (auto simp: list_all_length list_all2_conv_all_nth)
next
  case (VPath xs)
  then obtain ys where "b = VPath ys" "list_all2 (valueContentEquals tz) xs ys" by (auto simp: content_path)
  with VPath show ?case by (auto simp: list_all_length list_all2_conv_all_nth)
qed (auto simp: content_null dest: null_free_not_null)

lemma join_equals:
  assumes "joinable n a" "joinable n b"
  shows "joinValueEquals tz a b \<longleftrightarrow> valueContentEquals tz a b \<and> null_free a \<and> null_free b"
proof -
  have "joinValueEquals tz a b \<longleftrightarrow> valueEquals tz a b = Some True"
    using assms by (cases a; cases b) (auto simp: joinValueEquals_def joinable_def scalarEquals_iff equals_scalar)
  then show ?thesis using equals_content joinable_groupable [OF assms(1)] by simp
qed

lemma join_key_iff:
  assumes "list_all (joinable n) a" "list_all (joinable n) b"
  shows "KeyEq tz a b \<longleftrightarrow> RowEqual tz a b \<and> list_all null_free a \<and> list_all null_free b"
  unfolding KeyEq_def RowEqual_def using assms join_equals [of n _ _ tz]
  by (auto simp: list_all2_conv_all_nth list_all_length)

lemma join_key_hash:
  assumes "hash_ok H" "list_all (joinable n) a" "list_all (joinable n) b" "KeyEq tz a b"
  shows "KeyHash H a = KeyHash H b"
proof -
  have "list_all2 (\<lambda>x y. ValueHash H x = ValueHash H y) a b"
    using assms(2-4) content_hash [OF assms(1), of n] joinable_groupable join_equals
    unfolding KeyEq_def list_all_length list_all2_conv_all_nth by metis
  then show ?thesis unfolding KeyHash_def by (rule fold_hash)
qed

lemma row_equal_sym: "equivp tz \<Longrightarrow> list_all (groupable n) a \<Longrightarrow> RowEqual tz a b \<Longrightarrow> RowEqual tz b a"
  using content_sym [of tz n] by (auto simp: RowEqual_def list_all_length list_all2_conv_all_nth)

lemma row_equal_trans:
  assumes "equivp tz" "list_all (groupable n) a" "list_all (groupable n) b" "list_all (groupable n) c" "RowEqual tz a b" "RowEqual tz b c"
  shows "RowEqual tz a c"
  using assms(2-6) content_trans [OF assms(1)] unfolding RowEqual_def list_all_length list_all2_conv_all_nth by metis

definition join_keys :: "bool \<Rightarrow> (tz_name_ptr \<Rightarrow> tz_name_ptr \<Rightarrow> bool) \<Rightarrow> row \<Rightarrow> bool" where
  "join_keys n tz k \<longleftrightarrow> equivp tz \<and> list_all (joinable n) k"

lemma join_keysD: "join_keys n tz k \<Longrightarrow> equivp tz" "join_keys n tz k \<Longrightarrow> list_all (joinable n) k" "join_keys n tz k \<Longrightarrow> list_all (groupable n) k"
  using joinable_groupable by (auto simp: join_keys_def list_all_iff)

lemma row_equal_null_free: "RowEqual tz a b \<Longrightarrow> list_all null_free b \<Longrightarrow> list_all (groupable n) a \<Longrightarrow> list_all null_free a"
  using content_null_free by (fastforce simp: RowEqual_def list_all_length list_all2_conv_all_nth)

lemma same_key_iff:
  assumes "hash_ok H" "join_keys n tz a" "join_keys n tz b"
  shows "same_key H tz a b \<longleftrightarrow> RowEqual tz a b \<and> list_all null_free b"
  using join_key_iff [OF join_keysD(2) [OF assms(2)] join_keysD(2) [OF assms(3)], of tz]
    join_key_hash [OF assms(1) join_keysD(2) [OF assms(2)] join_keysD(2) [OF assms(3)], of tz]
    row_equal_null_free [of tz a b n] join_keysD(3) [OF assms(2)] by (auto simp: same_key_def)

interpretation join_table: row_table "same_key H tz" "join_keys n tz" for H tz n
proof
  fix a b c
  assume u: "join_keys n tz a" "join_keys n tz b"
  show "same_key H tz b a" if "same_key H tz a b"
    using that row_equal_sym [OF join_keysD(1,3) [OF u(1)], of b] join_key_iff [of n _ _ tz] u [THEN join_keysD(2)] by (auto simp: same_key_def)
  assume "join_keys n tz c"
  then show "same_key H tz a c" if "same_key H tz a b" "same_key H tz b c"
    using that row_equal_trans [OF join_keysD(1,3) [OF u(1)] join_keysD(3) [OF u(2)], of c] join_key_iff [of n _ _ tz]
      join_keysD(2,3) u by (auto simp: same_key_def)
qed

text \<open>
  C7. The hash join is the nested loop join: for each left row, in order, its concatenation with every right row whose key
  is equal, in order, whatever the batching of both inputs; a key with a null joins nothing.  The keys hold values as
  group keys do, none of them an empty pointer.
\<close>

theorem hash_join_nested_loop:
  assumes "equivp tz" "hash_ok H" "list_all (\<lambda>r. list_all (joinable n) (key_of rcols r)) (concat right)"
    "list_all (\<lambda>l. list_all (joinable n) (key_of lcols l)) (concat left)"
  shows "concat (hash_join_op H tz lcols rcols left right) =
    concat (map (\<lambda>l. map (\<lambda>r. l @ r)
      (filter (\<lambda>r. RowEqual tz (key_of rcols r) (key_of lcols l) \<and> list_all null_free (key_of lcols l)) (concat right))) (concat left))"
proof -
  have "concat (hash_join_op H tz lcols rcols left right) =
      concat (map (\<lambda>l. map (\<lambda>r. l @ r) (case table_find (same_key H tz) (key_of lcols l) (build_table (same_key H tz) rcols right) of
        None \<Rightarrow> [] | Some vs \<Rightarrow> vs)) (concat left))"
    unfolding hash_join_op_def Let_def by (induction left) (simp_all add: probe_chunk_def option.case_distrib cong: option.case_cong)
  also have "\<dots> = concat (map (\<lambda>l. map (\<lambda>r. l @ r)
      (filter (\<lambda>r. RowEqual tz (key_of rcols r) (key_of lcols l) \<and> list_all null_free (key_of lcols l)) (concat right))) (concat left))"
  proof (intro arg_cong [where f = concat] map_cong refl)
    fix l
    assume "l \<in> set (concat left)"
    with assms(1,4) have l: "join_keys n tz (key_of lcols l)" unfolding join_keys_def list_all_iff by blast
    have r: "list_all (\<lambda>r. join_keys n tz (key_of rcols r)) (concat right)" using assms(1,3) by (simp add: join_keys_def list_all_iff)
    show "(case table_find (same_key H tz) (key_of lcols l) (build_table (same_key H tz) rcols right) of None \<Rightarrow> [] | Some vs \<Rightarrow> vs) =
        filter (\<lambda>r. RowEqual tz (key_of rcols r) (key_of lcols l) \<and> list_all null_free (key_of lcols l)) (concat right)"
      unfolding join_table.rows_of_build [OF r l]
      by (rule filter_cong [OF refl]) (rule same_key_iff [OF assms(2) _ l], use r [unfolded list_all_iff] in blast)
  qed
  finally show ?thesis .
qed

theorem hash_join_nested_loop_witness:
  "concat (hash_join_op sample_hash (=) [0] [0] [[[VInt 1]], [[VNull], [VVertex sample_vertex]]]
      [[[VVertexRef 7, VInt 5]], [[VNull, VInt 6], [VVertexRef 7, VInt 8]]]) =
   [[VVertex sample_vertex, VVertexRef 7, VInt 5], [VVertex sample_vertex, VVertexRef 7, VInt 8]]"
  using hash_join_nested_loop [OF identity_equivp sample_hash_ok, of True "[0]"
      "[[[VVertexRef 7, VInt 5]], [[VNull, VInt 6], [VVertexRef 7, VInt 8]]]" "[0]" "[[[VInt 1]], [[VNull], [VVertex sample_vertex]]]"]
  by (simp add: key_of_def joinable_def RowEqual_def content_scalar scalarEquals_iff)

abbreviation sample_edge :: edge_value where
  "sample_edge \<equiv> \<lparr>ev_id = 9, ev_src_id = 1, ev_dst_id = 2, ev_label_id = 3, ev_seq = 0, ev_properties = None, ev_deleted = False\<rparr>"

abbreviation sample_edge_key :: query_edge_key where
  "sample_edge_key \<equiv> \<lparr>qe_id = 9, qe_src_id = 1, qe_dst_id = 2, qe_label_id = 3, qe_seq = 0\<rparr>"

text \<open>
  The hash of an edge that is still a key covers its end points and the hash of a materialised edge only its id: the two
  are equal as join keys and still the join of a row with the one and a row with the other is empty.
\<close>

theorem hash_join_misses_edge:
  "KeyEq tz [VEdgeKey sample_edge_key] [VEdge sample_edge] \<and>
   hash_join_op sample_hash tz [0] [0] [[[VEdge sample_edge]]] [[[VEdgeKey sample_edge_key]]] = []"
  by (simp add: KeyEq_def joinValueEquals_def hash_join_op_def probe_chunk_def build_table_def key_of_def same_key_def
      KeyHash_def fill_def flush_def sample_hash_def mix_def push_bit_eq_mult drop_bit_eq_div)

end
