(* ===== verification/Query_Compare.thy ===== *)
theory Query_Compare
  imports Query_Value
begin

text \<open>
  The comparison operators of \<^verbatim>\<open>query/dataset/row.hpp\<close> and the order of \<^verbatim>\<open>ORDER BY\<close>, \<^verbatim>\<open>min\<close> and \<^verbatim>\<open>max\<close> with the checked
  integer arithmetic of \<^verbatim>\<open>query/evaluator/columnar_kernels.hpp\<close>.
\<close>

section \<open>Three-valued comparison\<close>

definition string_less :: "string \<Rightarrow> string \<Rightarrow> bool" where
  "string_less a b \<longleftrightarrow> bytes_of_string a < bytes_of_string b"

definition compare_doubles :: "64 word \<Rightarrow> 64 word \<Rightarrow> int" where
  "compare_doubles da db = (if double_less da db then - 1 else if double_less db da then 1 else 0)"

definition compareValues :: "(tz_name_ptr \<Rightarrow> tz_name_ptr \<Rightarrow> bool) \<Rightarrow> qvalue \<Rightarrow> qvalue \<Rightarrow> int option" where
  "compareValues tz a b =
     (if isNull a \<or> isNull b then None
      else case valueEquals tz a b of
        None \<Rightarrow> None
      | Some True \<Rightarrow> Some 0
      | Some False \<Rightarrow>
          (case a of
             VInt la \<Rightarrow> (case b of
                 VInt lb \<Rightarrow> Some (if sint la < sint lb then - 1 else 1)
               | VDouble db \<Rightarrow> if double_nan db then None else Some (compare_doubles (double_of_int64 la) db)
               | _ \<Rightarrow> None)
           | VDouble da \<Rightarrow> (case b of
                 VDouble db \<Rightarrow> if double_nan da \<or> double_nan db then None else Some (compare_doubles da db)
               | VInt lb \<Rightarrow> if double_nan da then None else Some (compare_doubles da (double_of_int64 lb))
               | _ \<Rightarrow> None)
           | VString sa \<Rightarrow> (case b of VString sb \<Rightarrow> Some (if string_less sa sb then - 1 else 1) | _ \<Rightarrow> None)
           | VBool ba \<Rightarrow> (case b of VBool bb \<Rightarrow> Some (if ba = bb then 0 else if ba then 1 else - 1) | _ \<Rightarrow> None)
           | _ \<Rightarrow> None))"

section \<open>Sort order\<close>

text \<open>\<^verbatim>\<open>std::get\<close> on another alternative throws; dereferencing an empty pointer is undefined behaviour.\<close>

datatype cmp_error = Bad_Variant_Access | Null_Dereference

fun cypherTypeCategory :: "qvalue \<Rightarrow> nat" where
  "cypherTypeCategory VNull = 10"
| "cypherTypeCategory (VMap _) = 0"
| "cypherTypeCategory (VEmpty H_Map) = 0"
| "cypherTypeCategory (VVertexRef _) = 1"
| "cypherTypeCategory (VVertex _) = 1"
| "cypherTypeCategory (VEmpty H_Vertex) = 1"
| "cypherTypeCategory (VEdgeKey _) = 2"
| "cypherTypeCategory (VEdge _) = 2"
| "cypherTypeCategory (VEmpty H_Edge) = 2"
| "cypherTypeCategory (VList _) = 3"
| "cypherTypeCategory (VEmpty H_List) = 3"
| "cypherTypeCategory (VPathTopology _) = 4"
| "cypherTypeCategory (VEmpty H_PathTopology) = 4"
| "cypherTypeCategory (VPath _) = 4"
| "cypherTypeCategory (VEmpty H_Path) = 4"
| "cypherTypeCategory (VDateTime _) = 5"
| "cypherTypeCategory (VTime _) = 5"
| "cypherTypeCategory (VDuration _) = 5"
| "cypherTypeCategory (VString _) = 6"
| "cypherTypeCategory (VBool _) = 7"
| "cypherTypeCategory (VInt _) = 8"
| "cypherTypeCategory (VDouble _) = 8"
| "cypherTypeCategory (VBytes _) = 9"
| "cypherTypeCategory (VEmpty H_Bytes) = 9"

definition compareAsInt :: "64 word \<Rightarrow> 64 word \<Rightarrow> int" where
  "compareAsInt la lb = (if la = lb then 0 else if sint la < sint lb then - 1 else 1)"

definition compareAsDouble :: "64 word \<Rightarrow> 64 word \<Rightarrow> int" where
  "compareAsDouble a b =
     (if double_eq a b then 0
      else if double_nan a then (if double_nan b then 0 else 1)
      else if double_nan b then - 1
      else if double_less a b then - 1 else 1)"

definition compareString :: "string \<Rightarrow> string \<Rightarrow> int" where
  "compareString a b = (if a = b then 0 else if string_less a b then - 1 else 1)"

definition compareDateTime :: "date_time_value \<Rightarrow> date_time_value \<Rightarrow> int" where
  "compareDateTime a b = (if dt_kind a \<noteq> dt_kind b then 0 else if dt_less a b then - 1 else if dt_less b a then 1 else 0)"

definition compareTime :: "time_value \<Rightarrow> time_value \<Rightarrow> int" where
  "compareTime a b = (if tm_kind a \<noteq> tm_kind b then 0 else if tm_less a b then - 1 else if tm_less b a then 1 else 0)"

definition compareDuration :: "duration_value \<Rightarrow> duration_value \<Rightarrow> int" where
  "compareDuration a b =
     (let totalA = durationOrderNanos a; totalB = durationOrderNanos b
      in if totalA = totalB then 0 else if totalA < totalB then - 1 else 1)"

definition compareBytes :: "bytes \<Rightarrow> bytes \<Rightarrow> int" where
  "compareBytes a b = (if a = b then 0 else if a < b then - 1 else 1)"

text \<open>The visitor on two values of one category that are not lists.\<close>

definition scalarCompare :: "qvalue \<Rightarrow> qvalue \<Rightarrow> cmp_error + int" where
  "scalarCompare a b =
     (case a of
        VInt la \<Rightarrow> (case b of
            VDouble db \<Rightarrow> Inr (compareAsDouble (double_of_int64 la) db)
          | VInt lb \<Rightarrow> Inr (compareAsInt la lb)
          | _ \<Rightarrow> Inl Bad_Variant_Access)
      | VDouble da \<Rightarrow> (case b of
            VInt lb \<Rightarrow> Inr (compareAsDouble da (double_of_int64 lb))
          | VDouble db \<Rightarrow> Inr (compareAsDouble da db)
          | _ \<Rightarrow> Inl Bad_Variant_Access)
      | VString sa \<Rightarrow> (case b of VString sb \<Rightarrow> Inr (compareString sa sb) | _ \<Rightarrow> Inl Bad_Variant_Access)
      | VBool x \<Rightarrow> (case b of VBool y \<Rightarrow> Inr (if x = y then 0 else if x then 1 else - 1) | _ \<Rightarrow> Inl Bad_Variant_Access)
      | VEmpty H_List \<Rightarrow> Inl Null_Dereference
      | VDateTime x \<Rightarrow> (case b of VDateTime y \<Rightarrow> Inr (compareDateTime x y) | _ \<Rightarrow> Inl Bad_Variant_Access)
      | VTime x \<Rightarrow> (case b of VTime y \<Rightarrow> Inr (compareTime x y) | _ \<Rightarrow> Inl Bad_Variant_Access)
      | VDuration x \<Rightarrow> (case b of VDuration y \<Rightarrow> Inr (compareDuration x y) | _ \<Rightarrow> Inl Bad_Variant_Access)
      | VBytes x \<Rightarrow> Inr (case b of VBytes y \<Rightarrow> compareBytes x y | _ \<Rightarrow> 0)
      | _ \<Rightarrow> Inr 0)"

definition monostate :: "qvalue \<Rightarrow> bool" where
  "monostate v = (case v of VNull \<Rightarrow> True | _ \<Rightarrow> False)"

definition compare_null :: "bool \<Rightarrow> bool \<Rightarrow> int" where
  "compare_null aNull bNull = (if aNull \<and> bNull then 0 else if aNull then 1 else - 1)"

definition compare_sizes :: "nat \<Rightarrow> nat \<Rightarrow> int" where
  "compare_sizes na nb = (if na = nb then 0 else if na < nb then - 1 else 1)"

fun cypherCompareValues :: "qvalue \<Rightarrow> qvalue \<Rightarrow> cmp_error + int"
  and compareLists :: "qvalue list \<Rightarrow> qvalue list \<Rightarrow> cmp_error + int"
where
  "cypherCompareValues (VList la) b =
     (if monostate b then Inr (- 1)
      else if 3 \<noteq> cypherTypeCategory b then Inr (if 3 < cypherTypeCategory b then - 1 else 1)
      else case b of VList lb \<Rightarrow> compareLists la lb | _ \<Rightarrow> Inl Null_Dereference)"
| "cypherCompareValues a b =
     (if monostate a \<or> monostate b then Inr (compare_null (monostate a) (monostate b))
      else if cypherTypeCategory a \<noteq> cypherTypeCategory b
      then Inr (if cypherTypeCategory a < cypherTypeCategory b then - 1 else 1)
      else scalarCompare a b)"
| "compareLists (x # xs) (y # ys) =
     (case cypherCompareValues x y of
        Inl e \<Rightarrow> Inl e
      | Inr c \<Rightarrow> if c \<noteq> 0 then Inr c else compareLists xs ys)"
| "compareLists xs ys = Inr (compare_sizes (length xs) (length ys))"

section \<open>Checked arithmetic\<close>

abbreviation (input) kMax :: int where "kMax \<equiv> 9223372036854775807"
abbreviation (input) kMin :: int where "kMin \<equiv> - 9223372036854775808"

definition checkedAdd :: "64 word \<Rightarrow> 64 word \<Rightarrow> 64 word qres" where
  "checkedAdd lhs rhs =
     (if sint rhs > 0 \<and> sint lhs > kMax - sint rhs \<or> sint rhs < 0 \<and> sint lhs < kMin - sint rhs
      then Inl QE_Arithmetic else Inr (lhs + rhs))"

definition checkedSub :: "64 word \<Rightarrow> 64 word \<Rightarrow> 64 word qres" where
  "checkedSub lhs rhs =
     (if sint rhs < 0 \<and> sint lhs > kMax + sint rhs \<or> sint rhs > 0 \<and> sint lhs < kMin + sint rhs
      then Inl QE_Arithmetic else Inr (lhs - rhs))"

definition checkedMul :: "64 word \<Rightarrow> 64 word \<Rightarrow> 64 word qres" where
  "checkedMul lhs rhs =
     (if lhs = 0 \<or> rhs = 0 then Inr 0
      else if lhs = - 1 then (if sint rhs = kMin then Inl QE_Arithmetic else Inr (- rhs))
      else if rhs = - 1 then (if sint lhs = kMin then Inl QE_Arithmetic else Inr (- lhs))
      else if sint lhs > 0 \<and> (if sint rhs > 0 then sint lhs > kMax sdiv sint rhs else sint rhs < kMin sdiv sint lhs)
      then Inl QE_Arithmetic
      else if \<not> sint lhs > 0 \<and> (if sint rhs > 0 then sint lhs < kMin sdiv sint rhs else sint lhs < kMax sdiv sint rhs)
      then Inl QE_Arithmetic
      else Inr (lhs * rhs))"

definition checkedNegate :: "64 word \<Rightarrow> 64 word qres" where
  "checkedNegate v = (if sint v = kMin then Inl QE_Arithmetic else Inr (- v))"

definition checkedDivide :: "64 word \<Rightarrow> 64 word \<Rightarrow> 64 word qres" where
  "checkedDivide lhs rhs =
     (if rhs = 0 then Inl QE_Arithmetic
      else if sint lhs = kMin \<and> rhs = - 1 then Inr lhs
      else Inr (word_of_int (sint lhs sdiv sint rhs)))"

definition checkedModulo :: "64 word \<Rightarrow> 64 word \<Rightarrow> 64 word qres" where
  "checkedModulo lhs rhs =
     (if rhs = 0 then Inl QE_Arithmetic
      else if rhs = - 1 then Inr 0
      else Inr (word_of_int (sint lhs smod sint rhs)))"

end
