(* ===== verification/Query_Arithmetic.thy ===== *)
theory Query_Arithmetic
  imports Query_Compare Temporal_Proofs
begin

text \<open>The checked integer arithmetic of the evaluator gives the exact result or an error.\<close>

definition exact :: "int \<Rightarrow> 64 word qres" where
  "exact i = (if kMin \<le> i \<and> i \<le> kMax then Inr (word_of_int i) else Inl QE_Arithmetic)"

lemma sint_bounds: "kMin \<le> sint (w :: 64 word)" "sint (w :: 64 word) \<le> kMax"
  using sint_ge [of w] sint_lt [of w] by simp_all

lemma checked_add: "checkedAdd l r = exact (sint l + sint r)"
  using sint_bounds [of l] sint_bounds [of r] by (auto simp: checkedAdd_def exact_def)

lemma checked_sub: "checkedSub l r = exact (sint l - sint r)"
  using sint_bounds [of l] sint_bounds [of r] by (auto simp: checkedSub_def exact_def)

lemma checked_negate: "checkedNegate v = exact (- sint v)"
  using sint_bounds [of v] by (auto simp: checkedNegate_def exact_def)

lemma sint_special: "(w :: 64 word) = 0 \<longleftrightarrow> sint w = 0" "(w :: 64 word) = - 1 \<longleftrightarrow> sint w = - 1"
  by (auto intro: signed_word_eqI)

text \<open>The bounds a product is compared with before it is formed.\<close>

lemma quotient_above: "0 < b \<Longrightarrow> x > m div b \<longleftrightarrow> x * b > (m :: int)"
  using pos_imp_zdiv_neg_iff [of b "m + (- x) * b"] div_mult_self1 [of b m "- x"] by simp

lemma product_bounds:
  fixes l r :: int
  shows "0 < l \<Longrightarrow> 0 < r \<Longrightarrow> l > kMax sdiv r \<longleftrightarrow> l * r > kMax"
    "0 < l \<Longrightarrow> r < 0 \<Longrightarrow> r < kMin sdiv l \<longleftrightarrow> l * r < kMin"
    "l < 0 \<Longrightarrow> 0 < r \<Longrightarrow> l < kMin sdiv r \<longleftrightarrow> l * r < kMin"
    "l < 0 \<Longrightarrow> r < 0 \<Longrightarrow> l < kMax sdiv r \<longleftrightarrow> l * r > kMax"
  using quotient_above [of r kMax l] quotient_above [of l "- kMin" "- r"] quotient_above [of r "- kMin" "- l"]
    quotient_above [of "- r" kMax "- l"]
  by (simp_all add: signed_divide_int_def mult.commute) linarith+

lemma checked_mul: "checkedMul l r = exact (sint l * sint r)"
proof -
  have w: "word_of_int (sint l * sint r) = l * r" by simp
  have b: "kMin \<le> sint l" "kMin \<le> sint r" "sint l \<le> kMax" "sint r \<le> kMax" by (rule sint_bounds)+
  consider "l = 0 \<or> r = 0 \<or> l = - 1 \<or> r = - 1"
    | "0 < sint l" "0 < sint r" | "0 < sint l" "sint r < - 1" | "sint l < - 1" "0 < sint r" | "sint l < - 1" "sint r < - 1" unfolding sint_special by linarith
  then show ?thesis
  proof cases
    case 1
    then show ?thesis using b by (elim disjE) (simp_all add: checkedMul_def exact_def)
  next
    case 2
    then have "kMin \<le> sint l * sint r" using mult_pos_pos [of "sint l" "sint r"] by linarith
    with 2 show ?thesis using product_bounds(1) [of "sint l" "sint r"]
      by (simp add: checkedMul_def exact_def sint_special del: signed_eq_0_iff)
  next
    case 3
    then show ?thesis using product_bounds(2) [of "sint l" "sint r"] mult_pos_neg [of "sint l" "sint r"]
      by (simp add: checkedMul_def exact_def sint_special del: signed_eq_0_iff)
  next
    case 4
    then show ?thesis using product_bounds(3) [of "sint l" "sint r"] mult_neg_pos [of "sint l" "sint r"]
      by (simp add: checkedMul_def exact_def sint_special del: signed_eq_0_iff)
  next
    case 5
    then show ?thesis using product_bounds(4) [of "sint l" "sint r"] mult_neg_neg [of "sint l" "sint r"]
      by (simp add: checkedMul_def exact_def sint_special del: signed_eq_0_iff)
  qed
qed

lemma smod_sign: "(y :: int) \<noteq> 0 \<Longrightarrow> 0 \<le> (x smod y) * x"
  using smod_int_compares [of x y] smod_int_compares [of x "- y"]
  by (cases "0 \<le> x"; cases "0 < y") (auto simp: mult_nonneg_nonneg mult_nonpos_nonpos)

lemma min_negated: "sint (l :: 64 word) = kMin \<Longrightarrow> - l = l"
proof -
  assume "sint l = kMin"
  then have "l = 0x8000000000000000" by (intro signed_word_eqI) simp
  then show ?thesis by simp
qed

text \<open>
  C10. Integer addition, subtraction, multiplication and negation give the exact result, or the arithmetic error when it
  does not fit 64 bits.  Division and remainder fail for a zero divisor only, and otherwise satisfy the division equation
  with a remainder smaller than the divisor and of the sign of the dividend, also where the quotient wraps.
\<close>

theorem checked_arithmetic_exact:
  "checkedAdd l r = exact (sint l + sint r) \<and> checkedSub l r = exact (sint l - sint r) \<and>
   checkedMul l r = exact (sint l * sint r) \<and> checkedNegate l = exact (- sint l) \<and>
   (case (checkedDivide l r, checkedModulo l r) of
      (Inr q, Inr m) \<Rightarrow> r \<noteq> 0 \<and> q * r + m = l \<and> \<bar>sint m\<bar> < \<bar>sint r\<bar> \<and> 0 \<le> sint m * sint l
    | (Inl e, Inl e') \<Rightarrow> r = 0 \<and> e = QE_Arithmetic \<and> e' = QE_Arithmetic
    | _ \<Rightarrow> False)"
proof -
  have m: "\<bar>sint l smod sint r\<bar> < \<bar>sint r\<bar>" "0 \<le> (sint l smod sint r) * sint l" if "r \<noteq> 0"
    using that [unfolded sint_special] smod_int_range [of "sint r" "sint l"] smod_sign [of "sint r" "sint l"] by auto
  have "sint (word_of_int (sint l smod sint r) :: 64 word) = sint l smod sint r" if "r \<noteq> 0"
    by (rule sint_word_of_int) (use that m sint_bounds [of r] in auto)
  moreover have "word_of_int (sint l sdiv sint r) * r + word_of_int (sint l smod sint r) = l"
    using arg_cong [OF sdiv_mult_smod_eq [of "sint l" "sint r"], of "word_of_int :: int \<Rightarrow> 64 word"] by simp
  moreover have "\<bar>sint r\<bar> > 0" if "r \<noteq> 0" using that by (simp add: sint_special)
  ultimately show ?thesis using m min_negated [of l]
    by (auto simp: checked_add checked_sub checked_mul checked_negate checkedDivide_def checkedModulo_def)
qed

end
