(* ===== verification/Query_Sort.thy ===== *)
theory Query_Sort
  imports Query_Operator_Proofs Query_Arithmetic "HOL-Library.Multiset"
begin

text \<open>
  The operator of \<^verbatim>\<open>ORDER BY\<close> (\<^verbatim>\<open>query/physical_plan/operator/sort_physical_op.cpp\<close>) with its Top-N path.  The sort
  expressions are an argument that gives the keys of a row; \<^verbatim>\<open>std::sort\<close> and \<^verbatim>\<open>std::partial_sort\<close> are arguments with the
  contract of the standard, which leaves the order of equivalent elements open.
\<close>

section \<open>The operator\<close>

type_synonym ('a, 'e) comparator = "'a \<Rightarrow> 'a \<Rightarrow> 'e + bool"

text \<open>The loop over the keys of two rows, with the direction of each sort item.\<close>

fun keys_less :: "bool list \<Rightarrow> (row, cmp_error) comparator" where
  "keys_less (ascending # items) (va # as) (vb # bs) =
     (case cypherCompareValues va vb of
        Inl e \<Rightarrow> Inl e
      | Inr c \<Rightarrow> if c = 0 then keys_less items as bs else Inr (if ascending then c < 0 else c > 0))"
| "keys_less _ _ _ = Inr False"

text \<open>The columns of the last batch that has rows.\<close>

definition num_cols :: "chunk list \<Rightarrow> nat" where
  "num_cols child = (case filter (\<lambda>c. c \<noteq> []) child of [] \<Rightarrow> 0 | cs \<Rightarrow> length (hd (last cs)))"

definition all_rows :: "(row \<Rightarrow> row) \<Rightarrow> chunk list \<Rightarrow> row list" where
  "all_rows keys child = concat (map (map (\<lambda>row. row @ keys row)) child)"

definition rowLess :: "bool list \<Rightarrow> nat \<Rightarrow> (row, cmp_error) comparator" where
  "rowLess items n a b = keys_less items (drop n a) (drop n b)"

text \<open>References to the rows of the batches kept, and their order.\<close>

definition chunk_refs :: "nat \<Rightarrow> chunk \<Rightarrow> (nat \<times> nat) list" where
  "chunk_refs ci chunk = map (Pair ci) [0..<length chunk]"

definition all_refs :: "chunk list \<Rightarrow> (nat \<times> nat) list" where
  "all_refs chunks = concat (map (\<lambda>ci. chunk_refs ci (chunks ! ci)) [0..<length chunks])"

definition refLess :: "bool list \<Rightarrow> row list list \<Rightarrow> (nat \<times> nat, cmp_error) comparator" where
  "refLess items chunk_keys a b = keys_less items (chunk_keys ! fst a ! snd a) (chunk_keys ! fst b ! snd b)"

definition top_rows ::
  "((nat \<times> nat, cmp_error) comparator \<Rightarrow> nat \<Rightarrow> (nat \<times> nat) list \<Rightarrow> cmp_error + (nat \<times> nat) list) \<Rightarrow>
    bool list \<Rightarrow> (row \<Rightarrow> row) \<Rightarrow> nat \<Rightarrow> chunk list \<Rightarrow> cmp_error + chunk list" where
  "top_rows std_partial_sort items keys top_n child =
     (let chunks = filter (\<lambda>c. c \<noteq> []) child;
          refs = all_refs chunks;
          k = min top_n (length refs)
      in if refs = [] then Inr []
         else case std_partial_sort (refLess items (map (map keys) chunks)) k refs of
           Inl e \<Rightarrow> Inl e
         | Inr refs' \<Rightarrow> Inr (fill (map (\<lambda>(ci, ri). take (num_cols child) (chunks ! ci ! ri)) (take k refs'))))"

definition sorted_rows ::
  "((nat, cmp_error) comparator \<Rightarrow> nat list \<Rightarrow> cmp_error + nat list) \<Rightarrow>
    bool list \<Rightarrow> (row \<Rightarrow> row) \<Rightarrow> chunk list \<Rightarrow> cmp_error + chunk list" where
  "sorted_rows std_sort items keys child =
     (let rows = all_rows keys child; n = num_cols child
      in if rows = [] then Inr []
         else case std_sort (\<lambda>a b. rowLess items n (rows ! a) (rows ! b)) [0..<length rows] of
           Inl e \<Rightarrow> Inl e
         | Inr indices \<Rightarrow> Inr (fill (map (\<lambda>i. take n (rows ! i)) indices)))"

definition sort_op ::
  "((nat, cmp_error) comparator \<Rightarrow> nat list \<Rightarrow> cmp_error + nat list) \<Rightarrow>
    ((nat \<times> nat, cmp_error) comparator \<Rightarrow> nat \<Rightarrow> (nat \<times> nat) list \<Rightarrow> cmp_error + (nat \<times> nat) list) \<Rightarrow>
    bool list \<Rightarrow> (row \<Rightarrow> row) \<Rightarrow> nat option \<Rightarrow> chunk list \<Rightarrow> cmp_error + chunk list" where
  "sort_op std_sort std_partial_sort items keys limit_hint child =
     (case limit_hint of
        Some n \<Rightarrow> if n > 0 then top_rows std_partial_sort items keys n child else sorted_rows std_sort items keys child
      | None \<Rightarrow> sorted_rows std_sort items keys child)"

section \<open>Sorting algorithms\<close>

text \<open>What the standard asks of a comparison, and what it promises then.\<close>

definition strict_weak :: "('a, 'e) comparator \<Rightarrow> 'a set \<Rightarrow> bool" where
  "strict_weak lt A \<longleftrightarrow>
     (\<forall>a \<in> A. \<forall>b \<in> A. lt a b \<in> range Inr) \<and> (\<forall>a \<in> A. lt a a = Inr False) \<and>
     (\<forall>a \<in> A. \<forall>b \<in> A. \<forall>c \<in> A. lt a b = Inr True \<longrightarrow> lt b c = Inr True \<longrightarrow> lt a c = Inr True) \<and>
     (\<forall>a \<in> A. \<forall>b \<in> A. \<forall>c \<in> A. lt a b = Inr False \<longrightarrow> lt b c = Inr False \<longrightarrow> lt a c = Inr False)"

definition sort_contract :: "(('a, 'e) comparator \<Rightarrow> 'a list \<Rightarrow> 'e + 'a list) \<Rightarrow> bool" where
  "sort_contract srt \<longleftrightarrow> (\<forall>lt xs. strict_weak lt (set xs) \<longrightarrow>
     (\<exists>ys. srt lt xs = Inr ys \<and> mset ys = mset xs \<and> sorted_wrt (\<lambda>a b. lt b a = Inr False) ys))"

definition partial_sort_contract :: "(('a, 'e) comparator \<Rightarrow> nat \<Rightarrow> 'a list \<Rightarrow> 'e + 'a list) \<Rightarrow> bool" where
  "partial_sort_contract psrt \<longleftrightarrow> (\<forall>lt k xs. strict_weak lt (set xs) \<longrightarrow> k \<le> length xs \<longrightarrow>
     (\<exists>ys. psrt lt k xs = Inr ys \<and> mset ys = mset xs \<and> sorted_wrt (\<lambda>a b. lt b a = Inr False) (take k ys) \<and>
       (\<forall>a \<in> set (take k ys). \<forall>b \<in> set (drop k ys). lt b a = Inr False)))"

text \<open>An algorithm that meets both: insertion with a comparison that may fail.\<close>

fun insert_by :: "('a, 'e) comparator \<Rightarrow> 'a \<Rightarrow> 'a list \<Rightarrow> 'e + 'a list" where
  "insert_by lt x [] = Inr [x]"
| "insert_by lt x (y # ys) =
     (case lt x y of
        Inl e \<Rightarrow> Inl e
      | Inr True \<Rightarrow> Inr (x # y # ys)
      | Inr False \<Rightarrow> (case insert_by lt x ys of Inl e \<Rightarrow> Inl e | Inr zs \<Rightarrow> Inr (y # zs)))"

fun insertion_sort :: "('a, 'e) comparator \<Rightarrow> 'a list \<Rightarrow> 'e + 'a list" where
  "insertion_sort lt [] = Inr []"
| "insertion_sort lt (x # xs) =
     (case insertion_sort lt xs of Inl e \<Rightarrow> Inl e | Inr ys \<Rightarrow> insert_by lt x ys)"

end
