(* ===== verification/Query_Order.thy ===== *)
theory Query_Order
  imports Query_Sort
begin

text \<open>
  The order of values as a lexicographic order: values of the sortable kinds are ranked by lists of integers, and the
  comparison of the code is the comparison of the ranks.
\<close>

section \<open>Three-way comparison\<close>

definition cmp3 :: "'a::linorder \<Rightarrow> 'a \<Rightarrow> int" where
  "cmp3 x y = (if x = y then 0 else if x < y then - 1 else 1)"

lemma cmp3_simps [simp]: "cmp3 x x = 0" "cmp3 (x # xs) (y # ys) = (if x = y then cmp3 xs ys else cmp3 x y)"
    "cmp3 [] (y # ys) = - 1" "cmp3 (x # xs) [] = 1"
  by (auto simp: cmp3_def)

lemma cmp3_0_iff [simp]: "cmp3 x y = 0 \<longleftrightarrow> x = y"
  by (simp add: cmp3_def)

lemma cmp3_mono: "(f x < f y \<longleftrightarrow> x < y) \<Longrightarrow> (f y < f x \<longleftrightarrow> y < x) \<Longrightarrow> cmp3 (f x) (f y) = cmp3 x y"
  by (cases x y rule: linorder_cases) (auto simp: cmp3_def)

lemma cmp3_scale: "s = 1 \<or> s = - 1 \<Longrightarrow> cmp3 (s * x) (s * y) = s * cmp3 x (y :: int)"
  by (auto simp: cmp3_def)

text \<open>Sequences of integers of one sign, closed by a terminator.\<close>

definition coded :: "int \<Rightarrow> int list \<Rightarrow> int list" where
  "coded s ks = concat (map (\<lambda>i. [s, s * i]) ks) @ [0]"

lemma coded_simps [simp]: "coded s [] = [0]" "coded s (k # ks) = s # s * k # coded s ks"
  by (simp_all add: coded_def)

lemma cmp3_coded:
  "s = 1 \<or> s = - 1 \<Longrightarrow> cmp3 (coded s ks @ xs) (coded s ls @ ys) = (if ks = ls then cmp3 xs ys else s * cmp3 ks ls)"
proof (induction ks arbitrary: ls)
  case Nil
  then show ?case by (cases ls) (auto simp: cmp3_def)
next
  case (Cons k ks)
  show ?case
  proof (cases ls)
    case Nil
    then show ?thesis using Cons.prems by (auto simp: cmp3_def)
  next
    case (Cons l ls')
    then show ?thesis using Cons.IH [of ls'] \<open>s = 1 \<or> s = - 1\<close> cmp3_scale [of s k l] by auto
  qed
qed

section \<open>Ranks of values\<close>

datatype temporal_kind = K_DateTime byte | K_Time byte | K_Duration

text \<open>
  Values that sort together: the numbers all integers (\<open>n\<close>), or doubles with integers that are exact as doubles; temporal
  values of one kind \<open>k\<close>; no empty pointer.
\<close>

fun sortable :: "bool \<Rightarrow> temporal_kind \<Rightarrow> qvalue \<Rightarrow> bool" where
  "sortable n k (VInt i) = (n \<or> \<bar>sint i\<bar> \<le> 2 ^ 53)"
| "sortable n k (VDouble d) = (\<not> n)"
| "sortable n k (VDateTime x) = (k = K_DateTime (dt_kind x) \<and> dt_kind x \<in> {DT_DATE, DT_LOCAL_DATETIME, DT_DATETIME})"
| "sortable n k (VTime x) = (k = K_Time (tm_kind x))"
| "sortable n k (VDuration x) = (k = K_Duration)"
| "sortable n k (VList xs) = list_all (sortable n k) xs"
| "sortable n k (VEmpty _) = False"
| "sortable n k _ = True"

definition double_rank :: "64 word \<Rightarrow> int list" where
  "double_rank d = (if double_nan d then [1] else [0, double_key d])"

definition dt_rank :: "date_time_value \<Rightarrow> int list" where
  "dt_rank x = (if dt_kind x = DT_DATETIME then [dt_comparable x] else []) @
     [sint (dt_year x), sint (dt_month x), sint (dt_day x), sint (dt_hour x), sint (dt_minute x), sint (dt_second x), sint (dt_nanos x)]"

definition tm_rank :: "time_value \<Rightarrow> int list" where
  "tm_rank x = (if tm_kind x = TM_TIME then [tm_comparable x] else []) @
     [sint (tm_hour x), sint (tm_minute x), sint (tm_second x), sint (tm_nanos x)]"

fun scalar_rank :: "bool \<Rightarrow> qvalue \<Rightarrow> int list" where
  "scalar_rank n (VBool b) = [if b then 1 else 0]"
| "scalar_rank n (VInt i) = (if n then [sint i] else double_rank (double_of_int64 i))"
| "scalar_rank n (VDouble d) = double_rank d"
| "scalar_rank n (VString s) = map uint (bytes_of_string s)"
| "scalar_rank n (VDateTime x) = dt_rank x"
| "scalar_rank n (VTime x) = tm_rank x"
| "scalar_rank n (VDuration x) = [durationOrderNanos x]"
| "scalar_rank n (VBytes bs) = map uint bs"
| "scalar_rank n _ = []"

text \<open>The rank of a value in ascending (\<open>s = 1\<close>) or descending (\<open>s = - 1\<close>) order; an element of a list follows a mark.\<close>

fun rank :: "bool \<Rightarrow> int \<Rightarrow> qvalue \<Rightarrow> int list" where
  "rank n s (VList xs) = s * 3 # concat (map (\<lambda>x. s # rank n s x) xs) @ [0]"
| "rank n s v = s * int (cypherTypeCategory v) # coded s (scalar_rank n v)"

section \<open>Comparison of scalars\<close>

lemma double_of_int64_key:
  assumes "\<bar>sint i\<bar> \<le> 2 ^ 53" "\<bar>sint j\<bar> \<le> 2 ^ 53"
  shows "double_key (double_of_int64 i) < double_key (double_of_int64 j) \<longleftrightarrow> sint i < sint j"
  unfolding double_key_less double_scaled_of_int64 [OF assms(1)] double_scaled_of_int64 [OF assms(2)] by simp

lemma double_of_int64_number: "\<bar>sint i\<bar> \<le> 2 ^ 53 \<Longrightarrow> \<not> double_nan (double_of_int64 i)"
proof -
  assume i: "\<bar>sint i\<bar> \<le> 2 ^ 53"
  have c: "double_of_int64 9007199254740992 = 0x4340000000000000" "double_of_int64 (- 9007199254740992) = 0xC340000000000000"
    by (simp_all add: double_of_int64_def double_of_nat_def bit_length.simps round_even_def)
  have "\<not> double_key (double_of_int64 9007199254740992) < double_key (double_of_int64 i)"
    "\<not> double_key (double_of_int64 i) < double_key (double_of_int64 (- 9007199254740992))"
    using i by (simp_all add: double_of_int64_key)
  then have "\<bar>double_key (double_of_int64 i)\<bar> \<le> 0x4340000000000000"
    unfolding c by (auto simp: double_key_def take_bit_eq_mod)
  then show ?thesis by (auto simp: double_key_def double_nan_def word_less_def split: if_splits)
qed

lemma compare_double_rank: "compareAsDouble a b = cmp3 (double_rank a) (double_rank b)"
  by (auto simp: compareAsDouble_def double_rank_def double_eq_key double_less_def cmp3_def)

lemma compare_int_rank:
  assumes "sortable n k (VInt i)" "sortable n k (VInt j)"
  shows "compareAsInt i j = cmp3 (scalar_rank n (VInt i)) (scalar_rank n (VInt j))"
proof -
  have "i = j \<longleftrightarrow> sint i = sint j" by (auto intro: signed_word_eqI)
  then show ?thesis
    using assms double_of_int64_key [of i j] double_of_int64_key [of j i] double_of_int64_number [of i] double_of_int64_number [of j]
    by (auto simp: compareAsInt_def double_rank_def cmp3_def)
qed

lemma map_uint_less: "map uint xs < map uint ys \<longleftrightarrow> xs < (ys :: bytes)"
proof (induction xs arbitrary: ys)
  case Nil
  then show ?case by (cases ys) auto
next
  case (Cons x xs)
  have "uint x = uint y \<longleftrightarrow> x = y" "uint x < uint y \<longleftrightarrow> x < y" for y by (simp_all add: word_uint_eq_iff word_less_def)
  then show ?case using Cons.IH by (cases ys) simp_all
qed

lemma compare_bytes_rank: "compareBytes x y = cmp3 (map uint x) (map uint y)"
  by (subst cmp3_mono) (simp_all add: map_uint_less compareBytes_def cmp3_def)

lemma compare_string_rank: "compareString x y = cmp3 (map uint (bytes_of_string x)) (map uint (bytes_of_string y))"
proof -
  have "x = y \<longleftrightarrow> bytes_of_string x = bytes_of_string y" using string_of_bytes_of_string by metis
  then have "compareString x y = cmp3 (bytes_of_string x) (bytes_of_string y)"
    by (simp add: compareString_def string_less_def cmp3_def)
  then show ?thesis by (subst cmp3_mono) (simp_all add: map_uint_less)
qed

lemma sint_eq: "sint a = sint b \<longleftrightarrow> a = b"
  by (auto intro: signed_word_eqI)

lemma compare_less_rank:
  assumes "lt x y \<longleftrightarrow> r x < r y" "lt y x \<longleftrightarrow> r y < r x"
  shows "(if lt x y then - 1 else if lt y x then 1 else 0) = cmp3 (r x) (r y :: 'a::linorder)"
  using assms by (auto simp: cmp3_def)

lemma dt_less_rank:
  "dt_kind x = dt_kind y \<Longrightarrow> dt_kind x \<in> {DT_DATE, DT_LOCAL_DATETIME, DT_DATETIME} \<Longrightarrow> dt_less x y \<longleftrightarrow> dt_rank x < dt_rank y"
  by (auto simp: dt_less_def dt_rank_def dt_localFieldsLess_def sint_eq)

lemma tm_less_rank: "tm_kind x = tm_kind y \<Longrightarrow> tm_less x y \<longleftrightarrow> tm_rank x < tm_rank y"
  by (auto simp: tm_less_def tm_rank_def tm_localFieldsLess_def sint_eq)

lemma compare_datetime_rank:
  assumes "dt_kind x = dt_kind y" "dt_kind x \<in> {DT_DATE, DT_LOCAL_DATETIME, DT_DATETIME}"
  shows "compareDateTime x y = cmp3 (dt_rank x) (dt_rank y)"
  unfolding compareDateTime_def using assms compare_less_rank [of dt_less x y dt_rank] dt_less_rank [of x y] dt_less_rank [of y x] by simp

lemma compare_time_rank: "tm_kind x = tm_kind y \<Longrightarrow> compareTime x y = cmp3 (tm_rank x) (tm_rank y)"
  unfolding compareTime_def using compare_less_rank [of tm_less x y tm_rank] tm_less_rank [of x y] tm_less_rank [of y x] by simp

lemma scalar_compare_rank:
  assumes "sortable n k a" "sortable n k b" "cypherTypeCategory a = cypherTypeCategory b" "\<And>xs. a \<noteq> VList xs" "a \<noteq> VNull"
  shows "scalarCompare a b = Inr (cmp3 (scalar_rank n a) (scalar_rank n b))"
  using assms compare_int_rank [of n k]
  by (cases a; cases b)
    (simp_all add: scalarCompare_def compare_double_rank compare_bytes_rank compare_string_rank compare_datetime_rank
      compare_time_rank compareDuration_def cmp3_def)

section \<open>Comparison of values\<close>

text \<open>A comparison result that the ranks of both values show, in either direction and before any continuation.\<close>

definition ranked :: "(int \<Rightarrow> int list) \<Rightarrow> (int \<Rightarrow> int list) \<Rightarrow> cmp_error + int \<Rightarrow> bool" where
  "ranked f g r \<longleftrightarrow> (\<exists>c. r = Inr c \<and> (\<forall>s xs ys. (s = 1 \<or> s = - 1) \<longrightarrow>
     cmp3 (f s @ xs) (g s @ ys) = (if c = 0 then cmp3 xs ys else s * c)))"

fun is_list :: "qvalue \<Rightarrow> bool" where
  "is_list (VList _) = True"
| "is_list _ = False"

lemma compare_not_list:
  "\<not> is_list a \<Longrightarrow> cypherCompareValues a b =
     (if monostate a \<or> monostate b then Inr (compare_null (monostate a) (monostate b))
      else if cypherTypeCategory a \<noteq> cypherTypeCategory b
      then Inr (if cypherTypeCategory a < cypherTypeCategory b then - 1 else 1)
      else scalarCompare a b)"
  by (cases a) simp_all

lemma rank_scalar: "\<not> is_list v \<Longrightarrow> rank n s v = s * int (cypherTypeCategory v) # coded s (scalar_rank n v)"
  by (cases v) simp_all

lemma rank_head: "\<exists>ks. rank n s v = s * int (cypherTypeCategory v) # ks"
  by (cases v) simp_all

lemma category_list: "sortable n k v \<Longrightarrow> cypherTypeCategory v = 3 \<longleftrightarrow> is_list v"
  by (cases v) simp_all

lemma category_null: "sortable n k v \<Longrightarrow> cypherTypeCategory v < 10 \<longleftrightarrow> \<not> monostate v" "sortable n k v \<Longrightarrow> cypherTypeCategory v \<le> 10"
  by (cases v; simp add: monostate_def)+

lemma ranked_categories:
  assumes "cypherTypeCategory a \<noteq> cypherTypeCategory b"
  shows "ranked (\<lambda>s. rank n s a) (\<lambda>s. rank n s b) (Inr (if cypherTypeCategory a < cypherTypeCategory b then - 1 else 1))"
proof -
  have "cmp3 (rank n s a @ xs) (rank n s b @ ys) = s * (if cypherTypeCategory a < cypherTypeCategory b then - 1 else 1)"
    if "s = 1 \<or> s = - 1" for s xs ys
    using rank_head [of n s a] rank_head [of n s b] assms that by (auto simp: cmp3_def)
  then show ?thesis by (auto simp: ranked_def)
qed

lemma compare_categories:
  assumes "sortable n k a" "sortable n k b" "cypherTypeCategory a \<noteq> cypherTypeCategory b"
  shows "cypherCompareValues a b = Inr (if cypherTypeCategory a < cypherTypeCategory b then - 1 else 1)"
proof (cases "is_list a")
  case True
  then obtain xs where "a = VList xs" by (cases a) auto
  with assms show ?thesis using category_null [OF assms(2)] by (auto simp: monostate_def split: qvalue.splits)
next
  case False
  then show ?thesis using assms(3) category_null [OF assms(1)] category_null [OF assms(2)]
    by (auto simp: compare_not_list compare_null_def)
qed

lemma ranked_scalar:
  assumes "sortable n k a" "sortable n k b" "cypherTypeCategory a = cypherTypeCategory b" "\<not> is_list a"
  shows "ranked (\<lambda>s. rank n s a) (\<lambda>s. rank n s b) (cypherCompareValues a b)"
proof -
  have b: "\<not> is_list b" using assms category_list by metis
  have null: "monostate a \<longleftrightarrow> monostate b" using category_null(1) [OF assms(1)] category_null(1) [OF assms(2)] assms(3) by simp
  have "cypherCompareValues a b = Inr (cmp3 (scalar_rank n a) (scalar_rank n b))"
  proof (cases "monostate a")
    case True
    with null show ?thesis by (cases a; cases b) (simp_all add: monostate_def compare_null_def)
  next
    case False
    then have "scalarCompare a b = Inr (cmp3 (scalar_rank n a) (scalar_rank n b))"
      using assms by (intro scalar_compare_rank) (auto simp: monostate_def)
    with False null assms(3,4) show ?thesis by (simp add: compare_not_list)
  qed
  then show ?thesis using assms(3,4) b by (auto simp: ranked_def rank_scalar cmp3_coded)
qed

lemma ranked_lists:
  assumes "\<And>x y. x \<in> set la \<Longrightarrow> y \<in> set lb \<Longrightarrow> ranked (\<lambda>s. rank n s x) (\<lambda>s. rank n s y) (cypherCompareValues x y)"
  shows "ranked (\<lambda>s. concat (map (\<lambda>x. s # rank n s x) la) @ [0]) (\<lambda>s. concat (map (\<lambda>x. s # rank n s x) lb) @ [0]) (compareLists la lb)"
  using assms
proof (induction la lb rule: list_induct2')
  case 1
  then show ?case by (auto simp: ranked_def compare_sizes_def)
next
  case (2 x xs)
  then show ?case by (auto simp: ranked_def compare_sizes_def cmp3_def)
next
  case (3 y ys)
  then show ?case by (auto simp: ranked_def compare_sizes_def cmp3_def)
next
  case (4 x xs y ys)
  from 4(2) [of x y] obtain c where c: "cypherCompareValues x y = Inr c"
    "\<And>s us vs. s = 1 \<or> s = - 1 \<Longrightarrow> cmp3 (rank n s x @ us) (rank n s y @ vs) = (if c = 0 then cmp3 us vs else s * c)"
    unfolding ranked_def by auto
  have "ranked (\<lambda>s. concat (map (\<lambda>x. s # rank n s x) xs) @ [0]) (\<lambda>s. concat (map (\<lambda>x. s # rank n s x) ys) @ [0]) (compareLists xs ys)"
    using 4 by simp
  then show ?case using c by (auto simp: ranked_def)
qed

lemma ranked_values:
  "sortable n k a \<Longrightarrow> sortable n k b \<Longrightarrow> ranked (\<lambda>s. rank n s a) (\<lambda>s. rank n s b) (cypherCompareValues a b)"
proof (induction a arbitrary: b rule: qvalue.induct)
  case (VList la)
  show ?case
  proof (cases "is_list b")
    case True
    then obtain lb where b: "b = VList lb" by (cases b) auto
    have "ranked (\<lambda>s. concat (map (\<lambda>x. s # rank n s x) la) @ [0]) (\<lambda>s. concat (map (\<lambda>x. s # rank n s x) lb) @ [0]) (compareLists la lb)"
      using VList b by (intro ranked_lists) (simp add: list_all_iff)
    then show ?thesis using b by (simp add: ranked_def monostate_def)
  next
    case False
    then have ne: "cypherTypeCategory (VList la) \<noteq> cypherTypeCategory b" using category_list [OF VList.prems(2)] by simp
    show ?thesis unfolding compare_categories [OF VList.prems ne] by (rule ranked_categories [OF ne])
  qed
qed (metis compare_categories is_list.simps ranked_categories ranked_scalar)+

end
