(* ===== verification/Query_Sort_Proofs.thy ===== *)
theory Query_Sort_Proofs
  imports Query_Order
begin

text \<open>The sort operator returns the rows in the order of their keys, and the Top-N path returns what the full sort starts with.\<close>

section \<open>Order of rows\<close>

definition sort_rank :: "bool \<Rightarrow> bool list \<Rightarrow> row \<Rightarrow> int list" where
  "sort_rank n items ks = concat (map2 (\<lambda>ascending v. rank n (if ascending then 1 else - 1) v) items ks)"

lemma keys_less_rank:
  "length as = length items \<Longrightarrow> length bs = length items \<Longrightarrow> list_all (sortable n k) as \<Longrightarrow> list_all (sortable n k) bs \<Longrightarrow>
    keys_less items as bs = Inr (sort_rank n items as < sort_rank n items bs)"
proof (induction items as bs rule: keys_less.induct)
  case (1 asc items va as vb bs)
  let ?s = "if asc then 1 else - 1 :: int" and ?xs = "sort_rank n items as" and ?ys = "sort_rank n items bs"
  from 1 have "ranked (\<lambda>s. rank n s va) (\<lambda>s. rank n s vb) (cypherCompareValues va vb)" by (intro ranked_values) auto
  then obtain c where c: "cypherCompareValues va vb = Inr c"
    "cmp3 (rank n ?s va @ ?xs) (rank n ?s vb @ ?ys) = (if c = 0 then cmp3 ?xs ?ys else ?s * c)"
    unfolding ranked_def by fastforce
  have lt: "u < v \<longleftrightarrow> cmp3 u v < 0" for u v :: "int list" by (simp add: cmp3_def)
  have "keys_less items as bs = Inr (?xs < ?ys)" if "c = 0" using 1 c(1) that by simp
  moreover have "sort_rank n (asc # items) (va # as) < sort_rank n (asc # items) (vb # bs) \<longleftrightarrow>
      (if c = 0 then ?xs < ?ys else if asc then c < 0 else c > 0)"
    unfolding lt using c(2) by (simp add: sort_rank_def)
  ultimately show ?case using c(1) by simp
qed (simp_all add: sort_rank_def)

lemma strict_weak_rank:
  assumes "\<And>a b. a \<in> A \<Longrightarrow> b \<in> A \<Longrightarrow> lt a b = Inr (f a < (f b :: 'b::linorder))"
  shows "strict_weak lt A"
  using assms by (fastforce simp: strict_weak_def)

section \<open>Sorting by a rank\<close>

lemma sorted_map_rank:
  assumes "\<And>a b. a \<in> set ys \<Longrightarrow> b \<in> set ys \<Longrightarrow> lt a b = Inr (f a < (f b :: 'b::linorder))" "sorted_wrt (\<lambda>a b. lt b a = Inr False) ys"
  shows "sorted (map f ys)"
  unfolding sorted_wrt_map by (rule sorted_wrt_mono_rel [OF _ assms(2)]) (use assms(1) in auto)

lemma sort_by_rank:
  assumes "sort_contract srt" "\<And>a b. a \<in> set xs \<Longrightarrow> b \<in> set xs \<Longrightarrow> lt a b = Inr (f a < (f b :: 'b::linorder))"
  obtains ys where "srt lt xs = Inr ys" "mset ys = mset xs" "map f ys = sort (map f xs)"
proof -
  have "strict_weak lt (set xs)" by (rule strict_weak_rank) (rule assms(2))
  then obtain ys where ys: "srt lt xs = Inr ys" "mset ys = mset xs" "sorted_wrt (\<lambda>a b. lt b a = Inr False) ys"
    using assms(1) [unfolded sort_contract_def, rule_format] by blast
  then have "sorted (map f ys)" using assms(2) mset_eq_setD [OF ys(2)] by (intro sorted_map_rank) auto
  then have "map f ys = sort (map f xs)" using ys(2) by (intro properties_for_sort [symmetric]) simp_all
  with ys show ?thesis using that by blast
qed

lemma partial_sort_by_rank:
  assumes "partial_sort_contract psrt" "m \<le> length xs"
    "\<And>a b. a \<in> set xs \<Longrightarrow> b \<in> set xs \<Longrightarrow> lt a b = Inr (f a < (f b :: 'b::linorder))"
  obtains ys where "psrt lt m xs = Inr ys" "mset ys = mset xs" "map f (take m ys) = take m (sort (map f xs))"
proof -
  have "strict_weak lt (set xs)" by (rule strict_weak_rank) (rule assms(3))
  then obtain ys where ys: "psrt lt m xs = Inr ys" "mset ys = mset xs" "sorted_wrt (\<lambda>a b. lt b a = Inr False) (take m ys)"
      "\<forall>a \<in> set (take m ys). \<forall>b \<in> set (drop m ys). lt b a = Inr False"
    using assms(1) [unfolded partial_sort_contract_def, rule_format, OF _ assms(2)] by blast
  have sub: "set (take m ys) \<subseteq> set xs" "set (drop m ys) \<subseteq> set xs"
    using mset_eq_setD [OF ys(2)] set_take_subset [of m ys] set_drop_subset [of m ys] by simp_all
  have "sorted (map f (take m ys))" using ys(3) sub(1) assms(3) by (intro sorted_map_rank) auto
  moreover have "f a \<le> f b" if "a \<in> set (take m ys)" "b \<in> set (drop m ys)" for a b
  proof -
    have "lt b a = Inr False" "a \<in> set xs" "b \<in> set xs" using ys(4) that sub by blast+
    then show ?thesis using assms(3) [of b a] by simp
  qed
  ultimately have s: "sorted (map f (take m ys) @ sort (map f (drop m ys)))" by (auto simp: sorted_append)
  have "mset (map f (take m ys) @ sort (map f (drop m ys))) = mset (map f xs)"
    using arg_cong [OF ys(2), of "image_mset f"] arg_cong [OF append_take_drop_id [of m ys], of "\<lambda>l. image_mset f (mset l)"]
    by (simp del: append_take_drop_id)
  then have "sort (map f xs) = map f (take m ys) @ sort (map f (drop m ys))" using s by (rule properties_for_sort)
  moreover have "length ys = length xs" using mset_eq_length [OF ys(2)] .
  ultimately show ?thesis using ys(1,2) that assms(2) by simp
qed

section \<open>The operator\<close>

lemma all_rows_eq: "all_rows keys child = map (\<lambda>r. r @ keys r) (concat child)"
  by (simp add: all_rows_def map_concat)

lemma concat_nonempty: "concat (filter (\<lambda>c. c \<noteq> []) cs) = concat cs"
  by (induction cs) auto

lemma rows_at_refs: "map (\<lambda>(ci, ri). chunks ! ci ! ri) (all_refs chunks) = concat chunks"
proof -
  have "map (\<lambda>(ci, ri). chunks ! ci ! ri) (all_refs chunks) = concat (map (\<lambda>ci. map (\<lambda>ri. chunks ! ci ! ri) [0..<length (chunks ! ci)]) [0..<length chunks])"
    by (simp add: all_refs_def chunk_refs_def map_concat comp_def)
  also have "\<dots> = concat chunks" by (simp add: map_nth)
  finally show ?thesis .
qed

lemma all_refs_valid: "(ci, ri) \<in> set (all_refs chunks) \<Longrightarrow> ci < length chunks \<and> ri < length (chunks ! ci)"
  by (auto simp: all_refs_def chunk_refs_def)

lemma num_cols_uniform:
  assumes "list_all (\<lambda>r. length r = w) (concat child)" "concat child \<noteq> []"
  shows "num_cols child = w"
proof -
  let ?cs = "filter (\<lambda>c. c \<noteq> []) child"
  have ne: "?cs \<noteq> []" using assms(2) concat_nonempty [of child] by auto
  then have l: "last ?cs \<in> set ?cs" by (rule last_in_set)
  then have "hd (last ?cs) \<in> set (concat child)" by (auto intro!: bexI [of _ "last ?cs"])
  with assms(1) have "length (hd (last ?cs)) = w" unfolding list_all_iff by blast
  with ne show ?thesis by (cases ?cs) (simp_all add: num_cols_def)
qed

definition sort_input :: "bool \<Rightarrow> temporal_kind \<Rightarrow> nat \<Rightarrow> bool list \<Rightarrow> (row \<Rightarrow> row) \<Rightarrow> row list \<Rightarrow> bool" where
  "sort_input n k w items keys rows \<longleftrightarrow>
     list_all (\<lambda>r. length r = w \<and> length (keys r) = length items \<and> list_all (sortable n k) (keys r)) rows"

lemma sort_input_less:
  "sort_input n k w items keys rows \<Longrightarrow> a \<in> set rows \<Longrightarrow> b \<in> set rows \<Longrightarrow>
    keys_less items (keys a) (keys b) = Inr (sort_rank n items (keys a) < sort_rank n items (keys b))"
  by (rule keys_less_rank) (auto simp: sort_input_def list_all_iff)

lemma sort_input_width: "sort_input n k w items keys (concat child) \<Longrightarrow> concat child \<noteq> [] \<Longrightarrow> num_cols child = w"
  by (rule num_cols_uniform) (auto simp: sort_input_def list_all_iff)

lemma take_width: "sort_input n k w items keys rows \<Longrightarrow> r \<in> set rows \<Longrightarrow> take w (r @ ks) = r \<and> drop w (r @ ks) = ks"
  by (simp add: sort_input_def list_all_iff)

lemma mset_permuted: "mset idx = mset [0..<length xs] \<Longrightarrow> mset (map ((!) xs) idx) = mset xs"
  by (metis map_nth mset_map)

lemma mset_map_take: "mset (map f (take k xs)) \<subseteq># mset (map f xs)"
  by (metis append_take_drop_id map_append mset_append mset_subset_eq_add_left)

lemma map_eq_rel: "map f xs = map f ys \<Longrightarrow> list_all2 (\<lambda>a b. f a = f b) xs ys"
  by (induction xs arbitrary: ys) (auto simp: Cons_eq_map_conv)

lemma sorted_rows_correct:
  assumes "sort_contract srt" "sort_input n k w items keys (concat child)"
  obtains cs where "sorted_rows srt items keys child = Inr cs" "mset (concat cs) = mset (concat child)"
    "map (sort_rank n items \<circ> keys) (concat cs) = sort (map (sort_rank n items \<circ> keys) (concat child))"
proof (cases "concat child = []")
  case True
  then show ?thesis by (intro that [of "[]"]) (simp_all add: sorted_rows_def all_rows_eq del: concat_eq_Nil_conv)
next
  case False
  let ?rows = "concat child" and ?f = "sort_rank n items \<circ> keys"
  let ?g = "\<lambda>i. ?f (?rows ! i)" and ?all = "all_rows keys child"
  have w: "num_cols child = w" by (rule sort_input_width [OF assms(2) False])
  have len: "length ?all = length ?rows" "?all = [] \<longleftrightarrow> ?rows = []" by (simp_all add: all_rows_eq)
  have nth: "?all ! i = ?rows ! i @ keys (?rows ! i)" "?rows ! i \<in> set ?rows" if "i < length ?rows" for i
    using that nth_mem [of i ?rows] by (simp_all add: all_rows_eq del: set_concat)
  have less: "rowLess items w (?all ! a) (?all ! b) = Inr (?g a < ?g b)" if "a \<in> set [0..<length ?rows]" "b \<in> set [0..<length ?rows]" for a b
    using that nth take_width [OF assms(2)] sort_input_less [OF assms(2)] by (simp add: rowLess_def)
  obtain idx where idx: "srt (\<lambda>a b. rowLess items w (?all ! a) (?all ! b)) [0..<length ?rows] = Inr idx"
      "mset idx = mset [0..<length ?rows]" "map ?g idx = sort (map ?g [0..<length ?rows])"
    by (rule sort_by_rank [OF assms(1) less])
  have out: "map (\<lambda>i. take w (?all ! i)) idx = map ((!) ?rows) idx"
    using mset_eq_setD [OF idx(2)] nth take_width [OF assms(2)] by simp
  show ?thesis
  proof (rule that)
    show "sorted_rows srt items keys child = Inr (fill (map ((!) ?rows) idx))"
      using False idx(1) out len unfolding sorted_rows_def Let_def w by (simp del: concat_eq_Nil_conv map_eq_conv)
    show "mset (concat (fill (map ((!) ?rows) idx))) = mset ?rows" using mset_permuted [OF idx(2)] by simp
    have "map ?g [0..<length ?rows] = map ?f ?rows" by (rule nth_equalityI) auto
    then show "map ?f (concat (fill (map ((!) ?rows) idx))) = sort (map ?f ?rows)" using idx(3) by (simp add: comp_def)
  qed
qed

lemma top_rows_correct:
  assumes "partial_sort_contract psrt" "sort_input n k w items keys (concat child)"
  obtains cs where "top_rows psrt items keys m child = Inr cs" "mset (concat cs) \<subseteq># mset (concat child)"
    "map (sort_rank n items \<circ> keys) (concat cs) = take m (sort (map (sort_rank n items \<circ> keys) (concat child)))"
proof -
  let ?rows = "concat child" and ?f = "sort_rank n items \<circ> keys" and ?chunks = "filter (\<lambda>c. c \<noteq> []) child"
  let ?at = "\<lambda>(ci, ri). ?chunks ! ci ! ri" and ?refs = "all_refs ?chunks"
  let ?k = "min m (length ?refs)"
  have rows: "map ?at ?refs = ?rows" using rows_at_refs [of ?chunks] by (simp add: concat_nonempty)
  have len: "length ?refs = length ?rows" using arg_cong [OF rows, of length] by (simp only: length_map)
  have at: "?at r \<in> set ?rows" if "r \<in> set ?refs" for r
    using imageI [OF that, of ?at] arg_cong [OF rows, of set] by (simp only: set_map)
  have less: "refLess items (map (map keys) ?chunks) a b = Inr (?f (?at a) < ?f (?at b))" if "a \<in> set ?refs" "b \<in> set ?refs" for a b
    using that all_refs_valid [of "fst a" "snd a" ?chunks] all_refs_valid [of "fst b" "snd b" ?chunks]
      sort_input_less [OF assms(2) at [OF that(1)] at [OF that(2)]] by (simp add: refLess_def split_beta)
  obtain refs where refs: "psrt (refLess items (map (map keys) ?chunks)) ?k ?refs = Inr refs" "mset refs = mset ?refs"
      "map (\<lambda>r. ?f (?at r)) (take ?k refs) = take ?k (sort (map (\<lambda>r. ?f (?at r)) ?refs))"
    by (rule partial_sort_by_rank [OF assms(1) min.cobounded2 less])
  show ?thesis
  proof (cases "?rows = []")
    case True
    with len show ?thesis by (intro that [of "[]"]) (simp_all add: top_rows_def del: concat_eq_Nil_conv)
  next
    case False
    have w: "num_cols child = w" by (rule sort_input_width [OF assms(2) False])
    have ne: "?refs \<noteq> []" using False len by (metis length_0_conv)
    have mem: "r \<in> set ?refs" if "r \<in> set (take ?k refs)" for r using that set_take_subset [of ?k refs] mset_eq_setD [OF refs(2)] by blast
    have wd: "length (?at r) = w" if "r \<in> set (take ?k refs)" for r
      using at [OF mem [OF that]] assms(2) unfolding sort_input_def list_all_iff by blast
    have out: "map (\<lambda>(ci, ri). take w (?chunks ! ci ! ri)) (take ?k refs) = map ?at (take ?k refs)"
      by (intro map_cong refl) (use wd in \<open>simp add: split_beta\<close>)
    show ?thesis
    proof (rule that)
      show "top_rows psrt items keys m child = Inr (fill (map ?at (take ?k refs)))"
        using refs(1) out ne unfolding top_rows_def Let_def w by (simp del: map_eq_conv)
      have "mset (map ?at (take ?k refs)) \<subseteq># mset (map ?at refs)" by (rule mset_map_take)
      then show "mset (concat (fill (map ?at (take ?k refs)))) \<subseteq># mset ?rows" using arg_cong [OF refs(2), of "image_mset ?at"] arg_cong [OF rows, of mset] by simp
      have "map (\<lambda>r. ?f (?at r)) ?refs = map ?f ?rows" unfolding rows [symmetric] by simp
      then show "map ?f (concat (fill (map ?at (take ?k refs)))) = take m (sort (map ?f ?rows))" using refs(3) len by (simp add: comp_def min_def)
    qed
  qed
qed

text \<open>
  C6. \<open>ORDER BY\<close> returns the rows of its input, each once, with no row before one whose keys are less; with a limit pushed
  down to it, it returns as many rows of the input as the limit asks for, whose keys are equivalent one by one to those the
  full sort starts with.  This holds for keys whose numbers are all integers, or doubles and integers exact as doubles, and
  whose temporal values are of one kind, and for any algorithms that meet the contract of the standard.
\<close>

theorem order_by_top_n:
  assumes "sort_contract srt" "partial_sort_contract psrt" "sort_input n k w items keys (concat child)"
  shows "\<exists>full top. sort_op srt psrt items keys None child = Inr full \<and> mset (concat full) = mset (concat child) \<and>
    sorted_wrt (\<lambda>a b. keys_less items (keys b) (keys a) = Inr False) (concat full) \<and>
    sort_op srt psrt items keys (Some (Suc m)) child = Inr top \<and> mset (concat top) \<subseteq># mset (concat child) \<and>
    list_all2 (\<lambda>a b. keys_less items (keys a) (keys b) = Inr False \<and> keys_less items (keys b) (keys a) = Inr False)
      (concat top) (take (Suc m) (concat full))"
proof -
  let ?f = "sort_rank n items \<circ> keys"
  obtain full where full: "sorted_rows srt items keys child = Inr full" "mset (concat full) = mset (concat child)"
      "map ?f (concat full) = sort (map ?f (concat child))"
    by (rule sorted_rows_correct [OF assms(1,3)])
  obtain top where top: "top_rows psrt items keys (Suc m) child = Inr top" "mset (concat top) \<subseteq># mset (concat child)"
      "map ?f (concat top) = take (Suc m) (sort (map ?f (concat child)))"
    by (rule top_rows_correct [OF assms(2,3)])
  have sub: "set (concat full) = set (concat child)" "set (concat top) \<subseteq> set (concat child)"
    using mset_eq_setD [OF full(2)] set_mset_mono [OF top(2)] by simp_all
  have sub3: "set (take (Suc m) (concat full)) \<subseteq> set (concat child)" using sub(1) set_take_subset [of "Suc m" "concat full"] by blast
  note less = sort_input_less [OF assms(3)]
  have "sorted_wrt (\<lambda>a b. ?f a \<le> ?f b) (concat full)" using full(3) by (metis sorted_sort sorted_wrt_map)
  then have "sorted_wrt (\<lambda>a b. keys_less items (keys b) (keys a) = Inr False) (concat full)"
    by (rule sorted_wrt_mono_rel [rotated]) (use less sub(1) in \<open>auto simp del: set_concat\<close>)
  moreover have "list_all2 (\<lambda>a b. ?f a = ?f b) (concat top) (take (Suc m) (concat full))"
    by (rule map_eq_rel) (use top(3) full(3) in \<open>simp add: comp_def flip: take_map\<close>)
  then have "list_all2 (\<lambda>a b. keys_less items (keys a) (keys b) = Inr False \<and> keys_less items (keys b) (keys a) = Inr False)
      (concat top) (take (Suc m) (concat full))"
    by (rule list.rel_mono_strong)
      (use less [OF subsetD [OF sub(2)] subsetD [OF sub3]] less [OF subsetD [OF sub3] subsetD [OF sub(2)]] in \<open>simp del: set_concat\<close>)
  ultimately show ?thesis using full top by (auto simp: sort_op_def)
qed

section \<open>An algorithm that meets the contracts\<close>

lemma strict_weak_above:
  assumes "strict_weak lt A" "x \<in> A" "y \<in> A" "set ys \<subseteq> A" "lt x y = Inr True" "\<forall>b \<in> set ys. lt b y = Inr False"
  shows "lt y x = Inr False" "\<forall>b \<in> set ys. lt b x = Inr False"
proof -
  have "lt y x \<noteq> Inr True" "lt y x \<in> range Inr" using assms(1,2,3,5) unfolding strict_weak_def by (metis Inr_inject)+
  then show yx: "lt y x = Inr False" by auto
  show "\<forall>b \<in> set ys. lt b x = Inr False" using yx assms unfolding strict_weak_def by blast
qed

lemma insert_by_contract:
  assumes "strict_weak lt A" "x \<in> A" "set ys \<subseteq> A" "sorted_wrt (\<lambda>a b. lt b a = Inr False) ys"
  shows "\<exists>zs. insert_by lt x ys = Inr zs \<and> mset zs = add_mset x (mset ys) \<and> sorted_wrt (\<lambda>a b. lt b a = Inr False) zs"
  using assms(3,4)
proof (induction ys)
  case (Cons y ys)
  then have y: "y \<in> A" "set ys \<subseteq> A" by auto
  then have "lt x y \<in> range Inr" using assms(1,2) unfolding strict_weak_def by blast
  then obtain r where r: "lt x y = Inr r" by auto
  show ?case
  proof (cases r)
    case True
    have "lt b x = Inr False" if "b \<in> set (y # ys)" for b
      using strict_weak_above [OF assms(1,2) y] r True Cons.prems(2) that by auto
    then show ?thesis using True r Cons.prems by auto
  next
    case False
    obtain zs where "insert_by lt x ys = Inr zs" "mset zs = add_mset x (mset ys)" "sorted_wrt (\<lambda>a b. lt b a = Inr False) zs"
      using Cons by auto
    moreover from this have "set zs = insert x (set ys)" using mset_eq_setD [of zs "x # ys"] by simp
    ultimately show ?thesis using False r Cons.prems by auto
  qed
qed simp

lemma insertion_sort_contract: "sort_contract insertion_sort"
proof -
  have "\<exists>ys. insertion_sort lt xs = Inr ys \<and> mset ys = mset xs \<and> sorted_wrt (\<lambda>a b. lt b a = Inr False) ys"
    if "strict_weak lt A" "set xs \<subseteq> A" for lt :: "('a, 'b) comparator" and xs A
    using that(2)
  proof (induction xs)
    case (Cons x xs)
    then obtain ys where ys: "insertion_sort lt xs = Inr ys" "mset ys = mset xs" "sorted_wrt (\<lambda>a b. lt b a = Inr False) ys" by auto
    with Cons.prems show ?case using insert_by_contract [OF that(1), of x ys] mset_eq_setD [OF ys(2)] by auto
  qed simp
  then show ?thesis unfolding sort_contract_def by blast
qed

lemma insertion_partial_sort_contract: "partial_sort_contract (\<lambda>lt m. insertion_sort lt)"
  unfolding partial_sort_contract_def
proof (intro allI impI)
  fix lt :: "('a, 'b) comparator" and m xs
  assume "strict_weak lt (set xs)"
  then obtain ys where ys: "insertion_sort lt xs = Inr ys" "mset ys = mset xs" "sorted_wrt (\<lambda>a b. lt b a = Inr False) ys"
    using insertion_sort_contract unfolding sort_contract_def by blast
  then have "sorted_wrt (\<lambda>a b. lt b a = Inr False) (take m ys @ drop m ys)" by simp
  with ys show "\<exists>ys. insertion_sort lt xs = Inr ys \<and> mset ys = mset xs \<and> sorted_wrt (\<lambda>a b. lt b a = Inr False) (take m ys) \<and>
      (\<forall>a \<in> set (take m ys). \<forall>b \<in> set (drop m ys). lt b a = Inr False)"
    unfolding sorted_wrt_append by blast
qed

theorem order_by_top_n_witness:
  "\<exists>full top. sort_op insertion_sort (\<lambda>lt m. insertion_sort lt) [False] (\<lambda>r. r) None [[[VInt 1], [VDouble 0x4008000000000000]], [[VInt 2]]] = Inr full \<and>
    mset (concat full) = {#[VInt 1], [VDouble 0x4008000000000000], [VInt 2]#} \<and>
    sort_op insertion_sort (\<lambda>lt m. insertion_sort lt) [False] (\<lambda>r. r) (Some 2) [[[VInt 1], [VDouble 0x4008000000000000]], [[VInt 2]]] = Inr top \<and>
    length (concat top) = 2"
proof -
  have "sort_input False K_Duration 1 [False] (\<lambda>r. r) (concat [[[VInt 1], [VDouble 0x4008000000000000]], [[VInt 2]]])"
    by (simp add: sort_input_def)
  from order_by_top_n [OF insertion_sort_contract insertion_partial_sort_contract this, of 1]
  obtain full top where "sort_op insertion_sort (\<lambda>lt m. insertion_sort lt) [False] (\<lambda>r. r) None [[[VInt 1], [VDouble 0x4008000000000000]], [[VInt 2]]] = Inr full"
    "mset (concat full) = mset (concat [[[VInt 1], [VDouble 0x4008000000000000]], [[VInt 2]]])"
    "sort_op insertion_sort (\<lambda>lt m. insertion_sort lt) [False] (\<lambda>r. r) (Some (Suc 1)) [[[VInt 1], [VDouble 0x4008000000000000]], [[VInt 2]]] = Inr top"
    "length (concat top) = length (take (Suc 1) (concat full))"
    by (auto dest: list_all2_lengthD)
  moreover from this(2) have "length (concat full) = 3" using mset_eq_length by fastforce
  ultimately show ?thesis by (auto simp: numeral_2_eq_2)
qed

section \<open>Keys that do not sort\<close>


end
