(* ===== verification/Query_Aggregate.thy ===== *)
theory Query_Aggregate
  imports Query_Operator_Proofs Query_Compare
begin

text \<open>
  The operator of aggregation (\<^verbatim>\<open>query/physical_plan/operator/aggregate_physical_op.cpp\<close>) with the aggregate functions count,
  sum of integers, min, max and collect (\<^verbatim>\<open>query/function/aggregate\<close>).  The values of the group keys and of the arguments on
  a row are functions, as is an expression around inner aggregates; the address of a function definition is its number.
\<close>

section \<open>Aggregate functions\<close>

record 's func_def =
  fd_address :: nat
  agg_init :: 's
  agg_update :: "'s \<Rightarrow> row \<Rightarrow> cmp_error + 's"
  agg_finalize :: "'s \<Rightarrow> qvalue"

datatype agg_state = CountState "64 word" | Int64SumState "64 word" | MinMaxState qvalue | CollectState "qvalue list"

definition getInt64 :: "qvalue \<Rightarrow> 64 word" where
  "getInt64 v = (case v of VInt i \<Rightarrow> i | _ \<Rightarrow> 0)"

text \<open>Each update is called with the state of its own function only.\<close>

definition updateCountState :: "agg_state \<Rightarrow> row \<Rightarrow> cmp_error + agg_state" where
  "updateCountState s args = Inr (case s of CountState n \<Rightarrow> CountState (n + 1) | _ \<Rightarrow> s)"

definition updateInt64SumState :: "agg_state \<Rightarrow> row \<Rightarrow> cmp_error + agg_state" where
  "updateInt64SumState s args = Inr (case s of Int64SumState n \<Rightarrow> Int64SumState (n + getInt64 (hd args)) | _ \<Rightarrow> s)"

definition min_max_add :: "bool \<Rightarrow> qvalue \<Rightarrow> qvalue \<Rightarrow> cmp_error + qvalue" where
  "min_max_add is_min arg best =
     (if isNull arg then Inr best
      else if isNull best then Inr arg
      else case cypherCompareValues arg best of
        Inl e \<Rightarrow> Inl e
      | Inr cmp \<Rightarrow> Inr (if is_min then (if cmp < 0 then arg else best) else if cmp > 0 then arg else best))"

definition updateMinMaxState :: "bool \<Rightarrow> agg_state \<Rightarrow> row \<Rightarrow> cmp_error + agg_state" where
  "updateMinMaxState is_min s args =
     (case s of
        MinMaxState best \<Rightarrow> (case min_max_add is_min (hd args) best of Inl e \<Rightarrow> Inl e | Inr v \<Rightarrow> Inr (MinMaxState v))
      | _ \<Rightarrow> Inr s)"

definition updateCollectState :: "agg_state \<Rightarrow> row \<Rightarrow> cmp_error + agg_state" where
  "updateCollectState s args = Inr (case s of CollectState vs \<Rightarrow> CollectState (vs @ [hd args]) | _ \<Rightarrow> s)"

fun finalizeState :: "agg_state \<Rightarrow> qvalue" where
  "finalizeState (CountState n) = VInt n"
| "finalizeState (Int64SumState n) = VInt n"
| "finalizeState (MinMaxState v) = v"
| "finalizeState (CollectState vs) = VList vs"

definition count_def :: "agg_state func_def" where
  "count_def = \<lparr>fd_address = 0, agg_init = CountState 0, agg_update = updateCountState, agg_finalize = finalizeState\<rparr>"

definition int64_sum_def :: "agg_state func_def" where
  "int64_sum_def = \<lparr>fd_address = 1, agg_init = Int64SumState 0, agg_update = updateInt64SumState, agg_finalize = finalizeState\<rparr>"

definition min_def :: "agg_state func_def" where
  "min_def = \<lparr>fd_address = 2, agg_init = MinMaxState VNull, agg_update = updateMinMaxState True, agg_finalize = finalizeState\<rparr>"

definition max_def :: "agg_state func_def" where
  "max_def = \<lparr>fd_address = 3, agg_init = MinMaxState VNull, agg_update = updateMinMaxState False, agg_finalize = finalizeState\<rparr>"

definition collect_def :: "agg_state func_def" where
  "collect_def = \<lparr>fd_address = 4, agg_init = CollectState [], agg_update = updateCollectState, agg_finalize = finalizeState\<rparr>"

section \<open>The operator\<close>

record 's aggregate_expr =
  ae_func_def :: "'s func_def option"
  ae_arguments :: "row \<Rightarrow> row"
  ae_literal_null :: bool
  ae_distinct :: bool
  ae_is_internal :: bool
  ae_keeps_nulls :: bool
  ae_complex :: "(nat \<rightharpoonup> qvalue) \<Rightarrow> qvalue"

text \<open>The state of one aggregate in a group and the set of its distinct arguments.\<close>

type_synonym 's agg_cell = "'s option \<times> qvalue list"

definition init_group :: "'s aggregate_expr list \<Rightarrow> 's agg_cell list" where
  "init_group aggs = map (\<lambda>agg. (map_option agg_init (ae_func_def agg), [])) aggs"

definition distinct_insert ::
  "std_hash \<Rightarrow> (tz_name_ptr \<Rightarrow> tz_name_ptr \<Rightarrow> bool) \<Rightarrow> qvalue \<Rightarrow> qvalue list \<Rightarrow> qvalue list option" where
  "distinct_insert H tz v seen =
     (if list_ex (\<lambda>x. ValueHash H x = ValueHash H v \<and> valueContentEquals tz x v) seen then None else Some (seen @ [v]))"

definition skips_null :: "'s aggregate_expr \<Rightarrow> row \<Rightarrow> bool" where
  "skips_null agg args \<longleftrightarrow>
     \<not> ae_literal_null agg \<and> args \<noteq> [] \<and> isNull (hd args) \<and> \<not> (ae_keeps_nulls agg \<and> \<not> ae_distinct agg)"

definition update_aggregate ::
  "std_hash \<Rightarrow> (tz_name_ptr \<Rightarrow> tz_name_ptr \<Rightarrow> bool) \<Rightarrow> 's aggregate_expr \<Rightarrow> row \<Rightarrow> 's agg_cell \<Rightarrow> cmp_error + 's agg_cell" where
  "update_aggregate H tz agg row cell =
     (case (ae_func_def agg, fst cell) of
        (Some fd, Some st) \<Rightarrow>
          (let args = ae_arguments agg row; dedup_key = (if args = [] then VNull else hd args);
               inserted = (if ae_distinct agg then distinct_insert H tz dedup_key (snd cell) else Some (snd cell))
           in if skips_null agg args then Inr cell
              else case inserted of
                None \<Rightarrow> Inr cell
              | Some seen \<Rightarrow> (case agg_update fd st args of Inl e \<Rightarrow> Inl e | Inr st' \<Rightarrow> Inr (Some st', seen)))
      | _ \<Rightarrow> Inr cell)"

fun update_group ::
  "std_hash \<Rightarrow> (tz_name_ptr \<Rightarrow> tz_name_ptr \<Rightarrow> bool) \<Rightarrow> 's aggregate_expr list \<Rightarrow> row \<Rightarrow> 's agg_cell list \<Rightarrow> cmp_error + 's agg_cell list" where
  "update_group H tz (agg # aggs) row (cell # cells) =
     (case update_aggregate H tz agg row cell of
        Inl e \<Rightarrow> Inl e
      | Inr cell' \<Rightarrow> (case update_group H tz aggs row cells of Inl e \<Rightarrow> Inl e | Inr cells' \<Rightarrow> Inr (cell' # cells')))"
| "update_group H tz _ row cells = Inr cells"

text \<open>The groups in the order of their first rows; a key is found by its hash and its equality.\<close>

type_synonym 's groups = "(row \<times> 's agg_cell list) list"

definition same_group :: "std_hash \<Rightarrow> (tz_name_ptr \<Rightarrow> tz_name_ptr \<Rightarrow> bool) \<Rightarrow> row \<Rightarrow> row \<Rightarrow> bool" where
  "same_group H tz a b \<longleftrightarrow> RowHash H a = RowHash H b \<and> RowEqual tz a b"

fun group_row ::
  "(row \<Rightarrow> row \<Rightarrow> bool) \<Rightarrow> ('c \<Rightarrow> cmp_error + 'c) \<Rightarrow> 'c \<Rightarrow> row \<Rightarrow> (row \<times> 'c) list \<Rightarrow> cmp_error + (row \<times> 'c) list" where
  "group_row same update init key [] = (case update init of Inl e \<Rightarrow> Inl e | Inr c \<Rightarrow> Inr [(key, c)])"
| "group_row same update init key ((k, c) # groups) =
     (if same k key then (case update c of Inl e \<Rightarrow> Inl e | Inr c' \<Rightarrow> Inr ((k, c') # groups))
      else case group_row same update init key groups of Inl e \<Rightarrow> Inl e | Inr gs \<Rightarrow> Inr ((k, c) # gs))"

fun group_rows ::
  "std_hash \<Rightarrow> (tz_name_ptr \<Rightarrow> tz_name_ptr \<Rightarrow> bool) \<Rightarrow> 's aggregate_expr list \<Rightarrow> (row \<Rightarrow> row) \<Rightarrow> row list \<Rightarrow> 's groups \<Rightarrow> cmp_error + 's groups" where
  "group_rows H tz aggs keys [] groups = Inr groups"
| "group_rows H tz aggs keys (row # rows) groups =
     (case group_row (same_group H tz) (update_group H tz aggs row) (init_group aggs) (keys row) groups of
        Inl e \<Rightarrow> Inl e
      | Inr groups' \<Rightarrow> group_rows H tz aggs keys rows groups')"

text \<open>The results of the inner aggregates by the address of their function: a later one replaces an earlier one.\<close>

definition substitutions :: "'s aggregate_expr list \<Rightarrow> 's agg_cell list \<Rightarrow> nat \<rightharpoonup> qvalue" where
  "substitutions aggs cells =
     fold (\<lambda>(agg, cell) subs. case (ae_is_internal agg, ae_func_def agg, fst cell) of
         (True, Some fd, Some st) \<Rightarrow> subs(fd_address fd \<mapsto> agg_finalize fd st)
       | _ \<Rightarrow> subs) (zip aggs cells) Map.empty"

definition aggregate_value :: "'s aggregate_expr list \<Rightarrow> 's agg_cell list \<Rightarrow> 's aggregate_expr \<Rightarrow> 's agg_cell \<Rightarrow> qvalue" where
  "aggregate_value aggs cells agg cell =
     (case ae_func_def agg of
        Some fd \<Rightarrow> (case fst cell of Some st \<Rightarrow> agg_finalize fd st | None \<Rightarrow> VNull)
      | None \<Rightarrow> ae_complex agg (substitutions aggs cells))"

definition group_output :: "'s aggregate_expr list \<Rightarrow> row \<times> 's agg_cell list \<Rightarrow> row" where
  "group_output aggs = (\<lambda>(key, cells).
     key @ map (\<lambda>(agg, cell). aggregate_value aggs cells agg cell) (filter (\<lambda>(agg, cell). \<not> ae_is_internal agg) (zip aggs cells)))"

definition aggregate_op ::
  "std_hash \<Rightarrow> (tz_name_ptr \<Rightarrow> tz_name_ptr \<Rightarrow> bool) \<Rightarrow> nat \<Rightarrow> (row \<Rightarrow> row) \<Rightarrow> 's aggregate_expr list \<Rightarrow> chunk list \<Rightarrow> cmp_error + chunk list" where
  "aggregate_op H tz n_keys keys aggs child =
     (case group_rows H tz aggs keys (concat child) [] of
        Inl e \<Rightarrow> Inl e
      | Inr groups \<Rightarrow>
          if n_keys = 0 \<and> groups = [] \<and> aggs \<noteq> [] then Inr [[group_output aggs ([], init_group aggs)]]
          else Inr (fill (map (group_output aggs) groups)))"

end
