(* ===== verification/Query_Aggregate_Proofs.thy ===== *)
theory Query_Aggregate_Proofs
  imports Query_Aggregate Query_Order
begin

text \<open>
  Aggregation against its specification: the groups are the classes of rows with equal keys, in the order of their first
  rows, and each group folds the rows of its class in order.
\<close>

section \<open>Specification\<close>

text \<open>The first key of each class, and a fold that may fail.\<close>

definition first_keys :: "('a \<Rightarrow> 'a \<Rightarrow> bool) \<Rightarrow> 'a list \<Rightarrow> 'a list" where
  "first_keys same ks = fold (\<lambda>k acc. if list_ex (\<lambda>x. same x k) acc then acc else acc @ [k]) ks []"

fun try_fold :: "('r \<Rightarrow> 'c \<Rightarrow> 'e + 'c) \<Rightarrow> 'r list \<Rightarrow> 'c \<Rightarrow> 'e + 'c" where
  "try_fold f [] c = Inr c"
| "try_fold f (r # rs) c = (case f r c of Inl e \<Rightarrow> Inl e | Inr c' \<Rightarrow> try_fold f rs c')"

lemma try_fold_append:
  "try_fold f (rs @ qs) c = (case try_fold f rs c of Inl e \<Rightarrow> Inl e | Inr c' \<Rightarrow> try_fold f qs c')"
  by (induction rs arbitrary: c) (auto split: sum.split)

lemma first_keys_snoc:
  "first_keys same (ks @ [k]) = (if list_ex (\<lambda>x. same x k) (first_keys same ks) then first_keys same ks else first_keys same ks @ [k])"
  by (simp add: first_keys_def)

lemma first_keys_Nil [simp]: "first_keys same [] = []"
  by (simp add: first_keys_def)

lemma first_keys_empty: "first_keys same ks = [] \<longleftrightarrow> ks = []"
  by (cases ks rule: rev_cases) (auto simp: first_keys_snoc list_ex_iff)

lemma first_keys_subset: "set (first_keys same ks) \<subseteq> set ks"
  by (induction ks rule: rev_induct) (auto simp: first_keys_snoc split: if_splits)

lemma first_keys_sorted: "sorted_wrt (\<lambda>a b. \<not> same a b) (first_keys same ks)"
  by (induction ks rule: rev_induct) (auto simp: first_keys_snoc sorted_wrt_append list_ex_iff)

lemma group_rows_fold:
  "group_rows H tz aggs keys rows groups =
     try_fold (\<lambda>row. group_row (same_group H tz) (update_group H tz aggs row) (init_group aggs) (keys row)) rows groups"
  by (induction rows arbitrary: groups) (auto split: sum.split)

section \<open>Maps keyed on rows\<close>

text \<open>What a map with rows as keys needs of their equality, on the keys in use.\<close>

locale group_key =
  fixes same :: "row \<Rightarrow> row \<Rightarrow> bool" and usable :: "row \<Rightarrow> bool"
  assumes same_refl: "usable a \<Longrightarrow> same a a"
    and same_sym: "usable a \<Longrightarrow> usable b \<Longrightarrow> same a b \<Longrightarrow> same b a"
    and same_trans: "usable a \<Longrightarrow> usable b \<Longrightarrow> usable c \<Longrightarrow> same a b \<Longrightarrow> same b c \<Longrightarrow> same a c"
begin

lemma group_row_found:
  assumes "list_all usable ks" "usable key" "sorted_wrt (\<lambda>a b. \<not> same a b) ks" "list_ex (\<lambda>x. same x key) ks"
    "\<And>k. k \<in> set ks \<Longrightarrow> same k key \<Longrightarrow> update (f k) = Inr (g k)"
  shows "group_row same update init key (map (\<lambda>k. (k, f k)) ks) = Inr (map (\<lambda>k. (k, if same k key then g k else f k)) ks)"
  using assms
proof (induction ks)
  case (Cons k ks)
  show ?case
  proof (cases "same k key")
    case True
    have "\<not> same x key" if "x \<in> set ks" for x
      using Cons.prems that True same_trans [of k key x] same_sym [of x key] by (auto simp: list_all_iff)
    then show ?thesis using True Cons.prems(5) [of k] by simp
  next
    case False
    then show ?thesis using Cons by simp
  qed
qed simp

lemma group_row_new:
  "\<not> list_ex (\<lambda>x. same x key) ks \<Longrightarrow> update init = Inr c \<Longrightarrow>
    group_row same update init key (map (\<lambda>k. (k, f k)) ks) = Inr (map (\<lambda>k. (k, f k)) ks @ [(key, c)])"
  by (induction ks) simp_all

lemma first_keys_cover: "list_all usable ks \<Longrightarrow> k \<in> set ks \<Longrightarrow> \<exists>x \<in> set (first_keys same ks). same x k"
  by (induction ks rule: rev_induct) (auto simp: first_keys_snoc list_ex_iff intro: same_refl)

lemma class_empty:
  assumes "list_all (\<lambda>r. usable (keys r)) rows" "usable k" "\<not> list_ex (\<lambda>x. same x k) (first_keys same (map keys rows))"
  shows "filter (\<lambda>r. same k (keys r)) rows = []"
proof -
  have "\<not> same k (keys r)" if r: "r \<in> set rows" for r
  proof
    assume "same k (keys r)"
    moreover obtain x where x: "x \<in> set (first_keys same (map keys rows))" "same x (keys r)"
      using first_keys_cover [of "map keys rows" "keys r"] assms(1) r by (auto simp: list_all_iff)
    moreover have "usable x" "usable (keys r)" using x(1) first_keys_subset [of same "map keys rows"] assms(1) r by (auto simp: list_all_iff)
    ultimately have "same x k" using same_sym [of k "keys r"] same_trans [of x "keys r" k] assms(2) by blast
    with x(1) assms(3) show False by (auto simp: list_ex_iff)
  qed
  then show ?thesis by (auto simp: filter_empty_conv)
qed

lemma groups_of_rows:
  assumes "list_all (\<lambda>r. usable (keys r)) rows"
    "list_all (\<lambda>k. \<not> isl (try_fold update (filter (\<lambda>r. same k (keys r)) rows) init)) (first_keys same (map keys rows))"
  shows "try_fold (\<lambda>row. group_row same (update row) init (keys row)) rows [] =
    Inr (map (\<lambda>k. (k, projr (try_fold update (filter (\<lambda>r. same k (keys r)) rows) init))) (first_keys same (map keys rows)))"
  using assms
proof (induction rows rule: rev_induct)
  case (snoc r rows)
  let ?run = "\<lambda>k. try_fold update (filter (\<lambda>r. same k (keys r)) rows) init" and ?ks = "first_keys same (map keys rows)"
  let ?run' = "\<lambda>k. try_fold update (filter (\<lambda>r. same k (keys r)) (rows @ [r])) init"
  have run': "?run' k = (if same k (keys r) then (case ?run k of Inl e \<Rightarrow> Inl e | Inr c \<Rightarrow> update r c) else ?run k)" for k
    by (auto simp: try_fold_append split: sum.splits)
  have ok': "\<not> isl (?run' k)" if "k \<in> set (first_keys same (map keys (rows @ [r])))" for k using snoc.prems(2) that by (auto simp: list_all_iff)
  have ok: "\<not> isl (?run k)" if "k \<in> set ?ks" for k
  proof -
    have "\<not> isl (?run' k)" using that by (intro ok') (simp add: first_keys_snoc)
    then show ?thesis unfolding run' by (cases "?run k") (simp_all split: if_splits)
  qed
  have u: "list_all (\<lambda>r. usable (keys r)) rows" "usable (keys r)" using snoc.prems(1) by auto
  have uk: "list_all usable ?ks" using first_keys_subset [of same "map keys rows"] u(1) by (auto simp: list_all_iff)
  have IH: "try_fold (\<lambda>row. group_row same (update row) init (keys row)) rows [] = Inr (map (\<lambda>k. (k, projr (?run k))) ?ks)"
    using snoc.IH [OF u(1)] ok by (simp add: list_all_iff)
  show ?case
  proof (cases "list_ex (\<lambda>x. same x (keys r)) ?ks")
    case True
    have "update r (projr (?run k)) = Inr (projr (?run' k))" if "k \<in> set ?ks" "same k (keys r)" for k
      using that ok [of k] ok' [of k] run' [of k] True by (cases "?run k"; cases "?run' k") (auto simp: first_keys_snoc)
    then have "group_row same (update r) init (keys r) (map (\<lambda>k. (k, projr (?run k))) ?ks) =
        Inr (map (\<lambda>k. (k, if same k (keys r) then projr (?run' k) else projr (?run k))) ?ks)"
      by (rule group_row_found [OF uk u(2) first_keys_sorted True])
    moreover have "(if same k (keys r) then projr (?run' k) else projr (?run k)) = projr (?run' k)" for k
      unfolding run' by simp
    ultimately show ?thesis using IH True by (simp only: try_fold_append) (simp add: first_keys_snoc del: filter_append)
  next
    case False
    obtain c where c: "update r init = Inr c" "?run' (keys r) = Inr c"
      using ok' [of "keys r"] run' [of "keys r"] class_empty [OF u False] same_refl [OF u(2)] False
      by (cases "update r init") (auto simp: first_keys_snoc)
    have "map (\<lambda>k. (k, projr (?run' k))) ?ks = map (\<lambda>k. (k, projr (?run k))) ?ks"
      using False run' by (intro map_cong) (auto simp: list_ex_iff)
    moreover have "group_row same (update r) init (keys r) (map (\<lambda>k. (k, projr (?run k))) ?ks) =
        Inr (map (\<lambda>k. (k, projr (?run k))) ?ks @ [(keys r, c)])"
      by (rule group_row_new [OF False]) (rule c(1))
    ultimately show ?thesis using IH False c(2) by (simp only: try_fold_append) (simp add: first_keys_snoc del: filter_append)
  qed
qed simp

end

section \<open>Group keys\<close>

definition group_keys :: "bool \<Rightarrow> std_hash \<Rightarrow> (tz_name_ptr \<Rightarrow> tz_name_ptr \<Rightarrow> bool) \<Rightarrow> row \<Rightarrow> bool" where
  "group_keys n H tz k \<longleftrightarrow> hash_ok H \<and> equivp tz \<and> list_all (groupable n) k"

lemma row_equal_refl: "equivp tz \<Longrightarrow> list_all (groupable n) a \<Longrightarrow> RowEqual tz a a"
  unfolding RowEqual_def by (rule list.rel_refl_strong) (auto simp: list_all_iff intro: content_refl)

lemma same_group_iff:
  assumes "group_keys n H tz a" "group_keys n H tz b"
  shows "same_group H tz a b \<longleftrightarrow> RowEqual tz a b"
proof -
  have "list_all2 (\<lambda>x y. ValueHash H x = ValueHash H y) a b" if "RowEqual tz a b"
    using assms that content_hash [of H n] unfolding group_keys_def RowEqual_def list_all_length list_all2_conv_all_nth by metis
  then show ?thesis using fold_hash [of H a b 0] by (auto simp: same_group_def RowHash_def)
qed

interpretation groups: group_key "same_group H tz" "group_keys n H tz" for H tz n
proof
  fix a b c
  assume a: "group_keys n H tz a"
  show "same_group H tz a a" using a row_equal_refl [of tz n a] by (auto simp: same_group_iff group_keys_def)
  assume b: "group_keys n H tz b"
  show "same_group H tz b a" if "same_group H tz a b"
    using that a b row_equal_sym [of tz n a b] by (simp add: same_group_iff [of n]) (simp add: group_keys_def)
  assume c: "group_keys n H tz c"
  show "same_group H tz a c" if "same_group H tz a b" "same_group H tz b c"
    using that a b c row_equal_trans [of tz n a b c] by (simp add: same_group_iff [of n]) (simp add: group_keys_def)
qed

section \<open>The operator\<close>

lemma first_keys_cong:
  "(\<And>a b. a \<in> set ks \<Longrightarrow> b \<in> set ks \<Longrightarrow> same a b \<longleftrightarrow> same' a b) \<Longrightarrow> first_keys same ks = first_keys same' ks"
proof (induction ks rule: rev_induct)
  case (snoc k ks)
  then have "first_keys same ks = first_keys same' ks" by simp
  moreover have "list_ex (\<lambda>x. same x k) (first_keys same' ks) = list_ex (\<lambda>x. same' x k) (first_keys same' ks)"
    using snoc.prems first_keys_subset [of same' ks] by (auto simp: list_ex_iff subset_eq)
  ultimately show ?case by (simp add: first_keys_snoc)
qed simp

text \<open>The result of a class of rows, and the classes.\<close>

definition class_cells ::
  "std_hash \<Rightarrow> (tz_name_ptr \<Rightarrow> tz_name_ptr \<Rightarrow> bool) \<Rightarrow> 's aggregate_expr list \<Rightarrow> (row \<Rightarrow> row) \<Rightarrow> row list \<Rightarrow> row \<Rightarrow> cmp_error + 's agg_cell list" where
  "class_cells H tz aggs keys rows k =
     try_fold (update_group H tz aggs) (filter (\<lambda>r. RowEqual tz k (keys r)) rows) (init_group aggs)"

text \<open>
  C8. Aggregation yields one row per class of input rows with equal keys, in the order of the first rows of the classes: the
  key of that row and the results of the aggregates folded over the rows of the class in their order, whatever the
  batching of the input.  Without group keys an empty input yields the one row of initial values.  The keys hold values
  with the contract of group keys, and the updates of no class fail.
\<close>

theorem aggregate_by_classes:
  assumes "equivp tz" "hash_ok H" "list_all (\<lambda>r. list_all (groupable n) (keys r)) (concat child)"
    "list_all (\<lambda>k. \<not> isl (class_cells H tz aggs keys (concat child) k)) (first_keys (RowEqual tz) (map keys (concat child)))"
  shows "map_sum id concat (aggregate_op H tz n_keys keys aggs child) =
    Inr (if n_keys = 0 \<and> concat child = [] \<and> aggs \<noteq> [] then [group_output aggs ([], init_group aggs)]
      else map (\<lambda>k. group_output aggs (k, projr (class_cells H tz aggs keys (concat child) k)))
        (first_keys (RowEqual tz) (map keys (concat child))))"
proof -
  let ?rows = "concat child" and ?ks = "first_keys (RowEqual tz) (map keys (concat child))"
  have g: "group_keys n H tz (keys r)" if "r \<in> set ?rows" for r
    using assms(1-3) that unfolding group_keys_def list_all_iff by blast
  have ks: "first_keys (same_group H tz) (map keys ?rows) = ?ks"
    by (rule first_keys_cong) (use g same_group_iff [of n H tz] in \<open>auto simp del: set_concat\<close>)
  have cls: "filter (\<lambda>r. same_group H tz k (keys r)) ?rows = filter (\<lambda>r. RowEqual tz k (keys r)) ?rows" if "k \<in> set ?ks" for k
  proof (rule filter_cong [OF refl])
    fix r
    assume r: "r \<in> set ?rows"
    have "k \<in> keys ` set ?rows" using that first_keys_subset [of "RowEqual tz" "map keys ?rows"] by (auto simp del: set_concat)
    then show "same_group H tz k (keys r) = RowEqual tz k (keys r)" using g r same_group_iff [of n H tz] by (auto simp del: set_concat)
  qed
  have "group_rows H tz aggs keys ?rows [] = Inr (map (\<lambda>k. (k, projr (class_cells H tz aggs keys ?rows k))) ?ks)"
    unfolding group_rows_fold
    by (subst groups.groups_of_rows [of n H tz keys])
      (use g assms(4) cls in \<open>auto simp: ks class_cells_def list_all_iff simp del: set_concat cong: map_cong\<close>)
  moreover have "?ks = [] \<longleftrightarrow> ?rows = []"
    by (simp add: first_keys_empty del: concat_eq_Nil_conv)
  ultimately show ?thesis by (simp add: aggregate_op_def comp_def del: concat_eq_Nil_conv)
qed

abbreviation (input) sample_aggs :: "agg_state aggregate_expr list" where
  "sample_aggs \<equiv>
     [\<lparr>ae_func_def = Some count_def, ae_arguments = (\<lambda>r. [r ! 1]), ae_literal_null = False, ae_distinct = True, ae_is_internal = False,
       ae_keeps_nulls = False, ae_complex = (\<lambda>_. VNull)\<rparr>,
      \<lparr>ae_func_def = Some int64_sum_def, ae_arguments = (\<lambda>r. [r ! 1]), ae_literal_null = False, ae_distinct = False, ae_is_internal = False,
       ae_keeps_nulls = False, ae_complex = (\<lambda>_. VNull)\<rparr>]"

theorem aggregate_by_classes_witness:
  "map_sum id concat (aggregate_op sample_hash (=) 1 (\<lambda>r. [r ! 0]) sample_aggs
     [[[VNull, VInt 4], [VInt 1, VInt 5]], [[VNull, VInt 4], [VNull, VNull]]]) =
   Inr [[VNull, VInt 1, VInt 8], [VInt 1, VInt 1, VInt 5]]"
proof -
  let ?child = "[[[VNull, VInt 4], [VInt 1, VInt 5]], [[VNull, VInt 4], [VNull, VNull]]]" and ?keys = "\<lambda>r. [r ! 0]"
  have ks: "first_keys (RowEqual (=)) (map ?keys (concat ?child)) = [[VNull], [VInt 1]]"
    by (simp add: first_keys_def RowEqual_def content_scalar scalarEquals_iff)
  have "class_cells sample_hash (=) sample_aggs ?keys (concat ?child) [VNull] =
      Inr [(Some (CountState 1), [VInt 4]), (Some (Int64SumState 8), [])]"
    "class_cells sample_hash (=) sample_aggs ?keys (concat ?child) [VInt 1] =
      Inr [(Some (CountState 1), [VInt 5]), (Some (Int64SumState 5), [])]"
    by (simp_all add: class_cells_def RowEqual_def content_scalar scalarEquals_iff init_group_def update_aggregate_def skips_null_def
        distinct_insert_def count_def_def int64_sum_def_def updateCountState_def updateInt64SumState_def getInt64_def)
  then show ?thesis
    using aggregate_by_classes [OF identity_equivp sample_hash_ok, of True ?keys ?child sample_aggs 1] unfolding ks
    by (simp add: group_output_def aggregate_value_def count_def_def int64_sum_def_def)
qed

section \<open>The functions\<close>

lemma compare_by_rank:
  "sortable n k a \<Longrightarrow> sortable n k b \<Longrightarrow> cypherCompareValues a b = Inr (cmp3 (rank n 1 a) (rank n 1 b))"
  using ranked_values [of n k a b] unfolding ranked_def by (metis append_Nil2 cmp3_simps(1) mult_1)

definition at_least :: "bool \<Rightarrow> bool \<Rightarrow> qvalue \<Rightarrow> qvalue \<Rightarrow> bool" where
  "at_least n is_min m v \<longleftrightarrow> (if is_min then rank n 1 m \<le> rank n 1 v else rank n 1 v \<le> rank n 1 m)"

lemma min_max_add_best:
  assumes "sortable n k v" "sortable n k m" "\<not> isNull v" "\<not> isNull m"
  shows "\<exists>m'. min_max_add is_min v m = Inr m' \<and> m' \<in> {v, m} \<and> at_least n is_min m' v \<and> at_least n is_min m' m"
  using assms by (auto simp: min_max_add_def compare_by_rank [OF assms(1,2)] at_least_def cmp3_def split: if_splits)

lemma min_max_fold:
  assumes "list_all (\<lambda>v. sortable n k v \<and> \<not> isNull v) vs" "sortable n k m" "\<not> isNull m"
  shows "\<exists>m'. try_fold (min_max_add is_min) vs m = Inr m' \<and> m' \<in> insert m (set vs) \<and> (\<forall>v \<in> insert m (set vs). at_least n is_min m' v)"
  using assms
proof (induction vs arbitrary: m)
  case Nil
  then show ?case by (simp add: at_least_def)
next
  case (Cons v vs)
  obtain m1 where m1: "min_max_add is_min v m = Inr m1" "m1 \<in> {v, m}" "at_least n is_min m1 v" "at_least n is_min m1 m"
    using min_max_add_best [of n k v m is_min] Cons.prems by auto
  obtain m2 where m2: "try_fold (min_max_add is_min) vs m1 = Inr m2" "m2 \<in> insert m1 (set vs)" "\<forall>w \<in> insert m1 (set vs). at_least n is_min m2 w"
    using Cons.IH [of m1] Cons.prems m1(2) by auto
  have "at_least n is_min m2 w" if "at_least n is_min m1 w" for w
    using that m2(3) by (auto simp: at_least_def split: if_splits)
  then show ?case using m1 m2 by auto
qed

lemma min_max_states:
  "try_fold (\<lambda>v s. updateMinMaxState is_min s [v]) vs (MinMaxState m) = map_sum id MinMaxState (try_fold (min_max_add is_min) vs m)"
  by (induction vs arbitrary: m) (auto simp: updateMinMaxState_def split: sum.split)

text \<open>
  C40. Over the arguments of a class, count is their number and sum their integers' sum, both modulo \<open>2 ^ 64\<close>, collect
  lists them in order, and min and max are arguments that compare no greater and no less than any other; min and max are
  over at least one argument, without nulls, of the sortable kinds.
\<close>

theorem aggregate_functions_exact:
  assumes "list_all (\<lambda>v. sortable n k v \<and> \<not> isNull v) (v # vs)"
  shows "try_fold (\<lambda>v s. agg_update count_def s [v]) vs (agg_init count_def) = Inr (CountState (of_nat (length vs))) \<and>
    try_fold (\<lambda>v s. agg_update int64_sum_def s [v]) vs (agg_init int64_sum_def) =
      Inr (Int64SumState (word_of_int (\<Sum>v\<leftarrow>vs. sint (getInt64 v)))) \<and>
    try_fold (\<lambda>v s. agg_update collect_def s [v]) vs (agg_init collect_def) = Inr (CollectState vs) \<and>
    (\<exists>m \<in> set (v # vs). try_fold (\<lambda>v s. agg_update min_def s [v]) (v # vs) (agg_init min_def) = Inr (MinMaxState m) \<and>
      list_all (\<lambda>w. cypherCompareValues m w \<in> {Inr 0, Inr (- 1)}) (v # vs)) \<and>
    (\<exists>m \<in> set (v # vs). try_fold (\<lambda>v s. agg_update max_def s [v]) (v # vs) (agg_init max_def) = Inr (MinMaxState m) \<and>
      list_all (\<lambda>w. cypherCompareValues m w \<in> {Inr 0, Inr 1}) (v # vs))"
proof -
  have count: "try_fold (\<lambda>v s. updateCountState s [v]) vs (CountState c) = Inr (CountState (c + of_nat (length vs)))" for c
    by (induction vs arbitrary: c) (simp_all add: updateCountState_def algebra_simps)
  have sum: "try_fold (\<lambda>v s. updateInt64SumState s [v]) vs (Int64SumState c) =
      Inr (Int64SumState (c + word_of_int (\<Sum>v\<leftarrow>vs. sint (getInt64 v))))" for c
    by (induction vs arbitrary: c) (simp_all add: updateInt64SumState_def algebra_simps)
  have collect: "try_fold (\<lambda>v s. updateCollectState s [v]) vs (CollectState us) = Inr (CollectState (us @ vs))" for us
    by (induction vs arbitrary: us) (simp_all add: updateCollectState_def)
  have best: "\<exists>m \<in> set (v # vs). try_fold (\<lambda>v s. updateMinMaxState is_min s [v]) (v # vs) (MinMaxState VNull) = Inr (MinMaxState m) \<and>
      (\<forall>w \<in> set (v # vs). at_least n is_min m w)" for is_min
  proof -
    have "try_fold (min_max_add is_min) (v # vs) VNull = try_fold (min_max_add is_min) vs v" using assms by (simp add: min_max_add_def)
    then show ?thesis using min_max_fold [of n k vs v is_min] assms by (auto simp: min_max_states simp del: try_fold.simps)
  qed
  have cmp: "cypherCompareValues m w = Inr (cmp3 (rank n 1 m) (rank n 1 w))" if "m \<in> set (v # vs)" "w \<in> set (v # vs)" for m w
    by (rule compare_by_rank [of n k]) (use that assms in \<open>auto simp: list_all_iff\<close>)
  have res: "\<exists>m \<in> set (v # vs). try_fold (\<lambda>v s. updateMinMaxState is_min s [v]) (v # vs) (MinMaxState VNull) = Inr (MinMaxState m) \<and>
      list_all (\<lambda>w. cypherCompareValues m w \<in> {Inr 0, Inr (if is_min then - 1 else 1)}) (v # vs)" for is_min
  proof -
    obtain m where m: "m \<in> set (v # vs)" "try_fold (\<lambda>v s. updateMinMaxState is_min s [v]) (v # vs) (MinMaxState VNull) = Inr (MinMaxState m)"
        "\<forall>w \<in> set (v # vs). at_least n is_min m w" using best [of is_min] by blast
    have "cypherCompareValues m w \<in> {Inr 0, Inr (if is_min then - 1 else 1)}" if "w \<in> set (v # vs)" for w
      using bspec [OF m(3) that] cmp [OF m(1) that] by (cases is_min) (auto simp: at_least_def cmp3_def)
    then show ?thesis using m(1,2) unfolding list_all_iff by blast
  qed
  show ?thesis
    using count [of 0] sum [of 0] collect [of "[]"] res [of True] res [of False]
    by (simp add: count_def_def int64_sum_def_def collect_def_def min_def_def max_def_def del: try_fold.simps list.set list.pred_inject)
qed

theorem aggregate_functions_exact_witness:
  "try_fold (\<lambda>v s. agg_update count_def s [v]) [VInt 3, VInt 5] (agg_init count_def) = Inr (CountState 2) \<and>
   (\<exists>m \<in> {VInt 4, VInt 3, VInt 5}. try_fold (\<lambda>v s. agg_update min_def s [v]) [VInt 4, VInt 3, VInt 5] (agg_init min_def) = Inr (MinMaxState m) \<and>
     cypherCompareValues m (VInt 3) \<in> {Inr 0, Inr (- 1)})"
  using aggregate_functions_exact [of True K_Duration "VInt 4" "[VInt 3, VInt 5]"] by (auto simp del: try_fold.simps cypherCompareValues.simps)

end
