(* ===== verification/Temporal_Text.thy ===== *)
theory Temporal_Text
  imports Temporal_Proofs
begin

text \<open>
  The text forms of temporal values (\<^verbatim>\<open>common/types/temporal_value.cpp\<close>): printing of dates, times, date-times and
  durations, and parsing of all but durations, which goes through \<^verbatim>\<open>double\<close>.
\<close>

section \<open>Numbers and searches\<close>

definition is_digit :: "char \<Rightarrow> bool" where
  "is_digit c \<longleftrightarrow> 48 \<le> (of_char c :: nat) \<and> (of_char c :: nat) \<le> 57"

definition digit :: "nat \<Rightarrow> char" where
  "digit n = char_of (48 + n)"

fun decimal :: "nat \<Rightarrow> string" where
  "decimal n = (if n < 10 then [digit n] else decimal (n div 10) @ [digit (n mod 10)])"

declare decimal.simps [simp del]

definition number :: "string \<Rightarrow> int" where
  "number ds = foldl (\<lambda>n c. n * 10 + (of_char c - 48)) 0 ds"

text \<open>\<^verbatim>\<open>std::stoll\<close>: white space, a sign, as many digits as there are; what follows is ignored.\<close>

definition is_space :: "char \<Rightarrow> bool" where
  "is_space c \<longleftrightarrow> (of_char c :: nat) = 32 \<or> 9 \<le> (of_char c :: nat) \<and> (of_char c :: nat) \<le> 13"

definition sign_split :: "string \<Rightarrow> bool \<times> string" where
  "sign_split s = (case s of [] \<Rightarrow> (False, s)
     | c # t \<Rightarrow> if c = CHR ''-'' then (True, t) else if c = CHR ''+'' then (False, t) else (False, s))"

definition stoll :: "string \<Rightarrow> int res" where
  "stoll s =
     (let (negative, t) = sign_split (dropWhile is_space s); ds = takeWhile is_digit t;
          v = (if negative then - number ds else number ds)
      in if ds = [] then Inl (Runtime_Error ''stoll'')
         else if v < - 9223372036854775808 \<or> v > 9223372036854775807 then Inl Out_Of_Range else Inr v)"

text \<open>\<^verbatim>\<open>find\<close> and \<^verbatim>\<open>rfind\<close> of a character, and \<^verbatim>\<open>rfind\<close> up to a position.\<close>

definition find_char :: "string \<Rightarrow> char \<Rightarrow> nat option" where
  "find_char s c = find (\<lambda>i. s ! i = c) [0..<length s]"

definition rfind :: "string \<Rightarrow> char \<Rightarrow> nat option" where
  "rfind s c = find (\<lambda>i. s ! i = c) (rev [0..<length s])"

definition rfind_upto :: "string \<Rightarrow> char \<Rightarrow> nat \<Rightarrow> nat option" where
  "rfind_upto s c pos = rfind (take (pos + 1) s) c"

definition starts :: "string \<Rightarrow> (char \<Rightarrow> bool) \<Rightarrow> bool" where
  "starts s p \<longleftrightarrow> (case s of [] \<Rightarrow> False | c # _ \<Rightarrow> p c)"

section \<open>Printing\<close>

definition formatYear :: "int \<Rightarrow> string" where
  "formatYear year =
     (let abs_year = nat \<bar>year\<bar>; ds = decimal abs_year;
          padded = (if abs_year \<le> 9999 then replicate (4 - length ds) (CHR ''0'') @ ds else ds)
      in if year < 0 then CHR ''-'' # padded else if abs_year \<le> 9999 then padded else CHR ''+'' # padded)"

definition pad2 :: "int \<Rightarrow> string" where
  "pad2 v = [char_of (nat ((48 + (v sdiv 10) smod 10) mod 256)), char_of (nat ((48 + v smod 10) mod 256))]"

definition fmtSubsecond :: "int \<Rightarrow> string" where
  "fmtSubsecond nanos =
     (if nanos = 0 then ''''
      else let ds = decimal (nat \<bar>nanos\<bar>); s = replicate (9 - length ds) (CHR ''0'') @ ds
        in CHR ''.'' # rev (dropWhile (\<lambda>c. c = CHR ''0'') (rev s)))"

definition fmtOffset :: "int \<Rightarrow> string" where
  "fmtOffset offset_sec =
     (let abs_s = \<bar>offset_sec\<bar>; hours = abs_s div 3600; minutes = abs_s mod 3600 div 60; seconds = abs_s mod 60
      in (if offset_sec \<ge> 0 then ''+'' else ''-'') @ pad2 hours @ '':'' @ pad2 minutes @
         (if seconds \<noteq> 0 then '':'' @ pad2 seconds else ''''))"

definition fmtTimezone :: "int \<Rightarrow> string \<Rightarrow> string" where
  "fmtTimezone offset_sec tz_name =
     (if tz_name \<noteq> '''' then fmtOffset offset_sec @ ''['' @ tz_name @ '']''
      else if offset_sec = 0 then ''Z'' else fmtOffset offset_sec)"

definition fmtTimeOfDay :: "int \<Rightarrow> int \<Rightarrow> int \<Rightarrow> int \<Rightarrow> bool \<Rightarrow> string" where
  "fmtTimeOfDay hour minute second nanos always_seconds =
     pad2 hour @ '':'' @ pad2 minute @
     (if always_seconds \<or> second \<noteq> 0 \<or> nanos \<noteq> 0 then '':'' @ pad2 second @ fmtSubsecond nanos else '''')"

definition tzNameOrEmpty :: "tz_name_ptr \<Rightarrow> string" where
  "tzNameOrEmpty tz = (case tz of Some name \<Rightarrow> name | None \<Rightarrow> '''')"

definition fmtDate :: "date_time_value \<Rightarrow> string" where
  "fmtDate tv = formatYear (sint (dt_year tv)) @ ''-'' @ pad2 (sint (dt_month tv)) @ ''-'' @ pad2 (sint (dt_day tv))"

definition fmtDateTime :: "date_time_value \<Rightarrow> bool \<Rightarrow> string" where
  "fmtDateTime tv always_seconds =
     (let time = fmtTimeOfDay (sint (dt_hour tv)) (sint (dt_minute tv)) (sint (dt_second tv)) (sint (dt_nanos tv)) always_seconds
      in if dt_kind tv = DT_DATE then fmtDate tv
         else if dt_kind tv = DT_LOCAL_DATETIME then fmtDate tv @ ''T'' @ time
         else if dt_kind tv = DT_DATETIME
         then fmtDate tv @ ''T'' @ time @ fmtTimezone (sint (dt_tz_offset_sec tv)) (tzNameOrEmpty (dt_tz_name tv))
         else '''')"

definition fmtTime :: "time_value \<Rightarrow> bool \<Rightarrow> string" where
  "fmtTime tv always_seconds =
     fmtTimeOfDay (sint (tm_hour tv)) (sint (tm_minute tv)) (sint (tm_second tv)) (sint (tm_nanos tv)) always_seconds @
     (if tm_kind tv = TM_TIME then fmtTimezone (sint (tm_tz_offset_sec tv)) (tzNameOrEmpty (tm_tz_name tv)) else '''')"

text \<open>The sums below wrap in 64 bits.\<close>

definition signed_string :: "int \<Rightarrow> string" where
  "signed_string i = (if i < 0 then CHR ''-'' # decimal (nat (- i)) else decimal (nat i))"

definition normalize_seconds :: "int \<Rightarrow> int \<Rightarrow> int \<times> int" where
  "normalize_seconds total_sec nanos =
     (let (s, n) = (if total_sec \<le> 9223372036 \<and> total_sec \<ge> - 9223372036
                    then let total_ns = to_i64 (total_sec * 1000000000 + nanos) in (total_ns sdiv 1000000000, total_ns smod 1000000000)
                    else (total_sec, nanos))
      in if s < 0 \<and> n > 0 then (to_i64 (s + 1), to_i64 (n - 1000000000))
         else if s > 0 \<and> n < 0 then (to_i64 (s - 1), to_i64 (n + 1000000000)) else (s, n))"

definition unit_text :: "int \<Rightarrow> string \<Rightarrow> string" where
  "unit_text i unit = (if i \<noteq> 0 then signed_string i @ unit else '''')"

definition durationToString :: "duration_value \<Rightarrow> string" where
  "durationToString tv =
     (let (total_sec, nanos) = normalize_seconds (sint (du_seconds tv)) (sint (du_nanos tv));
          months = sint (du_months tv);
          hours = total_sec sdiv 3600; minutes = (total_sec smod 3600) sdiv 60; seconds = total_sec smod 60;
          seconds_text =
            (if nanos \<noteq> 0 then (if seconds = 0 \<and> nanos < 0 then ''-0'' else signed_string seconds) @ fmtSubsecond nanos @ ''S''
             else unit_text seconds ''S'');
          has_time = (hours \<noteq> 0 \<or> minutes \<noteq> 0 \<or> seconds \<noteq> 0 \<or> nanos \<noteq> 0);
          s = ''P'' @ unit_text (months sdiv 12) ''Y'' @ unit_text (months smod 12) ''M'' @ unit_text (sint (du_days tv)) ''D'' @
            (if has_time then ''T'' @ unit_text hours ''H'' @ unit_text minutes ''M'' @ seconds_text else '''')
      in if s = ''P'' then ''PT0S'' else s)"

section \<open>Parsing of dates\<close>

definition isoWeekToDate :: "int \<Rightarrow> int \<Rightarrow> int \<Rightarrow> int \<times> int \<times> int" where
  "isoWeekToDate iso_year iso_week iso_dow =
     (let jan4 = daysFromCivil iso_year 1 4;
          jan4_dow = ((jan4 smod 7) + 10) smod 7 + 1;
          week1_monday = jan4 - (jan4_dow - 1)
      in civilFromDays (week1_monday + (iso_week - 1) * 7 + (iso_dow - 1)))"

function ordinal_loop :: "int \<Rightarrow> int \<Rightarrow> int \<Rightarrow> int \<times> int" where
  "ordinal_loop year m ordinal =
     (if m \<le> 12 \<and> ordinal > daysInMonth year m then ordinal_loop year (m + 1) (ordinal - daysInMonth year m) else (m, ordinal))"
  by auto
termination
  by (relation "measure (\<lambda>(year, m, ordinal). nat (13 - m))") auto

declare ordinal_loop.simps [simp del]

definition ordinalToDate :: "int \<Rightarrow> int \<Rightarrow> int \<times> int" where
  "ordinalToDate year ordinal = ordinal_loop year 1 ordinal"

text \<open>Year, month and day are narrowed to their fields.\<close>

definition set_date :: "int \<Rightarrow> int \<Rightarrow> int \<Rightarrow> date_time_value" where
  "set_date y m d = new_datetime\<lparr>dt_year := word_of_int y, dt_month := word_of_int m, dt_day := word_of_int d\<rparr>"

definition date_from :: "string \<Rightarrow> string \<Rightarrow> string \<Rightarrow> date_time_value res" where
  "date_from ys ms ds = rbind (stoll ys) (\<lambda>y. rbind (stoll ms) (\<lambda>m. rbind (stoll ds) (\<lambda>d. Inr (set_date y m d))))"

definition ordinal_from :: "string \<Rightarrow> string \<Rightarrow> date_time_value res" where
  "ordinal_from ys os = rbind (stoll ys) (\<lambda>y. rbind (stoll os) (\<lambda>ordinal.
     let year = sint (word_of_int y :: 32 word); (m, d) = ordinalToDate year ordinal in Inr (set_date y m d)))"

definition all_digits :: "string \<Rightarrow> bool" where
  "all_digits s \<longleftrightarrow> list_all is_digit s"

definition dash_at :: "string \<Rightarrow> nat \<Rightarrow> bool" where
  "dash_at s i \<longleftrightarrow> i < length s \<and> s ! i = CHR ''-''"

text \<open>The dashes before the month and the day in \<^verbatim>\<open>...-MM-DD\<close>.\<close>

definition extended_dashes :: "string \<Rightarrow> (nat \<times> nat) option" where
  "extended_dashes s =
     (if length s \<ge> 10 then
        (case rfind s (CHR ''-'') of
           Some last_dash \<Rightarrow>
             if last_dash \<ge> 4 then
               (case rfind_upto s (CHR ''-'') (last_dash - 1) of
                  Some mid_dash \<Rightarrow> if last_dash - mid_dash = 3 then Some (mid_dash, last_dash) else None
                | None \<Rightarrow> None)
             else None
         | None \<Rightarrow> None)
      else None)"

definition week_from :: "string \<Rightarrow> nat \<Rightarrow> date_time_value res" where
  "week_from s wpos =
     rbind (stoll (take wpos s)) (\<lambda>iso_year.
     let extended = (wpos > 0 \<and> s ! (wpos - 1) = CHR ''-''); nums = drop (wpos + 1) s;
         week_digits = takeWhile is_digit nums; rest = dropWhile is_digit nums;
         week = (if extended then stoll week_digits else if length nums \<ge> 2 then stoll (take 2 nums) else Inr 0);
         dow = (if extended
                then (if rest \<noteq> [] then stoll (if hd rest = CHR ''-'' then tl rest else rest) else Inr 1)
                else if length nums > 2 then stoll (drop 2 nums) else Inr 1)
     in rbind week (\<lambda>iso_week. rbind dow (\<lambda>iso_dow.
          let (y, m, d) = isoWeekToDate iso_year iso_week iso_dow in Inr (set_date y m d))))"

definition parseDateFromStringRaw :: "string \<Rightarrow> date_time_value res" where
  "parseDateFromStringRaw s =
     (if s = [] then Inr new_datetime
      else case extended_dashes s of
        Some (mid_dash, last_dash) \<Rightarrow> date_from (take mid_dash s) (take 2 (drop (mid_dash + 1) s)) (drop (last_dash + 1) s)
      | None \<Rightarrow>
          if length s \<ge> 10 \<and> dash_at s 4 \<and> dash_at s 7 then date_from (take 4 s) (take 2 (drop 5 s)) (drop 8 s)
          else if length s = 8 \<and> CHR ''-'' \<notin> set s \<and> CHR ''W'' \<notin> set s \<and> CHR ''w'' \<notin> set s
          then date_from (take 4 s) (take 2 (drop 4 s)) (take 2 (drop 6 s))
          else if CHR ''W'' \<in> set s \<or> CHR ''w'' \<in> set s
          then week_from s (case find_char s (CHR ''W'') of Some i \<Rightarrow> i | None \<Rightarrow> the (find_char s (CHR ''w'')))
          else if length s = 7 \<and> dash_at s 4 \<and> rfind s (CHR ''-'') = Some 4 then date_from (take 4 s) (take 2 (drop 5 s)) ''1''
          else if length s = 8 \<and> dash_at s 4 then ordinal_from (take 4 s) (drop 5 s)
          else if length s = 7 \<and> all_digits s then ordinal_from (take 4 s) (drop 4 s)
          else if length s = 6 \<and> all_digits s then date_from (take 4 s) (take 2 (drop 4 s)) ''1''
          else if length s = 4 \<and> all_digits s then date_from s ''1'' ''1''
          else Inr new_datetime)"

definition parseDateFromString :: "string \<Rightarrow> date_time_value res" where
  "parseDateFromString s =
     rbind (parseDateFromStringRaw s) (\<lambda>tv.
       if sint (dt_year tv) < - 999999999 \<or> sint (dt_year tv) > 999999999
       then Inl (Runtime_Error ''Text cannot be parsed to a Date'') else Inr tv)"

section \<open>Parsing of times\<close>

definition parseTzOffset :: "string \<Rightarrow> int res" where
  "parseTzOffset tz =
     (if tz = '''' \<or> tz = ''Z'' \<or> tz = ''+00:00'' \<or> tz = ''-00:00'' then Inr 0
      else if CHR ''/'' \<in> set tz then Inr 0
      else let sgn_f = (if hd tz = CHR ''-'' then - 1 else 1);
               rest = (if hd tz = CHR ''+'' \<or> hd tz = CHR ''-'' then tl tz else tz);
               offset = (\<lambda>h m s. Inr (sint (word_of_int (sgn_f * (h * 3600 + m * 60 + s)) :: 32 word)))
        in case find_char rest (CHR '':'') of
             Some col1 \<Rightarrow>
               rbind (stoll (take col1 rest)) (\<lambda>hours.
               let more = drop (col1 + 1) rest
               in case find_char more (CHR '':'') of
                    Some col2 \<Rightarrow> rbind (stoll (take col2 more)) (\<lambda>minutes. rbind (stoll (drop (col2 + 1) more)) (\<lambda>seconds. offset hours minutes seconds))
                  | None \<Rightarrow> rbind (stoll more) (\<lambda>minutes. offset hours minutes 0))
           | None \<Rightarrow>
               if length rest \<ge> 2 then
                 rbind (stoll (take 2 rest)) (\<lambda>hours.
                 if length rest \<ge> 4 then rbind (stoll (take 2 (drop 2 rest))) (\<lambda>minutes. offset hours minutes 0)
                 else offset hours 0 0)
               else offset 0 0 0)"

text \<open>A two-digit component at the head of the text left, and the text behind it.\<close>

definition component :: "string \<Rightarrow> (int \<times> string) res" where
  "component rest = rbind (stoll (take 2 rest)) (\<lambda>v. Inr (v, drop 2 rest))"

definition compact_fields :: "string \<Rightarrow> (int \<times> int \<times> int \<times> string) res" where
  "compact_fields s =
     rbind (component s) (\<lambda>(h, rest). rbind (component rest) (\<lambda>(m, rest).
       if starts rest is_digit then rbind (component rest) (\<lambda>(sec, rest). Inr (h, m, sec, rest)) else Inr (h, m, 0, rest)))"

definition separated_fields :: "string \<Rightarrow> (int \<times> int \<times> int \<times> string) res" where
  "separated_fields s =
     rbind (stoll (takeWhile is_digit s)) (\<lambda>h.
     let rest = dropWhile is_digit s; rest = (if starts rest (\<lambda>c. c = CHR '':'') then tl rest else rest)
     in rbind (if starts rest is_digit then component rest else Inr (0, rest)) (\<lambda>(m, rest).
        if starts rest (\<lambda>c. c = CHR '':'') then rbind (component (tl rest)) (\<lambda>(sec, rest). Inr (h, m, sec, rest))
        else if starts rest is_digit then rbind (component rest) (\<lambda>(sec, rest). Inr (h, m, sec, rest))
        else Inr (h, m, 0, rest)))"

definition fraction :: "string \<Rightarrow> (int \<times> string) res" where
  "fraction rest =
     (if starts rest (\<lambda>c. c = CHR ''.'')
      then let ds = takeWhile is_digit (tl rest)
        in rbind (stoll (take 9 ds @ replicate (9 - length ds) (CHR ''0''))) (\<lambda>n. Inr (n, dropWhile is_digit (tl rest)))
      else Inr (0, rest))"

text \<open>The zone behind a time: its offset and the name in brackets.\<close>

definition split_zone :: "string \<Rightarrow> string \<times> string" where
  "split_zone tz =
     (case find_char tz (CHR ''['') of
        Some bracket \<Rightarrow>
          (let inner = drop (bracket + 1) tz
           in case find_char inner (CHR '']'') of Some close \<Rightarrow> (take bracket tz, take close inner) | None \<Rightarrow> (tz, ''''))
      | None \<Rightarrow> (tz, ''''))"

definition new_time :: "time_kind \<Rightarrow> time_value" where
  "new_time kind = \<lparr>tm_nanos = 0, tm_tz_offset_sec = 0, tm_hour = 0, tm_minute = 0, tm_second = 0, tm_kind = kind, tm_tz_name = None\<rparr>"

definition parse_zone :: "bool \<Rightarrow> string \<Rightarrow> time_value \<Rightarrow> time_value res" where
  "parse_zone allow_named_tz rest tv =
     (let (tz, name) = split_zone rest
      in rbind (if tz \<noteq> ''Z'' \<and> tz \<noteq> '''' then parseTzOffset tz else Inr 0) (\<lambda>offset.
           if name = '''' then Inr (tv\<lparr>tm_tz_offset_sec := word_of_int offset\<rparr>)
           else if \<not> allow_named_tz then Inl (Runtime_Error ''Using a named time zone is not valid for a time without a date'')
           else Inr (tv\<lparr>tm_tz_offset_sec := word_of_int offset, tm_tz_name := Some name\<rparr>)))"

definition parseTimeStr :: "string \<Rightarrow> time_kind \<Rightarrow> bool \<Rightarrow> time_value res" where
  "parseTimeStr s kind allow_named_tz =
     (let n = length (takeWhile is_digit s); is_compact = (\<not> starts (drop n s) (\<lambda>c. c = CHR '':'') \<and> n \<ge> 4)
      in if n = 0 then Inr (new_time kind)
         else rbind (if is_compact then compact_fields s else separated_fields s) (\<lambda>(h, m, sec, rest).
              rbind (fraction rest) (\<lambda>(nanos, rest).
              let tv = (new_time kind)\<lparr>tm_hour := word_of_int h, tm_minute := word_of_int m, tm_second := word_of_int sec,
                  tm_nanos := word_of_int nanos\<rparr>
              in if kind = TM_TIME \<and> rest \<noteq> [] then parse_zone allow_named_tz rest tv else Inr tv)))"

definition is_separator :: "char \<Rightarrow> bool" where
  "is_separator c \<longleftrightarrow> c = CHR ''T'' \<or> c = CHR ''t'' \<or> c = CHR '' ''"

definition parseDatetimeStr :: "string \<Rightarrow> date_time_kind \<Rightarrow> date_time_value res" where
  "parseDatetimeStr s kind =
     (let date_part = takeWhile (\<lambda>c. \<not> is_separator c) s; behind = dropWhile (\<lambda>c. \<not> is_separator c) s
      in if s = [] then Inr (new_datetime\<lparr>dt_kind := kind\<rparr>)
         else rbind (parseDateFromString date_part) (\<lambda>date_tv.
           let tv = date_tv\<lparr>dt_kind := kind\<rparr>
           in if behind = [] then Inr tv
              else rbind (parseTimeStr (tl behind) (if kind = DT_DATETIME then TM_TIME else TM_LOCAL_TIME) True) (\<lambda>time_tv.
                let tv = tv\<lparr>dt_hour := tm_hour time_tv, dt_minute := tm_minute time_tv, dt_second := tm_second time_tv,
                    dt_nanos := tm_nanos time_tv\<rparr>
                in Inr (if kind = DT_DATETIME then tv\<lparr>dt_tz_offset_sec := tm_tz_offset_sec time_tv, dt_tz_name := tm_tz_name time_tv\<rparr> else tv))))"

end
