(* ===== verification/Temporal_Text_Proofs.thy ===== *)
theory Temporal_Text_Proofs
  imports Temporal_Text
begin

text \<open>Printed dates, times and date-times are parsed back as the same values.\<close>

section \<open>Digits\<close>

lemma of_char_digit: "of_char (digit n) = (48 + of_nat n :: int)" "of_char (digit n) = (48 + n :: nat)" if n: "n < 10"
proof -
  from n show nat: "of_char (digit n) = (48 + n :: nat)" by (simp add: digit_def of_char_of)
  have "of_char (digit n) = (of_nat (of_char (digit n)) :: int)" by (rule of_nat_of_char [symmetric])
  then show "of_char (digit n) = (48 + of_nat n :: int)" unfolding nat by simp
qed

lemma is_digit_digit [simp]: "n < 10 \<Longrightarrow> is_digit (digit n)"
  by (simp add: is_digit_def of_char_digit)

lemma not_digit [simp]:
  "\<not> is_digit (CHR ''-'')" "\<not> is_digit (CHR ''+'')" "\<not> is_digit (CHR '':'')" "\<not> is_digit (CHR ''.'')" "\<not> is_digit (CHR ''T'')"
  "\<not> is_digit (CHR ''Z'')" "\<not> is_digit (CHR ''['')" "is_digit (CHR ''0'')" "\<not> is_digit (CHR ''/'')"
  by (simp_all add: is_digit_def)

lemma number_append: "number (xs @ [c]) = number xs * 10 + (of_char c - 48)"
  by (simp add: number_def)

lemma number_zeros: "number (replicate k (CHR ''0'') @ ds) = number ds"
proof -
  have "foldl (\<lambda>n c. n * 10 + (of_char c - 48)) (0 :: int) (replicate k (CHR ''0'')) = 0" by (induction k) simp_all
  then show ?thesis by (simp add: number_def)
qed

lemma number_decimal: "number (decimal n) = int n"
proof (induction n rule: decimal.induct)
  case (1 n)
  show ?case
  proof (cases "n < 10")
    case True
    then show ?thesis by (simp add: decimal.simps number_def of_char_digit)
  next
    case False
    with 1 show ?thesis by (simp add: decimal.simps [of n] number_append of_char_digit) presburger
  qed
qed

lemma decimal_digits: "list_all is_digit (decimal n)" "decimal n \<noteq> []"
proof (induction n rule: decimal.induct)
  case (1 n)
  { case 1 show ?case using \<open>\<not> n < 10 \<Longrightarrow> list_all is_digit (decimal (n div 10))\<close> by (subst decimal.simps) simp }
  { case 2 show ?case by (subst decimal.simps) simp }
qed

lemma length_decimal: "n < 10 ^ Suc k \<Longrightarrow> length (decimal n) \<le> Suc k"
proof (induction k arbitrary: n)
  case 0
  then show ?case by (simp add: decimal.simps)
next
  case (Suc k)
  have "n div 10 < 10 ^ Suc k" using Suc.prems by (simp add: div_less_iff_less_mult)
  then show ?case using Suc.IH [of "n div 10"] by (subst decimal.simps) simp
qed

lemma stoll_digits:
  assumes "ds \<noteq> []" "list_all is_digit ds" "number ds \<le> 9223372036854775807" "0 \<le> number ds"
  shows "stoll ds = Inr (number ds)" "stoll (CHR ''+'' # ds) = Inr (number ds)" "stoll (CHR ''-'' # ds) = Inr (- number ds)"
proof -
  obtain c cs where ds: "ds = c # cs" using assms(1) by (cases ds) auto
  have c: "\<not> is_space c" "c \<noteq> CHR ''-''" "c \<noteq> CHR ''+''" using assms(2) ds by (auto simp: is_digit_def is_space_def)
  have t: "takeWhile is_digit ds = ds" using assms(2) by (simp add: takeWhile_eq_all_conv list_all_iff)
  have sp: "\<not> is_space (CHR ''-'')" "\<not> is_space (CHR ''+'')" by (simp_all add: is_space_def)
  have "sign_split (dropWhile is_space ds) = (False, ds)" using c by (simp add: ds sign_split_def)
  then show "stoll ds = Inr (number ds)" using assms by (simp add: stoll_def t Let_def)
  show "stoll (CHR ''+'' # ds) = Inr (number ds)" "stoll (CHR ''-'' # ds) = Inr (- number ds)"
    using assms sp by (simp_all add: stoll_def sign_split_def t Let_def)
qed

section \<open>Two digits\<close>

lemma pad2_digits: "0 \<le> v \<Longrightarrow> v < 100 \<Longrightarrow> pad2 v = [digit (nat (v div 10)), digit (nat (v mod 10))]"
proof -
  assume v: "0 \<le> v" "v < 100"
  have "(v sdiv 10) smod 10 = v div 10" "v smod 10 = v mod 10" using v by (simp_all add: signed_divide_int_def signed_modulo_int_def sgn_if)
  moreover have "v div 10 < 10" "v mod 10 < 10" "0 \<le> v div 10" "0 \<le> v mod 10" using v by auto
  ultimately show ?thesis by (simp add: pad2_def digit_def nat_add_distrib)
qed

lemma pad2_facts:
  assumes "0 \<le> v" "v < 100"
  shows "length (pad2 v) = 2" "list_all is_digit (pad2 v)" "stoll (pad2 v) = Inr v" "pad2 v \<noteq> []"
proof -
  have b: "nat (v div 10) < 10" "nat (v mod 10) < 10" using assms by auto
  note p = pad2_digits [OF assms]
  show l: "length (pad2 v) = 2" and d: "list_all is_digit (pad2 v)" and n: "pad2 v \<noteq> []" using b by (simp_all add: p)
  have "0 \<le> v div 10" "0 \<le> v mod 10" using assms by auto
  then have "number (pad2 v) = v" using b by (simp add: p number_def of_char_digit)
  then show "stoll (pad2 v) = Inr v" using stoll_digits(1) [OF n d] assms by simp
qed

section \<open>Searches\<close>

lemma find_char_first: "c \<notin> set xs \<Longrightarrow> find_char (xs @ c # ys) c = Some (length xs)"
  unfolding find_char_def by (auto simp: find_Some_iff nth_append in_set_conv_nth intro!: exI [of _ "length xs"])

lemma find_char_none: "c \<notin> set xs \<Longrightarrow> find_char xs c = None"
  unfolding find_char_def by (auto simp: find_None_iff in_set_conv_nth)

lemma rfind_behind:
  assumes "c \<notin> set ys"
  shows "rfind (xs @ c # ys) c = Some (length xs)"
proof -
  let ?s = "xs @ c # ys"
  have nth: "rev [0..<length ?s] ! i = length xs + length ys - i" if "i \<le> length ys" for i
    using that by (subst rev_nth) (simp_all del: upt_Suc)
  have "?s ! (length xs + length ys - j) \<noteq> c" if "j < length ys" for j
    using assms that by (auto simp: nth_append nth_Cons' in_set_conv_nth)
  then show ?thesis unfolding rfind_def find_Some_iff using nth by (intro exI [of _ "length ys"]) auto
qed

lemma digits_free: "list_all is_digit ds \<Longrightarrow> \<not> is_digit c \<Longrightarrow> c \<notin> set ds"
  by (auto simp: list_all_iff)

section \<open>Dates\<close>

lemma year_text:
  assumes "\<bar>y\<bar> \<le> 999999999"
  obtains ds where "list_all is_digit ds" "4 \<le> length ds" "number ds = \<bar>y\<bar>"
    "formatYear y = (if y < 0 then CHR ''-'' # ds else if y \<le> 9999 then ds else CHR ''+'' # ds)"
proof -
  define n where "n = nat \<bar>y\<bar>"
  define ds where "ds = (if n \<le> 9999 then replicate (4 - length (decimal n)) (CHR ''0'') @ decimal n else decimal n)"
  have "4 \<le> length (decimal n)" if "n > 9999"
  proof -
    have "\<not> n div 10 < 10" "\<not> n div 10 div 10 < 10" using that by auto
    then have "decimal n = decimal (n div 10 div 10 div 10) @ [digit (n div 10 div 10 mod 10), digit (n div 10 mod 10), digit (n mod 10)]"
      using that by (simp add: decimal.simps [of n] decimal.simps [of "n div 10"] decimal.simps [of "n div 10 div 10"])
    then show ?thesis using decimal_digits(2) [of "n div 10 div 10 div 10"] by (cases "decimal (n div 10 div 10 div 10)") auto
  qed
  then have "4 \<le> length ds" by (cases "n \<le> 9999") (auto simp: ds_def)
  moreover have "list_all is_digit ds" using decimal_digits(1) [of n] by (auto simp: ds_def list_all_iff)
  moreover have "number ds = \<bar>y\<bar>" by (simp add: ds_def number_zeros number_decimal n_def)
  moreover have "formatYear y = (if y < 0 then CHR ''-'' # ds else if y \<le> 9999 then ds else CHR ''+'' # ds)"
    by (auto simp: formatYear_def ds_def n_def Let_def)
  ultimately show ?thesis using that by blast
qed

lemma formatYear_facts:
  assumes "\<bar>y\<bar> \<le> 999999999"
  shows "stoll (formatYear y) = Inr y" "4 \<le> length (formatYear y)" "list_all (\<lambda>c. \<not> is_separator c) (formatYear y)"
proof -
  obtain ds where ds: "list_all is_digit ds" "4 \<le> length ds" "number ds = \<bar>y\<bar>"
    "formatYear y = (if y < 0 then CHR ''-'' # ds else if y \<le> 9999 then ds else CHR ''+'' # ds)"
    by (rule year_text [OF assms])
  have ne: "ds \<noteq> []" using ds(2) by auto
  show "stoll (formatYear y) = Inr y" using stoll_digits [OF ne ds(1)] ds(3,4) assms by auto
  show "4 \<le> length (formatYear y)" using ds(2,4) by auto
  have "\<not> is_separator c" if "is_digit c" for c using that by (auto simp: is_separator_def is_digit_def)
  then show "list_all (\<lambda>c. \<not> is_separator c) (formatYear y)" using ds(1,4) by (auto simp: list_all_iff is_separator_def)
qed

lemma parse_date:
  assumes "\<bar>y\<bar> \<le> 999999999" "0 \<le> m" "m < 100" "0 \<le> d" "d < 100"
  shows "parseDateFromString (formatYear y @ ''-'' @ pad2 m @ ''-'' @ pad2 d) = Inr (set_date y m d)"
proof -
  let ?y = "formatYear y" and ?s = "formatYear y @ ''-'' @ pad2 m @ ''-'' @ pad2 d"
  note m = pad2_facts [OF assms(2,3)] and d = pad2_facts [OF assms(4,5)] and y = formatYear_facts [OF assms(1)]
  have l: "rfind ?s (CHR ''-'') = Some (length ?y + 3)"
    using rfind_behind [of "CHR ''-''" "pad2 d" "?y @ ''-'' @ pad2 m"] digits_free [OF d(2)] m(1) by simp
  have "take (length ?y + 3) ?s = ?y @ ''-'' @ pad2 m" using m(1) by simp
  then have "rfind_upto ?s (CHR ''-'') (length ?y + 2) = Some (length ?y)"
    using rfind_behind [of "CHR ''-''" "pad2 m" ?y] digits_free [OF m(2)] by (simp add: rfind_upto_def)
  then have e: "extended_dashes ?s = Some (length ?y, length ?y + 3)" using l m(1) d(1) y(2) by (simp add: extended_dashes_def)
  have "date_from (take (length ?y) ?s) (take 2 (drop (length ?y + 1) ?s)) (drop (length ?y + 3 + 1) ?s) = Inr (set_date y m d)"
    using m(1,3) d(3) y(1) by (simp add: date_from_def)
  then have "parseDateFromStringRaw ?s = Inr (set_date y m d)" using e by (simp add: parseDateFromStringRaw_def)
  moreover have "sint (word_of_int y :: 32 word) = y" using assms(1) by (intro sint32_of_int) auto
  ultimately show ?thesis using assms(1) by (auto simp: parseDateFromString_def set_date_def)
qed

section \<open>Times\<close>

text \<open>What may follow a time of day.\<close>

definition zone_start :: "string \<Rightarrow> bool" where
  "zone_start t \<longleftrightarrow> \<not> starts t (\<lambda>c. is_digit c \<or> c = CHR '':'' \<or> c = CHR ''.'')"

lemma starts_simps [simp]: "\<not> starts [] p" "starts (c # t) p \<longleftrightarrow> p c"
  by (simp_all add: starts_def)

lemma takeWhile_digits: "list_all is_digit ds \<Longrightarrow> \<not> starts t is_digit \<Longrightarrow> takeWhile is_digit (ds @ t) = ds \<and> dropWhile is_digit (ds @ t) = t"
  by (induction ds) (auto split: list.splits simp: starts_def)

lemma component_pad2: "0 \<le> v \<Longrightarrow> v < 100 \<Longrightarrow> component (pad2 v @ t) = Inr (v, t)"
  using pad2_facts [of v] by (simp add: component_def)

lemma starts_pad2: "0 \<le> v \<Longrightarrow> v < 100 \<Longrightarrow> starts (pad2 v @ t) is_digit"
  by (simp add: pad2_digits)

lemma strip_zeros:
  fixes s :: string
  defines "ds \<equiv> rev (dropWhile (\<lambda>c. c = CHR ''0'') (rev s))"
  shows "s = ds @ replicate (length s - length ds) (CHR ''0'')" "length ds \<le> length s" "set ds \<subseteq> set s"
proof -
  let ?z = "takeWhile (\<lambda>c. c = CHR ''0'') (rev s)" and ?d = "dropWhile (\<lambda>c. c = CHR ''0'') (rev s)"
  have z: "?z = replicate (length ?z) (CHR ''0'')" by (rule replicate_length_same [symmetric]) (auto dest: set_takeWhileD)
  have "rev s = ?z @ ?d" by simp
  then have s: "s = ds @ rev ?z" unfolding ds_def by (metis rev_append rev_rev_ident)
  have "length s = length ds + length ?z" using arg_cong [OF s, of length] by (simp only: length_append length_rev)
  then have l: "length s - length ds = length ?z" by (simp only: diff_add_inverse)
  show "s = ds @ replicate (length s - length ds) (CHR ''0'')" unfolding l using s arg_cong [OF z, of rev] by (simp only: rev_replicate)
  show "length ds \<le> length s" "set ds \<subseteq> set s"
    using arg_cong [OF s, of length] arg_cong [OF s, of set] by (simp only: length_append le_add1, simp only: set_append Un_upper1)
qed

lemma fraction_subsecond:
  assumes "0 \<le> n" "n < 1000000000" "zone_start t"
  shows "fraction (fmtSubsecond n @ t) = Inr (n, t)"
proof (cases "n = 0")
  case True
  then show ?thesis using assms(3) by (cases t) (auto simp: fraction_def fmtSubsecond_def zone_start_def)
next
  case False
  define digits where "digits = decimal (nat n)"
  define s where "s = replicate (9 - length digits) (CHR ''0'') @ digits"
  define ds where "ds = rev (dropWhile (\<lambda>c. c = CHR ''0'') (rev s))"
  have len: "length s = 9" using length_decimal [of "nat n" 8] assms(2) by (simp add: s_def digits_def)
  have s: "list_all is_digit s" "number s = n" "s \<noteq> []"
    using decimal_digits [of "nat n"] assms(1) by (auto simp: s_def digits_def list_all_iff number_zeros number_decimal)
  note z = strip_zeros [of s, folded ds_def]
  have "fmtSubsecond n = CHR ''.'' # ds" using False assms(1) by (simp add: fmtSubsecond_def ds_def s_def digits_def Let_def)
  moreover have "takeWhile is_digit (ds @ t) = ds \<and> dropWhile is_digit (ds @ t) = t"
    using s(1) z(3) assms(3) by (intro takeWhile_digits) (auto simp: list_all_iff zone_start_def starts_def split: list.splits)
  moreover have "take 9 ds @ replicate (9 - length ds) (CHR ''0'') = s" using z(1,2) len by simp
  moreover have "stoll s = Inr n" using stoll_digits(1) [OF s(3,1)] s(2) assms by simp
  ultimately show ?thesis by (simp add: fraction_def)
qed

lemma parse_time_of_day:
  assumes "0 \<le> h" "h < 100" "0 \<le> m" "m < 100" "0 \<le> sec" "sec < 100" "0 \<le> n" "n < 1000000000" "zone_start t"
  shows "\<exists>rest. separated_fields (fmtTimeOfDay h m sec n b @ t) = Inr (h, m, sec, rest) \<and> fraction rest = Inr (n, t)"
proof -
  let ?more = "(if b \<or> sec \<noteq> 0 \<or> n \<noteq> 0 then '':'' @ pad2 sec @ fmtSubsecond n else '''') @ t"
  have shape: "fmtTimeOfDay h m sec n b @ t = pad2 h @ CHR '':'' # pad2 m @ ?more" by (simp add: fmtTimeOfDay_def)
  note h = pad2_facts [OF assms(1,2)] and m = pad2_facts [OF assms(3,4)]
  have w: "takeWhile is_digit (pad2 h @ CHR '':'' # pad2 m @ ?more) = pad2 h" "dropWhile is_digit (pad2 h @ CHR '':'' # pad2 m @ ?more) = CHR '':'' # pad2 m @ ?more"
    using takeWhile_digits [OF h(2), of "CHR '':'' # pad2 m @ ?more"] by simp_all
  have f: "separated_fields (fmtTimeOfDay h m sec n b @ t) =
      (if b \<or> sec \<noteq> 0 \<or> n \<noteq> 0 then Inr (h, m, sec, fmtSubsecond n @ t) else Inr (h, m, 0, t))"
    unfolding shape separated_fields_def w using h(3) assms(9) starts_pad2 [OF assms(3,4)]
    by (cases t) (auto simp: component_pad2 [OF assms(3,4)] component_pad2 [OF assms(5,6)] zone_start_def)
  have "fraction t = Inr (0, t)" using fraction_subsecond [of 0 t] assms(9) by (simp add: fmtSubsecond_def)
  then show ?thesis unfolding f using fraction_subsecond [OF assms(7-9)] by auto
qed

section \<open>Zones\<close>

lemma pad2_0: "pad2 0 = ''00''"
  by (simp add: pad2_def char_of_def bit_0)

lemma pad2_zero: "0 \<le> v \<Longrightarrow> v < 100 \<Longrightarrow> pad2 v = ''00'' \<Longrightarrow> v = 0"
  using pad2_facts(3) [of v] pad2_facts(3) [of 0] by (simp add: pad2_0)

text \<open>An offset as its sign, hours, minutes and seconds.\<close>

definition offset_text :: "bool \<Rightarrow> int \<Rightarrow> int \<Rightarrow> int \<Rightarrow> string" where
  "offset_text negative h m s =
     (if negative then CHR ''-'' else CHR ''+'') # pad2 h @ CHR '':'' # pad2 m @ (if s \<noteq> 0 then CHR '':'' # pad2 s else [])"

lemma fmtOffset_text: "fmtOffset x = offset_text (x < 0) (\<bar>x\<bar> div 3600) (\<bar>x\<bar> mod 3600 div 60) (\<bar>x\<bar> mod 60)"
  by (simp add: fmtOffset_def offset_text_def Let_def)

lemma offset_parts:
  assumes "0 \<le> a" "a < (360000 :: int)"
  obtains h m s where "a div 3600 = h" "a mod 3600 div 60 = m" "a mod 60 = s" "0 \<le> h" "h < 100" "0 \<le> m" "m < 100" "0 \<le> s" "s < 100"
    "h * 3600 + m * 60 + s = a"
proof
  have r: "0 \<le> a mod 3600" "a mod 3600 < 3600" by simp_all
  have "a mod 3600 mod 60 = a mod 60" by (rule mod_mod_cancel) simp
  then show "a div 3600 * 3600 + a mod 3600 div 60 * 60 + a mod 60 = a"
    using div_mult_mod_eq [of a 3600] div_mult_mod_eq [of "a mod 3600" 60] by linarith
  show "0 \<le> a div 3600" "a div 3600 < 100" using assms by (simp_all add: pos_imp_zdiv_nonneg_iff div_less_iff_less_mult)
  show "0 \<le> a mod 3600 div 60" "a mod 3600 div 60 < 100" using r by (simp_all add: pos_imp_zdiv_nonneg_iff div_less_iff_less_mult)
  show "0 \<le> a mod 60" by simp
  have "a mod 60 < 60" by simp
  then show "a mod 60 < 100" by linarith
qed (rule refl)+

lemma offset_text_chars:
  assumes "0 \<le> h" "h < 100" "0 \<le> m" "m < 100" "0 \<le> s" "s < 100" "\<not> is_digit c" "c \<noteq> CHR ''+''" "c \<noteq> CHR ''-''" "c \<noteq> CHR '':''"
  shows "c \<notin> set (offset_text negative h m s)"
  using digits_free [OF pad2_facts(2) [OF assms(1,2)] assms(7)] digits_free [OF pad2_facts(2) [OF assms(3,4)] assms(7)]
    digits_free [OF pad2_facts(2) [OF assms(5,6)] assms(7)] assms(8-10)
  by (simp add: offset_text_def)

lemma parse_offset_text:
  assumes "0 \<le> h" "h < 100" "0 \<le> m" "m < 100" "0 \<le> s" "s < 100"
  shows "parseTzOffset (offset_text negative h m s) =
    Inr (sint (word_of_int ((if negative then - 1 else 1) * (h * 3600 + m * 60 + s)) :: 32 word))"
proof -
  note H = pad2_facts [OF assms(1,2)] and M = pad2_facts [OF assms(3,4)] and S = pad2_facts [OF assms(5,6)]
  let ?more = "pad2 m @ (if s \<noteq> 0 then CHR '':'' # pad2 s else [])" and ?t = "offset_text negative h m s"
  have c1: "find_char (pad2 h @ CHR '':'' # ?more) (CHR '':'') = Some (length (pad2 h))"
    using digits_free [OF H(2)] by (intro find_char_first) simp
  have c2: "find_char ?more (CHR '':'') = (if s \<noteq> 0 then Some (length (pad2 m)) else None)"
    using digits_free [OF M(2)] find_char_first [of "CHR '':''" "pad2 m" "pad2 s"] find_char_none [of "CHR '':''" "pad2 m"] by simp
  have slash: "CHR ''/'' \<notin> set ?t" by (rule offset_text_chars) (use assms in simp_all)
  have z: "h = 0 \<and> m = 0 \<and> s = 0" if "?t = c # ''00:00''" for c
    using that pad2_zero [OF assms(1,2)] pad2_zero [OF assms(3,4)] pad2_digits [OF assms(1,2)] pad2_digits [OF assms(3,4)]
    by (auto simp: offset_text_def split: if_splits)
  show ?thesis
  proof (cases "?t = ''+00:00'' \<or> ?t = ''-00:00''")
    case True
    then have "h = 0 \<and> m = 0 \<and> s = 0" using z [of "CHR ''+''"] z [of "CHR ''-''"] by blast
    with True show ?thesis by (auto simp: parseTzOffset_def)
  next
    case False
    have ht: "?t \<noteq> ''''" "?t \<noteq> ''Z''" "hd ?t = (if negative then CHR ''-'' else CHR ''+'')" "tl ?t = pad2 h @ CHR '':'' # ?more"
      by (simp_all add: offset_text_def)
    then show ?thesis unfolding parseTzOffset_def Let_def using False slash c1 c2 ht H(3) M(3) S(3)
      by (cases negative; cases "s = 0") simp_all
  qed
qed

lemma parse_offset: "\<bar>x\<bar> < 360000 \<Longrightarrow> parseTzOffset (fmtOffset x) = Inr x"
proof -
  assume x: "\<bar>x\<bar> < 360000"
  obtain h m s where p: "\<bar>x\<bar> div 3600 = h" "\<bar>x\<bar> mod 3600 div 60 = m" "\<bar>x\<bar> mod 60 = s" "0 \<le> h" "h < 100" "0 \<le> m" "m < 100" "0 \<le> s" "s < 100"
    "h * 3600 + m * 60 + s = \<bar>x\<bar>" by (rule offset_parts [OF abs_ge_zero x])
  have "sint (word_of_int x :: 32 word) = x" using x by (intro sint32_of_int) auto
  moreover have "(if x < 0 then - 1 else 1) * \<bar>x\<bar> = x" by simp
  ultimately show ?thesis unfolding fmtOffset_text p(1-3) parse_offset_text [OF p(4-9)] p(10) by simp
qed


definition zone_ok :: "int \<Rightarrow> tz_name_ptr \<Rightarrow> bool" where
  "zone_ok off name \<longleftrightarrow> \<bar>off\<bar> < 360000 \<and> (case name of None \<Rightarrow> True | Some s \<Rightarrow> s \<noteq> '''' \<and> CHR '']'' \<notin> set s)"

lemma offset_no_bracket: "\<bar>x\<bar> < 360000 \<Longrightarrow> CHR ''['' \<notin> set (fmtOffset x)"
proof -
  assume x: "\<bar>x\<bar> < 360000"
  obtain h m s where p: "\<bar>x\<bar> div 3600 = h" "\<bar>x\<bar> mod 3600 div 60 = m" "\<bar>x\<bar> mod 60 = s" "0 \<le> h" "h < 100" "0 \<le> m" "m < 100" "0 \<le> s" "s < 100"
    by (rule offset_parts [OF abs_ge_zero x])
  then show ?thesis unfolding fmtOffset_text p(1-3) by (intro offset_text_chars) simp_all
qed

lemma zone_text_start: "zone_start (fmtTimezone off name)" "fmtTimezone off name \<noteq> []"
  by (auto simp: fmtTimezone_def fmtOffset_text offset_text_def zone_start_def)

lemma split_zone_text:
  assumes "zone_ok off name"
  shows "split_zone (fmtTimezone off (tzNameOrEmpty name)) =
    (case name of None \<Rightarrow> (if off = 0 then ''Z'' else fmtOffset off, '''') | Some s \<Rightarrow> (fmtOffset off, s))"
proof (cases name)
  case None
  then show ?thesis using offset_no_bracket [of off] assms find_char_none [of "CHR ''[''" "fmtOffset off"] find_char_none [of "CHR ''[''" "''Z''"]
    by (simp add: fmtTimezone_def tzNameOrEmpty_def split_zone_def zone_ok_def)
next
  case (Some s)
  then have s: "s \<noteq> ''''" "CHR '']'' \<notin> set s" "\<bar>off\<bar> < 360000" using assms by (simp_all add: zone_ok_def)
  show ?thesis
    using Some s(1) find_char_first [OF offset_no_bracket [OF s(3)], of "s @ '']''"] find_char_first [OF s(2), of "[]"]
    by (simp add: fmtTimezone_def tzNameOrEmpty_def split_zone_def)
qed

lemma parse_zone_text:
  assumes "zone_ok off name" "allow_named_tz \<or> name = None"
  shows "parse_zone allow_named_tz (fmtTimezone off (tzNameOrEmpty name)) tv =
    Inr (tv\<lparr>tm_tz_offset_sec := word_of_int off, tm_tz_name := (if name = None then tm_tz_name tv else name)\<rparr>)"
proof -
  have "parseTzOffset (fmtOffset off) = Inr off" "fmtOffset off \<noteq> ''Z''" "fmtOffset off \<noteq> ''''"
    using assms(1) parse_offset [of off] by (auto simp: zone_ok_def fmtOffset_text offset_text_def)
  then show ?thesis using assms(2) assms(1) unfolding parse_zone_def split_zone_text [OF assms(1)]
    by (cases name) (auto simp: zone_ok_def)
qed

section \<open>Round trips\<close>

definition set_time :: "time_kind \<Rightarrow> int \<Rightarrow> int \<Rightarrow> int \<Rightarrow> int \<Rightarrow> time_value" where
  "set_time kind h m sec n = (new_time kind)\<lparr>tm_hour := word_of_int h, tm_minute := word_of_int m, tm_second := word_of_int sec,
     tm_nanos := word_of_int n\<rparr>"

lemma parse_time:
  assumes "0 \<le> h" "h < 100" "0 \<le> m" "m < 100" "0 \<le> sec" "sec < 100" "0 \<le> n" "n < 1000000000" "zone_start t"
  shows "parseTimeStr (fmtTimeOfDay h m sec n b @ t) kind allow =
    (if kind = TM_TIME \<and> t \<noteq> [] then parse_zone allow t (set_time kind h m sec n) else Inr (set_time kind h m sec n))"
proof -
  let ?s = "fmtTimeOfDay h m sec n b @ t"
  obtain u where u: "?s = pad2 h @ CHR '':'' # u" by (simp add: fmtTimeOfDay_def)
  note h = pad2_facts [OF assms(1,2)]
  have w: "takeWhile is_digit ?s = pad2 h" unfolding u using takeWhile_digits [OF h(2), of "CHR '':'' # u"] by simp
  have "drop 2 ?s = CHR '':'' # u" unfolding u using h(1) by simp
  moreover obtain rest where "separated_fields ?s = Inr (h, m, sec, rest)" "fraction rest = Inr (n, t)"
    using parse_time_of_day [OF assms] by blast
  ultimately show ?thesis unfolding parseTimeStr_def w by (simp add: h(1) set_time_def Let_def)
qed


abbreviation two_digits :: "byte \<Rightarrow> bool" where
  "two_digits w \<equiv> 0 \<le> sint w \<and> sint w < 100"

definition datetime_text_ok :: "date_time_value \<Rightarrow> bool" where
  "datetime_text_ok tv \<longleftrightarrow> dt_kind tv \<in> {DT_DATE, DT_LOCAL_DATETIME, DT_DATETIME} \<and> \<bar>sint (dt_year tv)\<bar> \<le> 999999999 \<and>
     two_digits (dt_month tv) \<and> two_digits (dt_day tv) \<and> two_digits (dt_hour tv) \<and> two_digits (dt_minute tv) \<and> two_digits (dt_second tv) \<and>
     0 \<le> sint (dt_nanos tv) \<and> sint (dt_nanos tv) < 1000000000 \<and> zone_ok (sint (dt_tz_offset_sec tv)) (dt_tz_name tv)"

definition time_text_ok :: "time_value \<Rightarrow> bool" where
  "time_text_ok tv \<longleftrightarrow> tm_kind tv \<in> {TM_LOCAL_TIME, TM_TIME} \<and>
     two_digits (tm_hour tv) \<and> two_digits (tm_minute tv) \<and> two_digits (tm_second tv) \<and>
     0 \<le> sint (tm_nanos tv) \<and> sint (tm_nanos tv) < 1000000000 \<and> zone_ok (sint (tm_tz_offset_sec tv)) (tm_tz_name tv) \<and> tm_tz_name tv = None"

lemma parse_printed_date: "datetime_text_ok tv \<Longrightarrow> parseDateFromString (fmtDate tv) = Inr (set_date (sint (dt_year tv)) (sint (dt_month tv)) (sint (dt_day tv)))"
  unfolding fmtDate_def by (rule parse_date) (simp_all add: datetime_text_ok_def)

lemma printed_date_split:
  assumes "datetime_text_ok tv"
  shows "takeWhile (\<lambda>c. \<not> is_separator c) (fmtDate tv @ CHR ''T'' # t) = fmtDate tv" "dropWhile (\<lambda>c. \<not> is_separator c) (fmtDate tv @ CHR ''T'' # t) = CHR ''T'' # t"
proof -
  have digit: "\<not> is_separator c" if "is_digit c" for c using that by (auto simp: is_separator_def is_digit_def)
  have "list_all (\<lambda>c. \<not> is_separator c) (pad2 (sint (dt_month tv)))" "list_all (\<lambda>c. \<not> is_separator c) (pad2 (sint (dt_day tv)))"
    using pad2_facts(2) [of "sint (dt_month tv)"] pad2_facts(2) [of "sint (dt_day tv)"] assms digit
    by (auto simp: datetime_text_ok_def list_all_iff)
  moreover have "\<not> is_separator (CHR ''-'')" "is_separator (CHR ''T'')" by (simp_all add: is_separator_def)
  moreover have "list_all (\<lambda>c. \<not> is_separator c) (formatYear (sint (dt_year tv)))"
    using assms by (intro formatYear_facts(3)) (simp add: datetime_text_ok_def)
  ultimately have "list_all (\<lambda>c. \<not> is_separator c) (fmtDate tv)" "is_separator (CHR ''T'')" by (simp_all add: fmtDate_def)
  then show "takeWhile (\<lambda>c. \<not> is_separator c) (fmtDate tv @ CHR ''T'' # t) = fmtDate tv" "dropWhile (\<lambda>c. \<not> is_separator c) (fmtDate tv @ CHR ''T'' # t) = CHR ''T'' # t"
    by (auto simp: list_all_iff)
qed

lemma parse_printed_time:
  assumes "datetime_text_ok tv" "zone_start t"
  shows "parseTimeStr (fmtTimeOfDay (sint (dt_hour tv)) (sint (dt_minute tv)) (sint (dt_second tv)) (sint (dt_nanos tv)) b @ t) kind allow =
    (let v = set_time kind (sint (dt_hour tv)) (sint (dt_minute tv)) (sint (dt_second tv)) (sint (dt_nanos tv))
     in if kind = TM_TIME \<and> t \<noteq> [] then parse_zone allow t v else Inr v)"
  unfolding Let_def by (rule parse_time) (use assms in \<open>simp_all add: datetime_text_ok_def\<close>)



text \<open>
  The text of a local time, or of a time with an offset, is parsed back as an equal value.
\<close>

theorem time_text_roundtrip:
  assumes "time_text_ok tv"
  shows "\<exists>tv'. parseTimeStr (fmtTime tv always_seconds) (tm_kind tv) allow_named_tz = Inr tv' \<and> time_eq (=) tv tv'"
proof -
  let ?z = "if tm_kind tv = TM_TIME then fmtTimezone (sint (tm_tz_offset_sec tv)) (tzNameOrEmpty (tm_tz_name tv)) else ''''"
  have zs: "zone_start ?z" using zone_text_start(1) by (simp add: zone_start_def)
  have "parseTimeStr (fmtTime tv always_seconds) (tm_kind tv) allow_named_tz =
      (let v = set_time (tm_kind tv) (sint (tm_hour tv)) (sint (tm_minute tv)) (sint (tm_second tv)) (sint (tm_nanos tv))
       in if tm_kind tv = TM_TIME \<and> ?z \<noteq> [] then parse_zone allow_named_tz ?z v else Inr v)"
    unfolding Let_def fmtTime_def by (rule parse_time [OF _ _ _ _ _ _ _ _ zs]) (use assms in \<open>simp_all add: time_text_ok_def\<close>)
  then show ?thesis using assms parse_zone_text [of "sint (tm_tz_offset_sec tv)" "tm_tz_name tv" allow_named_tz] zone_text_start(2)
    by (auto simp: time_text_ok_def time_eq_def set_time_def new_time_def Let_def)
qed

theorem time_text_roundtrip_witness:
  "\<exists>tv'. parseTimeStr (fmtTime (new_time TM_TIME) True) TM_TIME False = Inr tv' \<and> time_eq (=) (new_time TM_TIME) tv'"
  using time_text_roundtrip [of "new_time TM_TIME" True False] by (simp add: time_text_ok_def new_time_def zone_ok_def)

text \<open>
  The parser reads numbers but checks no range: months and days beyond the calendar and hours beyond the day are accepted,
  and what follows the digits of the day is ignored.
\<close>

theorem text_fields_unchecked:
  "parseDateFromString ''2024-13-45'' = Inr (set_date 2024 13 45) \<and>
   parseDateFromString ''2024-06-15 or so'' = Inr (set_date 2024 6 15) \<and>
   parseTimeStr ''99:61:61'' TM_LOCAL_TIME False = Inr (set_time TM_LOCAL_TIME 99 61 61 0)"
  by code_simp

end
