(* ===== verification/Spec2Isabelle.thy ===== *)
theory Spec2Isabelle
  imports Key_Codec Value_Codec Index_Key_Codec Meta_Codec Edge_Theorems Index_Maintenance Temporal_Between Pack_Stream_Proofs
    Web_Socket_Proofs Handshake_Proofs Session_Pool Csv_Proofs Query_Sort_Proofs Query_Aggregate_Proofs
    Temporal_Text_Proofs
begin

text \<open>
  eugraph is a property-graph database in C++: clients send Cypher over Bolt (plain TCP or WebSocket) or
  Thrift, a planner turns a query into operators over batches of values, and the operators read and write
  vertices, edges and indexes that are rows of WiredTiger tables.  This development models the storage
  layer, the value layer of the query engine with the operators that depend on it most, the wire formats and
  the CSV reader of the bulk loader.  File names below are relative to \<^verbatim>\<open>src/src/\<close>.

  \<^bold>\<open>Storage formats.\<close>  \<open>Graph_Types\<close> holds the data model (\<^verbatim>\<open>common/types\<close>).  \<open>Key_Codec\<close>, \<open>Value_Codec\<close>,
  \<open>Index_Key_Codec\<close> (\<^verbatim>\<open>storage/kv\<close>) and \<open>Meta_Codec\<close> (\<^verbatim>\<open>storage/meta/meta_codec.cpp\<close>) are the byte formats: every
  encoder has its decoder proved inverse, keys sort as their fields do, and prefixes select what the scans
  mean by them.  The locale \<open>codec\<close> of \<open>Prelude\<close> is the contract of an encoder with its decoder; \<open>field_codec\<close>
  is the contract of the fields that the metadata codec concatenates.

  \<^bold>\<open>Transactions.\<close>  \<open>Txn_Controller\<close> is the pure state machine of a transaction (\<^verbatim>\<open>storage/data/txn_controller.hpp\<close>),
  \<open>Graph_Session\<close> the session around it (\<^verbatim>\<open>graph_session.hpp\<close>, \<^verbatim>\<open>cursor_provider.hpp\<close>, \<^verbatim>\<open>wt_session\<close>, \<^verbatim>\<open>wt_cursor\<close>)
  and \<open>Session_Pool\<close> the pool that lends sessions to threads (\<^verbatim>\<open>session_pool.hpp\<close>), a step relation because
  \<^verbatim>\<open>put\<close> gives up the lock while it closes a session.  WiredTiger is not part of the repository: \<open>WT_Engine\<close> takes its
  calls as a parameter, with the documented behaviour as the locale \<open>wiredtiger\<close>; \<open>reliable_wiredtiger\<close> adds
  that calls do not fail for outside reasons.  \<open>Mem_Engine\<close> is an engine in memory that meets both.

  \<^bold>\<open>Graph store\<close> (\<^verbatim>\<open>storage/wt_table_ops.cpp\<close>, \<^verbatim>\<open>storage/data/sync_graph_data_store.cpp\<close>, \<^verbatim>\<open>index_maintenance.hpp\<close>).
  \<open>Store_Monad\<close> gives storage code as state transformers with two judgements: \<open>safe_prog\<close> (it returns and
  keeps the frame of the session) and \<open>runs\<close> (what it computes from the tables).  \<open>Table_Ops\<close> with
  \<open>Table_Proofs\<close> and \<open>Scan_Proofs\<close> are rows and prefix scans; \<open>Vertex_Store\<close>, \<open>Edge_Store\<close> and \<open>Index_Store\<close> are
  the operations of the store; \<open>Index_Maintenance\<close> decides which index entries an entity has.  \<open>Reliable_Runs\<close>
  turns the conditional results into results that are reached.  Shown: a write transaction applies all of
  its operations or none and keeps the tables consistent; vertex operations refine table updates; an edge is one
  entry of an abstract map although it is stored three times and its adjacency moves between a cache and the
  edge index; scans visit exactly the right rows in order; a resumable index cursor is the callback scan; index
  maintenance refines insertion into sets under unique constraints.

  \<^bold>\<open>Temporal values\<close> (\<^verbatim>\<open>common/types/temporal_value.cpp\<close>).  \<open>Calendar\<close> and \<open>Calendar_Order\<close> are day numbers;
  \<open>Temporal_Value\<close> is equality, order and arithmetic; the other \<open>Temporal\<close> theories show that arithmetic is
  exact or rejected and that adding the duration between two values leads from one to the other.  \<open>Temporal_Text\<close> is
  their text: what is printed is parsed back as an equal value.

  \<^bold>\<open>Query engine.\<close>  \<open>Doubles\<close> compares and converts IEEE numbers.  \<open>Query_Value\<close> and \<open>Query_Compare\<close>
  (\<^verbatim>\<open>query/dataset/row.hpp\<close>, \<^verbatim>\<open>query/evaluator/columnar_kernels.hpp\<close>) are the runtime values with their three-valued
  equality, the total equality and hash of containers keyed on them, the order of \<^verbatim>\<open>ORDER BY\<close> and the checked
  arithmetic, which \<open>Query_Arithmetic\<close> shows exact.  \<open>Query_Operators\<close>, \<open>Query_Sort\<close> and \<open>Query_Aggregate\<close>
  (\<^verbatim>\<open>query/physical_plan/operator\<close>) are operators on batches, a batch being the list of its rows: the sort
  expressions, group keys and arguments of aggregates are functions of a row, and \<^verbatim>\<open>std::hash\<close>, \<^verbatim>\<open>std::sort\<close> and
  \<^verbatim>\<open>std::partial_sort\<close> are parameters with the contract of the standard.  \<open>Query_Value_Proofs\<close> shows on which values
  the equality is an equivalence that the hash respects; on those the hash join is the nested loop join
  (\<open>Query_Operator_Proofs\<close>, over the locale \<open>row_table\<close>) and aggregation folds the classes of equal keys
  (\<open>Query_Aggregate_Proofs\<close>, over the locale \<open>group_key\<close>).  \<open>Query_Order\<close> ranks the values that sort together by lists of
  integers compared lexicographically; with it \<open>Query_Sort_Proofs\<close> shows that the sort operator sorts and that its
  Top-N path agrees with the full sort.  The theorems about NaN, mixed numbers and temporal values say where these
  contracts fail in the code.

  \<^bold>\<open>Wire formats.\<close>  \<open>Pack_Stream\<close> (\<^verbatim>\<open>service/bolt/packstream\<close>) is the value format of Bolt: values survive the round
  trip, the decoder returns on every input and rejects truncated input.  \<open>Web_Socket\<close> (\<^verbatim>\<open>service/bolt/websocket.cpp\<close>,
  \<^verbatim>\<open>ws_origin.cpp\<close>) is the handshake with its SHA-1 and Base64, frames, and the origin policy.

  \<^bold>\<open>Loader.\<close>  \<open>Csv_Reader\<close> (\<^verbatim>\<open>program/loader/csv_reader.cpp\<close>): quoted text is read back as printed and the fast count
  agrees with the parser.  The vendored line reader is a parameter.

  \<^bold>\<open>Bounds and fuel.\<close>  No definition has fuel.  Loops that may not end are \<^theory_text>\<open>partial_function (option)\<close>, with
  results that say when they return: the property loops count with 16 bits and return below 65536 slots, and a
  longer vector is proved to hang; prefix scans return because the key advances; the PackStream decoder
  consumes a byte per call.  Machine integers are words, or integers with the casts written out (\<open>to_i64\<close>) where the
  code computes in 64 or 128 bits; results state the ranges in which no cast loses anything.  A \<^verbatim>\<open>double\<close> is
  its IEEE-754 bit pattern: compared and converted, never added.

  \<^bold>\<open>Not modelled.\<close>  The Cypher grammar and its generated parser, the binder, the planner and the optimizer;
  the expression evaluator and the operators other than those above; column layouts of batches (a batch is its
  rows); the generated Thrift code, the request handlers, the Bolt server and its sockets, the web console and
  the shell, which are input and output around the parts above; the asynchronous wrappers of the stores, which
  only schedule the synchronous calls; the metadata store and schema changes beyond their formats; the batch
  readers and the vertex and edge cursors of the graph store; the writer of the loader; the parser of
  durations, the time-zone database and floating-point arithmetic on durations; the aggregates on floating-point numbers; metrics, logging and error messages.
\<close>

end
